(* ===== verification/Prelude.thy ===== *)
theory Prelude
  imports Main "HOL-Library.AList" "HOL-Library.Sublist"
begin

text \<open>
  Shared vocabulary of the development: bytes and text, fallible results, effectful
  operations over an explicit state with injected faults, decimal numbers as the code
  prints and parses them, and the white-space trimming of the standard library.

  A Rust \<open>String\<close> or byte vector is a \<open>char list\<close>: a \<open>char\<close> of HOL is one byte, so
  lengths count bytes, as Rust's \<open>len\<close> does. A fallible function returns
  \<open>error + value\<close>. An operation with effects takes the state and returns the outcome and
  the new state, also when it fails: what an operation leaves behind when it stops
  halfway is part of what is verified.
\<close>

section \<open>Bytes and text\<close>

type_synonym bytes = string

abbreviation newline :: char where
  "newline \<equiv> CHR 0x0A"

section \<open>Fallible results\<close>

definition rbind :: "'e + 'a \<Rightarrow> ('a \<Rightarrow> 'e + 'b) \<Rightarrow> 'e + 'b" where
  "rbind r f = (case r of Inl e \<Rightarrow> Inl e | Inr a \<Rightarrow> f a)"

lemma rbind_simps [simp]: "rbind (Inl e) f = Inl e" "rbind (Inr a) f = f a"
  by (simp_all add: rbind_def)

lemma rbind_eq_Inr: "rbind r f = Inr b \<longleftrightarrow> (\<exists>a. r = Inr a \<and> f a = Inr b)"
  by (cases r) auto

lemma rbind_assoc: "rbind (rbind r f) g = rbind r (\<lambda>a. rbind (f a) g)"
  by (cases r) auto

definition ok_or :: "'e \<Rightarrow> 'a option \<Rightarrow> 'e + 'a" where
  "ok_or e x = (case x of None \<Rightarrow> Inl e | Some a \<Rightarrow> Inr a)"

lemma ok_or_simps [simp]: "ok_or e None = Inl e" "ok_or e (Some a) = Inr a"
  by (simp_all add: ok_or_def)

lemma ok_or_eq_Inr: "ok_or e x = Inr a \<longleftrightarrow> x = Some a"
  by (cases x) auto

text \<open>A loop that stops at the first error, threading a state: Rust's \<open>for\<close> with \<open>?\<close>.\<close>

fun try_fold :: "('x \<Rightarrow> 's \<Rightarrow> 'e + 's) \<Rightarrow> 'x list \<Rightarrow> 's \<Rightarrow> 'e + 's" where
  "try_fold f [] s = Inr s"
| "try_fold f (x # xs) s = rbind (f x s) (try_fold f xs)"

lemma try_fold_append:
  "try_fold f (xs @ ys) s = rbind (try_fold f xs s) (try_fold f ys)"
proof (induction xs arbitrary: s)
  case (Cons x xs)
  show ?case by (cases "f x s") (simp_all add: Cons)
qed simp

lemma try_fold_inv:
  assumes "\<And>x s s'. x \<in> set xs \<Longrightarrow> f x s = Inr s' \<Longrightarrow> P s \<Longrightarrow> P s'"
  shows "try_fold f xs s = Inr s' \<Longrightarrow> P s \<Longrightarrow> P s'"
  using assms
proof (induction xs arbitrary: s)
  case (Cons x xs)
  then obtain t where "f x s = Inr t" "try_fold f xs t = Inr s'"
    by (auto simp: rbind_eq_Inr)
  with Cons show ?case by (meson list.set_intros)
qed simp

lemma find_SomeD: "find P xs = Some x \<Longrightarrow> P x \<and> x \<in> set xs"
  by (induction xs) (auto split: if_splits)

section \<open>Operations with effects\<close>

type_synonym ('s, 'e, 'a) io = "'s \<Rightarrow> ('e + 'a) \<times> 's"

definition io_return :: "'a \<Rightarrow> ('s, 'e, 'a) io" where
  "io_return a s = (Inr a, s)"

definition io_fail :: "'e \<Rightarrow> ('s, 'e, 'a) io" where
  "io_fail e s = (Inl e, s)"

definition io_bind :: "('s, 'e, 'a) io \<Rightarrow> ('a \<Rightarrow> ('s, 'e, 'b) io) \<Rightarrow> ('s, 'e, 'b) io" where
  "io_bind m f s = (case m s of (Inl e, s') \<Rightarrow> (Inl e, s') | (Inr a, s') \<Rightarrow> f a s')"

definition io_lift :: "'e + 'a \<Rightarrow> ('s, 'e, 'a) io" where
  "io_lift r s = (r, s)"

text \<open>
  \<open>valid P m Q E\<close>: from a state in \<open>P\<close>, the operation ends in \<open>Q\<close> with its value, or in
  \<open>E\<close> with its error. Both exits are stated, so a property of \<open>valid\<close> covers the state a
  failed operation leaves behind.
\<close>

definition valid ::
  "('s \<Rightarrow> bool) \<Rightarrow> ('s, 'e, 'a) io \<Rightarrow> ('a \<Rightarrow> 's \<Rightarrow> bool) \<Rightarrow> ('e \<Rightarrow> 's \<Rightarrow> bool) \<Rightarrow> bool" where
  "valid P m Q E \<longleftrightarrow>
     (\<forall>s. P s \<longrightarrow> (case m s of (Inl e, s') \<Rightarrow> E e s' | (Inr a, s') \<Rightarrow> Q a s'))"

named_theorems io_valid \<open>rules for operations with effects\<close>

lemma valid_return [io_valid]: "(\<And>s. P s \<Longrightarrow> Q a s) \<Longrightarrow> valid P (io_return a) Q E"
  by (simp add: valid_def io_return_def)

lemma valid_fail [io_valid]: "(\<And>s. P s \<Longrightarrow> E e s) \<Longrightarrow> valid P (io_fail e) Q E"
  by (simp add: valid_def io_fail_def)

lemma valid_bind:
  assumes "valid P m R E" and "\<And>a. valid (R a) (f a) Q E"
  shows "valid P (io_bind m f) Q E"
  using assms unfolding valid_def io_bind_def
  by (fastforce split: sum.splits prod.splits)

lemma valid_if:
  assumes "b \<Longrightarrow> valid P m Q E" and "\<not> b \<Longrightarrow> valid P n Q E"
  shows "valid P (if b then m else n) Q E"
  using assms by simp

lemma valid_weaken:
  assumes "valid P m Q E" and "\<And>s. P' s \<Longrightarrow> P s"
    and "\<And>a s. Q a s \<Longrightarrow> Q' a s" and "\<And>e s. E e s \<Longrightarrow> E' e s"
  shows "valid P' m Q' E'"
  using assms unfolding valid_def by (fastforce split: sum.splits prod.splits)

lemma validD:
  assumes "valid P m Q E" and "P s"
  shows "(\<exists>a s'. m s = (Inr a, s') \<and> Q a s') \<or> (\<exists>e s'. m s = (Inl e, s') \<and> E e s')"
  using assms unfolding valid_def by (fastforce split: sum.splits prod.splits)

lemma valid_keeps:
  assumes "valid P m (\<lambda>_. P) (\<lambda>_. P)" and "P s"
  shows "P (snd (m s))"
  using validD [OF assms] by auto

definition io_ignore :: "('s, 'e, 'a) io \<Rightarrow> ('s, 'f, unit) io" where
  "io_ignore m s = (Inr (), snd (m s))"

lemma io_bind_return [simp]: "io_bind (io_return a) f = f a"
  by (rule ext) (simp add: io_bind_def io_return_def)

lemma io_bind_fail [simp]: "io_bind (io_fail x) f = io_fail x"
  by (rule ext) (simp add: io_bind_def io_fail_def)

fun io_for :: "'x list \<Rightarrow> ('x \<Rightarrow> ('s, 'e, unit) io) \<Rightarrow> ('s, 'e, unit) io" where
  "io_for [] f = io_return ()"
| "io_for (x # xs) f = io_bind (f x) (\<lambda>_. io_for xs f)"

text \<open>Mapping an effectful function over a list, and renaming the error of an operation.\<close>

fun io_traverse :: "('x \<Rightarrow> ('s, 'e, 'y) io) \<Rightarrow> 'x list \<Rightarrow> ('s, 'e, 'y list) io" where
  "io_traverse f [] = io_return []"
| "io_traverse f (x # xs) = io_bind (f x) (\<lambda>y. io_bind (io_traverse f xs) (\<lambda>ys. io_return (y # ys)))"

definition io_map_err :: "('e \<Rightarrow> 'f) \<Rightarrow> ('s, 'e, 'a) io \<Rightarrow> ('s, 'f, 'a) io" where
  "io_map_err g m s = (case m s of (Inl x, s') \<Rightarrow> (Inl (g x), s') | (Inr a, s') \<Rightarrow> (Inr a, s'))"

lemma valid_traverse:
  assumes "\<And>x. x \<in> set xs \<Longrightarrow> valid P (f x) (\<lambda>_. P) E"
  shows "valid P (io_traverse f xs) (\<lambda>_. P) E"
  using assms
proof (induction xs)
  case Nil
  show ?case by (simp add: valid_return)
next
  case (Cons x xs)
  show ?case unfolding io_traverse.simps
    by (rule valid_bind [where R = "\<lambda>_. P"], use Cons in simp, rule valid_bind [where R = "\<lambda>_. P"])
      (use Cons in \<open>auto intro: valid_return\<close>)
qed

lemma valid_map_err: "valid P m Q (\<lambda>x. E (g x)) \<Longrightarrow> valid P (io_map_err g m) Q E"
  unfolding valid_def io_map_err_def by (fastforce split: sum.splits prod.splits)

lemma io_map_err_Inr: "io_map_err g m w = (Inr r, w') \<longleftrightarrow> m w = (Inr r, w')"
  by (auto simp: io_map_err_def split: sum.splits prod.splits)

lemma io_return_Inr: "io_return a w = (Inr r, w') \<longleftrightarrow> r = a \<and> w' = w"
  by (auto simp: io_return_def)

lemma io_bind_Inr: "io_bind m k w = (Inr r, w') \<longleftrightarrow> (\<exists>a w1. m w = (Inr a, w1) \<and> k a w1 = (Inr r, w'))"
  by (auto simp: io_bind_def split: sum.splits prod.splits)

lemma valid_ignore:
  assumes "valid P m (\<lambda>_. R) (\<lambda>_. R)" and "\<And>s. R s \<Longrightarrow> Q () s"
  shows "valid P (io_ignore m) Q E"
  using assms unfolding valid_def io_ignore_def
  by (fastforce split: sum.splits prod.splits)

lemma valid_for:
  assumes "\<And>x. x \<in> set xs \<Longrightarrow> valid P (f x) (\<lambda>_. P) E"
  shows "valid P (io_for xs f) (\<lambda>_. P) E"
  using assms
proof (induction xs)
  case Nil
  show ?case by (simp add: valid_return)
next
  case (Cons x xs)
  show ?case unfolding io_for.simps
    by (rule valid_bind [where R = "\<lambda>_. P"]) (use Cons in auto)
qed

section \<open>Files with injected faults\<close>

text \<open>
  A tree of files is an association list from paths, as lists of components below a root,
  to contents; its order is the order in which directories are listed, which the operating
  system chooses. Every file operation advances a clock, and a schedule says at which ticks
  the operation fails: quantifying over all schedules covers every pattern of failing
  operations, and a process that is killed at some tick behaves as one whose operations all
  fail from there on. A write that fails leaves a prefix of its bytes.
\<close>

type_synonym path = "string list"
type_synonym fs = "(path \<times> bytes) list"

record world =
  files :: fs
  clock :: nat

record schedule =
  fault :: "nat \<Rightarrow> bool"
  torn :: "nat \<Rightarrow> nat"

definition fs_op ::
  "('x schedule_scheme) \<Rightarrow> 'e \<Rightarrow> (fs \<Rightarrow> fs) \<Rightarrow> (fs \<Rightarrow> fs) \<Rightarrow> (world, 'e, unit) io" where
  "fs_op e err ok bad w =
     (if fault e (clock w)
      then (Inl err, \<lparr>files = bad (files w), clock = Suc (clock w)\<rparr>)
      else (Inr (), \<lparr>files = ok (files w), clock = Suc (clock w)\<rparr>))"

lemma map_of_update [simp]: "map_of (AList.update p c f) q = (if q = p then Some c else map_of f q)"
  by (simp add: update_conv')

lemma map_of_delete [simp]: "map_of (AList.delete p f) q = (if q = p then None else map_of f q)"
  by (simp add: delete_conv')

text \<open>An operation with no visible effect on file contents: creating or listing a directory, a sync.\<close>

definition touch :: "('x schedule_scheme) \<Rightarrow> 'e \<Rightarrow> (world, 'e, unit) io" where
  "touch e err = fs_op e err (\<lambda>f. f) (\<lambda>f. f)"

definition create_file :: "('x schedule_scheme) \<Rightarrow> 'e \<Rightarrow> path \<Rightarrow> (world, 'e, unit) io" where
  "create_file e err p = fs_op e err (AList.update p []) (\<lambda>f. f)"

definition write_file :: "('x schedule_scheme) \<Rightarrow> 'e \<Rightarrow> path \<Rightarrow> bytes \<Rightarrow> (world, 'e, unit) io" where
  "write_file e err p c w =
     fs_op e err (AList.update p c) (AList.update p (take (torn e (clock w)) c)) w"

definition remove_file :: "('x schedule_scheme) \<Rightarrow> 'e \<Rightarrow> path \<Rightarrow> (world, 'e, unit) io" where
  "remove_file e err p = fs_op e err (AList.delete p) (\<lambda>f. f)"

definition fs_rename :: "path \<Rightarrow> path \<Rightarrow> fs \<Rightarrow> fs" where
  "fs_rename p q f =
     (case map_of f p of None \<Rightarrow> f | Some c \<Rightarrow> AList.update q c (AList.delete p f))"

definition rename_file :: "('x schedule_scheme) \<Rightarrow> 'e \<Rightarrow> path \<Rightarrow> path \<Rightarrow> (world, 'e, unit) io" where
  "rename_file e err p q w =
     (if map_of (files w) p = None then (Inl err, w\<lparr>clock := Suc (clock w)\<rparr>)
      else fs_op e err (fs_rename p q) (\<lambda>f. f) w)"

definition read_file :: "('x schedule_scheme) \<Rightarrow> 'e \<Rightarrow> path \<Rightarrow> (world, 'e, bytes) io" where
  "read_file e err p w =
     ((if fault e (clock w) then Inl err
       else case map_of (files w) p of None \<Rightarrow> Inl err | Some c \<Rightarrow> Inr c),
      w\<lparr>clock := Suc (clock w)\<rparr>)"

text \<open>\<open>Path::exists\<close> answers false when the question itself fails.\<close>

definition file_exists :: "('x schedule_scheme) \<Rightarrow> path \<Rightarrow> (world, 'e, bool) io" where
  "file_exists e p w =
     (Inr (\<not> fault e (clock w) \<and> map_of (files w) p \<noteq> None), w\<lparr>clock := Suc (clock w)\<rparr>)"

lemmas file_simps = fs_op_def touch_def create_file_def write_file_def remove_file_def
  rename_file_def fs_rename_def read_file_def file_exists_def

text \<open>A state predicate that only looks at the files.\<close>

definition on_files :: "(fs \<Rightarrow> bool) \<Rightarrow> world \<Rightarrow> bool" where
  "on_files P w \<longleftrightarrow> P (files w)"

lemma valid_fs_op:
  assumes "\<And>f. P f \<Longrightarrow> Q (ok f)" and "\<And>f. P f \<Longrightarrow> E (bad f)"
  shows "valid (on_files P) (fs_op e err ok bad) (\<lambda>_. on_files Q) (\<lambda>_. on_files E)"
  using assms by (auto simp: valid_def fs_op_def on_files_def)

lemma valid_touch [io_valid]:
  "(\<And>f. P f \<Longrightarrow> E f) \<Longrightarrow> valid (on_files P) (touch e err) (\<lambda>_. on_files P) (\<lambda>_. on_files E)"
  unfolding touch_def by (rule valid_fs_op)

lemma valid_create:
  assumes "\<And>f. P f \<Longrightarrow> Q (AList.update p [] f)" and "\<And>f. P f \<Longrightarrow> E f"
  shows "valid (on_files P) (create_file e err p) (\<lambda>_. on_files Q) (\<lambda>_. on_files E)"
  unfolding create_file_def by (rule valid_fs_op) (use assms in auto)

lemma valid_write:
  assumes "\<And>f. P f \<Longrightarrow> Q (AList.update p c f)"
    and "\<And>f k. P f \<Longrightarrow> E (AList.update p (take k c) f)"
  shows "valid (on_files P) (write_file e err p c) (\<lambda>_. on_files Q) (\<lambda>_. on_files E)"
  using assms by (auto simp: valid_def write_file_def fs_op_def on_files_def)

lemma valid_remove:
  assumes "\<And>f. P f \<Longrightarrow> Q (AList.delete p f)" and "\<And>f. P f \<Longrightarrow> E f"
  shows "valid (on_files P) (remove_file e err p) (\<lambda>_. on_files Q) (\<lambda>_. on_files E)"
  unfolding remove_file_def by (rule valid_fs_op) (use assms in auto)

lemma valid_rename:
  assumes "\<And>f c. P f \<Longrightarrow> map_of f p = Some c \<Longrightarrow> Q (AList.update q c (AList.delete p f))"
    and "\<And>f. P f \<Longrightarrow> E f"
  shows "valid (on_files P) (rename_file e err p q) (\<lambda>_. on_files Q) (\<lambda>_. on_files E)"
  using assms
  by (auto simp: valid_def rename_file_def fs_op_def on_files_def fs_rename_def split: option.splits)

lemma valid_read:
  assumes "\<And>f c. P f \<Longrightarrow> map_of f p = Some c \<Longrightarrow> Q c f" and "\<And>f. P f \<Longrightarrow> E f"
  shows "valid (on_files P) (read_file e err p) (\<lambda>c. on_files (Q c)) (\<lambda>_. on_files E)"
  using assms by (auto simp: valid_def read_file_def on_files_def split: option.splits)

lemma valid_exists [io_valid]:
  "valid (on_files P) (file_exists e p) (\<lambda>b. on_files (\<lambda>f. P f \<and> (b \<longrightarrow> map_of f p \<noteq> None)))
     (\<lambda>_. on_files E)"
  by (auto simp: valid_def file_exists_def on_files_def)

text \<open>
  The opening of every atomic replacement: create a temporary file, write it, sync it. A
  predicate stable under changes of the temporary file survives it, and afterwards the file
  is complete.
\<close>

definition write_synced :: "('x schedule_scheme) \<Rightarrow> 'e \<Rightarrow> path \<Rightarrow> bytes \<Rightarrow> (world, 'e, unit) io" where
  "write_synced e err p c =
     io_bind (create_file e err p) (\<lambda>_.
     io_bind (write_file e err p c) (\<lambda>_.
     touch e err))"

definition stable :: "path \<Rightarrow> (fs \<Rightarrow> bool) \<Rightarrow> bool" where
  "stable p P \<longleftrightarrow>
     (\<forall>f c. P f \<longrightarrow> P (AList.update p c f)) \<and> (\<forall>f. P f \<longrightarrow> P (AList.delete p f))"

lemma stable_update: "stable p P \<Longrightarrow> P f \<Longrightarrow> P (AList.update p c f)"
  and stable_delete: "stable p P \<Longrightarrow> P f \<Longrightarrow> P (AList.delete p f)"
  by (auto simp: stable_def)

lemma valid_write_synced:
  assumes "stable p P"
  shows "valid (on_files P) (write_synced e err p c)
    (\<lambda>_. on_files (\<lambda>f. P f \<and> map_of f p = Some c)) (\<lambda>_. on_files P)"
  unfolding write_synced_def
  apply (rule valid_bind [OF valid_create [where Q = P]])
    apply (auto intro: stable_update [OF assms]) [2]
  apply (rule valid_bind [OF valid_write [where Q = "\<lambda>f. P f \<and> map_of f p = Some c"]])
    apply (auto intro: stable_update [OF assms]) [2]
  apply (rule valid_touch, simp)
  done

lemma valid_remove_if_exists:
  assumes "stable p P"
  shows "valid (on_files P)
    (io_bind (file_exists e p) (\<lambda>x. if x then remove_file e err p else io_return ()))
    (\<lambda>_. on_files P) (\<lambda>_. on_files P)"
  by (rule valid_bind [OF valid_exists])
    (auto simp: valid_def file_simps io_return_def on_files_def intro: stable_delete [OF assms])

lemma valid_ignored_remove:
  assumes "stable p P"
  shows "valid (on_files P) (io_ignore (remove_file e err p)) (\<lambda>_. on_files P) (\<lambda>_. on_files P)"
  by (rule valid_ignore [where R = "on_files P"])
    (auto simp: valid_def file_simps on_files_def intro: stable_delete [OF assms])

lemma valid_on_files_weaken:
  assumes "valid (on_files P) m (\<lambda>a. on_files (Q a)) (\<lambda>x. on_files (E x))"
    and "\<And>f. P' f \<Longrightarrow> P f" and "\<And>a f. Q a f \<Longrightarrow> Q' a f" and "\<And>x f. E x f \<Longrightarrow> E' x f"
  shows "valid (on_files P') m (\<lambda>a. on_files (Q' a)) (\<lambda>x. on_files (E' x))"
  by (rule valid_weaken [OF assms(1)]) (use assms(2-) in \<open>auto simp: on_files_def\<close>)

lemmas io_simps = io_return_def io_fail_def io_bind_def io_ignore_def io_lift_def

lemma valid_pre:
  assumes "valid (on_files P) m Q E" and "\<And>f. P' f \<Longrightarrow> P f"
  shows "valid (on_files P') m Q E"
  using assms by (auto simp: valid_def on_files_def)

text \<open>Sequencing where the first operation leaves more than the whole promises on failure.\<close>

lemma valid_then:
  assumes "valid (on_files P) m (\<lambda>a. on_files (R a)) (\<lambda>x. on_files (E0 x))"
    and "\<And>x f. E0 x f \<Longrightarrow> E x f"
    and "\<And>a. valid (on_files (R a)) (k a) Q (\<lambda>x. on_files (E x))"
  shows "valid (on_files P) (io_bind m k) Q (\<lambda>x. on_files (E x))"
proof (rule valid_bind)
  show "valid (on_files P) m (\<lambda>a. on_files (R a)) (\<lambda>x. on_files (E x))"
    by (rule valid_weaken [OF assms(1)]) (use assms(2) in \<open>auto simp: on_files_def\<close>)
qed (rule assms(3))

section \<open>Decimal numbers\<close>

definition digit_char :: "nat \<Rightarrow> char" where
  "digit_char d = char_of (48 + d)"

definition is_digit :: "char \<Rightarrow> bool" where
  "is_digit c \<longleftrightarrow> 48 \<le> (of_char c :: nat) \<and> (of_char c :: nat) \<le> 57"

definition digit_val :: "char \<Rightarrow> nat" where
  "digit_val c = of_char c - 48"

fun dec :: "nat \<Rightarrow> string" where
  "dec n = (if n < 10 then [digit_char n] else dec (n div 10) @ [digit_char (n mod 10)])"

declare dec.simps [simp del]

definition undec :: "string \<Rightarrow> nat" where
  "undec s = foldl (\<lambda>acc c. acc * 10 + digit_val c) 0 s"

text \<open>\<open>{:0w}\<close> of Rust's formatter: zeros on the left up to \<open>w\<close> bytes, never truncated.\<close>

definition pad0 :: "nat \<Rightarrow> string \<Rightarrow> string" where
  "pad0 w s = replicate (w - length s) CHR ''0'' @ s"

lemma of_char_digit [simp]: "d < 10 \<Longrightarrow> (of_char (digit_char d) :: nat) = 48 + d"
  by (simp add: digit_char_def)

lemma is_digit_digit_char [simp]: "d < 10 \<Longrightarrow> is_digit (digit_char d)"
  by (simp add: is_digit_def)

lemma digit_val_digit_char [simp]: "d < 10 \<Longrightarrow> digit_val (digit_char d) = d"
  by (simp add: digit_val_def)

lemma is_digit_zero [simp]: "is_digit CHR ''0''" and digit_val_zero [simp]: "digit_val CHR ''0'' = 0"
  by (simp_all add: is_digit_def digit_val_def)

lemma dec_nonempty [simp]: "dec n \<noteq> []"
  by (subst dec.simps) simp

lemma dec_digits: "c \<in> set (dec n) \<Longrightarrow> is_digit c"
proof (induction n rule: dec.induct)
  case (1 n)
  then show ?case by (cases "n < 10") (auto simp: dec.simps [of n])
qed

lemma undec_snoc [simp]: "undec (s @ [c]) = undec s * 10 + digit_val c"
  by (simp add: undec_def)

lemma undec_dec [simp]: "undec (dec n) = n"
proof (induction n rule: dec.induct)
  case (1 n)
  then show ?case by (cases "n < 10") (simp_all add: dec.simps [of n] undec_def [of "[_]"])
qed

lemma undec_zeros: "undec (replicate k CHR ''0'' @ s) = undec s"
  by (induction k) (simp_all add: undec_def)

lemma undec_pad0 [simp]: "undec (pad0 w (dec n)) = n"
  by (simp add: pad0_def undec_zeros)

lemma pad0_digits: "c \<in> set (pad0 w (dec n)) \<Longrightarrow> is_digit c"
  by (auto simp: pad0_def dest: dec_digits split: if_splits)

lemma length_dec_le: "0 < k \<Longrightarrow> length (dec n) \<le> k \<longleftrightarrow> n < 10 ^ k"
proof (induction n arbitrary: k rule: dec.induct)
  case (1 n)
  show ?case
  proof (cases "n < 10")
    case True
    moreover have "(10::nat) \<le> 10 ^ k"
      using 1(2) by (metis One_nat_def Suc_leI numeral_le_iff power_increasing power_one_right
          one_le_numeral)
    ultimately show ?thesis using 1(2) by (simp add: dec.simps [of n])
  next
    case False
    obtain j where k: "k = Suc j" using 1(2) by (cases k) auto
    have len: "length (dec n) = Suc (length (dec (n div 10)))"
      using False by (simp add: dec.simps [of n])
    show ?thesis
    proof (cases "j = 0")
      case True
      then show ?thesis using len k False
        by (simp add: Suc_le_eq)
    next
      case j: False
      have "length (dec n) \<le> k \<longleftrightarrow> n div 10 < 10 ^ j"
        using len k 1(1) [OF False, of j] j by simp
      also have "\<dots> \<longleftrightarrow> n < 10 ^ k"
        by (simp add: k div_less_iff_less_mult mult.commute)
      finally show ?thesis .
    qed
  qed
qed

lemma length_pad0: "0 < w \<Longrightarrow> length (pad0 w (dec n)) = w \<longleftrightarrow> n < 10 ^ w"
  using length_dec_le [of w n] by (auto simp: pad0_def)

lemma pad0_inj: "pad0 w (dec m) = pad0 w (dec n) \<Longrightarrow> m = n"
  by (metis undec_pad0)

text \<open>
  \<open>str::parse::<u64>\<close>: an optional plus sign, at least one digit, digits only, and a value
  below \<open>2^64\<close>.
\<close>

definition u64_max :: nat where
  "u64_max = 2 ^ 64 - 1"

definition parse_u64 :: "string \<Rightarrow> nat option" where
  "parse_u64 s =
     (let body = (case s of [] \<Rightarrow> s | c # r \<Rightarrow> if c = CHR ''+'' then r else s)
      in if body \<noteq> [] \<and> list_all is_digit body \<and> undec body \<le> u64_max
         then Some (undec body) else None)"

lemma parse_u64_dec: "n \<le> u64_max \<Longrightarrow> parse_u64 (dec n) = Some n"
proof -
  assume n: "n \<le> u64_max"
  have all: "list_all is_digit (dec n)" by (auto simp: list_all_iff dest: dec_digits)
  have "hd (dec n) \<noteq> CHR ''+''"
    using all by (cases "dec n") (auto simp: is_digit_def)
  then have "(case dec n of [] \<Rightarrow> dec n | c # r \<Rightarrow> if c = CHR ''+'' then r else dec n) = dec n"
    by (cases "dec n") auto
  then show ?thesis using n all by (simp add: parse_u64_def)
qed

section \<open>Hexadecimal digests\<close>

definition hex_digit :: "nat \<Rightarrow> char" where
  "hex_digit d = (if d < 10 then digit_char d else char_of (87 + d))"

definition hex :: "bytes \<Rightarrow> string" where
  "hex bs = concat (map (\<lambda>b. [hex_digit (of_char b div 16), hex_digit (of_char b mod 16)]) bs)"

definition is_hexdigit :: "char \<Rightarrow> bool" where
  "is_hexdigit c \<longleftrightarrow> (let x = (of_char c :: nat) in
     (48 \<le> x \<and> x \<le> 57) \<or> (65 \<le> x \<and> x \<le> 70) \<or> (97 \<le> x \<and> x \<le> 102))"

lemma length_hex [simp]: "length (hex bs) = 2 * length bs"
  by (induction bs) (simp_all add: hex_def)

lemma hex_digit_inj: "j < 16 \<Longrightarrow> k < 16 \<Longrightarrow> hex_digit j = hex_digit k \<longleftrightarrow> j = k"
  by (auto simp: hex_digit_def digit_char_def split: if_splits dest: arg_cong [where f = "of_char :: char \<Rightarrow> nat"])

lemma hex_inj: "hex a = hex b \<longleftrightarrow> a = b"
proof (induction a arbitrary: b)
  case Nil
  show ?case by (cases b) (simp_all add: hex_def)
next
  case (Cons x a)
  show ?case
  proof (cases b)
    case Nil
    then show ?thesis by (simp add: hex_def)
  next
    case b: (Cons y b')
    have lt: "(of_char c :: nat) div 16 < 16" "(of_char c :: nat) mod 16 < 16" for c :: char
      by (rule less_mult_imp_div_less) simp_all
    have "(of_char x :: nat) div 16 = of_char y div 16 \<and> (of_char x :: nat) mod 16 = of_char y mod 16 \<longleftrightarrow> x = y"
      by (metis div_mult_mod_eq of_char_eq_iff)
    then show ?thesis using Cons.IH [of b'] hex_digit_inj [OF lt(1) lt(1), of x y] hex_digit_inj [OF lt(2) lt(2), of x y]
      by (auto simp: b hex_def)
  qed
qed

section \<open>Trimming white space\<close>

text \<open>
  \<open>str::trim\<close> strips the characters with the Unicode property White\_Space, here by their
  UTF-8 encodings of one, two and three bytes.
\<close>

definition ws1 :: "char \<Rightarrow> bool" where
  "ws1 a \<longleftrightarrow> (let x = (of_char a :: nat) in (9 \<le> x \<and> x \<le> 13) \<or> x = 32)"

definition ws2 :: "char \<Rightarrow> char \<Rightarrow> bool" where
  "ws2 a b \<longleftrightarrow> (of_char a :: nat) = 0xC2 \<and> ((of_char b :: nat) = 0x85 \<or> (of_char b :: nat) = 0xA0)"

definition ws3 :: "char \<Rightarrow> char \<Rightarrow> char \<Rightarrow> bool" where
  "ws3 a b c \<longleftrightarrow>
     (let x = (of_char a :: nat); y = (of_char b :: nat); z = (of_char c :: nat) in
        (x = 0xE1 \<and> y = 0x9A \<and> z = 0x80)
      \<or> (x = 0xE2 \<and> y = 0x80 \<and> ((0x80 \<le> z \<and> z \<le> 0x8A) \<or> z = 0xA8 \<or> z = 0xA9 \<or> z = 0xAF))
      \<or> (x = 0xE2 \<and> y = 0x81 \<and> z = 0x9F)
      \<or> (x = 0xE3 \<and> y = 0x80 \<and> z = 0x80))"

fun trim_start :: "string \<Rightarrow> string" where
  "trim_start (a # b # c # r) =
     (if ws1 a then trim_start (b # c # r)
      else if ws2 a b then trim_start (c # r)
      else if ws3 a b c then trim_start r
      else a # b # c # r)"
| "trim_start [a, b] =
     (if ws1 a then trim_start [b] else if ws2 a b then [] else [a, b])"
| "trim_start [a] = (if ws1 a then [] else [a])"
| "trim_start [] = []"

fun trim_end_rev :: "string \<Rightarrow> string" where
  "trim_end_rev (a # b # c # r) =
     (if ws1 a then trim_end_rev (b # c # r)
      else if ws2 b a then trim_end_rev (c # r)
      else if ws3 c b a then trim_end_rev r
      else a # b # c # r)"
| "trim_end_rev [a, b] =
     (if ws1 a then trim_end_rev [b] else if ws2 b a then [] else [a, b])"
| "trim_end_rev [a] = (if ws1 a then [] else [a])"
| "trim_end_rev [] = []"

definition trim :: "string \<Rightarrow> string" where
  "trim s = rev (trim_end_rev (rev (trim_start s)))"

text \<open>Text without a white-space byte and with ASCII ends is left alone.\<close>

definition solid :: "char \<Rightarrow> bool" where
  "solid c \<longleftrightarrow> \<not> ws1 c \<and> (of_char c :: nat) < 0x80"

lemma solid_noteq: "solid a \<Longrightarrow> \<not> ws1 a" "solid a \<Longrightarrow> \<not> ws2 a b" "solid b \<Longrightarrow> \<not> ws2 a b"
  "solid a \<Longrightarrow> \<not> ws3 a b c" "solid c \<Longrightarrow> \<not> ws3 a b c"
  by (auto simp: solid_def ws2_def ws3_def Let_def)

lemma trim_start_solid: "s = [] \<or> solid (hd s) \<Longrightarrow> trim_start s = s"
  by (induction s rule: trim_start.induct) (auto simp: solid_noteq)

lemma trim_end_rev_solid: "s = [] \<or> solid (hd s) \<Longrightarrow> trim_end_rev s = s"
  by (induction s rule: trim_end_rev.induct) (auto simp: solid_noteq)

lemma trim_solid: "s = [] \<or> (solid (hd s) \<and> solid (last s)) \<Longrightarrow> trim s = s"
  by (cases "s = []") (auto simp: trim_def trim_start_solid trim_end_rev_solid hd_rev)

lemma digit_solid [simp]: "is_digit c \<Longrightarrow> solid c"
  by (auto simp: is_digit_def solid_def ws1_def Let_def)

lemma trim_dec [simp]: "trim (dec n) = dec n"
  by (rule trim_solid) (simp add: dec_digits [of _ n])

section \<open>Lines and pieces of text\<close>

text \<open>
  \<open>str::split(c)\<close>: the pieces between the separators, one more than there are separators.
\<close>

fun split_on :: "(char \<Rightarrow> bool) \<Rightarrow> string \<Rightarrow> string list" where
  "split_on p [] = [[]]"
| "split_on p (c # s) =
     (if p c then [] # split_on p s
      else (case split_on p s of [] \<Rightarrow> [[c]] | w # ws \<Rightarrow> (c # w) # ws))"

text \<open>
  \<open>str::lines\<close>: pieces ended by a newline, without it and without one carriage return
  before it; a last piece without newline counts when it is not empty.
\<close>

definition strip_cr :: "string \<Rightarrow> string" where
  "strip_cr s = (if s \<noteq> [] \<and> last s = CHR 0x0D then butlast s else s)"

definition lines_of :: "string \<Rightarrow> string list" where
  "lines_of s =
     (let ps = split_on (\<lambda>c. c = newline) s
      in map strip_cr (butlast ps) @ (if last ps = [] then [] else [last ps]))"

lemma split_on_nonempty [simp]: "split_on p s \<noteq> []"
  by (cases s) (auto split: list.splits)

lemma split_on_piece:
  "\<forall>c \<in> set w. \<not> p c \<Longrightarrow> p d \<Longrightarrow> split_on p (w @ d # s) = w # split_on p s"
  by (induction w) auto

lemma lines_of_Nil [simp]: "lines_of [] = []"
  by (simp add: lines_of_def)

lemma lines_of_line:
  "newline \<notin> set l \<Longrightarrow> lines_of (l @ newline # s) = strip_cr l # lines_of s"
proof -
  assume "newline \<notin> set l"
  then have "split_on (\<lambda>c. c = newline) (l @ newline # s) = l # split_on (\<lambda>c. c = newline) s"
    by (intro split_on_piece) auto
  then show ?thesis by (simp add: lines_of_def Let_def)
qed

definition ends_with :: "string \<Rightarrow> string \<Rightarrow> bool" where
  "ends_with s suf \<longleftrightarrow> suffix suf s"

definition strip_suffix :: "string \<Rightarrow> string \<Rightarrow> string option" where
  "strip_suffix s suf =
     (if suffix suf s then Some (take (length s - length suf) s) else None)"

lemma strip_suffix_append [simp]: "strip_suffix (s @ suf) suf = Some s"
  by (simp add: strip_suffix_def suffix_def)

lemma strip_suffix_eq_Some: "strip_suffix s suf = Some b \<longleftrightarrow> s = b @ suf"
  by (auto simp: strip_suffix_def suffix_def)

section \<open>UTF-8\<close>

text \<open>\<open>core::str::from_utf8\<close>: the well-formed byte sequences.\<close>

definition utf8_cont :: "char \<Rightarrow> bool" where
  "utf8_cont c \<longleftrightarrow> 0x80 \<le> (of_char c :: nat) \<and> (of_char c :: nat) \<le> 0xBF"

definition utf8_pair :: "char \<Rightarrow> char \<Rightarrow> bool" where
  "utf8_pair a b \<longleftrightarrow> 0xC2 \<le> (of_char a :: nat) \<and> (of_char a :: nat) \<le> 0xDF \<and> utf8_cont b"

definition utf8_triple :: "char \<Rightarrow> char \<Rightarrow> char \<Rightarrow> bool" where
  "utf8_triple a b c \<longleftrightarrow>
     (let x = (of_char a :: nat); y = (of_char b :: nat) in
      0xE0 \<le> x \<and> x \<le> 0xEF \<and> utf8_cont b \<and> utf8_cont c
      \<and> (x = 0xE0 \<longrightarrow> 0xA0 \<le> y) \<and> (x = 0xED \<longrightarrow> y \<le> 0x9F))"

definition utf8_quad :: "char \<Rightarrow> char \<Rightarrow> char \<Rightarrow> char \<Rightarrow> bool" where
  "utf8_quad a b c d \<longleftrightarrow>
     (let x = (of_char a :: nat); y = (of_char b :: nat) in
      0xF0 \<le> x \<and> x \<le> 0xF4 \<and> utf8_cont b \<and> utf8_cont c \<and> utf8_cont d
      \<and> (x = 0xF0 \<longrightarrow> 0x90 \<le> y) \<and> (x = 0xF4 \<longrightarrow> y \<le> 0x8F))"

fun valid_utf8 :: "bytes \<Rightarrow> bool" where
  "valid_utf8 [] = True"
| "valid_utf8 (a # r) =
     (if (of_char a :: nat) < 0x80 then valid_utf8 r
      else (case r of
          [] \<Rightarrow> False
        | b # r2 \<Rightarrow>
            if utf8_pair a b then valid_utf8 r2
            else (case r2 of
                [] \<Rightarrow> False
              | c # r3 \<Rightarrow>
                  if utf8_triple a b c then valid_utf8 r3
                  else (case r3 of
                      [] \<Rightarrow> False
                    | d # r4 \<Rightarrow> utf8_quad a b c d \<and> valid_utf8 r4))))"

lemma valid_utf8_cases:
  assumes "valid_utf8 s" "s \<noteq> []"
  obtains a r where "s = a # r" "(of_char a :: nat) < 0x80" "valid_utf8 r"
  | a b r where "s = a # b # r" "\<not> (of_char a :: nat) < 0x80" "utf8_pair a b" "valid_utf8 r"
  | a b c r where "s = a # b # c # r" "\<not> (of_char a :: nat) < 0x80" "\<not> utf8_pair a b" "utf8_triple a b c" "valid_utf8 r"
  | a b c d r where "s = a # b # c # d # r" "\<not> (of_char a :: nat) < 0x80" "\<not> utf8_pair a b"
      "\<not> utf8_triple a b c" "utf8_quad a b c d" "valid_utf8 r"
proof -
  obtain a r where a: "s = a # r" using assms(2) by (cases s) auto
  show thesis
  proof (cases "(of_char a :: nat) < 0x80")
    case True
    then show ?thesis using a assms(1) that(1) by simp
  next
    case na: False
    then obtain b r2 where b: "r = b # r2" using a assms(1) by (cases r) auto
    show ?thesis
    proof (cases "utf8_pair a b")
      case True
      then show ?thesis using a b na assms(1) that(2) by simp
    next
      case nb: False
      then obtain c r3 where c: "r2 = c # r3" using a b na assms(1) by (cases r2) auto
      show ?thesis
      proof (cases "utf8_triple a b c")
        case True
        then show ?thesis using a b c na nb assms(1) that(3) by simp
      next
        case nc: False
        then obtain d r4 where "r3 = d # r4" using a b c na nb assms(1) by (cases r3) auto
        then show ?thesis using a b c na nb nc assms(1) that(4) by simp
      qed
    qed
  qed
qed

lemma valid_utf8_append: "valid_utf8 s \<Longrightarrow> valid_utf8 t \<Longrightarrow> valid_utf8 (s @ t)"
proof (induction s rule: length_induct)
  case (1 s)
  show ?case
  proof (cases "s = []")
    case False
    with 1(2) show ?thesis
      by (cases rule: valid_utf8_cases) (use 1(1,3) in simp_all)
  qed (use 1 in simp)
qed

lemma valid_utf8_ascii: "list_all (\<lambda>c. (of_char c :: nat) < 0x80) s \<Longrightarrow> valid_utf8 s"
  by (induction s) auto

lemma valid_utf8_dec [simp]: "valid_utf8 (dec n)"
  by (rule valid_utf8_ascii) (auto simp: list_all_iff is_digit_def dest!: dec_digits)

text \<open>
  \<open>String::from_utf8_lossy\<close>: every maximal piece that cannot start or continue a character
  becomes one replacement character, U+FFFD.
\<close>

definition replacement :: string where
  "replacement = [CHR 0xEF, CHR 0xBF, CHR 0xBD]"

definition utf8_lead3 :: "char \<Rightarrow> char \<Rightarrow> bool" where
  "utf8_lead3 a b \<longleftrightarrow>
     (let x = (of_char a :: nat); y = (of_char b :: nat) in
      0xE0 \<le> x \<and> x \<le> 0xEF \<and> utf8_cont b
      \<and> (x = 0xE0 \<longrightarrow> 0xA0 \<le> y) \<and> (x = 0xED \<longrightarrow> y \<le> 0x9F))"

definition utf8_lead4 :: "char \<Rightarrow> char \<Rightarrow> bool" where
  "utf8_lead4 a b \<longleftrightarrow>
     (let x = (of_char a :: nat); y = (of_char b :: nat) in
      0xF0 \<le> x \<and> x \<le> 0xF4 \<and> utf8_cont b
      \<and> (x = 0xF0 \<longrightarrow> 0x90 \<le> y) \<and> (x = 0xF4 \<longrightarrow> y \<le> 0x8F))"

text \<open>How many bytes the next character or broken piece takes, and whether it is a character.\<close>

fun utf8_next :: "string \<Rightarrow> nat \<times> bool" where
  "utf8_next [] = (0, True)"
| "utf8_next (a # r) =
     (if (of_char a :: nat) < 0x80 then (1, True)
      else (case r of
          [] \<Rightarrow> (1, False)
        | b # r2 \<Rightarrow>
            if utf8_pair a b then (2, True)
            else if utf8_lead3 a b then
              (case r2 of c # _ \<Rightarrow> if utf8_cont c then (3, True) else (2, False) | [] \<Rightarrow> (2, False))
            else if utf8_lead4 a b then
              (case r2 of
                 c # r3 \<Rightarrow>
                   if \<not> utf8_cont c then (2, False)
                   else (case r3 of d # _ \<Rightarrow> if utf8_cont d then (4, True) else (3, False)
                         | [] \<Rightarrow> (3, False))
               | [] \<Rightarrow> (2, False))
            else (1, False)))"

lemma utf8_next_pos: "s \<noteq> [] \<Longrightarrow> 0 < fst (utf8_next s)"
  by (cases s) (auto split: list.splits)

function lossy :: "bytes \<Rightarrow> string" where
  "lossy s =
     (if s = [] then []
      else let (n, ok) = utf8_next s
           in (if ok then take n s else replacement) @ lossy (drop n s))"
  by pat_completeness auto
termination
proof (relation "measure length")
  fix s :: bytes and x n ok
  assume "s \<noteq> []" "x = utf8_next s" "(n, ok) = x"
  then have "0 < n" using utf8_next_pos [of s] by (metis fst_conv)
  then show "(drop n s, s) \<in> measure length" using \<open>s \<noteq> []\<close> by simp
qed simp

declare lossy.simps [simp del]

lemma lossy_Nil [simp]: "lossy [] = []"
  by (simp add: lossy.simps)

lemma lossy_ascii [simp]: "(of_char a :: nat) < 0x80 \<Longrightarrow> lossy (a # s) = a # lossy s"
  by (subst lossy.simps) simp

lemma utf8_triple_lead: "utf8_triple a b c \<longleftrightarrow> utf8_lead3 a b \<and> utf8_cont c"
  by (auto simp: utf8_triple_def utf8_lead3_def Let_def)

lemma utf8_quad_lead: "utf8_quad a b c d \<longleftrightarrow> utf8_lead4 a b \<and> utf8_cont c \<and> utf8_cont d"
  by (auto simp: utf8_quad_def utf8_lead4_def Let_def)

lemma utf8_lead_disjoint: "utf8_pair a b \<Longrightarrow> \<not> utf8_lead3 a b" "utf8_pair a b \<Longrightarrow> \<not> utf8_lead4 a b"
  "utf8_lead3 a b \<Longrightarrow> \<not> utf8_lead4 a b"
  by (auto simp: utf8_pair_def utf8_lead3_def utf8_lead4_def Let_def)

lemma lossy_valid: "valid_utf8 s \<Longrightarrow> lossy s = s"
proof (induction s rule: length_induct)
  case (1 s)
  show ?case
  proof (cases s)
    case (Cons a r)
    have step: "lossy s = take n s @ lossy (drop n s)" if "utf8_next s = (n, True)" for n
      using that Cons by (subst lossy.simps) simp
    have rec: "lossy s = s" if "utf8_next s = (n, True)" "0 < n" "valid_utf8 (drop n s)" for n
      using step [OF that(1)] 1(1) that(2,3) Cons by simp
    show ?thesis
    proof (cases "(of_char a :: nat) < 0x80")
      case True
      then show ?thesis using rec [of 1] 1(2) Cons by simp
    next
      case hi: False
      then obtain b r2 where r: "r = b # r2" using 1(2) Cons by (cases r) auto
      show ?thesis
      proof (cases "utf8_pair a b")
        case True
        then show ?thesis using rec [of 2] 1(2) Cons r hi by simp
      next
        case no2: False
        then obtain c r3 where r2: "r2 = c # r3" using 1(2) Cons r hi by (cases r2) auto
        show ?thesis
        proof (cases "utf8_triple a b c")
          case True
          then show ?thesis using rec [of 3] 1(2) Cons r r2 hi no2
            by (simp add: utf8_triple_lead numeral_3_eq_3)
        next
          case no3: False
          then obtain d r4 where r3: "r3 = d # r4" "utf8_quad a b c d" "valid_utf8 r4"
            using 1(2) Cons r r2 hi no2 by (cases r3) auto
          then have "\<not> utf8_lead3 a b" "utf8_lead4 a b" "utf8_cont c" "utf8_cont d"
            using utf8_lead_disjoint(3) [of a b] by (auto simp: utf8_quad_lead)
          with r3 have "utf8_next s = (4, True)" using Cons r r2 hi no2 by simp
          with rec [of 4] r3 show ?thesis by (simp add: Cons r r2)
        qed
      qed
    qed
  qed simp
qed

section \<open>Lists\<close>

lemma map_filter_append [simp]:
  "List.map_filter f (xs @ ys) = List.map_filter f xs @ List.map_filter f ys"
  by (simp add: List.map_filter_def)

lemma set_map_filter: "set (List.map_filter f xs) = {y. \<exists>x \<in> set xs. f x = Some y}"
  by (auto simp: List.map_filter_def intro: rev_image_eqI)

lemma distinct_map_head: "distinct (map f (x # xs)) \<Longrightarrow> y \<in> set xs \<Longrightarrow> f y \<noteq> f x"
  by (metis distinct.simps(2) image_eqI list.simps(9) set_map)

lemma distinct_of_map: "distinct (map f xs) \<Longrightarrow> distinct xs"
  by (simp add: distinct_map)

lemma list_all2_left: "list_all2 P xs ys \<Longrightarrow> x \<in> set xs \<Longrightarrow> \<exists>y \<in> set ys. P x y"
  and list_all2_right: "list_all2 P xs ys \<Longrightarrow> y \<in> set ys \<Longrightarrow> \<exists>x \<in> set xs. P x y"
  by (induction rule: list_all2_induct) auto

end
