(* ===== verification/Ordered_Map.thy ===== *)
theory Ordered_Map
  imports Prelude "HOL-Library.List_Lexorder" "HOL-Library.Char_ord"
    "HOL-Library.Product_Lexorder"
begin

text \<open>
  Rust's \<open>BTreeMap\<close>: a map iterated in ascending key order. The interface the components
  rely on is the locale \<open>ordered_map\<close>; the model is a list of key-value pairs kept in
  ascending key order, so iteration is the list itself. Strings order bytewise and pairs
  lexicographically, as Rust's derived \<open>Ord\<close> does.
\<close>

section \<open>The interface\<close>

locale ordered_map =
  fixes empty :: "'m"
    and ins :: "'k::linorder \<Rightarrow> 'v \<Rightarrow> 'm \<Rightarrow> 'm"
    and look :: "'m \<Rightarrow> 'k \<Rightarrow> 'v option"
    and items :: "'m \<Rightarrow> ('k \<times> 'v) list"
    and wf_map :: "'m \<Rightarrow> bool"
  assumes wf_empty: "wf_map empty"
    and wf_ins: "wf_map m \<Longrightarrow> wf_map (ins k v m)"
    and look_empty: "look empty k = None"
    and look_ins: "wf_map m \<Longrightarrow> look (ins k v m) j = (if j = k then Some v else look m j)"
    and items_look: "wf_map m \<Longrightarrow> (k, v) \<in> set (items m) \<longleftrightarrow> look m k = Some v"
    and items_ascending: "wf_map m \<Longrightarrow> sorted_wrt (<) (map fst (items m))"
begin

definition insert_all :: "('k \<times> 'v) list \<Rightarrow> 'm \<Rightarrow> 'm" where
  "insert_all kvs m = fold (\<lambda>(k, v). ins k v) kvs m"

lemma wf_insert_all: "wf_map m \<Longrightarrow> wf_map (insert_all kvs m)"
  unfolding insert_all_def by (induction kvs arbitrary: m) (auto intro: wf_ins)

text \<open>The last value written under a key is the one found.\<close>

lemma look_insert_all:
  assumes "wf_map m"
  shows "look (insert_all kvs m) j =
    (case map_of (rev kvs) j of None \<Rightarrow> look m j | Some v \<Rightarrow> Some v)"
  using assms
proof (induction kvs arbitrary: m)
  case (Cons kv kvs)
  obtain k v where kv: "kv = (k, v)" by (cases kv)
  have "look (insert_all (kv # kvs) m) j = look (insert_all kvs (ins k v m)) j"
    by (simp add: insert_all_def kv)
  also have "\<dots> = (case map_of (rev kvs) j of None \<Rightarrow> look (ins k v m) j | Some v \<Rightarrow> Some v)"
    using Cons by (simp add: wf_ins)
  finally show ?case
    using Cons.prems by (auto simp: kv look_ins map_add_def split: option.splits)
qed (simp add: insert_all_def)

lemma items_distinct: "wf_map m \<Longrightarrow> distinct (map fst (items m))"
  using items_ascending strict_sorted_iff by blast

lemma items_eqI:
  assumes "wf_map m" "wf_map n" "\<And>k. look m k = look n k"
  shows "items m = items n"
proof -
  have keyed: "items m' = map (\<lambda>k. (k, the (look m' k))) (map fst (items m'))"
    if "wf_map m'" for m'
    using that by (auto simp: items_look intro!: map_idI [symmetric])
  have "set (items m) = set (items n)"
    using assms by (auto simp: items_look)
  then have "map fst (items m) = map fst (items n)"
    using items_ascending [OF assms(1)] items_ascending [OF assms(2)]
    by (intro strict_sorted_equal) auto
  then show ?thesis
    using keyed [OF assms(1)] keyed [OF assms(2)] assms(3) by simp
qed

end

section \<open>The map as an ascending list\<close>

fun bt_insert :: "'k::linorder \<Rightarrow> 'v \<Rightarrow> ('k \<times> 'v) list \<Rightarrow> ('k \<times> 'v) list" where
  "bt_insert k v [] = [(k, v)]"
| "bt_insert k v (kv # m) =
     (if fst kv < k then kv # bt_insert k v m
      else if fst kv = k then (k, v) # m
      else (k, v) # kv # m)"

abbreviation (input) bt_get :: "('k \<times> 'v) list \<Rightarrow> 'k \<Rightarrow> 'v option" where
  "bt_get \<equiv> map_of"

definition bt_remove :: "'k \<Rightarrow> ('k \<times> 'v) list \<Rightarrow> ('k \<times> 'v) list" where
  "bt_remove k m = filter (\<lambda>kv. fst kv \<noteq> k) m"

definition bt_ok :: "('k::linorder \<times> 'v) list \<Rightarrow> bool" where
  "bt_ok m \<longleftrightarrow> sorted_wrt (<) (map fst m)"

lemma bt_ok_Nil [simp]: "bt_ok []"
  by (simp add: bt_ok_def)

lemma fst_set_bt_insert: "fst ` set (bt_insert k v m) = insert k (fst ` set m)"
  by (induction m) auto

lemma bt_ok_insert [simp]: "bt_ok m \<Longrightarrow> bt_ok (bt_insert k v m)"
proof (induction m)
  case (Cons a m)
  have "\<forall>x \<in> fst ` set (bt_insert k v m). fst a < x" if "fst a < k"
    using Cons.prems that by (auto simp: bt_ok_def fst_set_bt_insert)
  then show ?case using Cons by (auto simp: bt_ok_def)
qed (simp add: bt_ok_def)

lemma bt_get_insert: "bt_get (bt_insert k v m) j = (if j = k then Some v else bt_get m j)"
  if "bt_ok m"
  using that
proof (induction m)
  case (Cons a m)
  then show ?case by (cases a) (auto simp: bt_ok_def)
qed simp

lemma bt_get_remove: "bt_get (bt_remove k m) j = (if j = k then None else bt_get m j)"
  by (induction m) (auto simp: bt_remove_def)

lemma bt_ok_remove [simp]: "bt_ok m \<Longrightarrow> bt_ok (bt_remove k m)"
  by (auto simp: bt_ok_def bt_remove_def sorted_wrt_map intro: sorted_wrt_filter)

lemma bt_ok_distinct: "bt_ok m \<Longrightarrow> distinct (map fst m)"
  by (auto simp: bt_ok_def strict_sorted_iff)

lemma bt_ok_map: "bt_ok (map (\<lambda>(k, v). (k, f k v)) m) \<longleftrightarrow> bt_ok m"
  by (simp add: bt_ok_def comp_def case_prod_beta)

lemma bt_get_map: "bt_get (map (\<lambda>(k, v). (k, f k v)) m) j = map_option (f j) (bt_get m j)"
  by (induction m) auto

interpretation bt: ordered_map "[]" bt_insert bt_get "\<lambda>m. m" bt_ok
proof unfold_locales
  fix m :: "('a \<times> 'b) list" and k v
  assume "bt_ok m"
  then show "(k, v) \<in> set m \<longleftrightarrow> bt_get m k = Some v" and "sorted_wrt (<) (map fst m)"
    by (auto simp: bt_ok_def strict_sorted_iff)
qed (auto simp: bt_get_insert)

lemma bt_eqI: "bt_ok m \<Longrightarrow> bt_ok n \<Longrightarrow> (\<And>k. bt_get m k = bt_get n k) \<Longrightarrow> m = n"
  by (rule bt.items_eqI)

end
