(* ===== verification/Identity_Guard.thy ===== *)
theory Identity_Guard
  imports Prelude
begin

text \<open>
  \<open>test_identity_guard.rs\<close>: reserved fixture identities never reach a destination outside
  the temporary directory. Splitting on a predicate and dropping the empty pieces gives the
  tokens; an identity is reserved when the tokens of a reserved name occur in it in a row.
\<close>

section \<open>Model\<close>

definition is_ascii_alphanumeric :: "char \<Rightarrow> bool" where
  "is_ascii_alphanumeric c \<longleftrightarrow>
     (let n = (of_char c :: nat) in
      (48 \<le> n \<and> n \<le> 57) \<or> (65 \<le> n \<and> n \<le> 90) \<or> (97 \<le> n \<and> n \<le> 122))"

definition to_ascii_lower :: "char \<Rightarrow> char" where
  "to_ascii_lower c =
     (if 65 \<le> (of_char c :: nat) \<and> (of_char c :: nat) \<le> 90
      then char_of ((of_char c :: nat) + 32) else c)"

definition eq_ignore_ascii_case :: "string \<Rightarrow> string \<Rightarrow> bool" where
  "eq_ignore_ascii_case a b \<longleftrightarrow> map to_ascii_lower a = map to_ascii_lower b"

definition FIXTURE_IDENTITY_TOKENS :: "string list" where
  "FIXTURE_IDENTITY_TOKENS = [''synthetic'', ''fixture'', ''probe'', ''dummy'', ''gate-mbp'']"

definition id_tokens :: "string \<Rightarrow> string list" where
  "id_tokens s = filter (\<lambda>w. w \<noteq> []) (split_on (\<lambda>c. \<not> is_ascii_alphanumeric c) s)"

text \<open>\<open>slice::windows(n)\<close>: the runs of \<open>n\<close> elements in a row.\<close>

definition windows :: "nat \<Rightarrow> 'a list \<Rightarrow> 'a list list" where
  "windows n xs = map (\<lambda>i. take n (drop i xs)) [0 ..< length xs + 1 - n]"

definition is_fixture_identity :: "string \<Rightarrow> bool" where
  "is_fixture_identity s =
     (let toks = id_tokens s in
      if toks = [] then False
      else list_ex (\<lambda>reserved.
             let rs = id_tokens reserved in
             if rs = [] then False
             else list_ex (\<lambda>w. list_all2 eq_ignore_ascii_case w rs) (windows (length rs) toks))
           FIXTURE_IDENTITY_TOKENS)"

definition is_under_temp_dir :: "path \<Rightarrow> path \<Rightarrow> bool" where
  "is_under_temp_dir temp p \<longleftrightarrow> take (length temp) p = temp"

text \<open>\<open>refuse_fixture_write\<close>: the refusal carries the first offending identity.\<close>

definition refuse_fixture_write :: "path \<Rightarrow> string list \<Rightarrow> path \<Rightarrow> string + unit" where
  "refuse_fixture_write temp ids root =
     (case find is_fixture_identity ids of
        None \<Rightarrow> Inr ()
      | Some i \<Rightarrow> if is_under_temp_dir temp root then Inr () else Inl i)"

section \<open>Properties\<close>

lemma length_windows: "w \<in> set (windows n xs) \<Longrightarrow> 0 < n \<Longrightarrow> length w = n"
  by (auto simp: windows_def)

lemma windows_iff:
  assumes "0 < n"
  shows "w \<in> set (windows n xs) \<longleftrightarrow> length w = n \<and> (\<exists>a b. xs = a @ w @ b)"
proof
  assume "w \<in> set (windows n xs)"
  then obtain i where i: "i < length xs + 1 - n" "w = take n (drop i xs)"
    by (auto simp: windows_def)
  have "xs = take i xs @ take n (drop i xs) @ drop n (drop i xs)"
    by (simp only: append_take_drop_id)
  with i show "length w = n \<and> (\<exists>a b. xs = a @ w @ b)"
    by (metis \<open>w \<in> set (windows n xs)\<close> assms length_windows)
next
  assume "length w = n \<and> (\<exists>a b. xs = a @ w @ b)"
  then obtain a b where n: "length w = n" and xs: "xs = a @ w @ b" by blast
  then have "w = take n (drop (length a) xs)" by simp
  moreover have "length a < length xs + 1 - n" using n xs by simp
  ultimately show "w \<in> set (windows n xs)" unfolding windows_def by auto
qed

text \<open>
  An ordinary identity is never refused, whatever the destination; a refusal is of a
  reserved identity headed outside the temporary directory.
\<close>

lemma refuse_fixture_write_ok_iff:
  "refuse_fixture_write temp ids root = Inr () \<longleftrightarrow>
     (\<forall>i \<in> set ids. \<not> is_fixture_identity i) \<or> is_under_temp_dir temp root"
  unfolding refuse_fixture_write_def
  by (auto simp: find_None_iff find_Some_iff split: option.splits)

lemma fixture_by_tokens:
  "is_fixture_identity s \<longleftrightarrow>
     (\<exists>r \<in> set FIXTURE_IDENTITY_TOKENS. \<exists>a w b.
        id_tokens s = a @ w @ b \<and> list_all2 eq_ignore_ascii_case w (id_tokens r))"
proof -
  have ne: "id_tokens r \<noteq> []" if "r \<in> set FIXTURE_IDENTITY_TOKENS" for r
    using that by (auto simp: FIXTURE_IDENTITY_TOKENS_def id_tokens_def is_ascii_alphanumeric_def)
  have step: "list_ex (\<lambda>w. list_all2 eq_ignore_ascii_case w rs) (windows (length rs) toks) \<longleftrightarrow>
      (\<exists>a w b. toks = a @ w @ b \<and> list_all2 eq_ignore_ascii_case w rs)"
    if "rs \<noteq> []" for rs toks :: "string list"
  proof -
    have "0 < length rs" using that by simp
    then show ?thesis
      unfolding list_ex_iff by (metis list_all2_lengthD windows_iff)
  qed
  show ?thesis
    using ne unfolding is_fixture_identity_def Let_def
    by (auto simp: list_ex_iff [where xs = FIXTURE_IDENTITY_TOKENS] step list_all2_Nil)
qed

end
