(* ===== verification/Stage_Shards.thy ===== *)
theory Stage_Shards
  imports Ordered_Map Identity_Guard
begin

text \<open>
  The stage: sealed shards and their sequence counter (\<open>store.rs\<close>), the one shard writer
  (\<open>shard_writer.rs\<close>) and the per-shard digest records (\<open>shard_facts.rs\<close>). The state is the
  tree of files below the stage root; every operation runs under a fault schedule. SHA-256
  and the JSON form of a digest record are parameters, as their code is not part of the
  repository.
\<close>

section \<open>Names\<close>

definition SESSIONS_DIR :: string where "SESSIONS_DIR = ''sessions''"
definition MACHINE_LOGS_DIR :: string where "MACHINE_LOGS_DIR = ''machine-logs''"
definition SHARD_SUFFIX :: string where "SHARD_SUFFIX = ''.jsonl''"
definition SHARD_SEQ_FILE :: string where "SHARD_SEQ_FILE = ''shard-seq''"
definition FACTS_FILE :: string where "FACTS_FILE = ''shard-facts''"
definition INBOX_TMP_SUFFIX :: string where "INBOX_TMP_SUFFIX = ''.jsonl.tmp''"
definition EXTRA_FILE_PREFIX :: string where "EXTRA_FILE_PREFIX = ''extra-''"
definition DEFAULT_SHARD_BUCKET_CAP :: nat where "DEFAULT_SHARD_BUCKET_CAP = 20"

lemmas name_defs = SESSIONS_DIR_def MACHINE_LOGS_DIR_def SHARD_SUFFIX_def SHARD_SEQ_FILE_def
  FACTS_FILE_def INBOX_TMP_SUFFIX_def EXTRA_FILE_PREFIX_def DEFAULT_SHARD_BUCKET_CAP_def

definition session_shard_dir :: "string \<Rightarrow> string \<Rightarrow> path" where
  "session_shard_dir machine session_id = [SESSIONS_DIR, machine, session_id]"

definition machine_log_shard_dir :: "string \<Rightarrow> string \<Rightarrow> string \<Rightarrow> path" where
  "machine_log_shard_dir machine harness log_id = [MACHINE_LOGS_DIR, machine, harness, log_id]"

definition shard_bucket_name :: "nat \<Rightarrow> nat \<Rightarrow> string" where
  "shard_bucket_name seq bucket_cap = pad0 3 (dec ((seq - 1) div max bucket_cap 1))"

definition shard_filename :: "nat \<Rightarrow> string" where
  "shard_filename seq = pad0 6 (dec seq) @ SHARD_SUFFIX"

definition shard_path_in_dir :: "path \<Rightarrow> nat \<Rightarrow> nat \<Rightarrow> path" where
  "shard_path_in_dir dir seq bucket_cap = dir @ [shard_bucket_name seq bucket_cap, shard_filename seq]"

definition shard_path_with_cap :: "string \<Rightarrow> string \<Rightarrow> nat \<Rightarrow> nat \<Rightarrow> path" where
  "shard_path_with_cap machine session_id seq bucket_cap =
     shard_path_in_dir (session_shard_dir machine session_id) seq bucket_cap"

definition shard_path :: "string \<Rightarrow> string \<Rightarrow> nat \<Rightarrow> path" where
  "shard_path machine session_id seq =
     shard_path_with_cap machine session_id seq DEFAULT_SHARD_BUCKET_CAP"

definition parse_shard_seq :: "string \<Rightarrow> nat option" where
  "parse_shard_seq name =
     (case strip_suffix name SHARD_SUFFIX of
        None \<Rightarrow> None
      | Some base \<Rightarrow> if length base \<noteq> 6 \<or> \<not> list_all is_digit base then None else parse_u64 base)"

definition shard_seq_file_in_dir :: "path \<Rightarrow> path" where
  "shard_seq_file_in_dir dir = dir @ [SHARD_SEQ_FILE]"

definition is_extra_file :: "string \<Rightarrow> bool" where
  "is_extra_file name = (take (length EXTRA_FILE_PREFIX) name = EXTRA_FILE_PREFIX)"

section \<open>Writers and errors\<close>

datatype stage_writer = Collect | Ingest | Seal | Restore | ExportFile

definition STAGE_WRITER_REGISTRY :: "(stage_writer \<times> string option) list" where
  "STAGE_WRITER_REGISTRY =
     [(Collect, Some ''collector cursor + stage shard audit''),
      (Ingest, Some ''consumed file_sha256 audit''),
      (Seal, Some ''stage-owned rename audit''),
      (Restore, Some ''restored concat sha256 vs source destination''),
      (ExportFile, Some ''export-files content address vs export-files-v1.jsonl row'')]"

datatype seq_error = SeqRead | SeqParse

datatype stage_error =
    IoError
  | WriterNotRegistered stage_writer
  | WriterWithoutHook stage_writer
  | CounterUnusable seq_error
  | TargetExists path
  | FixtureRefused string
  | ActiveOutsideStage
  | ActiveMissing
  | DuplicateNameInvalid
  | MachineMismatch "string list"

fun assert_stage_writer_audited :: "stage_writer \<Rightarrow> stage_error + unit" where
  "assert_stage_writer_audited writer =
     (case map_of STAGE_WRITER_REGISTRY writer of
        None \<Rightarrow> Inl (WriterNotRegistered writer)
      | Some hook \<Rightarrow>
          if hook = None \<or> hook = Some '''' then Inl (WriterWithoutHook writer) else Inr ())"

text \<open>
  What the environment supplies: the fault schedule, SHA-256, the JSON codec of digest
  records, the absolute paths of the temporary directory and of the stage root, and the
  answers \<open>fs::metadata\<close> gives for the directories above a missing counter.
\<close>

record shard_fact =
  sf_seq :: nat
  sf_bytes :: nat
  sf_sha256 :: string

datatype ancestor = IsDir | NotADir | AbsentDir | StatFails

record env = schedule +
  sha256 :: "bytes \<Rightarrow> bytes"
  enc_fact :: "shard_fact \<Rightarrow> string option"
  dec_fact :: "string \<Rightarrow> shard_fact option"
  temp_dir :: path
  stage_root :: path
  ancestors :: "path \<Rightarrow> ancestor list"

section \<open>Enumerating sealed shards\<close>

text \<open>
  The number of a path below a shard directory: a file directly in it (the legacy layout) or
  one bucket below it, whose name parses.
\<close>

definition shard_seq_of :: "path \<Rightarrow> path \<Rightarrow> nat option" where
  "shard_seq_of dir p =
     (if take (length dir) p = dir then
        (case drop (length dir) p of
           [name] \<Rightarrow> parse_shard_seq name
         | [_, name] \<Rightarrow> parse_shard_seq name
         | _ \<Rightarrow> None)
      else None)"

definition entries_of :: "path \<Rightarrow> fs \<Rightarrow> (nat \<times> path) list" where
  "entries_of dir f =
     List.map_filter (\<lambda>(p, _). map_option (\<lambda>n. (n, p)) (shard_seq_of dir p)) f"

definition sealed_shard_entries :: "env \<Rightarrow> path \<Rightarrow> (world, stage_error, (nat \<times> path) list) io" where
  "sealed_shard_entries e dir =
     io_bind (touch e IoError) (\<lambda>_ w. (Inr (entries_of dir (files w)), w))"

definition sort_entries :: "(nat \<times> path) list \<Rightarrow> (nat \<times> path) list" where
  "sort_entries es = sort_key fst es"

fun read_all :: "env \<Rightarrow> (nat \<times> path) list \<Rightarrow> (world, stage_error, bytes) io" where
  "read_all e [] = io_return []"
| "read_all e ((_, p) # es) =
     io_bind (read_file e IoError p) (\<lambda>c. io_bind (read_all e es) (\<lambda>r. io_return (c @ r)))"

definition concat_shards_in_dir :: "env \<Rightarrow> path \<Rightarrow> (world, stage_error, bytes) io" where
  "concat_shards_in_dir e dir =
     io_bind (sealed_shard_entries e dir) (\<lambda>es. read_all e (sort_entries es))"

definition concat_sha_of :: "env \<Rightarrow> string \<Rightarrow> string \<Rightarrow> (world, stage_error, string) io" where
  "concat_sha_of e machine session_id =
     io_bind (concat_shards_in_dir e (session_shard_dir machine session_id))
       (\<lambda>raw. io_return (hex (sha256 e raw)))"

fun find_dup :: "env \<Rightarrow> bytes \<Rightarrow> (nat \<times> path) list \<Rightarrow> (world, stage_error, string option) io" where
  "find_dup e raw [] = io_return None"
| "find_dup e raw ((seq, p) # es) =
     io_bind (read_file e IoError p) (\<lambda>c.
       if sha256 e c = sha256 e raw then io_return (Some (shard_filename seq)) else find_dup e raw es)"

definition find_duplicate_shard_in_dir ::
  "env \<Rightarrow> path \<Rightarrow> bytes \<Rightarrow> (world, stage_error, string option) io" where
  "find_duplicate_shard_in_dir e dir raw =
     io_bind (sealed_shard_entries e dir) (\<lambda>es. find_dup e raw (sort_entries es))"

section \<open>The sequence counter\<close>

datatype seq_state = SeqMissing | SeqLoaded nat | SeqUnusable seq_error

fun confirm_shard_seq_absence :: "ancestor list \<Rightarrow> bool" where
  "confirm_shard_seq_absence [] = True"
| "confirm_shard_seq_absence (IsDir # _) = True"
| "confirm_shard_seq_absence (NotADir # _) = False"
| "confirm_shard_seq_absence (AbsentDir # r) = confirm_shard_seq_absence r"
| "confirm_shard_seq_absence (StatFails # _) = False"

definition classify_counter :: "bytes \<Rightarrow> seq_state" where
  "classify_counter raw =
     (if \<not> valid_utf8 raw then SeqUnusable SeqRead
      else case parse_u64 (trim raw) of
          None \<Rightarrow> SeqUnusable SeqParse
        | Some seq \<Rightarrow> SeqLoaded seq)"

definition load_shard_seq_state_in_dir :: "env \<Rightarrow> path \<Rightarrow> (world, stage_error, seq_state) io" where
  "load_shard_seq_state_in_dir e p w =
     (Inr (if fault e (clock w) then SeqUnusable SeqRead
           else case map_of (files w) p of
               None \<Rightarrow> if confirm_shard_seq_absence (ancestors e p) then SeqMissing
                       else SeqUnusable SeqRead
             | Some raw \<Rightarrow> classify_counter raw),
      w\<lparr>clock := Suc (clock w)\<rparr>)"

definition derive_shard_high_water_in_dir :: "env \<Rightarrow> path \<Rightarrow> (world, stage_error, nat) io" where
  "derive_shard_high_water_in_dir e dir =
     io_bind (sealed_shard_entries e dir) (\<lambda>es. io_return (foldr (max \<circ> fst) es 0))"

definition persist_shard_seq_in_dir :: "env \<Rightarrow> path \<Rightarrow> nat \<Rightarrow> (world, stage_error, unit) io" where
  "persist_shard_seq_in_dir e dir seq =
     (let tmp = dir @ [''.shard-seq.tmp''] in
      io_bind (touch e IoError) (\<lambda>_.
      io_bind (io_bind (file_exists e tmp)
                 (\<lambda>x. if x then remove_file e IoError tmp else io_return ())) (\<lambda>_.
      io_bind (write_synced e IoError tmp (dec seq)) (\<lambda>_.
      io_bind (rename_file e IoError tmp (shard_seq_file_in_dir dir)) (\<lambda>_.
      touch e IoError)))))"

text \<open>
  \<open>next_shard_seq_in_dir\<close>. The addition is the one of a release build, which wraps at
  \<open>2^64\<close>.
\<close>

definition next_shard_seq_in_dir :: "env \<Rightarrow> path \<Rightarrow> (world, stage_error, nat) io" where
  "next_shard_seq_in_dir e dir =
     io_bind (load_shard_seq_state_in_dir e (shard_seq_file_in_dir dir)) (\<lambda>st.
     io_bind (case st of
                SeqMissing \<Rightarrow> derive_shard_high_water_in_dir e dir
              | SeqLoaded seq \<Rightarrow> io_return seq
              | SeqUnusable err \<Rightarrow> io_fail (CounterUnusable err)) (\<lambda>high_water.
     let next = (high_water + 1) mod 2 ^ 64 in
     io_bind (persist_shard_seq_in_dir e dir next) (\<lambda>_. io_return next)))"

section \<open>Digest records\<close>

definition fact_for :: "env \<Rightarrow> nat \<Rightarrow> bytes \<Rightarrow> shard_fact" where
  "fact_for e seq raw =
     \<lparr>sf_seq = seq, sf_bytes = length raw, sf_sha256 = hex (sha256 e raw)\<rparr>"

text \<open>Any damaged line forfeits the whole file.\<close>

fun read_facts :: "(string \<Rightarrow> shard_fact option) \<Rightarrow> string list \<Rightarrow> (nat \<times> shard_fact) list \<Rightarrow>
    (nat \<times> shard_fact) list option" where
  "read_facts d [] m = Some m"
| "read_facts d (l # ls) m =
     (if trim l = [] then read_facts d ls m
      else case d (trim l) of None \<Rightarrow> None | Some x \<Rightarrow> read_facts d ls (bt_insert (sf_seq x) x m))"

definition parse_facts :: "env \<Rightarrow> bytes \<Rightarrow> (nat \<times> shard_fact) list option" where
  "parse_facts e raw =
     (if valid_utf8 raw then read_facts (dec_fact e) (lines_of raw) [] else None)"

definition read_facts_in_dir ::
  "env \<Rightarrow> path \<Rightarrow> (world, stage_error, (nat \<times> shard_fact) list option) io" where
  "read_facts_in_dir e dir w =
     (Inr (if fault e (clock w) then None
           else Option.bind (map_of (files w) (dir @ [FACTS_FILE])) (parse_facts e)),
      w\<lparr>clock := Suc (clock w)\<rparr>)"

fun render_facts :: "(shard_fact \<Rightarrow> string option) \<Rightarrow> shard_fact list \<Rightarrow> string option" where
  "render_facts en [] = Some []"
| "render_facts en (x # xs) =
     (case en x of None \<Rightarrow> None | Some l \<Rightarrow> map_option (\<lambda>r. l @ newline # r) (render_facts en xs))"

definition record_in_dir :: "env \<Rightarrow> path \<Rightarrow> shard_fact \<Rightarrow> (world, stage_error, unit) io" where
  "record_in_dir e dir x =
     (let tmp = dir @ [''.shard-facts.tmp''] in
      io_bind (read_facts_in_dir e dir) (\<lambda>old.
      let entries = bt_insert (sf_seq x) x (case old of None \<Rightarrow> [] | Some m \<Rightarrow> m) in
      case render_facts (enc_fact e) (map snd entries) of
        None \<Rightarrow> io_fail IoError
      | Some body \<Rightarrow>
          io_bind (touch e IoError) (\<lambda>_.
          io_bind (write_synced e IoError tmp body) (\<lambda>_.
          rename_file e IoError tmp (dir @ [FACTS_FILE])))))"

definition record_shard_fact :: "env \<Rightarrow> path \<Rightarrow> nat \<Rightarrow> bytes \<Rightarrow> (world, stage_error, unit) io" where
  "record_shard_fact e dir seq raw = io_ignore (record_in_dir e dir (fact_for e seq raw))"

section \<open>The shard writer\<close>

datatype shard_source =
    Inbox "bytes list"
  | Store bytes stage_writer bool
  | Active path bytes

datatype shard_write = Existing string | Allocated nat

fun write_filename :: "shard_write \<Rightarrow> string" where
  "write_filename (Existing name) = name"
| "write_filename (Allocated seq) = shard_filename seq"

fun write_sequence :: "shard_write \<Rightarrow> nat option" where
  "write_sequence (Existing name) = parse_shard_seq name"
| "write_sequence (Allocated seq) = Some seq"

definition seal_framed_lines :: "bytes list \<Rightarrow> bytes" where
  "seal_framed_lines ls = concat (map (\<lambda>l. l @ [newline]) ls)"

fun source_raw :: "shard_source \<Rightarrow> bytes" where
  "source_raw (Inbox ls) = seal_framed_lines ls"
| "source_raw (Store raw _ _) = raw"
| "source_raw (Active _ raw) = raw"

fun dedups :: "shard_source \<Rightarrow> bool" where
  "dedups (Store _ Restore _) = False"
| "dedups (Store _ _ True) = False"
| "dedups _ = True"

fun is_inbox :: "shard_source \<Rightarrow> bool" where
  "is_inbox (Inbox _) = True"
| "is_inbox _ = False"

fun is_active :: "shard_source \<Rightarrow> bool" where
  "is_active (Active _ _) = True"
| "is_active _ = False"

definition stale_tmps :: "path \<Rightarrow> fs \<Rightarrow> path list" where
  "stale_tmps dir f =
     filter (\<lambda>p. take (length dir) p = dir \<and> length dir < length p \<and> ends_with (last p) INBOX_TMP_SUFFIX)
       (map fst f)"

text \<open>Listing a directory may fail between two removals; a failed removal is ignored.\<close>

definition clean_stale_tmp :: "env \<Rightarrow> path \<Rightarrow> (world, stage_error, unit) io" where
  "clean_stale_tmp e dir w =
     io_bind (touch e IoError)
       (\<lambda>_. io_for (stale_tmps dir (files w))
          (\<lambda>p. io_bind (touch e IoError) (\<lambda>_. io_ignore (remove_file e IoError p)))) w"

definition install_active ::
  "env \<Rightarrow> path \<Rightarrow> path \<Rightarrow> path \<Rightarrow> nat \<Rightarrow> bytes \<Rightarrow> (world, stage_error, shard_write) io" where
  "install_active e dir target active seq raw =
     io_bind (file_exists e target) (\<lambda>x.
     if x then io_fail (TargetExists target)
     else io_bind (rename_file e IoError active target) (\<lambda>_.
          io_bind (record_shard_fact e dir seq raw) (\<lambda>_. io_return (Allocated seq))))"

definition install_inbox ::
  "env \<Rightarrow> path \<Rightarrow> path \<Rightarrow> nat \<Rightarrow> bytes \<Rightarrow> (world, stage_error, shard_write) io" where
  "install_inbox e dir target seq raw =
     (let tmp = butlast target @ [pad0 6 (dec seq) @ INBOX_TMP_SUFFIX] in
      io_bind (write_synced e IoError tmp raw) (\<lambda>_.
      io_bind (rename_file e IoError tmp target) (\<lambda>_.
      io_bind (touch e IoError) (\<lambda>_.
      io_bind (record_shard_fact e dir seq raw) (\<lambda>_. io_return (Allocated seq))))))"

definition install_store ::
  "env \<Rightarrow> path \<Rightarrow> path \<Rightarrow> nat \<Rightarrow> bytes \<Rightarrow> (world, stage_error, shard_write) io" where
  "install_store e dir target seq raw =
     (let tmp = butlast target @ [''.'' @ shard_filename seq @ ''tmp''] in
      io_bind (io_bind (file_exists e tmp)
                 (\<lambda>x. if x then remove_file e IoError tmp else io_return ())) (\<lambda>_.
      io_bind (write_synced e IoError tmp raw) (\<lambda>_.
      io_bind (file_exists e target) (\<lambda>y.
      if y then io_fail (TargetExists target)
      else io_bind (rename_file e IoError tmp target) (\<lambda>_.
           io_bind (record_shard_fact e dir seq raw) (\<lambda>_. io_return (Allocated seq)))))))"

definition allocate_and_install ::
  "env \<Rightarrow> path \<Rightarrow> nat \<Rightarrow> shard_source \<Rightarrow> (world, stage_error, shard_write) io" where
  "allocate_and_install e dir bucket_cap source =
     io_bind (if is_inbox source then clean_stale_tmp e dir else io_return ()) (\<lambda>_.
     io_bind (next_shard_seq_in_dir e dir) (\<lambda>seq.
     let target = shard_path_in_dir dir seq bucket_cap in
     io_bind (touch e IoError) (\<lambda>_.
     case source of
       Active active raw \<Rightarrow> install_active e dir target active seq raw
     | Inbox _ \<Rightarrow> install_inbox e dir target seq (source_raw source)
     | Store raw _ _ \<Rightarrow> install_store e dir target seq raw)))"

definition write_shard_in_dir ::
  "env \<Rightarrow> path \<Rightarrow> nat \<Rightarrow> shard_source \<Rightarrow> string list \<Rightarrow> (world, stage_error, shard_write) io" where
  "write_shard_in_dir e dir bucket_cap source identity =
     io_bind (if is_inbox source
              then (case refuse_fixture_write (temp_dir e) identity (stage_root e) of
                      Inl i \<Rightarrow> io_fail (FixtureRefused i) | Inr u \<Rightarrow> io_return u)
              else io_return ()) (\<lambda>_.
     io_bind (if is_active source then io_return () else touch e IoError) (\<lambda>_.
     io_bind (if dedups source then find_duplicate_shard_in_dir e dir (source_raw source)
              else io_return None) (\<lambda>dup.
     case dup of
       Some existing \<Rightarrow> io_return (Existing existing)
     | None \<Rightarrow> allocate_and_install e dir bucket_cap source)))"

definition write_shard ::
  "env \<Rightarrow> string \<Rightarrow> string \<Rightarrow> nat \<Rightarrow> shard_source \<Rightarrow> (world, stage_error, shard_write) io" where
  "write_shard e machine i bucket_cap source =
     write_shard_in_dir e (session_shard_dir machine i) bucket_cap source [i]"

end
