(* ===== verification/Stage_Names.thy ===== *)
theory Stage_Names
  imports Stage_Shards
begin

text \<open>
  Facts about shard names: the file name of a sequence number parses back below one million
  and is invisible from there on; a name that parses is the canonical one; a bucket holds at
  most its cap.
\<close>

lemma undec_bound: "list_all is_digit s \<Longrightarrow> undec s < 10 ^ length s"
proof (induction s rule: rev_induct)
  case (snoc c s)
  then have "digit_val c \<le> 9" "undec s < 10 ^ length s"
    by (auto simp: digit_val_def is_digit_def)
  then show ?case by simp
qed (simp add: undec_def)

lemma digit_val_inj: "is_digit c \<Longrightarrow> is_digit d \<Longrightarrow> digit_val c = digit_val d \<Longrightarrow> c = d"
  by (auto simp: is_digit_def digit_val_def dest: of_char_eq_iff [THEN iffD1, rotated])
    (metis diff_diff_cancel diff_is_0_eq le_add_diff_inverse of_char_eq_iff)

lemma undec_inj:
  "length s = length t \<Longrightarrow> list_all is_digit s \<Longrightarrow> list_all is_digit t \<Longrightarrow> undec s = undec t \<Longrightarrow> s = t"
proof (induction s arbitrary: t rule: rev_induct)
  case (snoc c s)
  then obtain t' d where t: "t = t' @ [d]" by (cases t rule: rev_cases) auto
  with snoc.prems have "digit_val c < 10" "digit_val d < 10"
    by (auto simp: digit_val_def is_digit_def)
  moreover have "undec s * 10 + digit_val c = undec t' * 10 + digit_val d"
    using snoc.prems t by simp
  ultimately have "undec s = undec t'" "digit_val c = digit_val d" by presburger+
  with snoc t show ?case by (auto intro: digit_val_inj)
qed simp

lemma list_all_pad0 [simp]: "list_all is_digit (pad0 w (dec n))"
  by (auto simp: list_all_iff dest: pad0_digits)

lemma parse_u64_digits:
  assumes "s \<noteq> []" "list_all is_digit s"
  shows "parse_u64 s = (if undec s \<le> u64_max then Some (undec s) else None)"
proof -
  have "(case s of [] \<Rightarrow> s | c # r \<Rightarrow> if c = CHR ''+'' then r else s) = s"
    using assms by (cases s) (auto simp: is_digit_def)
  with assms show ?thesis by (simp add: parse_u64_def)
qed

lemma parse_shard_filename:
  "parse_shard_seq (shard_filename n) = (if n < 1000000 then Some n else None)"
proof -
  have len: "length (pad0 6 (dec n)) = 6 \<longleftrightarrow> n < 1000000"
    using length_pad0 [of 6 n] by simp
  show ?thesis
  proof (cases "n < 1000000")
    case True
    with len have "pad0 6 (dec n) \<noteq> []" by auto
    then have "parse_u64 (pad0 6 (dec n)) = Some n"
      using True by (simp add: parse_u64_digits u64_max_def)
    with True len show ?thesis by (simp add: parse_shard_seq_def shard_filename_def)
  next
    case False
    with len show ?thesis by (simp add: parse_shard_seq_def shard_filename_def)
  qed
qed

lemma parse_shard_seq_canonical:
  assumes "parse_shard_seq name = Some n"
  shows "name = shard_filename n \<and> n < 1000000"
proof -
  from assms obtain base where name: "name = base @ SHARD_SUFFIX"
    and base: "length base = 6" "list_all is_digit base" "parse_u64 base = Some n"
    by (auto simp: parse_shard_seq_def strip_suffix_eq_Some split: option.splits if_splits)
  from base have n: "n = undec base" by (cases base) (auto simp: parse_u64_digits split: if_splits)
  with undec_bound [OF base(2)] base(1) have "n < 1000000" by simp
  moreover from this have "length (pad0 6 (dec n)) = 6" using length_pad0 [of 6 n] by simp
  then have "base = pad0 6 (dec n)"
    using base n by (intro undec_inj) auto
  ultimately show ?thesis by (simp add: name shard_filename_def)
qed

lemma shard_filename_inj: "shard_filename m = shard_filename n \<Longrightarrow> m = n"
  by (auto simp: shard_filename_def dest: pad0_inj)

lemma shard_filename_hd_last: "is_digit (hd (shard_filename n))" "last (shard_filename n) = CHR ''l''"
proof -
  have "pad0 6 (dec n) \<noteq> []" by (simp add: pad0_def)
  then show "is_digit (hd (shard_filename n))"
    using list_all_pad0 [of 6 n] by (cases "pad0 6 (dec n)") (auto simp: shard_filename_def)
  show "last (shard_filename n) = CHR ''l''"
    by (simp add: shard_filename_def SHARD_SUFFIX_def)
qed

text \<open>The paths that could hold shard \<open>n\<close>, in either layout and whatever its size.\<close>

definition numbered :: "path \<Rightarrow> path \<Rightarrow> nat \<Rightarrow> bool" where
  "numbered dir p n \<longleftrightarrow> p = dir @ [shard_filename n] \<or> (\<exists>b. p = dir @ [b, shard_filename n])"

lemma shard_seq_of_numbered: "shard_seq_of dir p = Some n \<longleftrightarrow> numbered dir p n \<and> n < 1000000"
proof
  assume "shard_seq_of dir p = Some n"
  then obtain rest where p: "p = dir @ rest"
    and "(case rest of [name] \<Rightarrow> parse_shard_seq name | [_, name] \<Rightarrow> parse_shard_seq name | _ \<Rightarrow> None) = Some n"
    unfolding shard_seq_of_def by (metis append_take_drop_id option.distinct(1))
  then show "numbered dir p n \<and> n < 1000000"
    by (auto simp: numbered_def split: list.splits dest!: parse_shard_seq_canonical)
next
  assume "numbered dir p n \<and> n < 1000000"
  then show "shard_seq_of dir p = Some n"
    by (auto simp: numbered_def shard_seq_of_def parse_shard_filename)
qed

lemma numbered_shard_path [simp]: "numbered dir (shard_path_in_dir dir n cap) n"
  by (simp add: numbered_def shard_path_in_dir_def)

lemma numbered_fun: "numbered dir p m \<Longrightarrow> numbered dir p n \<Longrightarrow> m = n"
  by (auto simp: numbered_def dest: shard_filename_inj)

text \<open>A bucket is one block of consecutive sequence numbers, at most \<open>cap\<close> of them.\<close>

lemma shard_bucket_name_eq_iff:
  "shard_bucket_name m cap = shard_bucket_name n cap \<longleftrightarrow> (m - 1) div max cap 1 = (n - 1) div max cap 1"
  by (auto simp: shard_bucket_name_def dest: pad0_inj)

lemma bucket_block:
  assumes "0 < n" "shard_bucket_name m cap = shard_bucket_name n cap" "0 < m"
  shows "m \<in> {(n - 1) div max cap 1 * max cap 1 + 1 .. (n - 1) div max cap 1 * max cap 1 + max cap 1}"
proof -
  let ?c = "max cap 1"
  have "(m - 1) div ?c = (n - 1) div ?c" using assms shard_bucket_name_eq_iff by blast
  moreover have "(m - 1) div ?c * ?c + (m - 1) mod ?c = m - 1" by (rule div_mult_mod_eq)
  moreover have "(m - 1) mod ?c < ?c" by simp
  ultimately show ?thesis using assms(3) by simp linarith
qed

end
