(* ===== verification/Stage_Safety.thy ===== *)
theory Stage_Safety
  imports Stage_Names
begin

text \<open>
  What the shard writer guarantees under every fault schedule: the sequence counter never
  falls behind the numbers in use, no sealed shard is lost or altered, and a shard that
  appears under its name is complete.
\<close>

section \<open>Invariants of one shard directory\<close>

abbreviation ctr :: "path \<Rightarrow> path" where
  "ctr \<equiv> shard_seq_file_in_dir"

definition present :: "fs \<Rightarrow> path \<Rightarrow> bool" where
  "present f p \<longleftrightarrow> map_of f p \<noteq> None"

definition counter_inv :: "path \<Rightarrow> fs \<Rightarrow> bool" where
  "counter_inv dir f \<longleftrightarrow>
     (case map_of f (ctr dir) of
        None \<Rightarrow> (\<forall>p n. numbered dir p n \<longrightarrow> present f p \<longrightarrow> n < 1000000)
      | Some raw \<Rightarrow> (\<forall>c. classify_counter raw = SeqLoaded c \<longrightarrow>
                      (\<forall>p n. numbered dir p n \<longrightarrow> present f p \<longrightarrow> n \<le> c)))"

definition counter_room :: "path \<Rightarrow> fs \<Rightarrow> bool" where
  "counter_room dir f \<longleftrightarrow>
     (\<forall>raw c. map_of f (ctr dir) = Some raw \<longrightarrow> classify_counter raw = SeqLoaded c \<longrightarrow> c < u64_max)"

text \<open>
  From \<open>f0\<close> to \<open>f\<close>: outside the directory nothing changed but \<open>moved\<close>, no shard was lost or
  altered, and at most one shard is new: it holds exactly \<open>raw\<close>, and its number is above those
  of all earlier ones.
\<close>

definition keeps :: "path \<Rightarrow> bytes \<Rightarrow> path option \<Rightarrow> fs \<Rightarrow> fs \<Rightarrow> bool" where
  "keeps dir raw moved f0 f \<longleftrightarrow>
     (\<forall>p. take (length dir) p \<noteq> dir \<longrightarrow> Some p \<noteq> moved \<longrightarrow> map_of f p = map_of f0 p) \<and>
     (\<forall>p n c. numbered dir p n \<longrightarrow> map_of f0 p = Some c \<longrightarrow> map_of f p = Some c) \<and>
     (\<forall>p n c. numbered dir p n \<longrightarrow> map_of f p = Some c \<longrightarrow> map_of f0 p = Some c \<or>
        map_of f0 p = None \<and> c = raw \<and> (\<forall>q m. numbered dir q m \<longrightarrow> map_of f0 q \<noteq> None \<longrightarrow> m < n) \<and>
        (\<forall>q m. numbered dir q m \<longrightarrow> map_of f q \<noteq> None \<longrightarrow> map_of f0 q = None \<longrightarrow> q = p))"

lemma keeps_cong:
  assumes k: "keeps dir raw moved f0 f"
    and out: "\<And>p. take (length dir) p \<noteq> dir \<Longrightarrow> map_of g p = map_of f p"
    and num: "\<And>p n. numbered dir p n \<Longrightarrow> map_of g p = map_of f p"
  shows "keeps dir raw moved f0 g"
  unfolding keeps_def
proof (intro conjI allI impI)
  fix p n c assume p: "numbered dir p n" "map_of g p = Some c"
  then have "map_of f p = Some c" using num by metis
  with k p(1) have "map_of f0 p = Some c \<or>
        map_of f0 p = None \<and> c = raw \<and> (\<forall>q m. numbered dir q m \<longrightarrow> map_of f0 q \<noteq> None \<longrightarrow> m < n) \<and>
        (\<forall>q m. numbered dir q m \<longrightarrow> map_of f q \<noteq> None \<longrightarrow> map_of f0 q = None \<longrightarrow> q = p)"
    unfolding keeps_def by meson
  moreover have "(\<forall>q m. numbered dir q m \<longrightarrow> map_of g q \<noteq> None \<longrightarrow> map_of f0 q = None \<longrightarrow> q = p) \<longleftrightarrow>
      (\<forall>q m. numbered dir q m \<longrightarrow> map_of f q \<noteq> None \<longrightarrow> map_of f0 q = None \<longrightarrow> q = p)"
    using num by (intro iff_allI imp_cong refl) simp
  ultimately show "map_of f0 p = Some c \<or>
        map_of f0 p = None \<and> c = raw \<and> (\<forall>q m. numbered dir q m \<longrightarrow> map_of f0 q \<noteq> None \<longrightarrow> m < n) \<and>
        (\<forall>q m. numbered dir q m \<longrightarrow> map_of g q \<noteq> None \<longrightarrow> map_of f0 q = None \<longrightarrow> q = p)"
    by (simp only:)
next
  fix p assume "take (length dir) p \<noteq> dir" "Some p \<noteq> moved"
  with k out show "map_of g p = map_of f0 p" unfolding keeps_def by simp
next
  fix p n c assume "numbered dir p n" "map_of f0 p = Some c"
  with k have "map_of f p = Some c" unfolding keeps_def by meson
  with num [OF \<open>numbered dir p n\<close>] show "map_of g p = Some c" by simp
qed

text \<open>No shard was sealed since \<open>f0\<close>.\<close>

definition unsealed :: "path \<Rightarrow> fs \<Rightarrow> fs \<Rightarrow> bool" where
  "unsealed dir f0 f \<longleftrightarrow> (\<forall>p n. numbered dir p n \<longrightarrow> map_of f p = map_of f0 p)"

lemma unsealed_refl [simp]: "unsealed dir f f"
  by (simp add: unsealed_def)

lemma keeps_refl [simp]: "keeps dir raw moved f f"
  by (simp add: keeps_def)

definition aux_path :: "path \<Rightarrow> path \<Rightarrow> bool" where
  "aux_path dir p \<longleftrightarrow> take (length dir) p = dir \<and> (\<forall>n. \<not> numbered dir p n) \<and> p \<noteq> ctr dir"

lemma shard_filename_neq: "last s \<noteq> CHR ''l'' \<Longrightarrow> s \<noteq> shard_filename n"
  by (metis shard_filename_hd_last(2))

lemma ctr_not_numbered [simp]: "\<not> numbered dir (ctr dir) n"
  using shard_filename_neq [of "''shard-seq''" n]
  by (auto simp: numbered_def shard_seq_file_in_dir_def SHARD_SEQ_FILE_def)

lemma ctr_under [simp]: "take (length dir) (ctr dir) = dir"
  by (simp add: shard_seq_file_in_dir_def)

lemma aux_pathI:
  assumes "p = dir @ [name] \<or> p = dir @ [b, name]"
    and "\<not> is_digit (hd name) \<or> last name \<noteq> CHR ''l''" and "name \<noteq> SHARD_SEQ_FILE"
  shows "aux_path dir p"
  using assms shard_filename_hd_last
  by (auto simp: aux_path_def numbered_def shard_seq_file_in_dir_def)

lemma aux_counter_tmp: "aux_path dir (dir @ [''.shard-seq.tmp''])"
  and aux_facts: "aux_path dir (dir @ [FACTS_FILE])"
  and aux_facts_tmp: "aux_path dir (dir @ [''.shard-facts.tmp''])"
  by (rule aux_pathI [where b = "[]"], simp,
      simp_all add: name_defs is_digit_def)+

lemma aux_inbox_tmp: "aux_path dir (dir @ [b, s @ INBOX_TMP_SUFFIX])"
  by (rule aux_pathI [where b = b]) (auto simp: name_defs dest: arg_cong [where f = last])

lemma aux_store_tmp: "aux_path dir (dir @ [b, ''.'' @ s])"
  by (rule aux_pathI [where b = b]) (auto simp: name_defs is_digit_def)

definition counter_value :: "path \<Rightarrow> fs \<Rightarrow> nat option" where
  "counter_value dir f =
     (case map_of f (ctr dir) of
        None \<Rightarrow> None
      | Some raw \<Rightarrow> (case classify_counter raw of SeqLoaded c \<Rightarrow> Some c | _ \<Rightarrow> None))"

definition counter_mono :: "path \<Rightarrow> fs \<Rightarrow> fs \<Rightarrow> bool" where
  "counter_mono dir f0 f \<longleftrightarrow>
     (\<forall>c0. counter_value dir f0 = Some c0 \<longrightarrow> (\<exists>c. counter_value dir f = Some c \<and> c0 \<le> c))"

lemma counter_mono_refl [simp]: "counter_mono dir f f"
  by (simp add: counter_mono_def)

definition settled :: "path \<Rightarrow> bytes \<Rightarrow> path option \<Rightarrow> fs \<Rightarrow> fs \<Rightarrow> bool" where
  "settled dir raw moved f0 f \<longleftrightarrow>
     keeps dir raw moved f0 f \<and> counter_inv dir f \<and> counter_mono dir f0 f \<and> distinct (map fst f)"

text \<open>A change of an auxiliary file keeps everything; this carries all intermediate steps.\<close>

definition same_core :: "path \<Rightarrow> fs \<Rightarrow> fs \<Rightarrow> bool" where
  "same_core dir f g \<longleftrightarrow>
     (\<forall>p. take (length dir) p \<noteq> dir \<longrightarrow> map_of g p = map_of f p) \<and>
     map_of g (ctr dir) = map_of f (ctr dir) \<and>
     (distinct (map fst f) \<longrightarrow> distinct (map fst g)) \<and>
     (\<forall>p n. numbered dir p n \<longrightarrow> map_of g p = map_of f p)"

lemma same_core_aux: "aux_path dir p \<Longrightarrow> same_core dir f (AList.update p c f)"
  "aux_path dir p \<Longrightarrow> same_core dir f (AList.delete p f)"
  by (auto simp: same_core_def aux_path_def distinct_update distinct_delete)

lemma settled_core: "same_core dir f g \<Longrightarrow> settled dir raw moved f0 f \<Longrightarrow> settled dir raw moved f0 g"
proof -
  assume core: "same_core dir f g" and "settled dir raw moved f0 f"
  then have k: "keeps dir raw moved f0 f" and c: "counter_inv dir f"
    and m: "counter_mono dir f0 f" and "distinct (map fst g)"
    by (simp_all add: settled_def same_core_def)
  have "keeps dir raw moved f0 g"
    by (rule keeps_cong [OF k]) (use core in \<open>auto simp: same_core_def\<close>)
  moreover have "present g p = present f p" if "numbered dir p n" for p n
    using core that unfolding same_core_def present_def by metis
  then have "counter_inv dir g"
    using c core unfolding counter_inv_def same_core_def by (auto split: option.splits)
  moreover have "counter_mono dir f0 g"
    using m core by (simp add: counter_mono_def counter_value_def same_core_def)
  ultimately show ?thesis using \<open>distinct (map fst g)\<close> by (simp add: settled_def)
qed

definition core_stable :: "path \<Rightarrow> (fs \<Rightarrow> bool) \<Rightarrow> bool" where
  "core_stable dir P \<longleftrightarrow> (\<forall>f g. same_core dir f g \<longrightarrow> P f \<longrightarrow> P g)"

lemma core_stable_stable: "core_stable dir P \<Longrightarrow> aux_path dir p \<Longrightarrow> stable p P"
  unfolding core_stable_def stable_def by (blast intro: same_core_aux)

text \<open>The directory just before a number is reserved, with an upper bound of those in use.\<close>

definition bounded_by :: "path \<Rightarrow> bytes \<Rightarrow> path option \<Rightarrow> fs \<Rightarrow> nat \<Rightarrow> fs \<Rightarrow> bool" where
  "bounded_by dir raw moved f0 h f \<longleftrightarrow>
     settled dir raw moved f0 f \<and> unsealed dir f0 f \<and> h < u64_max \<and>
     (\<forall>c. counter_value dir f0 = Some c \<longrightarrow> c \<le> h) \<and> (\<forall>p n. numbered dir p n \<longrightarrow> present f p \<longrightarrow> n \<le> h)"

text \<open>The directory after number \<open>n\<close> was reserved: counted, and free.\<close>

definition reserved :: "path \<Rightarrow> bytes \<Rightarrow> path option \<Rightarrow> fs \<Rightarrow> nat \<Rightarrow> fs \<Rightarrow> bool" where
  "reserved dir raw moved f0 n f \<longleftrightarrow>
     settled dir raw moved f0 f \<and> unsealed dir f0 f \<and> n \<le> u64_max \<and>
     map_of f (ctr dir) = Some (dec n) \<and>
     (\<forall>c. counter_value dir f0 = Some c \<longrightarrow> c < n) \<and>
     (\<forall>p. numbered dir p n \<longrightarrow> map_of f p = None) \<and>
     (\<forall>p m. numbered dir p m \<longrightarrow> present f p \<longrightarrow> m \<le> n)"

definition installed :: "path \<Rightarrow> bytes \<Rightarrow> path option \<Rightarrow> fs \<Rightarrow> path \<Rightarrow> nat \<Rightarrow> fs \<Rightarrow> bool" where
  "installed dir raw moved f0 target n f \<longleftrightarrow>
     settled dir raw moved f0 f \<and> n \<le> u64_max \<and> map_of f (ctr dir) = Some (dec n) \<and>
     (\<forall>c. counter_value dir f0 = Some c \<longrightarrow> c < n) \<and>
     map_of f target = Some raw \<and> map_of f0 target = None"

lemma stable_settled: "core_stable dir (settled dir raw moved f0)"
  by (auto simp: core_stable_def intro: settled_core)

lemma stable_bounded: "core_stable dir (bounded_by dir raw moved f0 h)"
  unfolding core_stable_def bounded_by_def
  by (auto simp: present_def same_core_def unsealed_def intro: settled_core [unfolded same_core_def])

lemma stable_reserved: "core_stable dir (reserved dir raw moved f0 n)"
  unfolding core_stable_def reserved_def
  by (auto simp: present_def same_core_def unsealed_def intro: settled_core [unfolded same_core_def])

lemma stable_installed:
  "numbered dir target n \<Longrightarrow> core_stable dir (installed dir raw moved f0 target n)"
  unfolding core_stable_def installed_def
  by (auto simp: same_core_def intro: settled_core [unfolded same_core_def])

lemma classify_dec: "n \<le> u64_max \<Longrightarrow> classify_counter (dec n) = SeqLoaded n"
  by (simp add: classify_counter_def parse_u64_dec)

text \<open>Writing the counter reserves the next number.\<close>

lemma bounded_reserve:
  assumes "bounded_by dir raw moved f0 h f" and "map_of f tmp = Some (dec (Suc h))"
    and "aux_path dir tmp"
  shows "reserved dir raw moved f0 (Suc h) (AList.update (ctr dir) (dec (Suc h)) (AList.delete tmp f))"
proof -
  let ?g = "AList.update (ctr dir) (dec (Suc h)) (AList.delete tmp f)"
  have num: "map_of ?g p = map_of f p" if "numbered dir p n" for p n
    using that assms(3) by (auto simp: aux_path_def)
  have out: "map_of ?g p = map_of f p" if "take (length dir) p \<noteq> dir" for p
    using that assms(3) by (auto simp: aux_path_def)
  have h: "Suc h \<le> u64_max" "\<And>p n. numbered dir p n \<Longrightarrow> present f p \<Longrightarrow> n \<le> h"
    and d: "distinct (map fst f)" and k: "keeps dir raw moved f0 f" and c0: "\<And>c. counter_value dir f0 = Some c \<Longrightarrow> c \<le> h"
    using assms(1) by (auto simp: bounded_by_def settled_def)
  have un: "unsealed dir f0 ?g"
    using assms(1) num by (simp add: bounded_by_def unsealed_def)
  have "keeps dir raw moved f0 ?g"
    by (rule keeps_cong [OF k out num])
  moreover have in_use: "n \<le> h" if "numbered dir p n" "present ?g p" for p n
    using that h(2) num [OF that(1)] by (simp add: present_def)
  then have "counter_inv dir ?g"
    using h(1) by (fastforce simp: counter_inv_def classify_dec)
  moreover have "counter_mono dir f0 ?g"
    using c0 h(1) by (auto simp: counter_mono_def counter_value_def classify_dec intro: le_SucI)
  moreover have "map_of ?g p = None" if "numbered dir p (Suc h)" for p
    using in_use [OF that] Suc_n_not_le_n unfolding present_def by blast
  ultimately show ?thesis
    using h(1) in_use c0 d un unfolding reserved_def settled_def
    by (fastforce simp: less_Suc_eq_le distinct_update distinct_delete)
qed

text \<open>Renaming a complete temporary file to a reserved number installs the shard.\<close>

lemma reserved_install:
  assumes "reserved dir raw moved f0 n f" and "map_of f src = Some raw"
    and "numbered dir target n" and "aux_path dir src \<or> Some src = moved \<and> take (length dir) src \<noteq> dir"
  shows "installed dir raw moved f0 target n (AList.update target raw (AList.delete src f))"
proof -
  let ?g = "AList.update target raw (AList.delete src f)"
  have r: "settled dir raw moved f0 f" "n \<le> u64_max" "map_of f (ctr dir) = Some (dec n)"
    "map_of f target = None" "\<And>c. counter_value dir f0 = Some c \<Longrightarrow> c < n"
    and r': "\<And>p m. numbered dir p m \<Longrightarrow> present f p \<Longrightarrow> m \<le> n"
    using assms(1,3) by (auto simp: reserved_def)
  have src: "\<not> numbered dir src m" "src \<noteq> ctr dir" for m
    using assms(4) by (auto simp: aux_path_def numbered_def)
  have tgt: "take (length dir) target = dir" "target \<noteq> ctr dir"
    using assms(3) ctr_not_numbered by (auto simp: numbered_def)
  have k: "keeps dir raw moved f0 f" using r(1) by (simp add: settled_def)
  have new: "map_of f0 target = None"
    using k r(4) assms(3) unfolding keeps_def by (metis option.exhaust option.distinct(1))
  have un: "map_of f p = map_of f0 p" if "numbered dir p m" for p m
    using assms(1) that by (auto simp: reserved_def unsealed_def)
  have above: "m < n" if "numbered dir q m" "map_of f0 q \<noteq> None" for q m
  proof -
    have "map_of f q \<noteq> None" using that un [of q m] by simp
    then have "m \<le> n" "m \<noteq> n"
      using r' [of q m] that(1) assms(1) by (auto simp: present_def reserved_def)
    then show ?thesis by simp
  qed
  have g: "map_of ?g p = (if p = target then Some raw else map_of f0 p)" if "numbered dir p m" for p m
    using that src(1) un by auto
  have frame: "map_of ?g p = map_of f p" if "take (length dir) p \<noteq> dir" "Some p \<noteq> moved" for p
    using that tgt(1) assms(4) by (auto simp: aux_path_def)
  have "keeps dir raw moved f0 ?g"
    unfolding keeps_def
  proof (intro conjI allI impI)
    fix p assume "take (length dir) p \<noteq> dir" "Some p \<noteq> moved"
    then show "map_of ?g p = map_of f0 p" using k frame unfolding keeps_def by metis
  next
    fix p m c assume "numbered dir p m" "map_of f0 p = Some c"
    then show "map_of ?g p = Some c" using g new by auto
  next
    fix p m c assume p: "numbered dir p m" "map_of ?g p = Some c"
    show "map_of f0 p = Some c \<or> map_of f0 p = None \<and> c = raw \<and>
        (\<forall>q m'. numbered dir q m' \<longrightarrow> map_of f0 q \<noteq> None \<longrightarrow> m' < m) \<and>
        (\<forall>q m'. numbered dir q m' \<longrightarrow> map_of ?g q \<noteq> None \<longrightarrow> map_of f0 q = None \<longrightarrow> q = p)"
    proof (cases "p = target")
      case True
      then have "m = n" using p(1) assms(3) numbered_fun by blast
      with True show ?thesis using p g new above by auto
    next
      case False
      with p g [OF p(1)] show ?thesis by simp
    qed
  qed
  moreover have "counter_inv dir ?g"
    using r r' tgt(2) src assms(3)
    by (auto simp: counter_inv_def classify_dec present_def dest: numbered_fun split: if_splits)
  moreover have "counter_mono dir f0 ?g"
    using r(1) tgt(2) src(2) by (auto simp: settled_def counter_mono_def counter_value_def)
  ultimately show ?thesis
    using r(1,2,3,5) tgt(2) src(2) new unfolding installed_def settled_def
    by (auto simp: distinct_update distinct_delete)
qed

end
