(* ===== verification/Stage_Writer.thy ===== *)
theory Stage_Writer
  imports Stage_Safety
begin

text \<open>
  The shard writer step by step: each operation takes the invariants of \<open>Stage_Safety\<close> from
  its entry to both of its exits.
\<close>

section \<open>Reading\<close>

lemma valid_entries:
  assumes "\<And>f. P f \<Longrightarrow> E f"
  shows "valid (on_files P) (sealed_shard_entries e dir)
    (\<lambda>es. on_files (\<lambda>f. P f \<and> es = entries_of dir f)) (\<lambda>_. on_files E)"
  using assms by (auto simp: valid_def sealed_shard_entries_def io_simps file_simps on_files_def)

lemma valid_find_dup: "valid (on_files P) (find_dup e raw es) (\<lambda>_. on_files P) (\<lambda>_. on_files P)"
proof (induction e raw es rule: find_dup.induct)
  case (1 e raw)
  show ?case by (simp add: valid_return)
next
  case (2 e raw seq p es)
  show ?case unfolding find_dup.simps
    by (rule valid_bind [where R = "\<lambda>_. on_files P"])
      (auto intro: 2 valid_return valid_on_files_weaken [OF valid_read [where Q = "\<lambda>_. P"]])
qed

lemma valid_find_duplicate:
  "valid (on_files P) (find_duplicate_shard_in_dir e dir raw) (\<lambda>_. on_files P) (\<lambda>_. on_files P)"
  unfolding find_duplicate_shard_in_dir_def
  by (rule valid_bind [OF valid_entries]) (auto intro: valid_pre [OF valid_find_dup])

lemma entries_of_iff: "(n, p) \<in> set (entries_of dir f) \<longleftrightarrow> shard_seq_of dir p = Some n \<and> present f p"
  by (force simp: entries_of_def set_map_filter present_def map_of_eq_None_iff)

lemma foldr_max_ge: "x \<in> set es \<Longrightarrow> fst x \<le> foldr (max \<circ> fst) es (0::nat)"
  by (induction es) (auto simp: le_max_iff_disj)

lemma foldr_max_less: "(\<And>x. x \<in> set es \<Longrightarrow> fst x < k) \<Longrightarrow> 0 < k \<Longrightarrow> foldr (max \<circ> fst) es (0::nat) < k"
  by (induction es) auto

section \<open>Reserving a number\<close>

lemma high_water_bounded:
  assumes "settled dir raw moved f0 f" and "unsealed dir f0 f" and "map_of f (ctr dir) = None"
  shows "bounded_by dir raw moved f0 (foldr (max \<circ> fst) (entries_of dir f) 0) f"
proof -
  let ?h = "foldr (max \<circ> fst) (entries_of dir f) 0"
  have small: "n < 1000000" if "numbered dir p n" "present f p" for p n
    using assms that by (auto simp: settled_def counter_inv_def)
  have "?h < 1000000"
    by (rule foldr_max_less) (auto simp: entries_of_iff shard_seq_of_numbered)
  moreover have "n \<le> ?h" if "numbered dir p n" "present f p" for p n
    using foldr_max_ge [of "(n, p)" "entries_of dir f"] small [OF that] that
    by (auto simp: entries_of_iff shard_seq_of_numbered)
  moreover have "counter_value dir f0 = None"
    using assms by (auto simp: settled_def counter_mono_def counter_value_def)
  ultimately show ?thesis using assms(1,2) by (auto simp: bounded_by_def u64_max_def)
qed

lemma valid_load_state:
  "valid (on_files P) (load_shard_seq_state_in_dir e (ctr dir))
     (\<lambda>st. on_files (\<lambda>f. P f \<and>
        (st = SeqMissing \<longrightarrow> map_of f (ctr dir) = None) \<and>
        (\<forall>c. st = SeqLoaded c \<longrightarrow> (\<exists>raw. map_of f (ctr dir) = Some raw \<and> classify_counter raw = SeqLoaded c))))
     (\<lambda>_. on_files E)"
  by (auto simp: valid_def load_shard_seq_state_in_dir_def on_files_def classify_counter_def
      split: option.splits if_splits)

lemma valid_high_water:
  defines "S \<equiv> \<lambda>dir raw moved f0 f. settled dir raw moved f0 f \<and> unsealed dir f0 f \<and> counter_room dir f"
  shows "valid (on_files (\<lambda>f. S dir raw moved f0 f \<and>
        (st = SeqMissing \<longrightarrow> map_of f (ctr dir) = None) \<and>
        (\<forall>c. st = SeqLoaded c \<longrightarrow> (\<exists>r. map_of f (ctr dir) = Some r \<and> classify_counter r = SeqLoaded c))))
     (case st of
        SeqMissing \<Rightarrow> derive_shard_high_water_in_dir e dir
      | SeqLoaded seq \<Rightarrow> io_return seq
      | SeqUnusable err \<Rightarrow> io_fail (CounterUnusable err))
     (\<lambda>h. on_files (bounded_by dir raw moved f0 h)) (\<lambda>_. on_files (settled dir raw moved f0))"
proof (cases st)
  case SeqMissing
  then show ?thesis unfolding derive_shard_high_water_in_dir_def S_def
    by (auto intro!: valid_bind [OF valid_entries] valid_return high_water_bounded
        simp: on_files_def)
next
  case (SeqLoaded c)
  then show ?thesis unfolding S_def
    by (auto intro!: valid_return
        simp: on_files_def bounded_by_def counter_room_def settled_def counter_inv_def
          counter_mono_def counter_value_def)
next
  case (SeqUnusable err)
  then show ?thesis unfolding S_def by (auto intro!: valid_fail simp: on_files_def)
qed

lemma valid_persist:
  "valid (on_files (bounded_by dir raw moved f0 h)) (persist_shard_seq_in_dir e dir (Suc h))
     (\<lambda>_. on_files (reserved dir raw moved f0 (Suc h))) (\<lambda>_. on_files (settled dir raw moved f0))"
proof -
  let ?tmp = "dir @ [''.shard-seq.tmp'']"
  let ?B = "bounded_by dir raw moved f0 h"
  have st: "stable ?tmp ?B"
    by (rule core_stable_stable [OF stable_bounded aux_counter_tmp])
  have weak: "?B f \<Longrightarrow> settled dir raw moved f0 f" for f
    by (simp add: bounded_by_def)
  have weak': "reserved dir raw moved f0 n f \<Longrightarrow> settled dir raw moved f0 f" for n f
    by (simp add: reserved_def)
  show ?thesis
    unfolding persist_shard_seq_in_dir_def Let_def
    apply (rule valid_bind [OF valid_touch [OF weak]], assumption)
    apply (rule valid_then [OF valid_remove_if_exists [OF st] weak], assumption)
    apply (rule valid_then [OF valid_write_synced [OF st] weak], assumption)
    apply (rule valid_bind [OF valid_rename [where Q = "reserved dir raw moved f0 (Suc h)"]])
      apply (auto intro: bounded_reserve [OF _ _ aux_counter_tmp] dest: weak) [2]
    apply (rule valid_touch, rule weak', assumption)
    done
qed

lemma valid_next:
  "valid (on_files (\<lambda>f. settled dir raw moved f0 f \<and> unsealed dir f0 f \<and> counter_room dir f)) (next_shard_seq_in_dir e dir)
     (\<lambda>n. on_files (reserved dir raw moved f0 n)) (\<lambda>_. on_files (settled dir raw moved f0))"
  unfolding next_shard_seq_in_dir_def Let_def
proof (rule valid_bind [OF valid_load_state], rule valid_bind [OF valid_high_water])
  fix h
  show "valid (on_files (bounded_by dir raw moved f0 h))
     (io_bind (persist_shard_seq_in_dir e dir ((h + 1) mod 2 ^ 64)) (\<lambda>_. io_return ((h + 1) mod 2 ^ 64)))
     (\<lambda>n. on_files (reserved dir raw moved f0 n)) (\<lambda>_. on_files (settled dir raw moved f0))"
  proof (cases "h < u64_max")
    case True
    then have "(h + 1) mod 2 ^ 64 = Suc h" by (simp add: u64_max_def)
    then show ?thesis
      by (simp only:) (auto intro: valid_bind [OF valid_persist] valid_return)
  next
    case False
    then show ?thesis by (simp add: valid_def on_files_def bounded_by_def)
  qed
qed

section \<open>Installing\<close>

lemma valid_record_in_dir:
  assumes "core_stable dir P"
  shows "valid (on_files P) (record_in_dir e dir x) (\<lambda>_. on_files P) (\<lambda>_. on_files P)"
proof -
  let ?tmp = "dir @ [''.shard-facts.tmp'']"
  have st: "stable ?tmp P" "stable (dir @ [FACTS_FILE]) P"
    by (rule core_stable_stable [OF assms aux_facts_tmp], rule core_stable_stable [OF assms aux_facts])
  have read: "valid (on_files P) (read_facts_in_dir e dir) (\<lambda>_. on_files P) (\<lambda>_. on_files P)"
    by (auto simp: valid_def read_facts_in_dir_def on_files_def)
  show ?thesis
    unfolding record_in_dir_def Let_def
    apply (rule valid_bind [OF read])
    apply (split option.split, intro conjI allI impI)
     apply (rule valid_fail, assumption)
    apply (rule valid_bind [OF valid_touch], assumption)
    apply (rule valid_bind [OF valid_write_synced [OF st(1)]])
    apply (rule valid_rename)
     apply (auto intro: stable_update [OF st(2)] stable_delete [OF st(1)])
    done
qed

lemma valid_record_fact:
  assumes "core_stable dir P"
  shows "valid (on_files P) (record_shard_fact e dir n raw) (\<lambda>_. on_files P) (\<lambda>_. on_files E)"
  unfolding record_shard_fact_def
  by (rule valid_ignore [OF valid_record_in_dir [OF assms]])

text \<open>The last steps every source shares: the rename to the reserved name, then the record.\<close>

lemma valid_finish:
  assumes "numbered dir target n"
  shows "valid (on_files (installed dir raw moved f0 target n))
    (io_bind (record_shard_fact e dir n raw) (\<lambda>_. io_return (Allocated n)))
    (\<lambda>r. on_files (\<lambda>f. r = Allocated n \<and> installed dir raw moved f0 target n f)) (\<lambda>_. on_files E)"
  by (rule valid_bind [OF valid_record_fact [OF stable_installed [OF assms]]])
    (auto intro: valid_return simp: on_files_def)

lemma valid_rename_reserved:
  assumes "numbered dir target n"
    and "aux_path dir src \<or> Some src = moved \<and> take (length dir) src \<noteq> dir"
  shows "valid (on_files (\<lambda>f. reserved dir raw moved f0 n f \<and> map_of f src = Some raw))
    (rename_file e err src target)
    (\<lambda>_. on_files (installed dir raw moved f0 target n)) (\<lambda>_. on_files (settled dir raw moved f0))"
  by (rule valid_rename) (auto intro: reserved_install [OF _ _ assms] simp: reserved_def)

lemma valid_install_inbox:
  "valid (on_files (reserved dir raw moved f0 n))
     (install_inbox e dir (shard_path_in_dir dir n cap) n raw)
     (\<lambda>r. on_files (\<lambda>f. r = Allocated n \<and> installed dir raw moved f0 (shard_path_in_dir dir n cap) n f))
     (\<lambda>_. on_files (settled dir raw moved f0))"
proof -
  let ?target = "shard_path_in_dir dir n cap"
  let ?tmp = "butlast ?target @ [pad0 6 (dec n) @ INBOX_TMP_SUFFIX]"
  have aux: "aux_path dir ?tmp"
    using aux_inbox_tmp [of dir "shard_bucket_name n cap" "pad0 6 (dec n)"]
    by (simp add: shard_path_in_dir_def butlast_append)
  have w: "reserved dir raw moved f0 n f \<Longrightarrow> settled dir raw moved f0 f"
    and w': "installed dir raw moved f0 ?target n f \<Longrightarrow> settled dir raw moved f0 f" for f
    by (simp_all add: reserved_def installed_def)
  show ?thesis
    unfolding install_inbox_def Let_def
    apply (rule valid_then [OF valid_write_synced [OF core_stable_stable [OF stable_reserved aux]] w],
        assumption)
    apply (rule valid_bind [OF valid_rename_reserved [OF numbered_shard_path disjI1 [OF aux]]])
    apply (rule valid_bind [OF valid_touch], rule w', assumption)
    apply (rule valid_finish [OF numbered_shard_path])
    done
qed

lemma valid_install_store:
  "valid (on_files (reserved dir raw moved f0 n))
     (install_store e dir (shard_path_in_dir dir n cap) n raw)
     (\<lambda>r. on_files (\<lambda>f. r = Allocated n \<and> installed dir raw moved f0 (shard_path_in_dir dir n cap) n f))
     (\<lambda>_. on_files (settled dir raw moved f0))"
proof -
  let ?target = "shard_path_in_dir dir n cap"
  let ?tmp = "butlast ?target @ [''.'' @ shard_filename n @ ''tmp'']"
  have aux: "aux_path dir ?tmp"
    using aux_store_tmp [of dir "shard_bucket_name n cap" "shard_filename n @ ''tmp''"]
    by (simp add: shard_path_in_dir_def butlast_append)
  have st: "stable ?tmp (reserved dir raw moved f0 n)"
    by (rule core_stable_stable [OF stable_reserved aux])
  have w: "reserved dir raw moved f0 n f \<Longrightarrow> settled dir raw moved f0 f" for f
    by (simp add: reserved_def)
  show ?thesis
    unfolding install_store_def Let_def
    apply (rule valid_then [OF valid_remove_if_exists [OF st] w], assumption)
    apply (rule valid_then [OF valid_write_synced [OF st] w], assumption)
    apply (rule valid_bind [OF valid_exists])
    apply (rule valid_if)
     apply (rule valid_fail, auto simp: on_files_def dest: w) [1]
    apply (rule valid_bind [OF valid_pre
          [OF valid_rename_reserved [OF numbered_shard_path disjI1 [OF aux]]]], blast)
    apply (rule valid_finish [OF numbered_shard_path])
    done
qed

lemma valid_install_active:
  assumes "take (length dir) active \<noteq> dir"
  shows "valid (on_files (\<lambda>f. reserved dir raw (Some active) f0 n f \<and> map_of f active = Some raw))
     (install_active e dir (shard_path_in_dir dir n cap) active n raw)
     (\<lambda>r. on_files (\<lambda>f. r = Allocated n \<and>
        installed dir raw (Some active) f0 (shard_path_in_dir dir n cap) n f))
     (\<lambda>_. on_files (settled dir raw (Some active) f0))"
  unfolding install_active_def
  apply (rule valid_bind [OF valid_exists])
  apply (rule valid_if)
   apply (rule valid_fail, auto simp: on_files_def reserved_def) [1]
  apply (rule valid_bind [OF valid_pre
        [OF valid_rename_reserved [OF numbered_shard_path, where src = active]]])
    apply (auto simp: assms) [2]
  apply (rule valid_finish [OF numbered_shard_path])
  done

section \<open>The whole writer\<close>

fun moved_by :: "shard_source \<Rightarrow> path option" where
  "moved_by (Active a _) = Some a"
| "moved_by _ = None"

text \<open>
  The caller of an active-file seal has just read the file, which does not lie in the shard
  directory itself.
\<close>

fun source_ready :: "path \<Rightarrow> shard_source \<Rightarrow> fs \<Rightarrow> bool" where
  "source_ready dir (Active a raw) f \<longleftrightarrow> take (length dir) a \<noteq> dir \<and> map_of f a = Some raw"
| "source_ready dir _ f \<longleftrightarrow> True"

lemma valid_clean:
  assumes "core_stable dir P"
  shows "valid (on_files P) (clean_stale_tmp e dir) (\<lambda>_. on_files P) (\<lambda>_. on_files P)"
proof -
  have aux: "aux_path dir p" if "p \<in> set (stale_tmps dir f)" for p f
  proof -
    have p: "take (length dir) p = dir" "p \<noteq> []" "suffix INBOX_TMP_SUFFIX (last p)"
      using that by (auto simp: stale_tmps_def ends_with_def)
    then have "last (last p) = CHR ''p''"
      by (auto simp: suffix_def INBOX_TMP_SUFFIX_def)
    then have "\<forall>n. last p \<noteq> shard_filename n" "last p \<noteq> SHARD_SEQ_FILE"
      using shard_filename_hd_last(2) by (auto simp: SHARD_SEQ_FILE_def)
    with p(1) show ?thesis
      by (auto simp: aux_path_def numbered_def shard_seq_file_in_dir_def)
  qed
  have loop: "valid (on_files P)
      (io_for ps (\<lambda>p. io_bind (touch e IoError) (\<lambda>_. io_ignore (remove_file e IoError p))))
      (\<lambda>_. on_files P) (\<lambda>_. on_files P)" if "\<forall>p \<in> set ps. aux_path dir p" for ps
    by (rule valid_for, rule valid_bind [OF valid_touch], assumption)
      (use that in \<open>auto intro: valid_ignored_remove core_stable_stable [OF assms]\<close>)
  show ?thesis
    unfolding valid_def
  proof (intro allI impI)
    fix w assume w: "on_files P w"
    have "valid (on_files P) (io_bind (touch e IoError) (\<lambda>_. io_for (stale_tmps dir (files w))
        (\<lambda>p. io_bind (touch e IoError) (\<lambda>_. io_ignore (remove_file e IoError p)))))
        (\<lambda>_. on_files P) (\<lambda>_. on_files P)"
    proof (rule valid_bind [where R = "\<lambda>_. on_files P"])
      show "valid (on_files P) (touch e IoError) (\<lambda>_. on_files P) (\<lambda>_. on_files P)"
        by (rule valid_touch)
      have "\<forall>p \<in> set (stale_tmps dir (files w)). aux_path dir p" using aux by blast
      then show "valid (on_files P) (io_for (stale_tmps dir (files w))
          (\<lambda>p. io_bind (touch e IoError) (\<lambda>_. io_ignore (remove_file e IoError p))))
          (\<lambda>_. on_files P) (\<lambda>_. on_files P)" for u :: unit
        by (rule loop)
    qed
    from this [unfolded valid_def, rule_format, OF w]
    show "case clean_stale_tmp e dir w of (Inl x, s') \<Rightarrow> on_files P s' | (Inr a, s') \<Rightarrow> on_files P s'"
      by (simp only: clean_stale_tmp_def)
  qed
qed

lemma stable_start:
  "core_stable dir (\<lambda>f. settled dir raw moved f0 f \<and> unsealed dir f0 f \<and> counter_room dir f)"
  unfolding core_stable_def
  by (auto simp: same_core_def counter_room_def unsealed_def intro: settled_core [unfolded same_core_def])

definition startable :: "path \<Rightarrow> shard_source \<Rightarrow> fs \<Rightarrow> fs \<Rightarrow> bool" where
  "startable dir source f0 f \<longleftrightarrow>
     settled dir (source_raw source) (moved_by source) f0 f \<and> unsealed dir f0 f \<and> counter_room dir f \<and>
     source_ready dir source f"

text \<open>How the writer ends well: an earlier shard of the same digest, or a freshly numbered one.\<close>

definition written :: "env \<Rightarrow> path \<Rightarrow> nat \<Rightarrow> shard_source \<Rightarrow> fs \<Rightarrow> shard_write \<Rightarrow> fs \<Rightarrow> bool" where
  "written e dir cap source f0 r f \<longleftrightarrow>
     (case r of
        Existing name \<Rightarrow> settled dir (source_raw source) (moved_by source) f0 f
      | Allocated n \<Rightarrow> installed dir (source_raw source) (moved_by source) f0 (shard_path_in_dir dir n cap) n f)"

lemma stable_startable_inactive:
  "moved_by source = None \<Longrightarrow> core_stable dir (startable dir source f0)"
  using stable_start unfolding startable_def by (cases source) (auto simp: core_stable_def)

lemma valid_reserve_active:
  assumes "take (length dir) a \<noteq> dir"
  shows "valid (on_files (\<lambda>f. settled dir raw (Some a) f0 f \<and> unsealed dir f0 f \<and> counter_room dir f \<and> map_of f a = Some raw))
    (next_shard_seq_in_dir e dir)
    (\<lambda>n. on_files (\<lambda>f. reserved dir raw (Some a) f0 n f \<and> map_of f a = Some raw))
    (\<lambda>_. on_files (settled dir raw (Some a) f0))"
proof -
  have frame: "map_of (files (snd (next_shard_seq_in_dir e dir w))) a = map_of (files w) a"
    if "counter_inv dir (files w)" "counter_room dir (files w)" "distinct (map fst (files w))" for w
    using validD [OF valid_next [where dir = dir and raw = raw and moved = None and ?f0.0 = "files w" and e = e], of w] that assms
    by (auto simp: on_files_def settled_def reserved_def keeps_def)
  show ?thesis
    unfolding valid_def
  proof (intro allI impI)
    fix w assume w: "on_files (\<lambda>f. settled dir raw (Some a) f0 f \<and> unsealed dir f0 f \<and> counter_room dir f \<and> map_of f a = Some raw) w"
    then have "counter_inv dir (files w)" "counter_room dir (files w)" "distinct (map fst (files w))"
      by (auto simp: on_files_def settled_def)
    from frame [OF this] validD [OF valid_next [where dir = dir and raw = raw and moved = "Some a" and ?f0.0 = f0 and e = e], of w] w
    show "case next_shard_seq_in_dir e dir w of
        (Inl x, s') \<Rightarrow> on_files (settled dir raw (Some a) f0) s'
      | (Inr n, s') \<Rightarrow> on_files (\<lambda>f. reserved dir raw (Some a) f0 n f \<and> map_of f a = Some raw) s'"
      by (auto simp: on_files_def)
  qed
qed

lemma valid_allocate:
  "valid (on_files (startable dir source f0)) (allocate_and_install e dir cap source)
     (\<lambda>r. on_files (written e dir cap source f0 r))
     (\<lambda>_. on_files (settled dir (source_raw source) (moved_by source) f0))"
proof (cases source)
  case (Inbox ls)
  then have "core_stable dir (startable dir source f0)"
    by (intro stable_startable_inactive) simp
  from valid_clean [OF this] have clean: "valid (on_files (startable dir source f0)) (clean_stale_tmp e dir)
      (\<lambda>_. on_files (startable dir source f0)) (\<lambda>_. on_files (startable dir source f0))" .
  have w: "reserved dir raw moved f0 n f \<Longrightarrow> settled dir raw moved f0 f" for raw moved n f
    by (simp add: reserved_def)
  show ?thesis
    unfolding allocate_and_install_def Let_def Inbox
    apply simp
    apply (rule valid_then [OF clean [unfolded Inbox]], simp add: startable_def)
    apply (rule valid_bind [OF valid_pre [OF valid_next]], simp add: startable_def)
    apply (rule valid_bind [OF valid_touch], rule w, assumption)
    apply (rule valid_on_files_weaken [OF valid_install_inbox])
      apply (auto simp: written_def)
    done
next
  case (Store raw writer rep)
  have w: "reserved dir raw moved f0 n f \<Longrightarrow> settled dir raw moved f0 f" for raw moved n f
    by (simp add: reserved_def)
  show ?thesis
    unfolding allocate_and_install_def Let_def Store
    apply simp
    apply (rule valid_bind [OF valid_pre [OF valid_next]], simp add: startable_def)
    apply (rule valid_bind [OF valid_touch], rule w, assumption)
    apply (rule valid_on_files_weaken [OF valid_install_store])
      apply (auto simp: written_def)
    done
next
  case (Active a raw)
  show ?thesis
  proof (cases "take (length dir) a = dir")
    case True
    then show ?thesis using Active by (simp add: valid_def on_files_def startable_def)
  next
    case False
    show ?thesis
      unfolding allocate_and_install_def Let_def Active
      apply simp
      apply (rule valid_bind [OF valid_pre [OF valid_reserve_active [OF False]]], simp add: startable_def)
      apply (rule valid_bind [OF valid_touch], simp add: reserved_def)
      apply (rule valid_on_files_weaken [OF valid_install_active [OF False]])
        apply (auto simp: written_def)
      done
  qed
qed

lemma valid_write_shard:
  "valid (on_files (startable dir source f0)) (write_shard_in_dir e dir cap source ids)
     (\<lambda>r. on_files (written e dir cap source f0 r))
     (\<lambda>_. on_files (settled dir (source_raw source) (moved_by source) f0))"
proof -
  let ?P = "on_files (startable dir source f0)"
  let ?E = "\<lambda>_. on_files (settled dir (source_raw source) (moved_by source) f0)"
  have w: "startable dir source f0 f \<Longrightarrow> settled dir (source_raw source) (moved_by source) f0 f" for f
    by (simp add: startable_def)
  have guard: "valid ?P (if is_inbox source
      then (case refuse_fixture_write (temp_dir e) ids (stage_root e) of Inl i \<Rightarrow> io_fail (FixtureRefused i) | Inr u \<Rightarrow> io_return u)
      else io_return ()) (\<lambda>_. ?P) ?E"
    by (auto simp: valid_def io_return_def io_fail_def on_files_def w split: sum.splits)
  have dir: "valid ?P (if is_active source then io_return () else touch e IoError) (\<lambda>_. ?P) ?E"
    by (auto simp: valid_def io_return_def file_simps on_files_def w)
  have dup: "valid ?P (if dedups source then find_duplicate_shard_in_dir e dir (source_raw source)
      else io_return None) (\<lambda>_. ?P) ?E"
    by (auto intro: valid_return valid_on_files_weaken [OF valid_find_duplicate] w)
  show ?thesis
    unfolding write_shard_in_dir_def
    apply (rule valid_bind [OF guard])
    apply (rule valid_bind [OF dir])
    apply (rule valid_bind [OF dup])
    apply (split option.split, intro conjI allI impI)
     apply (rule valid_allocate)
    apply (rule valid_return)
    apply (simp add: on_files_def written_def w)
    done
qed

end
