(* ===== verification/Stage_Spec.thy ===== *)
theory Stage_Spec
  imports Stage_Writer "HOL-Library.Multiset"
begin

text \<open>
  What the stage promises its users, stated over the model's operations: the contract of the
  writer under every fault schedule, its success when nothing fails, and the effect of a
  write on the session body a reader concatenates.
\<close>

section \<open>The shard set of a directory\<close>

text \<open>The abstract state: which bodies are stored under which sequence number.\<close>

definition bodies :: "path \<Rightarrow> fs \<Rightarrow> (nat \<times> bytes) set" where
  "bodies dir f = {(n, c). \<exists>p. shard_seq_of dir p = Some n \<and> map_of f p = Some c}"

definition dir_ok :: "path \<Rightarrow> fs \<Rightarrow> bool" where
  "dir_ok dir f \<longleftrightarrow> counter_inv dir f \<and> distinct (map fst f)"

lemma startable_self:
  "dir_ok dir f \<Longrightarrow> counter_room dir f \<Longrightarrow> source_ready dir source f \<Longrightarrow> startable dir source f f"
  by (simp add: startable_def settled_def dir_ok_def)

lemma write_shard_exits:
  assumes "dir_ok dir (files w)" "counter_room dir (files w)" "source_ready dir source (files w)"
  obtains (ok) r w' where "write_shard_in_dir e dir cap source ids w = (Inr r, w')"
      "written e dir cap source (files w) r (files w')"
    | (err) x w' where "write_shard_in_dir e dir cap source ids w = (Inl x, w')"
      "settled dir (source_raw source) (moved_by source) (files w) (files w')"
  using validD [OF valid_write_shard, of dir source "files w" w e cap ids] startable_self [OF assms]
  by (auto simp: on_files_def)

lemma written_settled: "written e dir cap source f0 r f \<Longrightarrow>
    settled dir (source_raw source) (moved_by source) f0 f"
  by (auto simp: written_def installed_def split: shard_write.splits)

lemma write_shard_settled:
  assumes "dir_ok dir (files w)" "counter_room dir (files w)" "source_ready dir source (files w)"
  shows "settled dir (source_raw source) (moved_by source) (files w)
    (files (snd (write_shard_in_dir e dir cap source ids w)))"
  using assms by (rule write_shard_exits [where e = e and cap = cap and ids = ids])
    (auto dest: written_settled)

lemma keeps_old:
  "keeps dir raw moved f0 f \<Longrightarrow> numbered dir p n \<Longrightarrow> map_of f0 p = Some c \<Longrightarrow> map_of f p = Some c"
  unfolding keeps_def by meson

lemma keeps_new:
  assumes "keeps dir raw moved f0 f" "numbered dir p n" "map_of f p \<noteq> None" "map_of f0 p = None"
  shows "map_of f p = Some raw"
    and "numbered dir q m \<Longrightarrow> map_of f0 q \<noteq> None \<Longrightarrow> m < n"
    and "numbered dir q m \<Longrightarrow> map_of f q \<noteq> None \<Longrightarrow> map_of f0 q = None \<Longrightarrow> q = p"
proof -
  obtain c where c: "map_of f p = Some c" using assms(3) by blast
  from assms(1) [unfolded keeps_def, THEN conjunct2, THEN conjunct2, rule_format, OF assms(2) c] assms(4) c
  show "map_of f p = Some raw"
    and "numbered dir q m \<Longrightarrow> map_of f0 q \<noteq> None \<Longrightarrow> m < n"
    and "numbered dir q m \<Longrightarrow> map_of f q \<noteq> None \<Longrightarrow> map_of f0 q = None \<Longrightarrow> q = p"
    by auto
qed

lemma keeps_bodies:
  assumes "keeps dir raw moved f0 f"
  shows "bodies dir f0 \<subseteq> bodies dir f" and "bodies dir f - bodies dir f0 \<subseteq> UNIV \<times> {raw}"
proof -
  show "bodies dir f0 \<subseteq> bodies dir f"
    using keeps_old [OF assms] unfolding bodies_def by (auto simp: shard_seq_of_numbered)
  show "bodies dir f - bodies dir f0 \<subseteq> UNIV \<times> {raw}"
  proof
    fix x assume "x \<in> bodies dir f - bodies dir f0"
    then have x0: "x \<in> bodies dir f" and no: "x \<notin> bodies dir f0" by auto
    from x0 obtain n c p where x: "x = (n, c)" "numbered dir p n" "n < 1000000" "map_of f p = Some c"
      by (auto simp: bodies_def shard_seq_of_numbered)
    have "map_of f0 p = None"
    proof (rule ccontr)
      assume "map_of f0 p \<noteq> None"
      then obtain d where "map_of f0 p = Some d" by blast
      with keeps_old [OF assms x(2) this] x no show False
        by (auto simp: bodies_def shard_seq_of_numbered)
    qed
    with keeps_new(1) [OF assms x(2)] x show "x \<in> UNIV \<times> {raw}" by simp
  qed
qed

lemma installed_bodies:
  assumes "installed dir raw moved f0 target n f" and "numbered dir target n" and "n < 1000000"
    and "counter_inv dir f"
  shows "(n, raw) \<in> bodies dir f"
  using assms unfolding installed_def bodies_def by (auto simp: shard_seq_of_numbered)

section \<open>The body a reader concatenates\<close>

definition session_body :: "path \<Rightarrow> fs \<Rightarrow> bytes" where
  "session_body dir f = concat (map (\<lambda>(n, p). the (map_of f p)) (sort_entries (entries_of dir f)))"

text \<open>No number is in use in both the flat and the bucketed layout.\<close>

definition unique_numbers :: "path \<Rightarrow> fs \<Rightarrow> bool" where
  "unique_numbers dir f \<longleftrightarrow>
     (\<forall>p q n. numbered dir p n \<longrightarrow> numbered dir q n \<longrightarrow> present f p \<longrightarrow> present f q \<longrightarrow> p = q)"

lemma entries_of_Cons: "entries_of dir ((p, c) # f) =
    (case shard_seq_of dir p of None \<Rightarrow> entries_of dir f | Some n \<Rightarrow> (n, p) # entries_of dir f)"
  by (cases "shard_seq_of dir p") (simp_all add: entries_of_def List.map_filter_def)

lemma entries_distinct:
  assumes "distinct (map fst f)" and "unique_numbers dir f"
  shows "distinct (map fst (entries_of dir f))"
proof -
  have step: "distinct (map fst (entries_of dir g))"
    if "distinct (map fst g)" and "\<And>p q c d n. (p, c) \<in> set g \<Longrightarrow> (q, d) \<in> set g \<Longrightarrow>
      shard_seq_of dir p = Some n \<Longrightarrow> shard_seq_of dir q = Some n \<Longrightarrow> p = q" for g
    using that
  proof (induction g)
    case (Cons a g)
    obtain p c where a: "a = (p, c)" by (cases a)
    have "distinct (map fst (entries_of dir g))"
    proof (rule Cons.IH)
      show "distinct (map fst g)" using Cons.prems(1) by simp
      show "p = q" if "(p, c) \<in> set g" "(q, d) \<in> set g" "shard_seq_of dir p = Some n"
        "shard_seq_of dir q = Some n" for p q c d n
        by (rule Cons.prems(2)) (use that in auto)
    qed
    moreover have "n \<notin> fst ` set (entries_of dir g)" if n: "shard_seq_of dir p = Some n" for n
    proof
      assume "n \<in> fst ` set (entries_of dir g)"
      then obtain q d where q: "(q, d) \<in> set g" "shard_seq_of dir q = Some n"
        by (auto simp: entries_of_def set_map_filter)
      then have "p = q" using Cons.prems(2) [of p c q d n] n by (simp add: a)
      with Cons.prems(1) q(1) show False by (force simp: a)
    qed
    ultimately show ?case
      by (auto simp: a entries_of_Cons split: option.splits)
  qed (simp add: entries_of_def List.map_filter_def)
  show ?thesis
  proof (rule step)
    show "p = q" if "(p, c) \<in> set f" "(q, d) \<in> set f" "shard_seq_of dir p = Some n"
      "shard_seq_of dir q = Some n" for p q c d n
    proof -
      have "present f p" "present f q" using that assms(1) by (auto simp: present_def)
      with that assms(2) show ?thesis unfolding unique_numbers_def
        by (auto simp: shard_seq_of_numbered)
    qed
  qed (rule assms(1))
qed

lemma sort_entries_eqI:
  assumes "distinct (map fst xs)" "distinct (map fst ys)" "set xs = set ys" "sorted (map fst ys)"
  shows "sort_entries xs = ys"
proof -
  have "mset xs = mset ys"
    using assms(1-3) by (simp add: distinct_map set_eq_iff_mset_eq_distinct [symmetric])
  moreover have "inj_on fst (set xs)" using assms(1) by (simp add: distinct_map)
  ultimately show ?thesis
    unfolding sort_entries_def using assms(4) by (rule sort_key_inj_key_eq)
qed

lemma keeps_unique:
  assumes "keeps dir raw moved f0 f" and "unique_numbers dir f0"
  shows "unique_numbers dir f"
  unfolding unique_numbers_def present_def
proof (intro allI impI)
  fix p q n
  assume p: "numbered dir p n" "map_of f p \<noteq> None" and q: "numbered dir q n" "map_of f q \<noteq> None"
  show "p = q"
  proof (cases "map_of f0 p = None")
    case True
    note new = keeps_new [OF assms(1) p True]
    have "map_of f0 q = None" using new(2) [OF q(1)] by blast
    then show ?thesis using new(3) [OF q] by simp
  next
    case False
    have "map_of f0 q \<noteq> None"
      using keeps_new(2) [OF assms(1) q _ p(1) False] by blast
    with False assms(2) p(1) q(1) show ?thesis
      unfolding unique_numbers_def present_def by blast
  qed
qed

text \<open>Whatever fails, the shards are left alone or one is added behind them.\<close>

lemma entries_extend:
  assumes keeps: "keeps dir raw moved f0 f" and uniq: "unique_numbers dir f0"
    and d0: "distinct (map fst f0)" and d: "distinct (map fst f)"
  shows "(set (entries_of dir f) = set (entries_of dir f0) \<and>
      sort_entries (entries_of dir f) = sort_entries (entries_of dir f0)) \<or>
    (\<exists>n p. set (entries_of dir f) \<noteq> set (entries_of dir f0) \<and> map_of f p = Some raw \<and>
      sort_entries (entries_of dir f) = sort_entries (entries_of dir f0) @ [(n, p)])"
proof -
  let ?old = "entries_of dir f0" and ?new = "entries_of dir f"
  have dE0: "distinct (map fst ?old)" by (rule entries_distinct [OF d0 uniq])
  have dE: "distinct (map fst ?new)" using entries_distinct [OF d keeps_unique [OF keeps uniq]] .
  have old: "map_of f p = map_of f0 p" if "(n, p) \<in> set ?old" for n p
    using that keeps_old [OF keeps] by (fastforce simp: entries_of_iff shard_seq_of_numbered present_def)
  have sub: "set ?old \<subseteq> set ?new"
    using old by (auto simp: entries_of_iff present_def)
  show ?thesis
  proof (cases "set ?new = set ?old")
    case True
    then have "sort_entries ?new = sort_entries ?old"
      by (intro sort_entries_eqI) (use dE dE0 in \<open>auto simp: sort_entries_def distinct_map\<close>)
    with True show ?thesis by simp
  next
    case False
    with sub obtain n p where np: "(n, p) \<in> set ?new" "(n, p) \<notin> set ?old" by auto
    then have p: "numbered dir p n" "map_of f p \<noteq> None" "map_of f0 p = None"
      by (auto simp: entries_of_iff present_def shard_seq_of_numbered)
    note raw = keeps_new(1) [OF keeps p] and above = keeps_new(2) [OF keeps p]
      and only = keeps_new(3) [OF keeps p]
    have "set ?new = set (sort_entries ?old @ [(n, p)])"
    proof
      show "set ?new \<subseteq> set (sort_entries ?old @ [(n, p)])"
      proof
        fix x assume x: "x \<in> set ?new"
        obtain m q where mq: "x = (m, q)" by (cases x)
        show "x \<in> set (sort_entries ?old @ [(n, p)])"
        proof (cases "map_of f0 q = None")
          case True
          with x mq only [of q m] have "q = p"
            by (auto simp: entries_of_iff shard_seq_of_numbered present_def)
          with x np(1) show ?thesis by (auto simp: mq entries_of_iff)
        next
          case False
          with x show ?thesis by (auto simp: mq entries_of_iff present_def sort_entries_def)
        qed
      qed
    qed (use sub np(1) in \<open>auto simp: sort_entries_def\<close>)
    moreover have less: "m < n" if "(m, q) \<in> set ?old" for m q
      using that above by (auto simp: entries_of_iff shard_seq_of_numbered present_def)
    moreover have "distinct (map fst (sort_entries ?old @ [(n, p)]))"
      using dE0 by (auto simp: sort_entries_def distinct_map dest: less)
    moreover have "sorted (map fst (sort_entries ?old @ [(n, p)]))"
      using less by (auto simp: sort_entries_def sorted_append less_imp_le)
    ultimately have "sort_entries ?new = sort_entries ?old @ [(n, p)]"
      by (intro sort_entries_eqI [OF dE]) auto
    with raw False show ?thesis by blast
  qed
qed

lemma entries_kept:
  assumes "keeps dir raw moved f0 f" and "(n, p) \<in> set (entries_of dir f0)"
  shows "map_of f p = map_of f0 p"
  using assms keeps_old by (fastforce simp: entries_of_iff shard_seq_of_numbered present_def)

lemma session_body_extends:
  assumes keeps: "keeps dir raw moved f0 f" and uniq: "unique_numbers dir f0"
    and d0: "distinct (map fst f0)" and d: "distinct (map fst f)"
  shows "session_body dir f = session_body dir f0 @
    (if set (entries_of dir f) = set (entries_of dir f0) then [] else raw)"
proof -
  have "concat (map (\<lambda>(n, p). the (map_of f p)) (sort_entries (entries_of dir f0))) = session_body dir f0"
    unfolding session_body_def using entries_kept [OF keeps]
    by (intro arg_cong [where f = concat] map_cong) (auto simp: sort_entries_def)
  with entries_extend [OF assms] show ?thesis by (auto simp: session_body_def)
qed

section \<open>Which result means what\<close>

lemma find_dup_hit:
  "find_dup e raw es w = (Inr (Some name), w') \<Longrightarrow>
   files w' = files w \<and> (\<exists>n p c. (n, p) \<in> set es \<and> name = shard_filename n \<and>
      map_of (files w) p = Some c \<and> sha256 e c = sha256 e raw)"
proof (induction e raw es arbitrary: w rule: find_dup.induct)
  case (2 e raw seq p es)
  then obtain c where c: "map_of (files w) p = Some c"
    "(if sha256 e c = sha256 e raw then io_return (Some (shard_filename seq)) else find_dup e raw es)
       (w\<lparr>clock := Suc (clock w)\<rparr>) = (Inr (Some name), w')"
    by (auto simp: io_bind_Inr read_file_def split: option.splits if_splits)
  show ?case
  proof (cases "sha256 e c = sha256 e raw")
    case True
    with c show ?thesis by (fastforce simp: io_return_def)
  next
    case False
    with c(2) "2.IH" [OF False, of "w\<lparr>clock := Suc (clock w)\<rparr>"] show ?thesis by auto
  qed
qed (simp add: io_return_def)

lemma touch_files: "touch e x w = (Inr u, w1) \<Longrightarrow> files w1 = files w"
  by (auto simp: touch_def fs_op_def split: if_splits)

lemma find_duplicate_hit:
  assumes "find_duplicate_shard_in_dir e dir raw w = (Inr (Some name), w')"
  shows "files w' = files w \<and> (\<exists>n c. (n, c) \<in> bodies dir (files w) \<and> name = shard_filename n \<and>
      sha256 e c = sha256 e raw)"
proof -
  from assms obtain u w1 where w1: "touch e IoError w = (Inr u, w1)"
    "find_dup e raw (sort_entries (entries_of dir (files w1))) w1 = (Inr (Some name), w')"
    by (auto simp: find_duplicate_shard_in_dir_def sealed_shard_entries_def io_bind_Inr)
  from find_dup_hit [OF w1(2)] touch_files [OF w1(1)] show ?thesis
    by (fastforce simp: sort_entries_def entries_of_iff bodies_def)
qed

lemma io_bind_returns:
  "io_bind m k w = (Inr r, w') \<Longrightarrow> (\<And>a v v'. k a v = (Inr r, v') \<Longrightarrow> P) \<Longrightarrow> P"
  by (auto simp: io_bind_Inr)

lemma install_returns:
  "install_active e dir t a n raw w = (Inr r, w') \<Longrightarrow> r = Allocated n"
  "install_inbox e dir t n raw w = (Inr r, w') \<Longrightarrow> r = Allocated n"
  "install_store e dir t n raw w = (Inr r, w') \<Longrightarrow> r = Allocated n"
  unfolding install_active_def install_inbox_def install_store_def Let_def
  by (auto simp: io_return_def io_fail_def elim!: io_bind_returns split: if_splits)

lemma allocate_returns: "allocate_and_install e dir cap source w = (Inr r, w') \<Longrightarrow> \<exists>n. r = Allocated n"
  unfolding allocate_and_install_def Let_def
  by (elim io_bind_returns) (auto dest: install_returns split: shard_source.splits)

lemma write_shard_hit:
  assumes "write_shard_in_dir e dir cap source ids w = (Inr (Existing name), w')"
  shows "files w' = files w \<and> (\<exists>n c. (n, c) \<in> bodies dir (files w) \<and> name = shard_filename n \<and>
      sha256 e c = sha256 e (source_raw source))"
proof -
  let ?guard = "if is_inbox source
      then case refuse_fixture_write (temp_dir e) ids (stage_root e) of Inl i \<Rightarrow> io_fail (FixtureRefused i) | Inr u \<Rightarrow> io_return u
      else io_return ()"
  have guard: "w1 = w" if "?guard w = (Inr u, w1)" for u w1
    using that by (auto simp: io_return_def io_fail_def split: if_splits sum.splits)
  have mk: "files w2 = files w1" if "(if is_active source then io_return () else touch e IoError) w1 = (Inr u, w2)" for u w1 w2
    using that by (auto simp: io_return_def dest: touch_files split: if_splits)
  from assms obtain u w1 where 1: "?guard w = (Inr u, w1)" and
    "io_bind (if is_active source then io_return () else touch e IoError) (\<lambda>_.
     io_bind (if dedups source then find_duplicate_shard_in_dir e dir (source_raw source)
              else io_return None) (\<lambda>dup.
     case dup of
       Some existing \<Rightarrow> io_return (Existing existing)
     | None \<Rightarrow> allocate_and_install e dir cap source)) w1 = (Inr (Existing name), w')"
    unfolding write_shard_in_dir_def io_bind_Inr [where m = ?guard] by blast
  then obtain v w2 dup w3 where 2: "(if is_active source then io_return () else touch e IoError) w1 = (Inr v, w2)"
    "(if dedups source then find_duplicate_shard_in_dir e dir (source_raw source) else io_return None) w2 = (Inr dup, w3)"
    "(case dup of Some existing \<Rightarrow> io_return (Existing existing)
     | None \<Rightarrow> allocate_and_install e dir cap source) w3 = (Inr (Existing name), w')"
    unfolding io_bind_Inr by blast
  then have "dup = Some name" "w3 = w'"
    by (auto simp: io_return_def dest: allocate_returns split: option.splits)
  with 2(2) have "find_duplicate_shard_in_dir e dir (source_raw source) w2 = (Inr (Some name), w')"
    by (auto simp: io_return_def split: if_splits)
  from find_duplicate_hit [OF this] guard [OF 1] mk [OF 2(1)] show ?thesis by simp
qed
section \<open>Runs without faults\<close>

abbreviation nofault :: "('x schedule_scheme) \<Rightarrow> bool" where
  "nofault e \<equiv> fault e = (\<lambda>_. False)"

text \<open>The shard a deduplicating writer finds: the lowest numbered one of the same digest.\<close>

definition duplicate_of :: "env \<Rightarrow> bytes \<Rightarrow> path \<Rightarrow> fs \<Rightarrow> (nat \<times> path) option" where
  "duplicate_of e raw dir f =
     find (\<lambda>(n, p). sha256 e (the (map_of f p)) = sha256 e raw) (sort_entries (entries_of dir f))"

lemma find_dup_nofault:
  assumes "nofault e" and "\<forall>(n, p) \<in> set es. present (files w) p"
  shows "\<exists>k. find_dup e raw es w =
    (Inr (map_option (shard_filename \<circ> fst)
        (find (\<lambda>(n, p). sha256 e (the (map_of (files w) p)) = sha256 e raw) es)), w\<lparr>clock := k\<rparr>)"
  using assms(2)
proof (induction es arbitrary: w)
  case Nil
  have "w = w\<lparr>clock := clock w\<rparr>" by simp
  then have "\<exists>k. w = w\<lparr>clock := k\<rparr>" by blast
  then show ?case by (simp add: io_return_def)
next
  case (Cons a es)
  obtain n p where a: "a = (n, p)" by (cases a)
  with Cons.prems obtain c where c: "map_of (files w) p = Some c" by (auto simp: present_def)
  show ?case
  proof (cases "sha256 e c = sha256 e raw")
    case True
    then show ?thesis using a c assms(1)
      by (auto simp: io_simps read_file_def)
  next
    case False
    then show ?thesis using a c assms(1) Cons.IH [of "w\<lparr>clock := Suc (clock w)\<rparr>"] Cons.prems
      by (auto simp: io_simps read_file_def)
  qed
qed

lemma find_duplicate_nofault:
  assumes "nofault e"
  shows "\<exists>k. find_duplicate_shard_in_dir e dir raw w =
    (Inr (map_option (shard_filename \<circ> fst) (duplicate_of e raw dir (files w))), w\<lparr>clock := k\<rparr>)"
proof -
  let ?w = "w\<lparr>clock := Suc (clock w)\<rparr>"
  have "sealed_shard_entries e dir w = (Inr (entries_of dir (files w)), ?w)"
    using assms by (simp add: sealed_shard_entries_def io_simps file_simps)
  moreover have "\<forall>(n, p) \<in> set (sort_entries (entries_of dir (files w))). present (files ?w) p"
    by (auto simp: sort_entries_def entries_of_iff)
  from find_dup_nofault [OF assms this, of raw] obtain k where
    "find_dup e raw (sort_entries (entries_of dir (files w))) ?w =
      (Inr (map_option (shard_filename \<circ> fst) (duplicate_of e raw dir (files w))), w\<lparr>clock := k\<rparr>)"
    by (auto simp: duplicate_of_def)
  ultimately show ?thesis
    by (auto simp: find_duplicate_shard_in_dir_def io_bind_def)
qed

lemma persist_nofault:
  assumes "nofault e"
  shows "\<exists>w'. persist_shard_seq_in_dir e dir n w = (Inr (), w') \<and>
    map_of (files w') = (map_of (files w))(dir @ [''.shard-seq.tmp''] := None, ctr dir \<mapsto> dec n)"
  using assms aux_counter_tmp [of dir]
  by (auto simp: persist_shard_seq_in_dir_def io_simps file_simps write_synced_def Let_def
      fun_eq_iff aux_path_def)

text \<open>The number the next shard gets.\<close>

definition high_water :: "env \<Rightarrow> path \<Rightarrow> fs \<Rightarrow> nat option" where
  "high_water e dir f =
     (case map_of f (ctr dir) of
        None \<Rightarrow> if confirm_shard_seq_absence (ancestors e (ctr dir))
                then Some (foldr (max \<circ> fst) (entries_of dir f) 0) else None
      | Some raw \<Rightarrow> counter_value dir f)"

lemma next_nofault:
  assumes "nofault e" and "high_water e dir (files w) = Some h" and "h < u64_max"
  shows "\<exists>w'. next_shard_seq_in_dir e dir w = (Inr (Suc h), w') \<and>
    map_of (files w') = (map_of (files w))(dir @ [''.shard-seq.tmp''] := None, ctr dir \<mapsto> dec (Suc h))"
proof -
  have wrap: "(h + 1) mod 2 ^ 64 = Suc h" using assms(3) by (simp add: u64_max_def)
  show ?thesis
  proof (cases "map_of (files w) (ctr dir)")
    case None
    with assms(2) have h: "h = foldr (max \<circ> fst) (entries_of dir (files w)) 0"
      "confirm_shard_seq_absence (ancestors e (ctr dir))"
      by (auto simp: high_water_def split: if_splits)
    have "load_shard_seq_state_in_dir e (ctr dir) w = (Inr SeqMissing, w\<lparr>clock := Suc (clock w)\<rparr>)"
      using assms(1) None h(2) by (simp add: load_shard_seq_state_in_dir_def)
    moreover have "derive_shard_high_water_in_dir e dir (w\<lparr>clock := k\<rparr>) = (Inr h, w\<lparr>clock := Suc k\<rparr>)" for k
      using assms(1) h(1) by (simp add: derive_shard_high_water_in_dir_def sealed_shard_entries_def
          io_simps file_simps)
    moreover obtain w' where "persist_shard_seq_in_dir e dir (Suc h) (w\<lparr>clock := Suc (Suc (clock w))\<rparr>) = (Inr (), w')"
      "map_of (files w') = (map_of (files w))(dir @ [''.shard-seq.tmp''] := None, ctr dir \<mapsto> dec (Suc h))"
      using persist_nofault [OF assms(1), of dir "Suc h" "w\<lparr>clock := Suc (Suc (clock w))\<rparr>"] by auto
    ultimately show ?thesis using wrap
      by (simp add: next_shard_seq_in_dir_def io_bind_def io_return_def Let_def)
  next
    case (Some raw)
    with assms(2) have "classify_counter raw = SeqLoaded h"
      by (auto simp: high_water_def counter_value_def split: seq_state.splits)
    then have "load_shard_seq_state_in_dir e (ctr dir) w = (Inr (SeqLoaded h), w\<lparr>clock := Suc (clock w)\<rparr>)"
      using assms(1) Some by (simp add: load_shard_seq_state_in_dir_def)
    moreover obtain w' where "persist_shard_seq_in_dir e dir (Suc h) (w\<lparr>clock := Suc (clock w)\<rparr>) = (Inr (), w')"
      "map_of (files w') = (map_of (files w))(dir @ [''.shard-seq.tmp''] := None, ctr dir \<mapsto> dec (Suc h))"
      using persist_nofault [OF assms(1), of dir "Suc h" "w\<lparr>clock := Suc (clock w)\<rparr>"] by auto
    ultimately show ?thesis using wrap
      by (simp add: next_shard_seq_in_dir_def io_bind_def io_return_def Let_def)
  qed
qed

lemma install_store_nofault:
  assumes "nofault e" and "map_of (files w) (shard_path_in_dir dir n cap) = None"
  shows "\<exists>w'. install_store e dir (shard_path_in_dir dir n cap) n raw w = (Inr (Allocated n), w')"
proof -
  have "butlast (shard_path_in_dir dir n cap) @ [''.'' @ shard_filename n @ ''tmp''] \<noteq>
      shard_path_in_dir dir n cap"
    by (simp add: shard_path_in_dir_def butlast_append)
  then show ?thesis using assms
    by (simp add: install_store_def io_simps file_simps write_synced_def Let_def record_shard_fact_def)
qed

lemma high_water_bounds:
  assumes "dir_ok dir f" and "high_water e dir f = Some h" and "numbered dir p n" and "present f p"
  shows "n \<le> h"
proof (cases "map_of f (ctr dir)")
  case None
  then have "bounded_by dir [] None f (foldr (max \<circ> fst) (entries_of dir f) 0) f"
    using assms(1) by (intro high_water_bounded) (auto simp: settled_def dir_ok_def)
  with assms None show ?thesis by (auto simp: bounded_by_def high_water_def split: if_splits)
next
  case (Some raw)
  with assms show ?thesis
    by (auto simp: dir_ok_def counter_inv_def high_water_def counter_value_def split: seq_state.splits)
qed

lemma write_store_run:
  assumes nf: "nofault e" and ok: "dir_ok dir (files w)"
    and hw: "high_water e dir (files w) = Some h" "h < u64_max"
    and dup: "dedups (Store raw writer rep) \<longrightarrow> duplicate_of e raw dir (files w) = None"
  shows "\<exists>w'. write_shard_in_dir e dir cap (Store raw writer rep) ids w = (Inr (Allocated (Suc h)), w')"
proof -
  let ?target = "shard_path_in_dir dir (Suc h) cap"
  have free: "map_of (files w) ?target = None"
    using high_water_bounds [OF ok hw(1) numbered_shard_path] Suc_n_not_le_n
    unfolding present_def by blast
  have aux: "?target \<noteq> dir @ [''.shard-seq.tmp'']" "?target \<noteq> ctr dir"
    by (auto simp: shard_path_in_dir_def shard_seq_file_in_dir_def)
  have alloc: "\<exists>w'. allocate_and_install e dir cap (Store raw writer rep) (w\<lparr>clock := k\<rparr>) =
      (Inr (Allocated (Suc h)), w')" for k
  proof -
    obtain w1 where w1: "next_shard_seq_in_dir e dir (w\<lparr>clock := k\<rparr>) = (Inr (Suc h), w1)"
      "map_of (files w1) = (map_of (files w))(dir @ [''.shard-seq.tmp''] := None, ctr dir \<mapsto> dec (Suc h))"
      using next_nofault [OF nf, of dir "w\<lparr>clock := k\<rparr>" h] hw by auto
    let ?w2 = "\<lparr>files = files w1, clock = Suc (clock w1)\<rparr>"
    have "map_of (files ?w2) ?target = None" using w1(2) free aux by simp
    from install_store_nofault [OF nf this] obtain w' where
      "install_store e dir ?target (Suc h) raw ?w2 = (Inr (Allocated (Suc h)), w')" by blast
    then show ?thesis using w1(1) nf
      by (simp add: allocate_and_install_def Let_def io_bind_def touch_def fs_op_def)
  qed
  obtain k where "find_duplicate_shard_in_dir e dir raw (w\<lparr>clock := Suc (clock w)\<rparr>) =
      (Inr (map_option (shard_filename \<circ> fst) (duplicate_of e raw dir (files w))), w\<lparr>clock := k\<rparr>)"
    using find_duplicate_nofault [OF nf, of dir raw "w\<lparr>clock := Suc (clock w)\<rparr>"] by auto
  moreover have "touch e IoError w = (Inr (), w\<lparr>clock := Suc (clock w)\<rparr>)"
    using nf by (cases w) (simp add: touch_def fs_op_def)
  ultimately show ?thesis using dup alloc
    by (simp add: write_shard_in_dir_def io_bind_def io_return_def)
qed

lemma write_store_replay:
  assumes nf: "nofault e" and d: "dedups (Store raw writer rep)"
    and dup: "duplicate_of e raw dir (files w) = Some (n, p)"
  shows "\<exists>k. write_shard_in_dir e dir cap (Store raw writer rep) ids w =
    (Inr (Existing (shard_filename n)), w\<lparr>clock := k\<rparr>)"
proof -
  obtain k where "find_duplicate_shard_in_dir e dir raw (w\<lparr>clock := Suc (clock w)\<rparr>) =
      (Inr (map_option (shard_filename \<circ> fst) (duplicate_of e raw dir (files w))), w\<lparr>clock := k\<rparr>)"
    using find_duplicate_nofault [OF nf, of dir raw "w\<lparr>clock := Suc (clock w)\<rparr>"] by auto
  moreover have "touch e IoError w = (Inr (), w\<lparr>clock := Suc (clock w)\<rparr>)"
    using nf by (cases w) (simp add: touch_def fs_op_def)
  ultimately show ?thesis using d dup
    by (auto simp: write_shard_in_dir_def io_bind_def io_return_def)
qed

section \<open>What a sealed shard adds\<close>

lemma high_water_room: "high_water e dir f = Some h \<Longrightarrow> h < u64_max \<Longrightarrow> counter_room dir f"
  by (auto simp: high_water_def counter_room_def counter_value_def split: option.splits)

lemma allocated_installed:
  assumes "dir_ok dir (files w)" "counter_room dir (files w)" "source_ready dir source (files w)"
    and "write_shard_in_dir e dir cap source ids w = (Inr (Allocated n), w')"
  shows "installed dir (source_raw source) (moved_by source) (files w) (shard_path_in_dir dir n cap) n (files w')"
  using assms(1-3)
  by (rule write_shard_exits [where e = e and cap = cap and ids = ids])
    (use assms(4) in \<open>auto simp: written_def\<close>)

lemma allocated_file:
  assumes "dir_ok dir (files w)" "counter_room dir (files w)" "source_ready dir source (files w)"
    and "write_shard_in_dir e dir cap source ids w = (Inr (Allocated n), w')"
  shows "map_of (files w') (shard_path_in_dir dir n cap) = Some (source_raw source)"
  using allocated_installed [OF assms] by (simp add: installed_def)

lemma allocated_extends:
  assumes "dir_ok dir (files w)" "unique_numbers dir (files w)"
    and "counter_room dir (files w)" "source_ready dir source (files w)"
    and "write_shard_in_dir e dir cap source ids w = (Inr (Allocated n), w')"
  shows "session_body dir (files w') = session_body dir (files w) @
    (if set (entries_of dir (files w')) = set (entries_of dir (files w)) then [] else source_raw source)"
  by (rule session_body_extends)
    (use allocated_installed [OF assms(1,3,4,5)] assms(1,2) in
      \<open>auto simp: installed_def settled_def dir_ok_def\<close>)

lemma allocated_body:
  assumes "dir_ok dir (files w)" "unique_numbers dir (files w)"
    and "counter_room dir (files w)" "source_ready dir source (files w)"
    and "write_shard_in_dir e dir cap source ids w = (Inr (Allocated n), w')" and "n < 1000000"
  shows "session_body dir (files w') = session_body dir (files w) @ source_raw source"
proof -
  let ?p = "shard_path_in_dir dir n cap"
  have "map_of (files w') ?p = Some (source_raw source)" "map_of (files w) ?p = None"
    using allocated_installed [OF assms(1,3,4,5)] by (simp_all add: installed_def)
  then have "(n, ?p) \<in> set (entries_of dir (files w'))" "(n, ?p) \<notin> set (entries_of dir (files w))"
    using assms(6) by (auto simp: entries_of_iff present_def shard_seq_of_numbered)
  then show ?thesis using allocated_extends [OF assms(1-5)] by auto
qed

lemma allocated_hidden:
  assumes "dir_ok dir (files w)" "unique_numbers dir (files w)"
    and "counter_room dir (files w)" "source_ready dir source (files w)"
    and "write_shard_in_dir e dir cap source ids w = (Inr (Allocated n), w')" and "1000000 \<le> n"
  shows "session_body dir (files w') = session_body dir (files w)"
proof -
  let ?p = "shard_path_in_dir dir n cap"
  have i: "map_of (files w') ?p \<noteq> None" "map_of (files w) ?p = None"
    and k: "keeps dir (source_raw source) (moved_by source) (files w) (files w')"
    using allocated_installed [OF assms(1,3,4,5)] by (simp_all add: installed_def settled_def)
  have "(m, q) \<in> set (entries_of dir (files w')) \<longleftrightarrow> (m, q) \<in> set (entries_of dir (files w))" for m q
  proof (cases "numbered dir q m \<and> m < 1000000")
    case True
    have "q \<noteq> ?p" using True assms(6) numbered_fun [of dir q m n] by auto
    with keeps_new(3) [OF k numbered_shard_path i, of q m] True
    have "map_of (files w') q \<noteq> None \<Longrightarrow> map_of (files w) q \<noteq> None" by blast
    moreover have "map_of (files w) q \<noteq> None \<Longrightarrow> map_of (files w') q \<noteq> None"
      using keeps_old [OF k conjunct1 [OF True]] by blast
    ultimately show ?thesis by (auto simp: entries_of_iff present_def)
  qed (auto simp: entries_of_iff shard_seq_of_numbered)
  then have "set (entries_of dir (files w')) = set (entries_of dir (files w))" by auto
  then show ?thesis using allocated_extends [OF assms(1-5)] by simp
qed

end
