(* ===== verification/Stage_Props.thy ===== *)
theory Stage_Props
  imports Stage_Spec
begin

text \<open>
  The properties of the stage: append-only writes under every fault schedule, what each
  result of the writer means, its success without faults, and the naming of shards.
\<close>

section \<open>A concrete stage for the witnesses\<close>

definition demo_env :: env where
  "demo_env =
     \<lparr>fault = (\<lambda>_. False), torn = (\<lambda>_. 0), sha256 = (\<lambda>c. c), enc_fact = (\<lambda>_. Some ''{}''),
      dec_fact = (\<lambda>_. None), temp_dir = [''tmp''], stage_root = [''stage''], ancestors = (\<lambda>_. [])\<rparr>"

definition demo_dir :: path where
  "demo_dir = session_shard_dir ''m'' ''s''"

definition empty_world :: world where
  "empty_world = \<lparr>files = [], clock = 0\<rparr>"

definition demo_shard :: path where
  "demo_shard = shard_path_in_dir demo_dir 1 20"

definition demo_world :: world where
  "demo_world = \<lparr>files = [(demo_shard, ''x''), (ctr demo_dir, ''1'')], clock = 0\<rparr>"

lemma demo_nofault [simp]: "nofault demo_env"
  by (simp add: demo_env_def)

lemma dir_ok_empty [simp]: "dir_ok dir []" "counter_room dir []" "unique_numbers dir []"
  by (simp_all add: dir_ok_def counter_inv_def counter_room_def unique_numbers_def present_def)

lemma demo_counter: "classify_counter ''1'' = SeqLoaded 1"
proof -
  have "dec 1 = ''1''" by code_simp
  then show ?thesis using classify_dec [of 1] by (simp add: u64_max_def)
qed

lemma demo_names: "demo_shard \<noteq> ctr demo_dir" "numbered demo_dir demo_shard n \<longleftrightarrow> n = 1"
  using ctr_not_numbered [of demo_dir] numbered_shard_path [of demo_dir 1 20] numbered_fun
  unfolding demo_shard_def by metis+

lemma demo_ok [simp]: "dir_ok demo_dir (files demo_world)" "counter_room demo_dir (files demo_world)"
  "unique_numbers demo_dir (files demo_world)"
  using demo_names
  by (auto simp: demo_world_def dir_ok_def counter_inv_def counter_room_def unique_numbers_def
      present_def demo_counter u64_max_def split: if_splits)

lemma demo_entries: "entries_of demo_dir (files demo_world) = [(1, demo_shard)]"
proof -
  have "shard_seq_of demo_dir demo_shard = Some 1"
    using demo_names(2) [of 1] by (simp add: shard_seq_of_numbered)
  moreover have "shard_seq_of demo_dir (ctr demo_dir) = None"
    using ctr_not_numbered [of demo_dir] shard_seq_of_numbered [of demo_dir "ctr demo_dir"] by fastforce
  ultimately have "shard_seq_of demo_dir demo_shard = Some 1" "shard_seq_of demo_dir (ctr demo_dir) = None"
    by simp_all
  then show ?thesis by (simp add: demo_world_def entries_of_Cons) (simp add: entries_of_def)
qed

lemma demo_run: "\<exists>w'. write_shard_in_dir demo_env demo_dir 20 (Store ''y'' Collect False) [] demo_world =
    (Inr (Allocated 2), w')"
proof -
  have "high_water demo_env demo_dir (files demo_world) = Some 1"
    using demo_names(1) demo_counter by (simp add: high_water_def counter_value_def demo_world_def)
  moreover have "duplicate_of demo_env ''y'' demo_dir (files demo_world) = None"
    unfolding duplicate_of_def demo_entries
    by (simp add: sort_entries_def demo_env_def demo_world_def)
  moreover have "1 < u64_max" "Suc 1 = 2" by (simp_all add: u64_max_def)
  ultimately show ?thesis
    using write_store_run [OF demo_nofault demo_ok(1), of 1 "''y''" Collect False 20 "[]"]
    by (simp add: numeral_2_eq_2)
qed

section \<open>The writer under faults\<close>

text \<open>C2: Whatever file operations fail while a shard is written, and wherever the writer
  stops, the body a reader concatenates is either untouched or the old body followed by the
  complete new shard; no stored shard is lost or altered, no file outside the session's
  directory changes except an active file that was moved in, and the directory stays fit for
  the next write.\<close>

theorem write_shard_append_only:
  assumes "dir_ok dir (files w)" and "unique_numbers dir (files w)"
    and "counter_room dir (files w)" and "source_ready dir source (files w)"
    and "write_shard_in_dir e dir cap source ids w = (r, w')"
  shows "(session_body dir (files w') = session_body dir (files w) \<or>
      session_body dir (files w') = session_body dir (files w) @ source_raw source) \<and>
    bodies dir (files w) \<subseteq> bodies dir (files w') \<and>
    dir_ok dir (files w') \<and> unique_numbers dir (files w') \<and>
    (\<forall>p. take (length dir) p \<noteq> dir \<and> Some p \<noteq> moved_by source \<longrightarrow>
       map_of (files w') p = map_of (files w) p)"
proof -
  have s: "settled dir (source_raw source) (moved_by source) (files w) (files w')"
    using write_shard_settled [OF assms(1,3,4), of e cap ids] assms(5) by simp
  then have k: "keeps dir (source_raw source) (moved_by source) (files w) (files w')"
    by (simp add: settled_def)
  have "session_body dir (files w') = session_body dir (files w) \<or>
      session_body dir (files w') = session_body dir (files w) @ source_raw source"
    using session_body_extends [OF k assms(2)] s assms(1) by (simp add: settled_def dir_ok_def)
  moreover have "\<forall>p. take (length dir) p \<noteq> dir \<and> Some p \<noteq> moved_by source \<longrightarrow>
       map_of (files w') p = map_of (files w) p"
    using k unfolding keeps_def by blast
  ultimately show ?thesis
    using keeps_bodies(1) [OF k] keeps_unique [OF k assms(2)] s
    unfolding settled_def dir_ok_def by blast
qed

theorem write_shard_append_only_witness:
  "bodies demo_dir (files demo_world) \<subseteq> bodies demo_dir
     (files (snd (write_shard_in_dir demo_env demo_dir 20 (Store ''y'' Collect False) [] demo_world)))"
  using write_shard_append_only [OF demo_ok(1,3,2), of "Store ''y'' Collect False", OF _ surjective_pairing]
  by simp

text \<open>When the writer reports a freshly numbered shard, its file did not exist before and now
  holds exactly the given bytes, the counter file holds that number, and the number is above the
  old counter and above every stored shard; this under any fault schedule.\<close>

theorem write_shard_allocated:
  assumes "dir_ok dir (files w)" and "unique_numbers dir (files w)"
    and "counter_room dir (files w)" and "source_ready dir source (files w)"
    and "write_shard_in_dir e dir cap source ids w = (Inr (Allocated n), w')"
  shows "map_of (files w) (shard_path_in_dir dir n cap) = None \<and>
    map_of (files w') (shard_path_in_dir dir n cap) = Some (source_raw source) \<and>
    counter_value dir (files w') = Some n \<and>
    (\<forall>c. counter_value dir (files w) = Some c \<longrightarrow> c < n) \<and>
    (\<forall>(m, c) \<in> bodies dir (files w). m < n)"
proof -
  have i: "installed dir (source_raw source) (moved_by source) (files w) (shard_path_in_dir dir n cap) n (files w')"
    using assms(1,3,4)
    by (rule write_shard_exits [where e = e and cap = cap and ids = ids])
      (use assms(5) in \<open>auto simp: written_def\<close>)
  then have k: "keeps dir (source_raw source) (moved_by source) (files w) (files w')"
    by (simp add: installed_def settled_def)
  have "\<forall>(m, c) \<in> bodies dir (files w). m < n"
    using keeps_new(2) [OF k numbered_shard_path, of n cap] i
    by (fastforce simp: installed_def bodies_def shard_seq_of_numbered)
  then show ?thesis
    using i by (auto simp: installed_def counter_value_def classify_dec)
qed

theorem write_shard_allocated_witness:
  "\<exists>w'. write_shard_in_dir demo_env demo_dir 20 (Store ''y'' Collect False) [] demo_world =
      (Inr (Allocated 2), w') \<and> map_of (files w') (shard_path_in_dir demo_dir 2 20) = Some ''y''"
proof -
  obtain w' where w': "write_shard_in_dir demo_env demo_dir 20 (Store ''y'' Collect False) [] demo_world =
      (Inr (Allocated 2), w')" using demo_run by blast
  with write_shard_allocated [OF demo_ok(1,3,2) _ w'] show ?thesis by simp
qed

text \<open>When the writer reports an existing shard, nothing on disk changed and a stored shard of
  that name has the same SHA-256 as the given bytes: a replay is never sealed a second time
  and never passes for a different body.\<close>

theorem write_shard_existing:
  assumes "write_shard_in_dir e dir cap source ids w = (Inr (Existing name), w')"
  shows "files w' = files w \<and> (\<exists>n c. (n, c) \<in> bodies dir (files w) \<and> name = shard_filename n \<and>
      sha256 e c = sha256 e (source_raw source))"
  using assms by (rule write_shard_hit)

theorem write_shard_existing_witness:
  "\<exists>w'. write_shard_in_dir demo_env demo_dir 20 (Store ''x'' Collect False) [] demo_world =
      (Inr (Existing (shard_filename 1)), w') \<and> files w' = files demo_world"
proof -
  have "duplicate_of demo_env ''x'' demo_dir (files demo_world) = Some (1, demo_shard)"
    unfolding duplicate_of_def demo_entries
    by (simp add: sort_entries_def demo_env_def demo_world_def)
  from write_store_replay [OF demo_nofault _ this, of Collect False 20 "[]"] obtain w' where
    w': "write_shard_in_dir demo_env demo_dir 20 (Store ''x'' Collect False) [] demo_world =
      (Inr (Existing (shard_filename 1)), w')" by auto
  from write_shard_existing [OF w'] w' show ?thesis by simp
qed

section \<open>Success without faults\<close>

text \<open>C3: Without faults, with a readable counter (or a missing one below an existing directory), and
  with no stored shard of the same digest, the store's writer succeeds with the number after
  the high-water mark; below one million the session body grows by exactly the new bytes.\<close>

theorem write_store_appends:
  assumes "nofault e" and "dir_ok dir (files w)" and "unique_numbers dir (files w)"
    and "high_water e dir (files w) = Some h" and "h < 999999"
    and "dedups (Store raw writer rep) \<longrightarrow> duplicate_of e raw dir (files w) = None"
  shows "\<exists>w'. write_shard_in_dir e dir cap (Store raw writer rep) ids w = (Inr (Allocated (Suc h)), w') \<and>
    session_body dir (files w') = session_body dir (files w) @ raw"
proof -
  have h: "h < u64_max" using assms(5) by (simp add: u64_max_def)
  obtain w' where w': "write_shard_in_dir e dir cap (Store raw writer rep) ids w = (Inr (Allocated (Suc h)), w')"
    using write_store_run [OF assms(1,2,4) h assms(6)] by blast
  have "session_body dir (files w') = session_body dir (files w) @ raw"
    by (rule allocated_body [OF assms(2,3) _ _ w', simplified])
      (use high_water_room [OF assms(4) h] assms(5) in auto)
  with w' show ?thesis by blast
qed

theorem write_store_appends_witness:
  "\<exists>w'. write_shard_in_dir demo_env demo_dir 20 (Store ''ab'' Collect False) [] empty_world =
      (Inr (Allocated 1), w') \<and> session_body demo_dir (files w') = ''ab''"
proof -
  have "high_water demo_env demo_dir (files empty_world) = Some 0"
    by (simp add: high_water_def empty_world_def demo_env_def entries_of_def List.map_filter_def)
  moreover have "duplicate_of demo_env ''ab'' demo_dir (files empty_world) = None"
    by (simp add: duplicate_of_def sort_entries_def empty_world_def entries_of_def List.map_filter_def)
  moreover have "session_body demo_dir (files empty_world) = []"
    by (simp add: session_body_def sort_entries_def empty_world_def entries_of_def List.map_filter_def)
  ultimately show ?thesis
    using write_store_appends [of demo_env demo_dir empty_world 0 "''ab''" Collect False 20 "[]"]
    by (simp add: empty_world_def)
qed

text \<open>From one million on the writer still succeeds and advances the counter, but no reader lists
  the shard it sealed: the session body stays what it was.\<close>

lemma oversize_shard_invisible:
  assumes "nofault e" and "dir_ok dir (files w)" and "unique_numbers dir (files w)"
    and "high_water e dir (files w) = Some h" and "999999 \<le> h" and "h < u64_max"
    and "dedups (Store raw writer rep) \<longrightarrow> duplicate_of e raw dir (files w) = None"
  shows "\<exists>w'. write_shard_in_dir e dir cap (Store raw writer rep) ids w = (Inr (Allocated (Suc h)), w') \<and>
    map_of (files w') (shard_path_in_dir dir (Suc h) cap) = Some raw \<and>
    session_body dir (files w') = session_body dir (files w)"
proof -
  obtain w' where w': "write_shard_in_dir e dir cap (Store raw writer rep) ids w = (Inr (Allocated (Suc h)), w')"
    using write_store_run [OF assms(1,2,4,6,7)] by blast
  have r: "counter_room dir (files w)" using high_water_room [OF assms(4,6)] .
  have "session_body dir (files w') = session_body dir (files w)"
    by (rule allocated_hidden [OF assms(2,3) r _ w']) (use assms(5) in simp_all)
  with w' allocated_file [OF assms(2) r _ w'] show ?thesis by simp
qed

definition full_world :: world where
  "full_world = \<lparr>files = [(ctr demo_dir, dec 999999)], clock = 0\<rparr>"

lemma oversize_shard_invisible_witness:
  "\<exists>w'. write_shard_in_dir demo_env demo_dir 20 (Store ''ab'' Collect False) [] full_world =
      (Inr (Allocated 1000000), w') \<and>
    map_of (files w') (shard_path_in_dir demo_dir 1000000 20) = Some ''ab'' \<and>
    session_body demo_dir (files w') = session_body demo_dir (files full_world)"
proof -
  have c: "classify_counter (dec 999999) = SeqLoaded 999999"
    by (rule classify_dec) (simp add: u64_max_def)
  have num: "\<not> (numbered demo_dir p n \<and> present (files full_world) p)" for p n
    using ctr_not_numbered [of demo_dir n] by (auto simp: full_world_def present_def split: if_splits)
  have "dir_ok demo_dir (files full_world)" "unique_numbers demo_dir (files full_world)"
    using num by (auto simp: dir_ok_def counter_inv_def unique_numbers_def full_world_def c)
  moreover have "high_water demo_env demo_dir (files full_world) = Some 999999"
    by (simp add: high_water_def full_world_def counter_value_def c)
  moreover have "entries_of demo_dir (files full_world) = []"
    using num by (auto simp: entries_of_iff shard_seq_of_numbered intro!: equals0I
        simp flip: set_empty)
  then have "duplicate_of demo_env ''ab'' demo_dir (files full_world) = None"
    by (simp add: duplicate_of_def sort_entries_def)
  ultimately show ?thesis
    using oversize_shard_invisible [of demo_env demo_dir full_world 999999 "''ab''" Collect False 20 "[]"]
    by (simp add: u64_max_def)
qed

section \<open>Names\<close>

text \<open>A file name carries a sequence number exactly if it is the name the writer gives that number
  and the number has at most six digits; no second spelling of a number is accepted.\<close>

lemma shard_name_roundtrip:
  "parse_shard_seq name = Some n \<longleftrightarrow> name = shard_filename n \<and> n < 1000000"
  using parse_shard_seq_canonical [of name n] parse_shard_filename [of n] by auto

text \<open>A bucket directory holds at most the configured number of shards (at least one, when the
  cap is configured as zero).\<close>

lemma bucket_capacity:
  "finite {n. 0 < n \<and> shard_bucket_name n cap = b} \<and>
   card {n. 0 < n \<and> shard_bucket_name n cap = b} \<le> max cap 1"
proof (cases "{n. 0 < n \<and> shard_bucket_name n cap = b} = {}")
  case False
  then obtain n where n: "0 < n" "shard_bucket_name n cap = b" by blast
  let ?k = "(n - 1) div max cap 1 * max cap 1"
  have sub: "{m. 0 < m \<and> shard_bucket_name m cap = b} \<subseteq> {?k + 1 .. ?k + max cap 1}"
    using bucket_block [OF n(1), where cap = cap] n(2) by (intro subsetI) (simp only: mem_Collect_eq)
  then have "card {m. 0 < m \<and> shard_bucket_name m cap = b} \<le> card {?k + 1 .. ?k + max cap 1}"
    by (rule card_mono [rotated]) simp
  with finite_subset [OF sub] show ?thesis by simp
qed (simp only: finite.emptyI card.empty zero_le simp_thms)

end
