(* ===== verification/Shard_Replay.thy ===== *)
theory Shard_Replay
  imports Identity_Guard
begin

text \<open>
  How a reader joins a session's sealed shards (\<open>store.rs\<close>): later runs that replay the tail
  of the kept sequence are candidates, and a candidate with the sequence number of the shard
  it replays is folded away. Shown: a fold drops only shards whose bytes and number survive
  in an earlier kept shard, one stage's shards are never folded, and a whole re-seal folds
  back exactly when the original holds no replay of its own.
\<close>

section \<open>Model\<close>

datatype duplicate_policy = Collapse | KeepAll

text \<open>
  \<open>from_env_value\<close>. A value that is not UTF-8 is read with replacement characters, which no
  trimming removes and none of the words holds.
\<close>

definition from_env_value :: "bytes option \<Rightarrow> duplicate_policy" where
  "from_env_value value =
     (let keep = (case value of
          None \<Rightarrow> False
        | Some v \<Rightarrow> \<not> valid_utf8 v \<or>
            (trim v \<noteq> [] \<and> map to_ascii_lower (trim v) \<notin> {''0'', ''false'', ''no'', ''off''}))
      in if keep then KeepAll else Collapse)"

definition collapses :: "duplicate_policy \<Rightarrow> bool" where
  "collapses p \<longleftrightarrow> p = Collapse"

text \<open>The longest run at \<open>index\<close> that reproduces a tail of the kept sequence; 0 if none.\<close>

definition replay_len :: "'a list \<Rightarrow> nat \<Rightarrow> nat list \<Rightarrow> nat" where
  "replay_len shards index preceding =
     (let bounded = min (length preceding) (length shards - index) in
      case find (\<lambda>len. list_all (\<lambda>offset.
                  shards ! (index + offset) = shards ! (preceding ! (length preceding - len + offset)))
                [0 ..< len])
             (rev [1 ..< bounded + 1]) of
        None \<Rightarrow> 0 | Some len \<Rightarrow> len)"

function replay_loop :: "'a list \<Rightarrow> nat \<Rightarrow> nat list \<Rightarrow> (nat \<times> nat) list \<Rightarrow> (nat \<times> nat) list" where
  "replay_loop shards index preceding duplicates =
     (if length shards \<le> index then duplicates
      else let replay = replay_len shards index preceding in
        if 0 < replay
        then replay_loop shards (index + replay) preceding
               (duplicates @ map (\<lambda>offset. (index + offset,
                  preceding ! (length preceding - replay + offset))) [0 ..< replay])
        else replay_loop shards (index + 1) (preceding @ [index]) duplicates)"
  by pat_completeness auto
termination
  by (relation "measure (\<lambda>(shards, index, _, _). length shards - index)") auto

declare replay_loop.simps [simp del]

lemma replay_loop_done: "length shards \<le> index \<Longrightarrow> replay_loop shards index preceding duplicates = duplicates"
  by (simp add: replay_loop.simps)

lemma replay_loop_keep:
  "index < length shards \<Longrightarrow> replay_len shards index preceding = 0 \<Longrightarrow>
   replay_loop shards index preceding duplicates =
     replay_loop shards (index + 1) (preceding @ [index]) duplicates"
  by (subst replay_loop.simps) simp

lemma replay_loop_copy:
  "index < length shards \<Longrightarrow> replay_len shards index preceding = n \<Longrightarrow> 0 < n \<Longrightarrow>
   replay_loop shards index preceding duplicates =
     replay_loop shards (index + n) preceding
       (duplicates @ map (\<lambda>offset. (index + offset, preceding ! (length preceding - n + offset))) [0 ..< n])"
  by (subst replay_loop.simps) simp

definition tail_replay_partners :: "'a list \<Rightarrow> (nat \<times> nat) list" where
  "tail_replay_partners shards = replay_loop shards 0 [] []"

definition duplicate_shard_indices :: "'a list \<Rightarrow> nat list" where
  "duplicate_shard_indices shards = map fst (tail_replay_partners shards)"

definition duplicate_shard_indices_sequenced :: "(nat option \<times> 'a) list \<Rightarrow> nat list" where
  "duplicate_shard_indices_sequenced shards =
     map fst (filter (\<lambda>(index, partner).
        case (fst (shards ! index), fst (shards ! partner)) of
          (Some dup, Some kept) \<Rightarrow> dup = kept | _ \<Rightarrow> False)
       (tail_replay_partners (map snd shards)))"

text \<open>
  The assertion that bodies and numbers have the same length is the precondition of the
  properties below.
\<close>

definition select_shard_bodies_sequenced ::
  "'a list \<Rightarrow> nat option list \<Rightarrow> duplicate_policy \<Rightarrow> 'a list" where
  "select_shard_bodies_sequenced shards sequences policy =
     (if \<not> collapses policy then shards
      else let paired = zip sequences shards;
               duplicates = duplicate_shard_indices_sequenced paired
           in map (\<lambda>(_, _, body). body)
                (filter (\<lambda>(index, _). index \<notin> set duplicates) (enumerate 0 paired)))"

fun group_run :: "nat \<Rightarrow> (nat \<times> nat) list \<Rightarrow> (nat \<times> nat) list" where
  "group_run index runs =
     (case rev runs of
        (start, len) # r \<Rightarrow>
          if start + len = index then rev ((start, len + 1) # r) else runs @ [(index, 1)]
      | [] \<Rightarrow> [(index, 1)])"

definition grouped_shard_runs :: "nat list \<Rightarrow> (nat \<times> nat) list" where
  "grouped_shard_runs indices = fold group_run indices []"

section \<open>Replays are faithful copies\<close>

lemma replay_len_sound:
  assumes "replay_len shards index preceding = n" "0 < n"
  shows "n \<le> length preceding" "n \<le> length shards - index"
    "k < n \<Longrightarrow> shards ! (index + k) = shards ! (preceding ! (length preceding - n + k))"
  using assms unfolding replay_len_def Let_def
  by (auto simp: list_all_iff simp del: upt_Suc split: option.splits dest!: find_SomeD)

text \<open>
  The invariant of the loop: the kept indices ascend below the position, every candidate
  pairs a later equal shard with a kept one, and every earlier index is kept or a candidate.
\<close>

definition replay_inv :: "'a list \<Rightarrow> nat \<Rightarrow> nat list \<Rightarrow> (nat \<times> nat) list \<Rightarrow> bool" where
  "replay_inv shards index preceding duplicates \<longleftrightarrow>
     index \<le> length shards \<and> sorted_wrt (<) (map fst duplicates) \<and>
     set preceding \<union> fst ` set duplicates = {..< index} \<and>
     set preceding \<inter> fst ` set duplicates = {} \<and>
     (\<forall>(i, k) \<in> set duplicates. k \<in> set preceding \<and> k < i \<and> shards ! i = shards ! k)"

lemma replay_inv_copy:
  assumes "replay_inv shards index preceding duplicates" "replay_len shards index preceding = n" "0 < n"
    "index < length shards"
  shows "replay_inv shards (index + n) preceding
    (duplicates @ map (\<lambda>offset. (index + offset, preceding ! (length preceding - n + offset))) [0 ..< n])"
    (is "replay_inv _ _ _ (_ @ ?new)")
proof -
  note sound = replay_len_sound [OF assms(2,3)]
  have inv: "sorted_wrt (<) (map fst duplicates)"
    "set preceding \<union> fst ` set duplicates = {..< index}"
    "set preceding \<inter> fst ` set duplicates = {}"
    "\<forall>(i, k) \<in> set duplicates. k \<in> set preceding \<and> k < i \<and> shards ! i = shards ! k"
    using assms(1) by (simp_all add: replay_inv_def)
  have below: "i < index" if "i \<in> fst ` set duplicates" for i
    using inv(2) that by blast
  have new: "fst ` set ?new = {index ..< index + n}"
    by (auto simp: image_image image_iff)
  have "sorted_wrt (<) (map fst (duplicates @ ?new))"
  proof -
    have "sorted_wrt (<) (map fst ?new)" by (simp add: comp_def sorted_wrt_map)
    moreover have "x < y" if "x \<in> fst ` set duplicates" "y \<in> fst ` set ?new" for x y
      using below [OF that(1)] that(2) unfolding new by simp
    ultimately show ?thesis
      using inv(1) unfolding map_append sorted_wrt_append set_map by blast
  qed
  moreover have "set preceding \<union> fst ` set (duplicates @ ?new) = {..< index + n}"
  proof -
    have "set preceding \<union> fst ` set (duplicates @ ?new) = {..< index} \<union> {index ..< index + n}"
      unfolding set_append image_Un new Un_assoc [symmetric] inv(2) ..
    then show ?thesis by (simp add: ivl_disj_un)
  qed
  moreover have "set preceding \<inter> fst ` set (duplicates @ ?new) = {}"
  proof -
    have "set preceding \<subseteq> {..< index}" using inv(2) by blast
    then have "set preceding \<inter> {index ..< index + n} = {}" by fastforce
    with inv(3) show ?thesis unfolding set_append image_Un new Int_Un_distrib by simp
  qed
  moreover have "\<forall>(i, k) \<in> set ?new. k \<in> set preceding \<and> k < i \<and> shards ! i = shards ! k"
  proof clarsimp
    fix k assume k: "k < n"
    then have mem: "preceding ! (length preceding - n + k) \<in> set preceding"
      using sound(1) by (intro nth_mem) simp
    then have "preceding ! (length preceding - n + k) < index" using inv(2) by auto
    with mem k sound(3) [of k]
    show "preceding ! (length preceding - n + k) \<in> set preceding \<and>
      preceding ! (length preceding - n + k) < index + k \<and>
      shards ! (index + k) = shards ! (preceding ! (length preceding - n + k))" by auto
  qed
  moreover have "index + n \<le> length shards" using sound(2) assms(4) by simp
  ultimately show ?thesis using inv(4) unfolding replay_inv_def by (simp add: ball_Un)
qed

lemma replay_inv_keep:
  assumes "replay_inv shards index preceding duplicates" "index < length shards"
  shows "replay_inv shards (index + 1) (preceding @ [index]) duplicates"
proof -
  have "index \<notin> fst ` set duplicates"
    using assms(1) unfolding replay_inv_def by (metis UnI2 lessThan_iff less_irrefl)
  moreover have "{..< index + 1} = insert index {..< index}" by auto
  ultimately show ?thesis using assms unfolding replay_inv_def by auto
qed

lemma replay_loop_inv:
  "replay_inv shards index preceding duplicates \<Longrightarrow>
   \<exists>kept. replay_inv shards (length shards) kept (replay_loop shards index preceding duplicates)"
proof (induction shards index preceding duplicates rule: replay_loop.induct)
  case (1 shards index preceding duplicates)
  show ?case
  proof (cases "length shards \<le> index")
    case True
    with "1.prems" have "index = length shards" by (simp add: replay_inv_def)
    with True "1.prems" show ?thesis
      unfolding replay_loop.simps [of shards index preceding duplicates] by auto
  next
    case False
    let ?n = "replay_len shards index preceding"
    show ?thesis
    proof (cases "0 < ?n")
      case True
      with False "1.IH"(1) [OF False refl True] replay_inv_copy [OF "1.prems" refl True]
      show ?thesis by (simp add: replay_loop.simps [of shards index preceding] Let_def)
    next
      case no: False
      with False "1.IH"(2) [OF False refl no] replay_inv_keep [OF "1.prems"]
      show ?thesis by (simp add: replay_loop.simps [of shards index preceding] Let_def)
    qed
  qed
qed

lemma partners_inv: "\<exists>kept. replay_inv shards (length shards) kept (tail_replay_partners shards)"
  unfolding tail_replay_partners_def by (rule replay_loop_inv) (simp add: replay_inv_def)

lemma partner_copy:
  assumes "(i, k) \<in> set (tail_replay_partners shards)"
  shows "k < i" "i < length shards" "shards ! i = shards ! k"
    "k \<notin> fst ` set (tail_replay_partners shards)"
proof -
  obtain kept where inv: "replay_inv shards (length shards) kept (tail_replay_partners shards)"
    using partners_inv by blast
  then have "\<forall>(i, k) \<in> set (tail_replay_partners shards). k \<in> set kept \<and> k < i \<and> shards ! i = shards ! k"
    and disj: "set kept \<inter> fst ` set (tail_replay_partners shards) = {}"
    and below: "fst ` set (tail_replay_partners shards) \<subseteq> {..< length shards}"
    unfolding replay_inv_def by blast+
  then have "k \<in> set kept" "k < i" "shards ! i = shards ! k" using assms by auto
  moreover have "i \<in> {..< length shards}" using below assms by force
  ultimately show "k < i" "i < length shards" "shards ! i = shards ! k"
    "k \<notin> fst ` set (tail_replay_partners shards)" using disj by auto
qed

section \<open>Folding\<close>

lemma sequenced_iff:
  "i \<in> set (duplicate_shard_indices_sequenced shards) \<longleftrightarrow>
   (\<exists>k n. (i, k) \<in> set (tail_replay_partners (map snd shards)) \<and>
      fst (shards ! i) = Some n \<and> fst (shards ! k) = Some n)"
  unfolding duplicate_shard_indices_sequenced_def
  by (force split: option.splits)

lemma fold_is_copy:
  assumes "i \<in> set (duplicate_shard_indices_sequenced shards)"
  shows "\<exists>k < i. k \<notin> set (duplicate_shard_indices_sequenced shards) \<and> i < length shards \<and>
    shards ! i = shards ! k \<and> fst (shards ! i) \<noteq> None"
proof -
  from assms obtain k n where k: "(i, k) \<in> set (tail_replay_partners (map snd shards))"
    "fst (shards ! i) = Some n" "fst (shards ! k) = Some n" by (auto simp: sequenced_iff)
  note copy = partner_copy [OF k(1)]
  have "k \<notin> set (duplicate_shard_indices_sequenced shards)"
    using copy(4) by (force simp: sequenced_iff)
  moreover have "shards ! i = shards ! k"
    using copy k(2,3) by (simp add: prod_eq_iff)
  ultimately show ?thesis using copy k(2) by auto
qed

text \<open>C4: A reader that folds re-seal copies drops a shard only if an earlier shard that it keeps has
  the same archived sequence number and the same bytes.\<close>

theorem fold_is_proven_copy:
  assumes "i \<in> set (duplicate_shard_indices_sequenced shards)"
  shows "\<exists>k < i. k \<notin> set (duplicate_shard_indices_sequenced shards) \<and> i < length shards \<and>
    shards ! i = shards ! k \<and> fst (shards ! i) \<noteq> None"
  using assms by (rule fold_is_copy)

theorem fold_is_proven_copy_witness:
  "\<exists>k < 2. k \<notin> set (duplicate_shard_indices_sequenced [(Some 1, ''a''), (Some 2, ''b''), (Some (1::nat), ''a''), (Some 2, ''b'')])"
proof -
  have "2 \<in> set (duplicate_shard_indices_sequenced [(Some 1, ''a''), (Some 2, ''b''), (Some (1::nat), ''a''), (Some 2, ''b'')])"
    by code_simp
  from fold_is_proven_copy [OF this] show ?thesis by blast
qed

lemma subseq_set: "subseq xs ys \<Longrightarrow> set xs \<subseteq> set ys"
  using set_nths_subset by (fastforce simp: subseq_conv_nths)

lemma filter_enumerate_subseq: "subseq (map (\<lambda>(_, _, b). b) (filter P (enumerate n (zip ns bs)))) bs"
  if "length ns = length bs"
  using that
proof (induction ns bs arbitrary: n rule: list_induct2)
  case (Cons x xs y ys)
  from Cons.IH [of "Suc n"] show ?case
    by (cases "P (n, x, y)") (auto intro: list_emb_Cons)
qed simp

text \<open>C5: Whatever the policy, the reader returns the shards in their order, without any addition,
  and no body is lost: every body that was stored is still returned at least once.\<close>

theorem select_loses_no_body:
  assumes "length sequences = length shards"
  shows "subseq (select_shard_bodies_sequenced shards sequences policy) shards \<and>
    set (select_shard_bodies_sequenced shards sequences policy) = set shards"
proof (cases "collapses policy")
  case True
  let ?z = "zip sequences shards" let ?d = "set (duplicate_shard_indices_sequenced ?z)"
  let ?out = "select_shard_bodies_sequenced shards sequences policy"
  have out: "?out = map (\<lambda>(_, _, b). b) (filter (\<lambda>(i, _). i \<notin> ?d) (enumerate 0 ?z))"
    using True by (simp add: select_shard_bodies_sequenced_def Let_def)
  have sub: "subseq ?out shards"
    unfolding out by (rule filter_enumerate_subseq [OF assms])
  have kept: "shards ! i \<in> set ?out" if "i < length shards" "i \<notin> ?d" for i
  proof -
    have "(i, ?z ! i) \<in> set (enumerate 0 ?z)"
      using that assms by (auto simp: in_set_enumerate_eq)
    with that assms show ?thesis unfolding out by (force simp: image_iff)
  qed
  have "shards ! i \<in> set ?out" if i: "i < length shards" for i
  proof (cases "i \<in> ?d")
    case True
    from fold_is_copy [OF this] obtain k where "k < i" "k \<notin> ?d" "?z ! i = ?z ! k" by blast
    with kept [of k] i assms show ?thesis by simp
  qed (rule kept [OF i])
  then have "set shards \<subseteq> set ?out" by (auto simp: in_set_conv_nth)
  moreover have "set ?out \<subseteq> set shards"
    using subseq_set [OF sub] .
  ultimately show ?thesis using sub by blast
qed (simp add: select_shard_bodies_sequenced_def)

theorem select_loses_no_body_witness:
  "set (select_shard_bodies_sequenced [''a'', ''a'', ''b''] [Some 1, Some 1, Some 2] Collapse) = {''a'', ''b''}"
  using select_loses_no_body [of "[Some 1, Some 1, Some 2]" "[''a'', ''a'', ''b'']" Collapse] by simp

lemma one_stage_bodies:
  "length ns = length bs \<Longrightarrow> map (\<lambda>(_, _, b). b) (enumerate n (zip ns bs)) = bs"
  by (induction ns bs arbitrary: n rule: list_induct2) simp_all

text \<open>The shards of one stage directory, where no sequence number occurs twice, are all
  returned: a genuine repeat of an earlier turn is never folded away.\<close>

theorem one_stage_never_folds:
  assumes "length sequences = length shards"
    and "distinct (filter (\<lambda>n. n \<noteq> None) sequences)"
  shows "select_shard_bodies_sequenced shards sequences policy = shards"
proof -
  have none: "duplicate_shard_indices_sequenced (zip sequences shards) = []"
  proof (rule ccontr)
    assume "duplicate_shard_indices_sequenced (zip sequences shards) \<noteq> []"
    then obtain i where "i \<in> set (duplicate_shard_indices_sequenced (zip sequences shards))"
      by (meson hd_in_set)
    from fold_is_copy [OF this] obtain k where k: "k < i" "i < length sequences"
      "sequences ! i = sequences ! k" "sequences ! i \<noteq> None" using assms(1) by auto
    have "distinct (filter (\<lambda>n. n \<noteq> None) (take i sequences @ sequences ! i # drop (Suc i) sequences))"
      using assms(2) k(2) by (simp add: id_take_nth_drop [symmetric])
    moreover have "sequences ! k \<in> set (take i sequences)" using k by (auto simp: in_set_conv_nth)
    ultimately show False using k(3,4) by auto
  qed
  then show ?thesis
    using one_stage_bodies [OF assms(1), of 0]
    by (simp add: select_shard_bodies_sequenced_def Let_def)
qed

theorem one_stage_never_folds_witness:
  "select_shard_bodies_sequenced [''a'', ''a''] [Some 1, Some 2] Collapse = [''a'', ''a'']"
  by (rule one_stage_never_folds) simp_all

lemma find_first: "P x \<Longrightarrow> find P (x # xs) = Some x"
  by simp

lemma replay_loop_fresh:
  assumes "distinct bs" "index \<le> length bs"
  shows "replay_loop (bs @ bs) index [0 ..< index] [] = replay_loop (bs @ bs) (length bs) [0 ..< length bs] []"
  using assms(2)
proof (induction index rule: inc_induct)
  case (step i)
  have "replay_len (bs @ bs) i [0 ..< i] = 0"
  proof (rule ccontr)
    assume "replay_len (bs @ bs) i [0 ..< i] \<noteq> 0"
    then have pos: "0 < replay_len (bs @ bs) i [0 ..< i]" by simp
    note sound = replay_len_sound [OF refl pos]
    have "bs ! i = bs ! (i - replay_len (bs @ bs) i [0 ..< i])"
      using sound(3) [OF pos] sound(1) pos step.hyps by (simp add: nth_append)
    then have "i = i - replay_len (bs @ bs) i [0 ..< i]"
      using assms(1) step.hyps by (simp add: nth_eq_iff_index_eq)
    then have "i = 0" using pos by linarith
    with sound(1) pos show False by simp
  qed
  then show ?case using step
    by (simp add: replay_loop.simps [of "bs @ bs" i])
qed simp

lemma partners_reseal:
  assumes "distinct bs"
  shows "tail_replay_partners (bs @ bs) = map (\<lambda>i. (length bs + i, i)) [0 ..< length bs]"
proof (cases "bs = []")
  case False
  let ?n = "length bs"
  have "replay_len (bs @ bs) ?n [0 ..< ?n] = ?n"
  proof -
    have "rev [1 ..< min (length [0 ..< ?n]) (length (bs @ bs) - ?n) + 1] = ?n # rev [1 ..< ?n]"
      using False by (cases bs) simp_all
    moreover have "list_all (\<lambda>k. (bs @ bs) ! (?n + k) = (bs @ bs) ! ([0 ..< ?n] ! (length [0 ..< ?n] - ?n + k))) [0 ..< ?n]"
      by (simp add: list_all_iff nth_append)
    ultimately show ?thesis
      unfolding replay_len_def Let_def by (simp only: find_first option.case)
  qed
  moreover have "0 < ?n" "?n < length (bs @ bs)" using False by simp_all
  ultimately have "replay_loop (bs @ bs) ?n [0 ..< ?n] [] = replay_loop (bs @ bs) (?n + ?n) [0 ..< ?n]
      ([] @ map (\<lambda>i. (?n + i, [0 ..< ?n] ! (length [0 ..< ?n] - ?n + i))) [0 ..< ?n])"
    by (rule replay_loop_copy [rotated])
  also have "\<dots> = map (\<lambda>i. (?n + i, i)) [0 ..< ?n]"
    by (subst replay_loop_done) (auto simp del: map_append)
  finally show ?thesis
    using replay_loop_fresh [OF assms, of 0] by (simp add: tail_replay_partners_def)
qed (simp add: tail_replay_partners_def replay_loop_done)

text \<open>A whole re-seal by a second instance, which stores the same distinct bodies under the same
  numbers again, folds back to the original shards.\<close>

theorem whole_reseal_folds:
  assumes "distinct shards" and "length numbers = length shards"
  shows "select_shard_bodies_sequenced (shards @ shards) (map Some numbers @ map Some numbers) Collapse = shards"
proof -
  let ?z = "zip (map Some numbers @ map Some numbers) (shards @ shards)" let ?n = "length shards"
  have z: "map snd ?z = shards @ shards" "\<And>i. i < ?n \<Longrightarrow> fst (?z ! i) = Some (numbers ! i)"
    "\<And>i. i < ?n \<Longrightarrow> fst (?z ! (?n + i)) = Some (numbers ! i)"
    using assms(2) by (simp_all add: nth_append)
  have "set (duplicate_shard_indices_sequenced ?z) = {?n ..< ?n + ?n}"
  proof (intro set_eqI iffI)
    fix i assume "i \<in> {?n ..< ?n + ?n}"
    then have "i = ?n + (i - ?n)" "i - ?n < ?n" by auto
    then show "i \<in> set (duplicate_shard_indices_sequenced ?z)"
      unfolding sequenced_iff z(1) partners_reseal [OF assms(1)]
      using z(2,3) [of "i - ?n"] by (intro exI [of _ "i - ?n"] exI [of _ "numbers ! (i - ?n)"]) auto
  qed (auto simp: sequenced_iff z(1) partners_reseal [OF assms(1)])
  then have "select_shard_bodies_sequenced (shards @ shards) (map Some numbers @ map Some numbers) Collapse =
      map (\<lambda>(_, _, b). b) (filter (\<lambda>(i, _). i \<notin> {?n ..< ?n + ?n}) (enumerate 0 ?z))"
    by (simp add: select_shard_bodies_sequenced_def collapses_def Let_def)
  also have "enumerate 0 ?z = enumerate 0 (zip (map Some numbers) shards) @ enumerate ?n (zip (map Some numbers) shards)"
    using assms(2) by (simp add: enumerate_append_eq)
  also have "filter (\<lambda>(i, _). i \<notin> {?n ..< ?n + ?n}) \<dots> = enumerate 0 (zip (map Some numbers) shards)"
  proof -
    have "filter (\<lambda>(i, _). i \<notin> {?n ..< ?n + ?n}) (enumerate 0 (zip (map Some numbers) shards))
        = enumerate 0 (zip (map Some numbers) shards)"
      using assms(2) by (intro filter_True) (auto simp: in_set_enumerate_eq)
    moreover have "filter (\<lambda>(i, _). i \<notin> {?n ..< ?n + ?n}) (enumerate ?n (zip (map Some numbers) shards)) = []"
      using assms(2) by (auto simp: in_set_enumerate_eq filter_empty_conv)
    ultimately show ?thesis by (simp only: filter_append append_Nil2)
  qed
  also have "map (\<lambda>(_, _, b). b) (enumerate 0 (zip (map Some numbers) shards)) = shards"
    using assms(2) one_stage_bodies [of "map Some numbers" shards 0] by simp
  finally show ?thesis .
qed

theorem whole_reseal_folds_witness:
  "select_shard_bodies_sequenced [''a'', ''b'', ''a'', ''b''] [Some 1, Some 2, Some 1, Some 2] Collapse = [''a'', ''b'']"
  using whole_reseal_folds [of "[''a'', ''b'']" "[1, 2]"] by simp

text \<open>With a repeated turn in the original, the same re-seal is not folded back: the copy of the
  second shard is matched with the first one, whose number differs, and is returned again.\<close>

lemma reseal_of_repeat_not_folded:
  assumes "m \<noteq> n"
  shows "select_shard_bodies_sequenced [a, a, a, a] [Some m, Some n, Some m, Some n] Collapse = [a, a, a]"
proof -
  let ?s = "[a, a, a, a]"
  have len: "replay_len ?s 0 [] = 0" "replay_len ?s 1 [0] = 1" "replay_len ?s 2 [0] = 1" "replay_len ?s 3 [0] = 1"
    by (simp_all add: replay_len_def)
  have "tail_replay_partners ?s = [(1, 0), (2, 0), (3, 0)]"
    unfolding tail_replay_partners_def
    by (subst replay_loop_keep [OF _ len(1)], simp, simp only: add_0 append_Nil,
        subst replay_loop_copy [OF _ len(2)], simp, simp, simp only: one_add_one,
        subst replay_loop_copy [OF _ len(3)], simp_all add: replay_loop_copy [OF _ len(4)] replay_loop_done)
  then have "duplicate_shard_indices_sequenced (zip [Some m, Some n, Some m, Some n] ?s) = [2]"
    using assms by (simp add: duplicate_shard_indices_sequenced_def numeral_eq_Suc)
  then show ?thesis
    by (simp add: select_shard_bodies_sequenced_def collapses_def Let_def)
qed

lemma reseal_of_repeat_not_folded_witness:
  "select_shard_bodies_sequenced [''a'', ''a'', ''a'', ''a''] [Some 1, Some 2, Some 1, Some 2] Collapse = [''a'', ''a'', ''a'']"
  by (rule reseal_of_repeat_not_folded) simp

section \<open>Grouping folded indices\<close>

definition runs_indices :: "(nat \<times> nat) list \<Rightarrow> nat list" where
  "runs_indices runs = concat (map (\<lambda>(start, len). [start ..< start + len]) runs)"

lemma group_run_snoc:
  "group_run index (runs @ [(start, len)]) =
     (if start + len = index then runs @ [(start, len + 1)] else runs @ [(start, len), (index, 1)])"
  by simp

lemma group_run_step:
  "runs_indices (group_run index runs) = runs_indices runs @ [index]"
  by (cases runs rule: rev_cases) (auto simp: runs_indices_def split: prod.splits)

definition runs_ok :: "(nat \<times> nat) list \<Rightarrow> bool" where
  "runs_ok runs \<longleftrightarrow> (\<forall>(_, len) \<in> set runs. 0 < len) \<and>
     successively (\<lambda>(s, l) (t, _). s + l \<noteq> t) runs"

lemma group_run_ok: "runs_ok runs \<Longrightarrow> runs_ok (group_run index runs)"
  by (cases runs rule: rev_cases)
    (auto simp: runs_ok_def successively_append_iff split: prod.splits)

text \<open>The runs spell out exactly the given indices in their order, none is empty, and no run could
  have been continued by its successor.\<close>

theorem grouped_runs_exact:
  "concat (map (\<lambda>(start, len). [start ..< start + len]) (grouped_shard_runs indices)) = indices \<and>
   runs_ok (grouped_shard_runs indices)"
proof -
  have "runs_indices (fold group_run is runs) = runs_indices runs @ is" for "is" runs
    by (induction "is" arbitrary: runs) (simp_all add: group_run_step del: group_run.simps)
  moreover have "runs_ok runs \<Longrightarrow> runs_ok (fold group_run is runs)" for "is" runs
    by (induction "is" arbitrary: runs) (simp_all add: group_run_ok del: group_run.simps)
  moreover have "runs_ok []" "runs_indices [] = []" by (simp_all add: runs_ok_def runs_indices_def)
  ultimately show ?thesis
    unfolding grouped_shard_runs_def runs_indices_def [symmetric] by simp
qed

end
