(* ===== verification/Json.thy ===== *)
theory Json
  imports Ordered_Map
begin

text \<open>
  JSON values as \<open>serde_json\<close> holds them: objects are maps in ascending key order, numbers
  keep their literal text. Parsing and printing are library code and enter as a codec
  parameter; a failed parse carries the library's message.
\<close>

datatype json =
    JNull
  | JBool bool
  | JNum string
  | JStr string
  | JArr "json list"
  | JObj "(string \<times> json) list"

record codec =
  from_str :: "string \<Rightarrow> string + json"
  to_vec :: "json \<Rightarrow> bytes"
  digest :: "bytes \<Rightarrow> bytes"

fun jget :: "json \<Rightarrow> string \<Rightarrow> json option" where
  "jget (JObj m) k = bt_get m k"
| "jget _ k = None"

fun as_str :: "json \<Rightarrow> string option" where
  "as_str (JStr s) = Some s"
| "as_str _ = None"

fun as_bool :: "json \<Rightarrow> bool option" where
  "as_bool (JBool b) = Some b"
| "as_bool _ = None"

fun as_array :: "json \<Rightarrow> json list option" where
  "as_array (JArr xs) = Some xs"
| "as_array _ = None"

fun as_object :: "json \<Rightarrow> (string \<times> json) list option" where
  "as_object (JObj m) = Some m"
| "as_object _ = None"

text \<open>\<open>str::parse::<i64>\<close> of the literal.\<close>

definition i64_min :: int where "i64_min = - (2 ^ 63)"
definition i64_max :: int where "i64_max = 2 ^ 63 - 1"

definition parse_i64 :: "string \<Rightarrow> int option" where
  "parse_i64 s =
     (let neg = (s \<noteq> [] \<and> hd s = CHR ''-'');
          body = (if s \<noteq> [] \<and> (hd s = CHR ''-'' \<or> hd s = CHR ''+'') then tl s else s);
          v = (if neg then - int (undec body) else int (undec body))
      in if body \<noteq> [] \<and> list_all is_digit body \<and> i64_min \<le> v \<and> v \<le> i64_max then Some v else None)"

fun as_i64 :: "json \<Rightarrow> int option" where
  "as_i64 (JNum n) = parse_i64 n"
| "as_i64 _ = None"

abbreviation (input) get_str :: "json \<Rightarrow> string \<Rightarrow> string option" where
  "get_str v k \<equiv> Option.bind (jget v k) as_str"

text \<open>The \<open>json!\<close> macro builds an object by inserting its fields in turn.\<close>

definition jobj :: "(string \<times> json) list \<Rightarrow> json" where
  "jobj kvs = JObj (bt.insert_all kvs [])"

lemma jget_jobj: "jget (jobj kvs) k = map_of (rev kvs) k"
  using bt.look_insert_all [OF bt_ok_Nil, of kvs k] by (auto simp: jobj_def split: option.splits)

text \<open>A value whose own fields are in ascending order, as every parsed object's are.\<close>

fun fields_ok :: "json \<Rightarrow> bool" where
  "fields_ok (JObj m) = bt_ok m"
| "fields_ok _ = True"

lemma fields_ok_jobj [simp]: "fields_ok (jobj kvs)"
  by (simp add: jobj_def bt.wf_insert_all)

text \<open>Removing a key that was just inserted, and inserting over a removed one.\<close>

lemma bt_remove_insert:
  "bt_ok m \<Longrightarrow> bt_get m k = None \<Longrightarrow> bt_remove k (bt_insert k v m) = m"
  by (rule bt_eqI) (auto simp: bt_get_remove bt_get_insert)

lemma bt_insert_remove: "bt_ok m \<Longrightarrow> bt_insert k v (bt_remove k m) = bt_insert k v m"
  by (rule bt_eqI) (auto simp: bt_get_remove bt_get_insert)

lemma bt_remove_absent: "bt_get m k = None \<Longrightarrow> bt_remove k m = m"
  by (auto simp: bt_remove_def map_of_eq_None_iff intro!: filter_True)

end
