(* ===== verification/Last_Writer.thy ===== *)
theory Last_Writer
  imports Ordered_Map
begin

text \<open>
  Logs in which the last event about a key decides. The locale states the law one step has to
  obey; the lemmas determine the outcome of a whole log without running it. Components that
  fold an append-only log interpret it on their own step function.
\<close>

locale last_writer =
  fixes look :: "'s \<Rightarrow> 'k \<Rightarrow> 'v option"
    and step :: "'ev \<Rightarrow> 's \<Rightarrow> 's"
    and effect :: "'ev \<Rightarrow> 'k \<Rightarrow> 'v option option"
    and wf :: "'s \<Rightarrow> bool"
  assumes wf_step: "wf s \<Longrightarrow> wf (step ev s)"
    and look_step: "wf s \<Longrightarrow> look (step ev s) k = (case effect ev k of None \<Rightarrow> look s k | Some x \<Rightarrow> x)"
begin

primrec last_effect :: "'ev list \<Rightarrow> 'k \<Rightarrow> 'v option option" where
  "last_effect [] k = None"
| "last_effect (ev # evs) k = (case last_effect evs k of None \<Rightarrow> effect ev k | Some x \<Rightarrow> Some x)"

lemma wf_fold: "wf s \<Longrightarrow> wf (fold step evs s)"
  by (induction evs arbitrary: s) (auto intro: wf_step)

lemma look_fold:
  "wf s \<Longrightarrow> look (fold step evs s) k = (case last_effect evs k of None \<Rightarrow> look s k | Some x \<Rightarrow> x)"
  by (induction evs arbitrary: s) (auto simp: wf_step look_step split: option.splits)

lemma last_effect_append:
  "last_effect (xs @ ys) k = (case last_effect ys k of None \<Rightarrow> last_effect xs k | Some x \<Rightarrow> Some x)"
  by (induction xs) (auto split: option.splits)

lemma last_effect_None: "last_effect evs k = None \<longleftrightarrow> (\<forall>ev \<in> set evs. effect ev k = None)"
  by (induction evs) (auto split: option.splits)

text \<open>The outcome is that of the last event that touches the key.\<close>

lemma last_effect_Some:
  "last_effect evs k = Some x \<longleftrightarrow>
     (\<exists>before ev after. evs = before @ ev # after \<and> effect ev k = Some x \<and>
        (\<forall>e \<in> set after. effect e k = None))"
proof (induction evs)
  case (Cons e evs)
  show ?case
  proof (cases "last_effect evs k")
    case None
    then have "\<forall>e \<in> set evs. effect e k = None" by (simp add: last_effect_None)
    with None show ?thesis by (fastforce simp: Cons_eq_append_conv)
  next
    case (Some y)
    then have "\<not> (\<forall>e \<in> set evs. effect e k = None)"
      using last_effect_None [of evs k] by simp
    then show ?thesis using Cons Some by (auto simp: Cons_eq_append_conv)
  qed
qed simp

text \<open>A step that overrides the key hides everything before it.\<close>

lemma look_overridden:
  "wf s \<Longrightarrow> effect ev k = Some x \<Longrightarrow> look (fold step (evs @ [ev]) s) k = x"
  by (simp add: wf_fold look_step)

end

text \<open>The ordered map is the simplest log: insertions, each deciding its own key.\<close>

interpretation bt_log: last_writer bt_get "\<lambda>(k, v). bt_insert k v"
  "\<lambda>(k, v) j. if j = k then Some (Some v) else None" bt_ok
  by unfold_locales (auto simp: bt_get_insert)

end
