(* ===== verification/Opencode_Records.thy ===== *)
theory Opencode_Records
  imports Json Last_Writer Identity_Guard
begin

text \<open>
  \<open>opencode_records.rs\<close>: the records of a snapshot source and the one assembly every reader
  goes through. A body mixes complete observations (v1 lines) and single records or
  tombstones (v2 lines); the assembly folds them by last version per record and composes the
  current view or the one with deleted records.
\<close>

section \<open>Records and their keys\<close>

definition SESSION_V1_SCHEMA :: string where
  "SESSION_V1_SCHEMA = ''chat-stasher.opencode.session.v1''"

definition SESSION_V2_SCHEMA :: string where
  "SESSION_V2_SCHEMA = ''chat-stasher.opencode.session.v2''"

datatype record_kind = Session | Message | Part

fun kind_rank :: "record_kind \<Rightarrow> nat" where
  "kind_rank Session = 0" | "kind_rank Message = 1" | "kind_rank Part = 2"

instantiation record_kind :: linorder
begin

definition less_eq_record_kind :: "record_kind \<Rightarrow> record_kind \<Rightarrow> bool" where
  "less_eq_record_kind a b \<longleftrightarrow> kind_rank a \<le> kind_rank b"

definition less_record_kind :: "record_kind \<Rightarrow> record_kind \<Rightarrow> bool" where
  "less_record_kind a b \<longleftrightarrow> kind_rank a < kind_rank b"

instance
proof
  fix a b :: record_kind
  show "a \<le> b \<Longrightarrow> b \<le> a \<Longrightarrow> a = b"
    by (cases a; cases b) (simp_all add: less_eq_record_kind_def)
qed (auto simp: less_eq_record_kind_def less_record_kind_def)

end

fun kind_as_str :: "record_kind \<Rightarrow> string" where
  "kind_as_str Session = ''session''"
| "kind_as_str Message = ''message''"
| "kind_as_str Part = ''part''"

definition kind_from_str :: "string \<Rightarrow> record_kind option" where
  "kind_from_str raw =
     (if raw = ''session'' then Some Session
      else if raw = ''message'' then Some Message
      else if raw = ''part'' then Some Part
      else None)"

definition record_key :: "record_kind \<Rightarrow> string \<Rightarrow> string" where
  "record_key kind i = kind_as_str kind @ '':'' @ i"

text \<open>\<open>str::split_once\<close>.\<close>

definition split_once :: "char \<Rightarrow> string \<Rightarrow> (string \<times> string) option" where
  "split_once c s =
     (if c \<in> set s then Some (takeWhile (\<lambda>x. x \<noteq> c) s, tl (dropWhile (\<lambda>x. x \<noteq> c) s)) else None)"

definition parse_record_key :: "string \<Rightarrow> (record_kind \<times> string) option" where
  "parse_record_key key =
     (case split_once CHR '':'' key of
        None \<Rightarrow> None
      | Some (kind, i) \<Rightarrow> map_option (\<lambda>k. (k, i)) (kind_from_str kind))"

datatype body_view = Current | IncludeDeleted

datatype assembly_error =
    NotJson string
  | ForeignShape string
  | CorruptRecord string
  | MissingSession
  | MissingOrder string
  | SessionIdMismatch string

definition payload_digest :: "codec \<Rightarrow> json \<Rightarrow> string" where
  "payload_digest c value = hex (digest c (to_vec c value))"

section \<open>Lines\<close>

definition push_at :: "string \<Rightarrow> 'a \<Rightarrow> (string \<times> 'a list) list \<Rightarrow> (string \<times> 'a list) list" where
  "push_at k x m = bt_insert k ((case bt_get m k of None \<Rightarrow> [] | Some xs \<Rightarrow> xs) @ [x]) m"

definition taken :: "string \<Rightarrow> (string \<times> 'a list) list \<Rightarrow> 'a list" where
  "taken k m = (case bt_get m k of None \<Rightarrow> [] | Some xs \<Rightarrow> xs)"

definition v1_envelope :: "json \<Rightarrow> json list \<Rightarrow> json list \<Rightarrow> json" where
  "v1_envelope session messages orphans =
     jobj [(''schema'', JStr SESSION_V1_SCHEMA), (''session'', session),
       (''messages'', JArr messages), (''orphan_parts'', JArr orphans)]"

definition group_part :: "json \<Rightarrow> (string \<times> json list) list \<Rightarrow> assembly_error + (string \<times> json list) list" where
  "group_part part m =
     rbind (ok_or (MissingOrder ''part.message_id'') (get_str part ''message_id''))
       (\<lambda>message_id. Inr (push_at message_id part m))"

fun compose_message ::
  "codec \<Rightarrow> json \<Rightarrow> json list \<times> (string \<times> json list) list \<Rightarrow>
   assembly_error + json list \<times> (string \<times> json list) list" where
  "compose_message c message (composed, parts) =
     (case message of
        JObj obj \<Rightarrow>
          rbind (ok_or (MissingOrder ''message.id'') (get_str message ''id''))
            (\<lambda>i. Inr (composed @ [JObj (bt_insert ''parts'' (JArr (taken i parts)) obj)], bt_remove i parts))
      | other \<Rightarrow> Inl (CorruptRecord (''a message row is not a JSON object: '' @ to_vec c other)))"

definition compose_v1_value :: "codec \<Rightarrow> json \<Rightarrow> json list \<Rightarrow> json list \<Rightarrow> assembly_error + json" where
  "compose_v1_value c session messages part_rows =
     rbind (try_fold group_part part_rows []) (\<lambda>parts_by_message.
     rbind (try_fold (compose_message c) messages ([], parts_by_message)) (\<lambda>(composed, rest).
     Inr (v1_envelope session composed (concat (map snd rest)))))"

definition compose_v1_line :: "codec \<Rightarrow> json \<Rightarrow> json list \<Rightarrow> json list \<Rightarrow> assembly_error + bytes" where
  "compose_v1_line c session messages part_rows =
     map_sum id (to_vec c) (compose_v1_value c session messages part_rows)"

definition record_value :: "codec \<Rightarrow> string \<Rightarrow> record_kind \<Rightarrow> string \<Rightarrow> json \<Rightarrow> json" where
  "record_value c native_session kind record_id payload =
     jobj [(''schema'', JStr SESSION_V2_SCHEMA), (''session'', JStr native_session),
       (''kind'', JStr (kind_as_str kind)), (''record_id'', JStr record_id),
       (''deleted'', JBool False), (''record_sha256'', JStr (payload_digest c payload)),
       (''payload'', payload)]"

definition record_line :: "codec \<Rightarrow> string \<Rightarrow> record_kind \<Rightarrow> string \<Rightarrow> json \<Rightarrow> bytes" where
  "record_line c native_session kind record_id payload =
     to_vec c (record_value c native_session kind record_id payload)"

definition tombstone_value :: "string \<Rightarrow> record_kind \<Rightarrow> string \<Rightarrow> json" where
  "tombstone_value native_session kind record_id =
     jobj [(''schema'', JStr SESSION_V2_SCHEMA), (''session'', JStr native_session),
       (''kind'', JStr (kind_as_str kind)), (''record_id'', JStr record_id),
       (''deleted'', JBool True)]"

definition tombstone_line :: "codec \<Rightarrow> string \<Rightarrow> record_kind \<Rightarrow> string \<Rightarrow> bytes" where
  "tombstone_line c native_session kind record_id =
     to_vec c (tombstone_value native_session kind record_id)"

section \<open>The fold\<close>

record folded_record =
  payload :: "json option"
  deleted :: bool

type_synonym rkey = "record_kind \<times> string"

record assembly =
  native :: "string option"
  records :: "(rkey \<times> folded_record) list"

definition for_session :: "string \<Rightarrow> assembly" where
  "for_session native_session = \<lparr>native = Some native_session, records = []\<rparr>"

definition new_assembly :: assembly where
  "new_assembly = \<lparr>native = None, records = []\<rparr>"

definition check_session :: "assembly \<Rightarrow> string \<Rightarrow> assembly_error + unit" where
  "check_session a found =
     (case native a of
        Some expected \<Rightarrow> if expected \<noteq> found then Inl (SessionIdMismatch found) else Inr ()
      | None \<Rightarrow> Inr ())"

fun strip_parts :: "json \<Rightarrow> json" where
  "strip_parts (JObj obj) = JObj (bt_remove ''parts'' obj)"
| "strip_parts other = other"

definition array_or_empty :: "json \<Rightarrow> string \<Rightarrow> json list" where
  "array_or_empty v k = (case Option.bind (jget v k) as_array of None \<Rightarrow> [] | Some xs \<Rightarrow> xs)"

type_synonym observation = "(rkey \<times> json) list"

definition observe_part :: "string \<Rightarrow> json \<Rightarrow> observation \<Rightarrow> assembly_error + observation" where
  "observe_part why part obs =
     rbind (ok_or (CorruptRecord why) (get_str part ''id''))
       (\<lambda>i. Inr (bt_insert (Part, i) part obs))"

definition observe_message :: "json \<Rightarrow> observation \<Rightarrow> assembly_error + observation" where
  "observe_message message obs =
     rbind (ok_or (CorruptRecord ''a message row has no id'') (get_str message ''id'')) (\<lambda>i.
     try_fold (observe_part ''a part row has no id'') (array_or_empty message ''parts'')
       (bt_insert (Message, i) (strip_parts message) obs))"

definition v1_observation :: "assembly \<Rightarrow> json \<Rightarrow> assembly_error + observation" where
  "v1_observation a value =
     rbind (ok_or (CorruptRecord ''a v1 observation carries no session row'') (jget value ''session''))
       (\<lambda>session_row.
     rbind (ok_or (CorruptRecord ''the session row has no id'') (get_str session_row ''id'')) (\<lambda>session_id.
     rbind (check_session a session_id) (\<lambda>_.
     rbind (try_fold observe_message (array_or_empty value ''messages'')
              (bt_insert (Session, session_id) session_row [])) (\<lambda>obs.
     try_fold (observe_part ''an orphan part row has no id'') (array_or_empty value ''orphan_parts'') obs))))"

text \<open>Everything the fold holds that a complete observation lacks is masked; what it carries is live.\<close>

definition apply_observation :: "observation \<Rightarrow> (rkey \<times> folded_record) list \<Rightarrow> (rkey \<times> folded_record) list" where
  "apply_observation obs recs =
     bt.insert_all (map (\<lambda>(k, p). (k, \<lparr>payload = Some p, deleted = False\<rparr>)) obs)
       (map (\<lambda>(k, r). (k, if bt_get obs k = None then r\<lparr>deleted := True\<rparr> else r)) recs)"

definition feed_v1_observation :: "assembly \<Rightarrow> json \<Rightarrow> assembly_error + assembly" where
  "feed_v1_observation a value =
     rbind (v1_observation a value) (\<lambda>obs. Inr (a\<lparr>records := apply_observation obs (records a)\<rparr>))"

definition mask :: "rkey \<Rightarrow> (rkey \<times> folded_record) list \<Rightarrow> (rkey \<times> folded_record) list" where
  "mask key recs =
     bt_insert key
       ((case bt_get recs key of None \<Rightarrow> \<lparr>payload = None, deleted = True\<rparr> | Some r \<Rightarrow> r)\<lparr>deleted := True\<rparr>) recs"

definition put :: "rkey \<Rightarrow> json \<Rightarrow> (rkey \<times> folded_record) list \<Rightarrow> (rkey \<times> folded_record) list" where
  "put key p recs = bt_insert key \<lparr>payload = Some p, deleted = False\<rparr> recs"

definition hash_agrees :: "codec \<Rightarrow> json \<Rightarrow> json \<Rightarrow> bool" where
  "hash_agrees c value p =
     (case get_str value ''record_sha256'' of None \<Rightarrow> True | Some declared \<Rightarrow> declared = payload_digest c p)"

definition feed_v2_record :: "codec \<Rightarrow> assembly \<Rightarrow> json \<Rightarrow> assembly_error + assembly" where
  "feed_v2_record c a value =
     rbind (ok_or (CorruptRecord ''a record line carries no session id'') (get_str value ''session''))
       (\<lambda>sid. rbind (check_session a sid) (\<lambda>_.
     rbind (ok_or (CorruptRecord ''a record line carries no known kind'')
              (Option.bind (get_str value ''kind'') kind_from_str)) (\<lambda>kind.
     rbind (ok_or (CorruptRecord ''a record line carries no record id'') (get_str value ''record_id''))
       (\<lambda>record_id.
     let del = (case Option.bind (jget value ''deleted'') as_bool of None \<Rightarrow> False | Some b \<Rightarrow> b);
         key = (kind, record_id)
     in if del then Inr (a\<lparr>records := mask key (records a)\<rparr>)
        else
          rbind (ok_or (CorruptRecord ''a non-deleted record line carries no payload'')
                   (case jget value ''payload'' of Some JNull \<Rightarrow> None | p \<Rightarrow> p)) (\<lambda>p.
          if hash_agrees c value p
          then Inr (a\<lparr>records := put key p (records a)\<rparr>)
          else Inl (CorruptRecord ''the record's declared hash does not match its payload''))))))"

definition feed_value :: "codec \<Rightarrow> assembly \<Rightarrow> json \<Rightarrow> assembly_error + assembly" where
  "feed_value c a value =
     (case get_str value ''schema'' of
        Some s \<Rightarrow>
          if s = SESSION_V1_SCHEMA then feed_v1_observation a value
          else if s = SESSION_V2_SCHEMA then feed_v2_record c a value
          else Inl (ForeignShape s)
      | None \<Rightarrow> Inl (ForeignShape ''<missing>''))"

definition feed_line :: "codec \<Rightarrow> string \<Rightarrow> assembly \<Rightarrow> assembly_error + assembly" where
  "feed_line c line a =
     (case from_str c line of Inl why \<Rightarrow> Inl (NotJson why) | Inr value \<Rightarrow> feed_value c a value)"

definition body_lines :: "bytes \<Rightarrow> string list" where
  "body_lines body = filter (\<lambda>l. l \<noteq> []) (map trim (lines_of (lossy body)))"

definition feed_shard_body :: "codec \<Rightarrow> bytes \<Rightarrow> assembly \<Rightarrow> assembly_error + assembly" where
  "feed_shard_body c body a = try_fold (feed_line c) (body_lines body) a"

definition live_map :: "codec \<Rightarrow> assembly \<Rightarrow> (string \<times> string) list" where
  "live_map c a =
     fold (\<lambda>((kind, i), r) out.
             if deleted r then out
             else case payload r of
                 None \<Rightarrow> out
               | Some p \<Rightarrow> bt_insert (record_key kind i) (payload_digest c p) out)
       (records a) []"

section \<open>Composing a view\<close>

record selected_row =
  row_id :: string
  row_deleted :: bool
  row_payload :: json

definition emitted :: "body_view \<Rightarrow> selected_row \<Rightarrow> json" where
  "emitted view row =
     (if view = IncludeDeleted \<and> row_deleted row
      then JObj (bt_insert ''deleted'' (JBool True)
             (case as_object (row_payload row) of None \<Rightarrow> [] | Some m \<Rightarrow> m))
      else row_payload row)"

fun select_rows_in ::
  "record_kind \<Rightarrow> body_view \<Rightarrow> (rkey \<times> folded_record) list \<Rightarrow> assembly_error + selected_row list" where
  "select_rows_in kind view [] = Inr []"
| "select_rows_in kind view (((found, i), r) # rs) =
     (if found \<noteq> kind \<or> (view \<noteq> IncludeDeleted \<and> deleted r) then select_rows_in kind view rs
      else case payload r of
          None \<Rightarrow> Inl (CorruptRecord (''record `'' @ i @ ''` is emitted without a payload''))
        | Some p \<Rightarrow> rbind (select_rows_in kind view rs)
            (\<lambda>rows. Inr (\<lparr>row_id = i, row_deleted = deleted r, row_payload = p\<rparr> # rows)))"

definition select_rows :: "record_kind \<Rightarrow> body_view \<Rightarrow> assembly \<Rightarrow> assembly_error + selected_row list" where
  "select_rows kind view a = select_rows_in kind view (records a)"

definition time_created :: "json \<Rightarrow> int" where
  "time_created v = (case Option.bind (jget v ''time_created'') as_i64 of None \<Rightarrow> i64_min | Some t \<Rightarrow> t)"

definition message_key :: "selected_row \<Rightarrow> int \<times> string" where
  "message_key row = (time_created (row_payload row), row_id row)"

definition part_key :: "selected_row \<Rightarrow> string \<times> int \<times> string" where
  "part_key row =
     (case get_str (row_payload row) ''message_id'' of None \<Rightarrow> [] | Some s \<Rightarrow> s,
      time_created (row_payload row), row_id row)"

fun attach_part ::
  "body_view \<Rightarrow> string list \<Rightarrow> selected_row \<Rightarrow> (string \<times> json list) list \<times> json list \<Rightarrow>
   assembly_error + (string \<times> json list) list \<times> json list" where
  "attach_part view ids row (attachments, orphans) =
     rbind (ok_or (MissingOrder ''part.message_id'') (get_str (row_payload row) ''message_id'')) (\<lambda>message_id.
       if message_id \<in> set ids
       then Inr (push_at message_id (emitted view row) attachments, orphans)
       else Inr (attachments, orphans @ [emitted view row]))"

fun emit_message ::
  "body_view \<Rightarrow> selected_row \<Rightarrow> json list \<times> (string \<times> json list) list \<Rightarrow> json list \<times> (string \<times> json list) list" where
  "emit_message view row (composed, attachments) =
     (let attached = taken (row_id row) attachments
      in (composed @ [case emitted view row of
              JObj obj \<Rightarrow> JObj (bt_insert ''parts'' (JArr attached) obj)
            | other \<Rightarrow> other],
          bt_remove (row_id row) attachments))"

definition session_value :: "assembly \<Rightarrow> json option" where
  "session_value a =
     (case find (\<lambda>((kind, _), _). kind = Session) (records a) of
        None \<Rightarrow> None | Some (_, r) \<Rightarrow> payload r)"

definition compose_value :: "assembly \<Rightarrow> body_view \<Rightarrow> assembly_error + json" where
  "compose_value a view =
     rbind (ok_or MissingSession (session_value a)) (\<lambda>session.
     rbind (select_rows Message view a) (\<lambda>ms.
     let messages = sort_key message_key ms in
     rbind (select_rows Part view a) (\<lambda>ps.
     let parts = sort_key part_key ps in
     rbind (try_fold (attach_part view (map row_id messages)) parts ([], [])) (\<lambda>(attachments, orphans).
     Inr (v1_envelope session (fst (fold (emit_message view) messages ([], attachments))) orphans)))))"

definition compose :: "codec \<Rightarrow> assembly \<Rightarrow> body_view \<Rightarrow> assembly_error + bytes" where
  "compose c a view = map_sum id (\<lambda>v. to_vec c v @ [newline]) (compose_value a view)"

section \<open>Sessions and bodies\<close>

text \<open>\<open>sidecar.rs\<close>: the harness is what stands before the first dot or tilde.\<close>

definition infer_harness :: "string \<Rightarrow> string option" where
  "infer_harness session_id =
     (let head = takeWhile (\<lambda>c. c \<noteq> CHR ''.'' \<and> c \<noteq> CHR ''~'') session_id
      in if head = [] then None else Some head)"

definition harness_is_opencode :: "string \<Rightarrow> bool" where
  "harness_is_opencode session_id \<longleftrightarrow> infer_harness session_id = Some ''opencode''"

definition native_session_id :: "string \<Rightarrow> string option" where
  "native_session_id session_id =
     Option.bind (split_once CHR ''.'' session_id) (\<lambda>(_, r). map_option snd (split_once CHR ''.'' r))"

definition assemble_session_body :: "codec \<Rightarrow> string \<Rightarrow> bytes list \<Rightarrow> body_view \<Rightarrow> assembly_error + bytes" where
  "assemble_session_body c session_id bodies view =
     (let sid = (case native_session_id session_id of None \<Rightarrow> session_id | Some n \<Rightarrow> n)
      in rbind (try_fold (feed_shard_body c) bodies (for_session sid)) (\<lambda>a. compose c a view))"

datatype body_family = SnapshotRecords | Other

definition line_family :: "codec \<Rightarrow> string \<Rightarrow> body_family" where
  "line_family c line =
     (case from_str c line of
        Inl _ \<Rightarrow> Other
      | Inr value \<Rightarrow>
          (case get_str value ''schema'' of
             None \<Rightarrow> Other
           | Some s \<Rightarrow> if s = SESSION_V1_SCHEMA \<or> s = SESSION_V2_SCHEMA then SnapshotRecords else Other))"

definition classify_session_body :: "codec \<Rightarrow> bytes list \<Rightarrow> body_family" where
  "classify_session_body c bodies =
     (case concat (map body_lines bodies) of [] \<Rightarrow> Other | line # _ \<Rightarrow> line_family c line)"

definition project_session_body :: "codec \<Rightarrow> string \<Rightarrow> bytes list \<Rightarrow> body_view \<Rightarrow> assembly_error + bytes" where
  "project_session_body c session_id bodies view =
     (if classify_session_body c bodies = SnapshotRecords
      then assemble_session_body c session_id bodies view
      else Inr (concat bodies))"

end
