(* ===== verification/Opencode_Spec.thy ===== *)
theory Opencode_Spec
  imports Opencode_Records
begin

text \<open>
  What the assembly promises: it is the last-version-per-record fold of the archived log, no
  payload is ever erased, the collector's map is the live part of it, and a complete
  observation makes the current view equal to a fresh export, byte for byte.
\<close>

section \<open>Lines as events\<close>

datatype event =
    Observed observation
  | Delivered rkey json
  | Tombstoned rkey

fun apply_event :: "event \<Rightarrow> (rkey \<times> folded_record) list \<Rightarrow> (rkey \<times> folded_record) list" where
  "apply_event (Observed obs) = apply_observation obs"
| "apply_event (Delivered key p) = put key p"
| "apply_event (Tombstoned key) = mask key"

text \<open>Which payload, if any, an event makes live under a key; \<open>None\<close> where it says nothing.\<close>

fun event_sets :: "event \<Rightarrow> rkey \<Rightarrow> json option option" where
  "event_sets (Observed obs) k = Some (map_of (rev obs) k)"
| "event_sets (Delivered key p) k = (if k = key then Some (Some p) else None)"
| "event_sets (Tombstoned key) k = (if k = key then Some None else None)"

definition live :: "(rkey \<times> folded_record) list \<Rightarrow> rkey \<Rightarrow> json option" where
  "live recs k = (case bt_get recs k of None \<Rightarrow> None | Some r \<Rightarrow> if deleted r then None else payload r)"

text \<open>The event of a line, by the same checks the fold makes.\<close>

definition decode_v2 :: "codec \<Rightarrow> json \<Rightarrow> assembly_error + event" where
  "decode_v2 c value =
     rbind (ok_or (CorruptRecord ''a record line carries no known kind'')
              (Option.bind (get_str value ''kind'') kind_from_str)) (\<lambda>kind.
     rbind (ok_or (CorruptRecord ''a record line carries no record id'') (get_str value ''record_id''))
       (\<lambda>record_id.
     if Option.bind (jget value ''deleted'') as_bool = Some True then Inr (Tombstoned (kind, record_id))
     else
       rbind (ok_or (CorruptRecord ''a non-deleted record line carries no payload'')
                (case jget value ''payload'' of Some JNull \<Rightarrow> None | p \<Rightarrow> p)) (\<lambda>p.
       if hash_agrees c value p then Inr (Delivered (kind, record_id) p)
       else Inl (CorruptRecord ''the record's declared hash does not match its payload''))))"

definition decode_value :: "codec \<Rightarrow> string option \<Rightarrow> json \<Rightarrow> assembly_error + event" where
  "decode_value c nat_id value =
     (let a = \<lparr>native = nat_id, records = []\<rparr> in
      case get_str value ''schema'' of
        Some s \<Rightarrow>
          if s = SESSION_V1_SCHEMA then map_sum id Observed (v1_observation a value)
          else if s = SESSION_V2_SCHEMA
          then rbind (ok_or (CorruptRecord ''a record line carries no session id'') (get_str value ''session''))
                 (\<lambda>sid. rbind (check_session a sid) (\<lambda>_. decode_v2 c value))
          else Inl (ForeignShape s)
      | None \<Rightarrow> Inl (ForeignShape ''<missing>''))"

definition decode_line :: "codec \<Rightarrow> string option \<Rightarrow> string \<Rightarrow> assembly_error + event" where
  "decode_line c nat_id line =
     (case from_str c line of Inl why \<Rightarrow> Inl (NotJson why) | Inr value \<Rightarrow> decode_value c nat_id value)"

lemma check_session_cong: "check_session a s = check_session \<lparr>native = native a, records = []\<rparr> s"
  by (simp add: check_session_def)

lemma v1_observation_cong: "v1_observation a v = v1_observation \<lparr>native = native a, records = []\<rparr> v"
  by (simp add: v1_observation_def check_session_cong [of a])

definition with_event :: "assembly \<Rightarrow> event \<Rightarrow> assembly" where
  "with_event a ev = a\<lparr>records := apply_event ev (records a)\<rparr>"

lemma native_with_event [simp]: "native (with_event a ev) = native a"
  and records_with_event [simp]: "records (with_event a ev) = apply_event ev (records a)"
  by (simp_all add: with_event_def)

lemma map_sum_rbind: "map_sum id f (rbind r g) = rbind r (\<lambda>x. map_sum id f (g x))"
  by (cases r) simp_all

lemma map_sum_id_rbind: "map_sum id f r = rbind r (\<lambda>x. Inr (f x))"
  by (cases r) simp_all

lemma feed_v2_decode: "feed_v2_record c a value =
    rbind (ok_or (CorruptRecord ''a record line carries no session id'') (get_str value ''session''))
      (\<lambda>sid. rbind (check_session a sid) (\<lambda>_. map_sum id (with_event a) (decode_v2 c value)))"
proof -
  have del: "(case x of None \<Rightarrow> False | Some b \<Rightarrow> b) \<longleftrightarrow> x = Some True" for x
    by (cases x) auto
  have if_sum: "map_sum id f (if b then x else y) = (if b then map_sum id f x else map_sum id f y)"
    for f :: "event \<Rightarrow> assembly" and b x y by simp
  show ?thesis
    unfolding feed_v2_record_def decode_v2_def map_sum_rbind Let_def del if_sum
    by (simp add: with_event_def cong: if_cong)
qed

lemma feed_line_decode: "feed_line c line a = map_sum id (with_event a) (decode_line c (native a) line)"
proof (cases "from_str c line")
  case (Inr v)
  have v1: "feed_v1_observation a v = map_sum id (with_event a)
      (map_sum id Observed (v1_observation \<lparr>native = native a, records = []\<rparr> v))"
    unfolding feed_v1_observation_def
    by (subst v1_observation_cong) (simp add: map_sum_id_rbind map_sum_rbind rbind_assoc with_event_def)
  have v2: "feed_v2_record c a v = map_sum id (with_event a)
      (rbind (ok_or (CorruptRecord ''a record line carries no session id'') (get_str v ''session''))
        (\<lambda>sid. rbind (check_session \<lparr>native = native a, records = []\<rparr> sid) (\<lambda>_. decode_v2 c v)))"
    by (simp add: feed_v2_decode map_sum_rbind check_session_cong [of a])
  show ?thesis
    by (simp add: Inr feed_line_def decode_line_def feed_value_def decode_value_def v1 v2 Let_def
        split: option.split)
qed (simp add: feed_line_def decode_line_def)

text \<open>The fold over lines is the fold over their events, as long as every line decodes.\<close>

lemma fold_with_event:
  "native (fold (\<lambda>ev a. with_event a ev) evs a) = native a"
  "records (fold (\<lambda>ev a. with_event a ev) evs a) = fold apply_event evs (records a)"
  by (induction evs arbitrary: a) simp_all

lemma feed_lines_decode:
  "try_fold (feed_line c) ls a = Inr a' \<longleftrightarrow>
   (\<exists>evs. list_all2 (\<lambda>l ev. decode_line c (native a) l = Inr ev) ls evs \<and>
      a' = fold (\<lambda>ev a. with_event a ev) evs a)"
proof (induction ls arbitrary: a)
  case (Cons l ls)
  show ?case
  proof (cases "decode_line c (native a) l")
    case (Inl x)
    then show ?thesis by (simp add: feed_line_decode list_all2_Cons1)
  next
    case (Inr ev)
    then have "feed_line c l a = Inr (with_event a ev)" by (simp add: feed_line_decode)
    then have "try_fold (feed_line c) (l # ls) a = Inr a' \<longleftrightarrow>
        (\<exists>evs. list_all2 (\<lambda>l ev. decode_line c (native a) l = Inr ev) ls evs \<and>
           a' = fold (\<lambda>ev a. with_event a ev) evs (with_event a ev))"
      using Cons [of "with_event a ev"] by simp
    then show ?thesis using Inr by (auto simp: list_all2_Cons1)
  qed
qed auto

section \<open>The fold is last-version-per-record\<close>

lemma bt_ok_apply_observation [simp]: "bt_ok recs \<Longrightarrow> bt_ok (apply_observation obs recs)"
  unfolding apply_observation_def by (intro bt.wf_insert_all) (simp add: bt_ok_map)

lemma bt_get_apply_observation:
  assumes "bt_ok recs"
  shows "bt_get (apply_observation obs recs) k =
    (case map_of (rev obs) k of
       Some p \<Rightarrow> Some \<lparr>payload = Some p, deleted = False\<rparr>
     | None \<Rightarrow> map_option (\<lambda>r. r\<lparr>deleted := True\<rparr>) (bt_get recs k))"
proof -
  let ?new = "map (\<lambda>(k, p). (k, \<lparr>payload = Some p, deleted = False\<rparr>)) obs"
  let ?old = "map (\<lambda>(k, r). (k, if bt_get obs k = None then r\<lparr>deleted := True\<rparr> else r)) recs"
  have new: "map_of (rev ?new) k = map_option (\<lambda>p. \<lparr>payload = Some p, deleted = False\<rparr>) (map_of (rev obs) k)"
    unfolding rev_map by (rule bt_get_map)
  have "map_of (rev obs) k = None \<longleftrightarrow> bt_get obs k = None"
    by (simp add: map_of_eq_None_iff)
  then show ?thesis
    unfolding apply_observation_def
    by (subst bt.look_insert_all, simp add: bt_ok_map assms)
      (auto simp: new bt_get_map [where f = "\<lambda>k r. if bt_get obs k = None then r\<lparr>deleted := True\<rparr> else r"]
        split: option.splits)
qed

lemma bt_ok_apply_event [simp]: "bt_ok recs \<Longrightarrow> bt_ok (apply_event ev recs)"
  by (cases ev) (simp_all add: put_def mask_def)

interpretation record_log: last_writer live apply_event event_sets bt_ok
proof
  fix recs :: "(rkey \<times> folded_record) list" and ev k
  assume ok: "bt_ok recs"
  show "live (apply_event ev recs) k = (case event_sets ev k of None \<Rightarrow> live recs k | Some x \<Rightarrow> x)"
    by (cases ev)
      (auto simp: live_def ok bt_get_apply_observation put_def mask_def bt_get_insert split: option.splits)
qed simp

lemma event_sets_Observed: "bt_ok obs \<Longrightarrow> event_sets (Observed obs) k = Some (bt_get obs k)"
  using map_of_inject_set [of "rev obs" obs] by (simp add: bt_ok_distinct rev_map [symmetric])

text \<open>C32: After any log of lines the assembly accepts, a record is live with a payload exactly if the
  last line that speaks about it delivers that payload: a record line, or a complete
  observation that carries it, with no later tombstone, delivery or complete observation.\<close>

theorem assembly_last_version:
  assumes "try_fold (feed_line c) ls (for_session sid) = Inr a"
  shows "\<exists>evs. list_all2 (\<lambda>l ev. decode_line c (Some sid) l = Inr ev) ls evs \<and>
    (\<forall>k p. live (records a) k = Some p \<longleftrightarrow>
      (\<exists>before ev after. evs = before @ ev # after \<and> event_sets ev k = Some (Some p) \<and>
         (\<forall>e \<in> set after. event_sets e k = None)))"
proof -
  from assms obtain evs where evs: "list_all2 (\<lambda>l ev. decode_line c (Some sid) l = Inr ev) ls evs"
    and a: "a = fold (\<lambda>ev a. with_event a ev) evs (for_session sid)"
    by (auto simp: feed_lines_decode for_session_def)
  have "records a = fold apply_event evs []"
    by (simp add: a fold_with_event) (simp add: for_session_def)
  then have "live (records a) k = Some p \<longleftrightarrow> record_log.last_effect evs k = Some (Some p)" for k p
    using record_log.look_fold [of "[]" evs k] by (auto simp: live_def split: option.splits)
  with evs show ?thesis unfolding record_log.last_effect_Some by blast
qed

section \<open>Nothing is erased\<close>

definition stored :: "(rkey \<times> folded_record) list \<Rightarrow> rkey \<Rightarrow> json option" where
  "stored recs k = Option.bind (bt_get recs k) payload"

fun delivers :: "event \<Rightarrow> rkey \<Rightarrow> json option" where
  "delivers (Observed obs) k = map_of (rev obs) k"
| "delivers (Delivered key p) k = (if k = key then Some p else None)"
| "delivers (Tombstoned key) k = None"

text \<open>What is stored under a key is a log of its own: only deliveries write it.\<close>

interpretation stored_log: last_writer stored apply_event "\<lambda>ev k. map_option Some (delivers ev k)" bt_ok
proof
  fix recs :: "(rkey \<times> folded_record) list" and ev k
  assume ok: "bt_ok recs"
  show "stored (apply_event ev recs) k = (case map_option Some (delivers ev k) of None \<Rightarrow> stored recs k | Some x \<Rightarrow> x)"
    by (cases ev; cases "bt_get recs k")
      (auto simp: stored_def ok bt_get_apply_observation put_def mask_def bt_get_insert split: option.splits)
qed simp

text \<open>C31: A deletion masks and never erases: whatever lines follow, a payload once stored under a
  record is still stored, or was replaced by a later delivery of the same record.\<close>

theorem payload_never_erased:
  assumes "bt_ok (records a)" and "try_fold (feed_line c) ls a = Inr a'"
    and "stored (records a) k = Some p"
  shows "\<exists>q. stored (records a') k = Some q \<and>
    (q = p \<or> (\<exists>l \<in> set ls. \<exists>ev. decode_line c (native a) l = Inr ev \<and> delivers ev k = Some q))"
proof -
  from assms(2) obtain evs where evs: "list_all2 (\<lambda>l ev. decode_line c (native a) l = Inr ev) ls evs"
    and a': "a' = fold (\<lambda>ev a. with_event a ev) evs a"
    by (auto simp: feed_lines_decode)
  have look: "stored (records a') k = (case stored_log.last_effect evs k of None \<Rightarrow> Some p | Some x \<Rightarrow> x)"
    using stored_log.look_fold [OF assms(1), of evs k] unfolding assms(3) by (simp add: a' fold_with_event)
  show ?thesis
  proof (cases "stored_log.last_effect evs k")
    case None
    with look show ?thesis by simp
  next
    case (Some x)
    then obtain before ev after where ev: "evs = before @ ev # after" "map_option Some (delivers ev k) = Some x"
      unfolding stored_log.last_effect_Some by blast
    then obtain q where q: "delivers ev k = Some q" "x = Some q" by auto
    from list_all2_right [OF evs, of ev] ev(1) obtain l where
      "l \<in> set ls" "decode_line c (native a) l = Inr ev" by auto
    with look Some q show ?thesis by auto
  qed
qed

section \<open>The collector's map\<close>

lemma split_once_append: "c \<notin> set s \<Longrightarrow> split_once c (s @ c # t) = Some (s, t)"
  by (induction s) (auto simp: split_once_def)

lemma kind_from_as_str [simp]: "kind_from_str (kind_as_str k) = Some k"
  by (cases k) (simp_all add: kind_from_str_def)

lemma parse_record_key_key: "parse_record_key (record_key k i) = Some (k, i)"
proof -
  have "CHR '':'' \<notin> set (kind_as_str k)" by (cases k) simp_all
  then show ?thesis by (simp add: parse_record_key_def record_key_def split_once_append)
qed

lemma record_key_inj: "record_key k i = record_key k' i' \<longleftrightarrow> k = k' \<and> i = i'"
  by (metis parse_record_key_key option.inject prod.inject)

lemma live_map_get:
  assumes "bt_ok (records a)"
  shows "bt_get (live_map c a) (record_key kind i) = map_option (payload_digest c) (live (records a) (kind, i))"
proof -
  let ?step = "\<lambda>((kind, i), r) out. if deleted r then out
             else case payload r of None \<Rightarrow> out
               | Some p \<Rightarrow> bt_insert (record_key kind i) (payload_digest c p) out"
  have ok: "bt_ok out \<Longrightarrow> bt_ok (fold ?step recs out)" for recs out
    by (induction recs arbitrary: out) (auto split: option.splits)
  have "bt_get (fold ?step recs out) (record_key kind i) =
      (case live recs (kind, i) of None \<Rightarrow> bt_get out (record_key kind i) | Some p \<Rightarrow> Some (payload_digest c p))"
    if "bt_ok out" "distinct (map fst recs)" for recs out
    using that
  proof (induction recs arbitrary: out)
    case (Cons x recs)
    obtain k j r where x: "x = ((k, j), r)" by (metis prod.exhaust)
    have ok': "bt_ok (?step x out)" using Cons.prems by (auto simp: x split: option.splits)
    have get: "bt_get (?step x out) (record_key kind i) =
        (if (k, j) = (kind, i) \<and> live [x] (k, j) \<noteq> None then map_option (payload_digest c) (live [x] (k, j))
         else bt_get out (record_key kind i))"
      using Cons.prems by (auto simp: x bt_get_insert record_key_inj live_def split: option.splits)
    show ?case
    proof (cases "(k, j) = (kind, i)")
      case True
      then have "bt_get recs (kind, i) = None" using Cons.prems by (simp add: x map_of_eq_None_iff)
      then have "live recs (kind, i) = None" by (simp add: live_def)
      then show ?thesis using Cons.IH [OF ok'] get True Cons.prems(2)
        by (auto simp: x live_def split: option.splits)
    next
      case False
      then have "live (x # recs) (kind, i) = live recs (kind, i)" by (auto simp: live_def x)
      then show ?thesis using Cons.IH [OF ok'] get False Cons.prems(2) by (auto split: option.splits)
    qed
  qed (simp add: live_def)
  from this [of "[]" "records a"] show ?thesis
    unfolding live_map_def using bt_ok_distinct [OF assms] by (simp split: option.splits)
qed

text \<open>The collector's map names exactly the live records: the key of a record, which reads back to
  its kind and id whatever characters the id has, is mapped to the digest of its live payload,
  and a tombstoned or unknown record has no entry.\<close>

theorem live_map_exact:
  assumes "try_fold (feed_line c) ls (for_session sid) = Inr a"
  shows "bt_get (live_map c a) (record_key kind i) = map_option (payload_digest c) (live (records a) (kind, i)) \<and>
    parse_record_key (record_key kind i) = Some (kind, i)"
proof -
  from assms obtain evs where "a = fold (\<lambda>ev a. with_event a ev) evs (for_session sid)"
    by (auto simp: feed_lines_decode)
  then have "bt_ok (records a)"
    using record_log.wf_fold [of "[]" evs] by (simp add: fold_with_event) (simp add: for_session_def)
  then show ?thesis by (simp add: live_map_get parse_record_key_key)
qed

section \<open>Written lines read back\<close>

text \<open>A record line, read back by the fold of its own session, makes its payload live and passes
  its own hash check; a tombstone line hides the record; neither touches any other record.\<close>

theorem record_lines_read_back:
  assumes "bt_ok (records a)" and "native a = Some sid"
    and "from_str c (record_line c sid kind i p) = Inr (record_value c sid kind i p)" and "p \<noteq> JNull"
    and "from_str c (tombstone_line c sid kind i) = Inr (tombstone_value sid kind i)"
  shows "\<exists>a1 a2. feed_line c (record_line c sid kind i p) a = Inr a1 \<and>
    feed_line c (tombstone_line c sid kind i) a1 = Inr a2 \<and>
    live (records a1) (kind, i) = Some p \<and> live (records a2) (kind, i) = None \<and>
    stored (records a2) (kind, i) = Some p \<and>
    (\<forall>k. k \<noteq> (kind, i) \<longrightarrow> live (records a1) k = live (records a) k \<and> live (records a2) k = live (records a) k)"
proof -
  have schema: "SESSION_V2_SCHEMA \<noteq> SESSION_V1_SCHEMA" by (simp add: SESSION_V1_SCHEMA_def SESSION_V2_SCHEMA_def)
  have present: "(case Some p of Some JNull \<Rightarrow> None | q \<Rightarrow> q) = Some p" using assms(4) by (cases p) simp_all
  have "jget (record_value c sid kind i p) ''payload'' = Some p"
    "get_str (record_value c sid kind i p) ''schema'' = Some SESSION_V2_SCHEMA"
    "get_str (record_value c sid kind i p) ''session'' = Some sid"
    "get_str (record_value c sid kind i p) ''kind'' = Some (kind_as_str kind)"
    "get_str (record_value c sid kind i p) ''record_id'' = Some i"
    "get_str (record_value c sid kind i p) ''record_sha256'' = Some (payload_digest c p)"
    "jget (record_value c sid kind i p) ''deleted'' = Some (JBool False)"
    by (simp_all add: record_value_def jget_jobj)
  then have d1: "decode_line c (Some sid) (record_line c sid kind i p) = Inr (Delivered (kind, i) p)"
    using assms(3) schema present
    by (simp add: decode_line_def decode_value_def decode_v2_def check_session_def hash_agrees_def)
  have d2: "decode_line c (Some sid) (tombstone_line c sid kind i) = Inr (Tombstoned (kind, i))"
    using assms(5) schema
    by (simp add: decode_line_def decode_value_def decode_v2_def tombstone_value_def jget_jobj check_session_def)
  let ?a1 = "with_event a (Delivered (kind, i) p)" and ?a2 = "with_event (with_event a (Delivered (kind, i) p)) (Tombstoned (kind, i))"
  have ok1: "bt_ok (records ?a1)" using assms(1) by (simp add: put_def)
  have "feed_line c (record_line c sid kind i p) a = Inr ?a1"
    "feed_line c (tombstone_line c sid kind i) ?a1 = Inr ?a2"
    using d1 d2 assms(2) by (simp_all add: feed_line_decode)
  moreover have l1: "live (records ?a1) k = (if k = (kind, i) then Some p else live (records a) k)" for k
    using record_log.look_step [OF assms(1), of "Delivered (kind, i) p" k] by simp
  moreover have "live (records ?a2) k = (if k = (kind, i) then None else live (records ?a1) k)" for k
    using record_log.look_step [OF ok1, of "Tombstoned (kind, i)" k] by simp
  moreover have "stored (records ?a2) (kind, i) = Some p"
    using stored_log.look_step [OF ok1, of "Tombstoned (kind, i)" "(kind, i)"]
      stored_log.look_step [OF assms(1), of "Delivered (kind, i) p" "(kind, i)"] by simp
  ultimately show ?thesis by (intro exI [of _ ?a1] exI [of _ ?a2]) auto
qed

section \<open>A concrete log for the witnesses\<close>

definition log_payload :: json where
  "log_payload = JObj [(''id'', JStr ''m'')]"

definition log_record :: json where
  "log_record =
     jobj [(''schema'', JStr SESSION_V2_SCHEMA), (''session'', JStr ''s''), (''kind'', JStr ''message''),
       (''record_id'', JStr ''m''), (''deleted'', JBool False), (''record_sha256'', JStr (hex ''R'')),
       (''payload'', log_payload)]"

definition log_codec :: codec where
  "log_codec =
     \<lparr>from_str = (\<lambda>s. if s = ''R'' then Inr log_record
        else if s = ''T'' then Inr (tombstone_value ''s'' Message ''m'') else Inl ''expected value''),
      to_vec = (\<lambda>v. if jget v ''deleted'' = Some (JBool True) then ''T'' else ''R''), digest = (\<lambda>b. b)\<rparr>"

lemma log_lines:
  "record_line log_codec ''s'' Message ''m'' log_payload = ''R''"
  "tombstone_line log_codec ''s'' Message ''m'' = ''T''"
  "record_value log_codec ''s'' Message ''m'' log_payload = log_record"
  by (simp_all add: record_line_def tombstone_line_def record_value_def tombstone_value_def log_codec_def
      jget_jobj log_record_def payload_digest_def log_payload_def)

lemma schemas_differ: "SESSION_V2_SCHEMA \<noteq> SESSION_V1_SCHEMA"
  by (simp add: SESSION_V1_SCHEMA_def SESSION_V2_SCHEMA_def)

lemma log_decode:
  "decode_line log_codec (Some ''s'') ''R'' = Inr (Delivered (Message, ''m'') log_payload)"
  "decode_line log_codec (Some ''s'') ''T'' = Inr (Tombstoned (Message, ''m''))"
proof -
  have "payload_digest log_codec log_payload = hex ''R''"
    by (simp add: payload_digest_def log_codec_def log_payload_def)
  moreover have "from_str log_codec ''R'' = Inr log_record"
    "from_str log_codec ''T'' = Inr (tombstone_value ''s'' Message ''m'')"
    by (simp_all add: log_codec_def)
  ultimately show "decode_line log_codec (Some ''s'') ''R'' = Inr (Delivered (Message, ''m'') log_payload)"
    "decode_line log_codec (Some ''s'') ''T'' = Inr (Tombstoned (Message, ''m''))"
    using schemas_differ
    by (simp_all add: decode_line_def decode_value_def decode_v2_def check_session_def hash_agrees_def
        log_record_def log_payload_def tombstone_value_def jget_jobj kind_from_str_def)
qed

abbreviation (input) log_after_record :: assembly where
  "log_after_record \<equiv> with_event (for_session ''s'') (Delivered (Message, ''m'') log_payload)"

lemma log_runs:
  "try_fold (feed_line log_codec) [''R''] (for_session ''s'') = Inr log_after_record"
  "try_fold (feed_line log_codec) [''T''] log_after_record =
     Inr (with_event log_after_record (Tombstoned (Message, ''m'')))"
  by (simp_all add: feed_line_decode for_session_def log_decode [unfolded] with_event_def)

lemma log_after_record_ok: "bt_ok (records log_after_record)"
  "stored (records log_after_record) (Message, ''m'') = Some log_payload"
  "live (records log_after_record) (Message, ''m'') = Some log_payload"
  by (simp_all add: for_session_def put_def stored_def live_def bt_ok_def)

theorem assembly_last_version_witness:
  "\<exists>evs. list_all2 (\<lambda>l ev. decode_line log_codec (Some ''s'') l = Inr ev) [''R''] evs"
  using assembly_last_version [OF log_runs(1)] by blast

theorem payload_never_erased_witness:
  "stored (records (with_event log_after_record (Tombstoned (Message, ''m'')))) (Message, ''m'') \<noteq> None"
  using payload_never_erased [OF log_after_record_ok(1) log_runs(2) log_after_record_ok(2)] by auto

theorem live_map_exact_witness:
  "bt_get (live_map log_codec log_after_record) (record_key Message ''m'') = Some (hex ''R'')"
proof -
  have "payload_digest log_codec log_payload = hex ''R''"
    by (simp add: payload_digest_def log_codec_def log_payload_def)
  then show ?thesis
    using live_map_exact [OF log_runs(1), of Message "''m''"] log_after_record_ok(3) by simp
qed

theorem record_lines_read_back_witness:
  "\<exists>a1. feed_line log_codec ''R'' (for_session ''s'') = Inr a1 \<and> live (records a1) (Message, ''m'') = Some log_payload"
proof -
  have "from_str log_codec (record_line log_codec ''s'' Message ''m'' log_payload) =
      Inr (record_value log_codec ''s'' Message ''m'' log_payload)"
    "from_str log_codec (tombstone_line log_codec ''s'' Message ''m'') = Inr (tombstone_value ''s'' Message ''m'')"
    unfolding log_lines by (simp_all add: log_codec_def)
  from record_lines_read_back [OF _ _ this(1) _ this(2), of "for_session ''s''"]
  show ?thesis unfolding log_lines by (auto simp: for_session_def log_payload_def)
qed

section \<open>Strictness\<close>

lemma feed_bodies: "try_fold (feed_shard_body c) bodies a = try_fold (feed_line c) (concat (map body_lines bodies)) a"
proof (induction bodies arbitrary: a)
  case (Cons b bodies)
  then show ?case by (cases "feed_shard_body c b a") (simp_all add: feed_shard_body_def try_fold_append)
qed simp

text \<open>A stored body is returned only in one of two ways: byte for byte as it was stored, when its
  first line is not a session record, or as a composed view, and then every line of every shard
  was understood as an event of this very session: there is no short answer.\<close>

theorem projection_is_strict:
  assumes "project_session_body c session_id bodies view = Inr body"
  shows "classify_session_body c bodies = Other \<and> body = concat bodies \<or>
    classify_session_body c bodies = SnapshotRecords \<and>
    (\<forall>b \<in> set bodies. \<forall>l \<in> set (body_lines b). \<exists>ev.
       decode_line c (Some (case native_session_id session_id of None \<Rightarrow> session_id | Some n \<Rightarrow> n)) l = Inr ev)"
proof (cases "classify_session_body c bodies")
  case SnapshotRecords
  let ?n = "case native_session_id session_id of None \<Rightarrow> session_id | Some n \<Rightarrow> n"
  from SnapshotRecords assms obtain a where
    "try_fold (feed_line c) (concat (map body_lines bodies)) (for_session ?n) = Inr a"
    by (auto simp: project_session_body_def assemble_session_body_def feed_bodies rbind_eq_Inr Let_def)
  then obtain evs where evs: "list_all2 (\<lambda>l ev. decode_line c (Some ?n) l = Inr ev) (concat (map body_lines bodies)) evs"
    by (auto simp: feed_lines_decode for_session_def)
  have "\<exists>ev. decode_line c (Some ?n) l = Inr ev" if "b \<in> set bodies" "l \<in> set (body_lines b)" for b l
  proof -
    have "l \<in> set (concat (map body_lines bodies))" using that by auto
    then show ?thesis using list_all2_left [OF evs] by blast
  qed
  with SnapshotRecords show ?thesis by blast
qed (use assms in \<open>simp add: project_session_body_def\<close>)

theorem projection_is_strict_witness:
  "classify_session_body log_codec [''x''] = Other \<and> ''x'' = concat [''x'']"
proof -
  have "body_lines ''x'' = [''x'']" by code_simp
  then have "classify_session_body log_codec [''x''] = Other"
    by (simp add: classify_session_body_def line_family_def log_codec_def)
  then have "project_session_body log_codec ''opencode.m.s'' [''x''] Current = Inr ''x''"
    by (simp add: project_session_body_def)
  from projection_is_strict [OF this] \<open>classify_session_body log_codec [''x''] = Other\<close>
  show ?thesis by simp
qed

end
