(* ===== verification/Opencode_Export.thy ===== *)
theory Opencode_Export
  imports Opencode_Spec "HOL-Library.Multiset"
begin

text \<open>
  The byte contract of the assembly: once the last line of a session is a complete
  observation, the current view is the fresh export of the source's final state, whatever
  was archived before.
\<close>

section \<open>Grouping by a key\<close>

lemma taken_push: "bt_ok m \<Longrightarrow> taken k (push_at j x m) = (if k = j then taken k m @ [x] else taken k m)"
  by (auto simp: taken_def push_at_def bt_get_insert)

lemma taken_Nil [simp]: "taken k [] = []"
  by (simp add: taken_def)

lemma bt_ok_push [simp]: "bt_ok m \<Longrightarrow> bt_ok (push_at j x m)"
  by (simp add: push_at_def)

definition group_by :: "('a \<Rightarrow> string) \<Rightarrow> 'a list \<Rightarrow> (string \<times> 'a list) list \<Rightarrow> (string \<times> 'a list) list" where
  "group_by f xs m = fold (\<lambda>x. push_at (f x) x) xs m"

lemma bt_ok_group [simp]: "bt_ok m \<Longrightarrow> bt_ok (group_by f xs m)"
  unfolding group_by_def by (induction xs arbitrary: m) simp_all

lemma taken_group: "bt_ok m \<Longrightarrow> taken k (group_by f xs m) = taken k m @ filter (\<lambda>x. f x = k) xs"
  unfolding group_by_def by (induction xs arbitrary: m) (auto simp: taken_push)

lemma taken_remove: "taken k (bt_remove j m) = (if k = j then [] else taken k m)"
  by (simp add: taken_def bt_get_remove)

lemma sorted_split_first:
  assumes "sorted (map f xs)" and "\<And>x. x \<in> set xs \<Longrightarrow> k \<le> f x"
  shows "xs = filter (\<lambda>x. f x = k) xs @ filter (\<lambda>x. f x \<noteq> k) xs"
  using assms
proof (induction xs)
  case (Cons x xs)
  show ?case
  proof (cases "f x = k")
    case True
    with Cons show ?thesis by simp
  next
    case False
    then have "k < f x" using Cons.prems(2) [of x] by simp
    then have "\<forall>y \<in> set xs. f y \<noteq> k" using Cons.prems(1) by (auto simp: leD)
    with False show ?thesis by simp
  qed
qed simp

lemma concat_groups:
  fixes f :: "'a \<Rightarrow> 'b::linorder"
  assumes "sorted_wrt (<) ks" "sorted (map f xs)" "f ` set xs \<subseteq> set ks"
  shows "concat (map (\<lambda>k. filter (\<lambda>x. f x = k) xs) ks) = xs"
  using assms
proof (induction ks arbitrary: xs)
  case (Cons k ks)
  let ?rest = "filter (\<lambda>x. f x \<noteq> k) xs"
  have "sorted (map f ?rest)" using Cons.prems(2) by (rule sorted_filter)
  then have "concat (map (\<lambda>j. filter (\<lambda>x. f x = j) ?rest) ks) = ?rest"
    using Cons by (intro Cons.IH) auto
  moreover have "filter (\<lambda>x. f x = j) ?rest = filter (\<lambda>x. f x = j) xs" if "j \<in> set ks" for j
    using Cons.prems(1) that by (auto intro!: filter_cong)
  then have "map (\<lambda>j. filter (\<lambda>x. f x = j) ?rest) ks = map (\<lambda>j. filter (\<lambda>x. f x = j) xs) ks"
    by (intro map_cong refl)
  moreover have "xs = filter (\<lambda>x. f x = k) xs @ ?rest"
    using Cons.prems by (intro sorted_split_first) (auto simp: less_imp_le)
  ultimately show ?case by (metis concat.simps(2) list.simps(9))
qed simp

text \<open>The values of a map of groups, in key order, are the grouped list when that is sorted.\<close>

lemma concat_taken:
  assumes "bt_ok m" "\<And>k. taken k m = filter (\<lambda>x. f x = k) xs" "sorted (map f xs)"
  shows "concat (map snd m) = xs"
proof -
  have snd: "snd kv = taken (fst kv) m" if "kv \<in> set m" for kv
  proof -
    have "bt_get m (fst kv) = Some (snd kv)" using that bt_ok_distinct [OF assms(1)] by simp
    then show ?thesis by (simp add: taken_def)
  qed
  have "map snd m = map (\<lambda>k. filter (\<lambda>x. f x = k) xs) (map fst m)"
    using snd by (simp add: assms(2))
  then have "concat (map snd m) = concat (map (\<lambda>k. filter (\<lambda>x. f x = k) xs) (map fst m))"
    by (simp only:)
  also have "\<dots> = xs"
  proof (rule concat_groups)
    show "sorted_wrt (<) (map fst m)" using assms(1) by (simp add: bt_ok_def)
    show "sorted (map f xs)" by fact
    show "f ` set xs \<subseteq> set (map fst m)"
    proof
      fix k assume "k \<in> f ` set xs"
      then have "taken k m \<noteq> []" by (auto simp: assms(2) filter_empty_conv)
      then have "bt_get m k \<noteq> None" by (auto simp: taken_def split: option.splits)
      then show "k \<in> set (map fst m)" by (simp add: map_of_eq_None_iff)
    qed
  qed
  finally show ?thesis .
qed

section \<open>The rows of a source\<close>

definition row_id_of :: "json \<Rightarrow> string" where
  "row_id_of v = the (get_str v ''id'')"

definition owner_of :: "json \<Rightarrow> string" where
  "owner_of v = the (get_str v ''message_id'')"

text \<open>
  The final state of a source as its export reads it: message rows without parts in
  \<open>(time_created, id)\<close> order, part rows in \<open>(message_id, time_created, id)\<close> order, with
  distinct ids.
\<close>

definition source_rows :: "string \<Rightarrow> json \<Rightarrow> json list \<Rightarrow> json list \<Rightarrow> bool" where
  "source_rows sid session ms ps \<longleftrightarrow>
     get_str session ''id'' = Some sid \<and>
     (\<forall>m \<in> set ms. \<exists>obj. m = JObj obj \<and> bt_ok obj \<and> bt_get obj ''parts'' = None \<and> get_str m ''id'' \<noteq> None) \<and>
     distinct (map row_id_of ms) \<and>
     sorted (map (\<lambda>m. (time_created m, row_id_of m)) ms) \<and>
     (\<forall>p \<in> set ps. get_str p ''id'' \<noteq> None \<and> get_str p ''message_id'' \<noteq> None) \<and>
     distinct (map row_id_of ps) \<and>
     sorted (map (\<lambda>p. (owner_of p, time_created p, row_id_of p)) ps)"

fun with_parts :: "json list \<Rightarrow> json \<Rightarrow> json" where
  "with_parts attached (JObj obj) = JObj (bt_insert ''parts'' (JArr attached) obj)"
| "with_parts attached other = other"

definition parts_of :: "json list \<Rightarrow> json \<Rightarrow> json list" where
  "parts_of ps m = filter (\<lambda>p. owner_of p = row_id_of m) ps"

definition orphans_of :: "json list \<Rightarrow> json list \<Rightarrow> json list" where
  "orphans_of ms ps = filter (\<lambda>p. owner_of p \<notin> row_id_of ` set ms) ps"

definition export_value :: "json \<Rightarrow> json list \<Rightarrow> json list \<Rightarrow> json" where
  "export_value session ms ps =
     v1_envelope session (map (\<lambda>m. with_parts (parts_of ps m) m) ms) (orphans_of ms ps)"

lemma group_parts:
  "\<forall>p \<in> set ps. get_str p ''message_id'' \<noteq> None \<Longrightarrow>
   try_fold group_part ps m = Inr (group_by owner_of ps m)"
  by (induction ps arbitrary: m) (auto simp: group_part_def group_by_def owner_of_def)

lemma compose_messages:
  assumes "\<forall>m \<in> set ms. \<exists>obj. m = JObj obj \<and> get_str m ''id'' \<noteq> None" "distinct (map row_id_of ms)"
  shows "try_fold (compose_message c) ms (acc, parts) =
    Inr (acc @ map (\<lambda>m. with_parts (taken (row_id_of m) parts) m) ms, fold bt_remove (map row_id_of ms) parts)"
  using assms
proof (induction ms arbitrary: acc parts)
  case (Cons m ms)
  then obtain obj i where m: "m = JObj obj" "get_str m ''id'' = Some i" "row_id_of m = i"
    by (auto simp: row_id_of_def)
  have "map (\<lambda>m'. with_parts (taken (row_id_of m') (bt_remove i parts)) m') ms =
      map (\<lambda>m'. with_parts (taken (row_id_of m') parts) m') ms"
  proof (intro map_cong refl)
    fix m' assume "m' \<in> set ms"
    then have "row_id_of m' \<noteq> i" using distinct_map_head [OF Cons.prems(2)] m(3) by simp
    then show "with_parts (taken (row_id_of m') (bt_remove i parts)) m' = with_parts (taken (row_id_of m') parts) m'"
      by (simp add: taken_remove)
  qed
  then show ?case using Cons m by simp
qed simp

lemma taken_fold_remove: "taken k (fold bt_remove is m) = (if k \<in> set is then [] else taken k m)"
  by (induction "is" arbitrary: m) (auto simp: taken_remove)

lemma bt_ok_fold_remove: "bt_ok m \<Longrightarrow> bt_ok (fold bt_remove is m)"
  by (induction "is" arbitrary: m) simp_all

lemma sorted_owner: "sorted (map (\<lambda>p. (owner_of p, g p)) ps) \<Longrightarrow> sorted (map owner_of ps)"
  by (induction ps) (auto simp: less_eq_prod_def)

lemma compose_v1_export:
  assumes "source_rows sid session ms ps"
  shows "compose_v1_value c session ms ps = Inr (export_value session ms ps)"
proof -
  have ms: "\<forall>m \<in> set ms. \<exists>obj. m = JObj obj \<and> get_str m ''id'' \<noteq> None" "distinct (map row_id_of ms)"
    and ps: "\<forall>p \<in> set ps. get_str p ''message_id'' \<noteq> None"
    and srt: "sorted (map owner_of ps)"
    using assms by (auto simp: source_rows_def intro: sorted_owner)
  let ?g = "group_by owner_of ps []"
  have taken: "taken k ?g = filter (\<lambda>p. owner_of p = k) ps" for k
    by (simp add: taken_group)
  have "concat (map snd (fold bt_remove (map row_id_of ms) ?g)) = orphans_of ms ps"
  proof (rule concat_taken [where f = owner_of])
    show "bt_ok (fold bt_remove (map row_id_of ms) ?g)" by (simp add: bt_ok_fold_remove)
    show "sorted (map owner_of (orphans_of ms ps))"
      unfolding orphans_of_def using srt by (rule sorted_filter)
    show "taken k (fold bt_remove (map row_id_of ms) ?g) = filter (\<lambda>x. owner_of x = k) (orphans_of ms ps)" for k
      by (auto simp: taken_fold_remove taken orphans_of_def filter_empty_conv intro!: filter_cong
          filter_False [symmetric])
  qed
  then show ?thesis
    by (simp add: compose_v1_value_def group_parts [OF ps] compose_messages [OF ms] taken export_value_def parts_of_def)
qed

section \<open>Reading the export back\<close>

definition export_items :: "string \<Rightarrow> json \<Rightarrow> json list \<Rightarrow> json list \<Rightarrow> observation" where
  "export_items sid session ms ps =
     ((Session, sid), session) #
     concat (map (\<lambda>m. ((Message, row_id_of m), m) # map (\<lambda>p. ((Part, row_id_of p), p)) (parts_of ps m)) ms) @
     map (\<lambda>p. ((Part, row_id_of p), p)) (orphans_of ms ps)"

lemma observe_parts:
  "\<forall>p \<in> set ps. get_str p ''id'' \<noteq> None \<Longrightarrow>
   try_fold (observe_part why) ps obs = Inr (bt.insert_all (map (\<lambda>p. ((Part, row_id_of p), p)) ps) obs)"
  by (induction ps arbitrary: obs) (auto simp: observe_part_def row_id_of_def bt.insert_all_def)

lemma insert_all_append: "bt.insert_all (xs @ ys) m = bt.insert_all ys (bt.insert_all xs m)"
  by (simp add: bt.insert_all_def)

lemma observe_messages:
  assumes "\<forall>m \<in> set ms. \<exists>obj. m = JObj obj \<and> bt_ok obj \<and> bt_get obj ''parts'' = None \<and> get_str m ''id'' \<noteq> None"
    and "\<forall>p \<in> set ps. get_str p ''id'' \<noteq> None"
  shows "try_fold observe_message (map (\<lambda>m. with_parts (parts_of ps m) m) ms) obs =
    Inr (bt.insert_all (concat (map (\<lambda>m. ((Message, row_id_of m), m) #
      map (\<lambda>p. ((Part, row_id_of p), p)) (parts_of ps m)) ms)) obs)"
  using assms(1)
proof (induction ms arbitrary: obs)
  case Nil
  show ?case by (simp add: bt.insert_all_def)
next
  case (Cons m ms)
  then obtain obj where m: "m = JObj obj" "bt_ok obj" "bt_get obj ''parts'' = None" "get_str m ''id'' \<noteq> None"
    by auto
  let ?m = "with_parts (parts_of ps m) m"
  have "get_str ?m ''id'' = Some (row_id_of m)" "array_or_empty ?m ''parts'' = parts_of ps m" "strip_parts ?m = m"
    using m by (auto simp: bt_get_insert row_id_of_def array_or_empty_def bt_remove_insert)
  moreover have "try_fold (observe_part why) (parts_of ps m) obs' =
      Inr (bt.insert_all (map (\<lambda>p. ((Part, row_id_of p), p)) (parts_of ps m)) obs')" for why obs'
    using assms(2) by (intro observe_parts) (simp add: parts_of_def)
  ultimately have "observe_message ?m obs = Inr (bt.insert_all (((Message, row_id_of m), m) #
      map (\<lambda>p. ((Part, row_id_of p), p)) (parts_of ps m)) obs)"
    by (simp add: observe_message_def bt.insert_all_def)
  with Cons show ?case by (simp add: insert_all_append [of "_ # _", simplified])
qed

lemma jget_envelope [simp]:
  "jget (v1_envelope session ms os) ''schema'' = Some (JStr SESSION_V1_SCHEMA)"
  "jget (v1_envelope session ms os) ''session'' = Some session"
  "jget (v1_envelope session ms os) ''messages'' = Some (JArr ms)"
  "jget (v1_envelope session ms os) ''orphan_parts'' = Some (JArr os)"
  by (simp_all add: v1_envelope_def jget_jobj)

lemma observe_export:
  assumes "source_rows sid session ms ps" and "native a = Some sid"
  shows "v1_observation a (export_value session ms ps) = Inr (bt.insert_all (export_items sid session ms ps) [])"
proof -
  have rows: "\<forall>m \<in> set ms. \<exists>obj. m = JObj obj \<and> bt_ok obj \<and> bt_get obj ''parts'' = None \<and> get_str m ''id'' \<noteq> None"
    "\<forall>p \<in> set ps. get_str p ''id'' \<noteq> None" "get_str session ''id'' = Some sid"
    using assms(1) by (auto simp: source_rows_def)
  have orph: "try_fold (observe_part why) (orphans_of ms ps) obs =
      Inr (bt.insert_all (map (\<lambda>p. ((Part, row_id_of p), p)) (orphans_of ms ps)) obs)" for why obs
    using rows(2) by (intro observe_parts) (simp add: orphans_of_def)
  show ?thesis
    using rows(3) assms(2)
    by (simp add: v1_observation_def export_value_def array_or_empty_def check_session_def
        observe_messages [OF rows(1,2)] orph export_items_def)
      (simp add: bt.insert_all_def)
qed

lemma distinct_row_ids:
  "distinct (map row_id_of xs) \<Longrightarrow> x \<in> set xs \<Longrightarrow> y \<in> set xs \<Longrightarrow> row_id_of x = row_id_of y \<Longrightarrow> x = y"
  by (auto simp: distinct_map dest: inj_onD)

text \<open>The keys of the observation and what they carry.\<close>

lemma export_items_get:
  assumes "source_rows sid session ms ps"
  shows "bt_get (bt.insert_all (export_items sid session ms ps) []) (kind, i) = Some v \<longleftrightarrow>
    (kind = Session \<and> i = sid \<and> v = session \<or>
     kind = Message \<and> v \<in> set ms \<and> row_id_of v = i \<or>
     kind = Part \<and> v \<in> set ps \<and> row_id_of v = i)"
proof -
  have dm: "distinct (map row_id_of ms)" and dp: "distinct (map row_id_of ps)"
    using assms by (auto simp: source_rows_def)
  have items: "((kind, i), v) \<in> set (export_items sid session ms ps) \<longleftrightarrow>
    (kind = Session \<and> i = sid \<and> v = session \<or>
     kind = Message \<and> v \<in> set ms \<and> row_id_of v = i \<or>
     kind = Part \<and> v \<in> set ps \<and> row_id_of v = i)" for kind i v
    by (auto simp: export_items_def parts_of_def orphans_of_def)
  have fn: "v = w" if "((kind, i), v) \<in> set (export_items sid session ms ps)"
    "((kind, i), w) \<in> set (export_items sid session ms ps)" for v w
    using that distinct_row_ids [OF dm] distinct_row_ids [OF dp] by (auto simp: items)
  have "bt_get (bt.insert_all (export_items sid session ms ps) []) (kind, i) =
      map_of (rev (export_items sid session ms ps)) (kind, i)"
    using bt.look_insert_all [OF bt_ok_Nil, of "export_items sid session ms ps" "(kind, i)"]
    by (simp split: option.splits)
  moreover have "map_of (rev (export_items sid session ms ps)) (kind, i) = Some v \<longleftrightarrow>
      ((kind, i), v) \<in> set (export_items sid session ms ps)"
  proof
    assume "((kind, i), v) \<in> set (export_items sid session ms ps)"
    then obtain w where "map_of (rev (export_items sid session ms ps)) (kind, i) = Some w"
      by (metis image_eqI fst_conv map_of_eq_None_iff not_Some_eq set_rev)
    with fn \<open>((kind, i), v) \<in> _\<close> show "map_of (rev (export_items sid session ms ps)) (kind, i) = Some v"
      by (metis map_of_SomeD set_rev)
  qed (metis map_of_SomeD set_rev)
  ultimately show ?thesis by (simp add: items)
qed

section \<open>Composing the current view\<close>

text \<open>The rows selected for a view: in key order, and exactly the records of that kind that qualify.\<close>

lemma row_eq_iff: "row = \<lparr>row_id = i, row_deleted = d, row_payload = p\<rparr> \<longleftrightarrow>
    row_id row = i \<and> row_deleted row = d \<and> row_payload row = p"
  by (cases row) auto

lemma select_rows_in_exact:
  assumes "distinct (map fst recs)" and "select_rows_in kind view recs = Inr rows"
  shows "distinct (map row_id rows) \<and>
    (\<forall>row. row \<in> set rows \<longleftrightarrow> (\<exists>r. bt_get recs (kind, row_id row) = Some r \<and>
       (view = IncludeDeleted \<or> \<not> deleted r) \<and> payload r = Some (row_payload row) \<and> row_deleted row = deleted r))"
  using assms
proof (induction recs arbitrary: rows)
  case (Cons x recs)
  obtain k i r where x: "x = ((k, i), r)" by (metis prod.exhaust)
  have absent: "bt_get recs (k, i) = None" using Cons.prems(1) by (simp add: x map_of_eq_None_iff)
  show ?case
  proof (cases "k \<noteq> kind \<or> (view \<noteq> IncludeDeleted \<and> deleted r)")
    case True
    then have "select_rows_in kind view recs = Inr rows" using Cons.prems(2) by (simp add: x)
    with Cons.IH [OF _ this] Cons.prems(1) True absent show ?thesis by (auto simp: x)
  next
    case False
    then obtain p rows' where p: "payload r = Some p" "select_rows_in kind view recs = Inr rows'"
      "rows = \<lparr>row_id = i, row_deleted = deleted r, row_payload = p\<rparr> # rows'"
      using Cons.prems(2) by (auto simp: x rbind_eq_Inr split: option.splits)
    note IH = Cons.IH [OF _ p(2)]
    have "distinct (map fst recs)" using Cons.prems(1) by simp
    note IH' = IH [OF this]
    have "i \<notin> row_id ` set rows'" using IH' absent False by fastforce
    with IH' False p absent show ?thesis
      by (auto simp: x row_eq_iff)
  qed
qed simp

lemma select_rows_total:
  assumes "\<forall>r \<in> snd ` set recs. \<not> deleted r \<longrightarrow> payload r \<noteq> None"
  shows "\<exists>rows. select_rows_in kind Current recs = Inr rows"
  using assms by (induction kind "Current" recs rule: select_rows_in.induct) auto

lemma sort_key_eqI:
  fixes f :: "'a \<Rightarrow> 'b::linorder"
  assumes "distinct xs" "distinct ys" "set xs = set ys" "inj_on f (set xs)" "sorted (map f ys)"
  shows "sort_key f xs = ys"
  by (rule sort_key_inj_key_eq [OF _ assms(4,5)])
    (use assms(1-3) in \<open>simp add: set_eq_iff_mset_eq_distinct [symmetric]\<close>)

definition plain_row :: "json \<Rightarrow> selected_row" where
  "plain_row v = \<lparr>row_id = row_id_of v, row_deleted = False, row_payload = v\<rparr>"

lemma plain_row_simps [simp]: "row_id (plain_row v) = row_id_of v" "row_payload (plain_row v) = v"
  "row_deleted (plain_row v) = False" "emitted view (plain_row v) = v"
  by (simp_all add: plain_row_def emitted_def)

lemma attach_parts:
  assumes "\<forall>p \<in> set ps. get_str p ''message_id'' \<noteq> None"
  shows "try_fold (attach_part Current ids) (map plain_row ps) (att, orph) =
    Inr (group_by owner_of (filter (\<lambda>p. owner_of p \<in> set ids) ps) att,
      orph @ filter (\<lambda>p. owner_of p \<notin> set ids) ps)"
  using assms by (induction ps arbitrary: att orph) (auto simp: group_by_def owner_of_def)

lemma emit_messages:
  assumes "distinct (map row_id_of ms)"
  shows "fst (fold (emit_message Current) (map plain_row ms) (acc, att)) =
    acc @ map (\<lambda>m. with_parts (taken (row_id_of m) att) m) ms"
  using assms
proof (induction ms arbitrary: acc att)
  case (Cons m ms)
  have "map (\<lambda>m'. with_parts (taken (row_id_of m') (bt_remove (row_id_of m) att)) m') ms =
      map (\<lambda>m'. with_parts (taken (row_id_of m') att) m') ms"
  proof (intro map_cong refl)
    fix m' assume "m' \<in> set ms"
    then have "row_id_of m' \<noteq> row_id_of m" using distinct_map_head [OF Cons.prems] by simp
    then show "with_parts (taken (row_id_of m') (bt_remove (row_id_of m) att)) m' =
        with_parts (taken (row_id_of m') att) m'"
      by (simp add: taken_remove)
  qed
  moreover have "(case m of JObj obj \<Rightarrow> JObj (bt_insert ''parts'' (JArr xs) obj) | other \<Rightarrow> other) = with_parts xs m" for xs
    by (cases m) simp_all
  ultimately show ?case using Cons by (simp add: Let_def)
qed simp

lemma select_plain:
  assumes ok: "distinct (map fst recs)" and inj: "inj_on key (plain_row ` set vs)"
    and live: "\<And>i v. (\<exists>r. bt_get recs (kind, i) = Some r \<and> \<not> deleted r \<and> payload r = Some v) \<longleftrightarrow>
      v \<in> set vs \<and> row_id_of v = i"
    and dist: "distinct (map row_id_of vs)" and srt: "sorted (map (key \<circ> plain_row) vs)"
    and sel: "select_rows_in kind Current recs = Inr rows"
  shows "sort_key key rows = map plain_row vs"
proof (rule sort_key_eqI)
  note exact = select_rows_in_exact [OF ok sel]
  show "distinct rows" using exact by (auto intro: distinct_of_map)
  show "distinct (map plain_row vs)" using distinct_of_map [of row_id "map plain_row vs"] dist
    by (simp add: comp_def)
  show eq: "set rows = set (map plain_row vs)"
  proof (intro set_eqI)
    fix row
    have "row \<in> set rows \<longleftrightarrow> row_deleted row = False \<and>
        (\<exists>r. bt_get recs (kind, row_id row) = Some r \<and> \<not> deleted r \<and> payload r = Some (row_payload row))"
      using exact by auto
    also have "\<dots> \<longleftrightarrow> row_deleted row = False \<and> row_payload row \<in> set vs \<and> row_id_of (row_payload row) = row_id row"
      unfolding live ..
    also have "\<dots> \<longleftrightarrow> row \<in> set (map plain_row vs)"
      by (cases row) (auto simp: plain_row_def)
    finally show "row \<in> set rows \<longleftrightarrow> row \<in> set (map plain_row vs)" .
  qed
  show "inj_on key (set rows)" using inj unfolding eq by simp
  show "sorted (map key (map plain_row vs))" using srt by simp
qed

text \<open>The records after the export was observed: what it carries is live, everything else is masked.\<close>

lemma observed_get:
  assumes "bt_ok recs" and "source_rows sid session ms ps"
  shows "(\<exists>r. bt_get (apply_observation (bt.insert_all (export_items sid session ms ps) []) recs) (kind, i) = Some r \<and>
      \<not> deleted r \<and> payload r = Some v) \<longleftrightarrow>
    (kind = Session \<and> i = sid \<and> v = session \<or>
     kind = Message \<and> v \<in> set ms \<and> row_id_of v = i \<or>
     kind = Part \<and> v \<in> set ps \<and> row_id_of v = i)"
proof -
  let ?obs = "bt.insert_all (export_items sid session ms ps) []"
  have "map_of (rev ?obs) = bt_get ?obs"
    using event_sets_Observed [of ?obs] by (auto simp: fun_eq_iff bt.wf_insert_all)
  then have "(\<exists>r. bt_get (apply_observation ?obs recs) (kind, i) = Some r \<and> \<not> deleted r \<and> payload r = Some v) \<longleftrightarrow>
      bt_get ?obs (kind, i) = Some v"
    by (auto simp: bt_get_apply_observation [OF assms(1)] split: option.splits)
  then show ?thesis unfolding export_items_get [OF assms(2)] .
qed

lemma observed_session:
  assumes ok: "bt_ok recs" and src: "source_rows sid session ms ps"
    and only: "\<And>i r. bt_get recs (Session, i) = Some r \<Longrightarrow> i = sid"
  shows "session_value (a\<lparr>records := apply_observation (bt.insert_all (export_items sid session ms ps) []) recs\<rparr>) =
    Some session"
proof -
  let ?obs = "bt.insert_all (export_items sid session ms ps) []"
  let ?new = "apply_observation ?obs recs"
  have okn: "distinct (map fst ?new)" by (rule bt_ok_distinct) (simp add: ok)
  obtain r0 where r0: "bt_get ?new (Session, sid) = Some r0" "payload r0 = Some session"
    using observed_get [OF ok src, of Session sid session] by auto
  have keys: "i = sid" if new: "bt_get ?new (Session, i) = Some r" for i r
  proof (cases "map_of (rev ?obs) (Session, i)")
    case None
    then show ?thesis using new only by (auto simp: bt_get_apply_observation [OF ok])
  next
    case (Some v)
    have "map_of (rev ?obs) = bt_get ?obs"
      using event_sets_Observed [of ?obs] by (auto simp: fun_eq_iff bt.wf_insert_all)
    with Some show ?thesis using export_items_get [OF src, of Session i v] by simp
  qed
  show ?thesis
  proof (cases "find (\<lambda>((kind, _), _). kind = Session) ?new")
    case None
    then show ?thesis using map_of_SomeD [OF r0(1)] by (auto simp: find_None_iff)
  next
    case (Some x)
    then obtain i r where x: "x = ((Session, i), r)" "((Session, i), r) \<in> set ?new"
      by (auto simp: find_Some_iff in_set_conv_nth)
    then have "bt_get ?new (Session, i) = Some r" using okn by simp
    with keys [OF this] r0 have "payload r = Some session" by simp
    with Some x show ?thesis by (simp add: session_value_def)
  qed
qed

lemma compose_export:
  assumes ok: "bt_ok recs" and src: "source_rows sid session ms ps"
    and only: "\<And>i r. bt_get recs (Session, i) = Some r \<Longrightarrow> i = sid"
  shows "compose_value (a\<lparr>records := apply_observation (bt.insert_all (export_items sid session ms ps) []) recs\<rparr>) Current =
    Inr (export_value session ms ps)"
proof -
  let ?new = "apply_observation (bt.insert_all (export_items sid session ms ps) []) recs"
  have okn: "distinct (map fst ?new)" by (rule bt_ok_distinct) (simp add: ok)
  have "payload r \<noteq> None" if "((k, i), r) \<in> set ?new" "\<not> deleted r" for k i r
  proof -
    have "bt_get ?new (k, i) = Some r" using that(1) okn by simp
    with that(2) show ?thesis
      by (auto simp: bt_get_apply_observation [OF ok] split: option.splits)
  qed
  then have total: "\<forall>r \<in> snd ` set ?new. \<not> deleted r \<longrightarrow> payload r \<noteq> None" by fastforce
  obtain mrows where mrows: "select_rows_in Message Current ?new = Inr mrows"
    using select_rows_total [OF total] by blast
  obtain prows where prows: "select_rows_in Part Current ?new = Inr prows"
    using select_rows_total [OF total] by blast
  have src': "distinct (map row_id_of ms)" "distinct (map row_id_of ps)"
    "sorted (map (\<lambda>m. (time_created m, row_id_of m)) ms)"
    "sorted (map (\<lambda>p. (owner_of p, time_created p, row_id_of p)) ps)"
    "\<forall>p \<in> set ps. get_str p ''message_id'' \<noteq> None"
    using src by (auto simp: source_rows_def)
  have sm: "sort_key message_key mrows = map plain_row ms"
  proof (rule select_plain [OF okn _ _ src'(1) _ mrows])
    show "inj_on message_key (plain_row ` set ms)"
      using distinct_row_ids [OF src'(1)] by (auto simp: inj_on_def message_key_def)
    show "sorted (map (message_key \<circ> plain_row) ms)" using src'(3) by (simp add: message_key_def comp_def)
  qed (use observed_get [OF ok src, of Message] in simp)
  have "row_id ` set mrows = row_id_of ` set ms"
    using arg_cong [OF sm, of "\<lambda>xs. row_id ` set xs"] by (simp add: image_image)
  moreover have "sort_key part_key prows = map plain_row ps"
  proof (rule select_plain [OF okn _ _ src'(2) _ prows])
    show "inj_on part_key (plain_row ` set ps)"
      using distinct_row_ids [OF src'(2)] by (auto simp: inj_on_def part_key_def)
    have "map (part_key \<circ> plain_row) ps = map (\<lambda>p. (owner_of p, time_created p, row_id_of p)) ps"
      using src'(5) by (auto simp: part_key_def owner_of_def)
    then show "sorted (map (part_key \<circ> plain_row) ps)" using src'(4) by (simp only:)
  qed (use observed_get [OF ok src, of Part] in simp)
  moreover have "taken (row_id_of m) (group_by owner_of (filter (\<lambda>p. owner_of p \<in> row_id_of ` set ms) ps) []) = parts_of ps m"
    if "m \<in> set ms" for m
    using that by (auto simp: taken_group parts_of_def intro!: filter_cong)
  moreover have "session_value (a\<lparr>records := ?new\<rparr>) = Some session"
    by (rule observed_session [OF ok src]) (rule only)
  ultimately show ?thesis using sm
    by (simp add: compose_value_def select_rows_def mrows prows attach_parts [OF src'(5)] comp_def
        emit_messages [OF src'(1)] export_value_def orphans_of_def Let_def cong: map_cong)
qed

section \<open>Properties\<close>

lemma assembled:
  assumes "try_fold (feed_line c) ls (for_session sid) = Inr a"
  shows "bt_ok (records a)" "native a = Some sid"
proof -
  from assms obtain evs where a: "a = fold (\<lambda>ev a. with_event a ev) evs (for_session sid)"
    by (auto simp: feed_lines_decode)
  show "bt_ok (records a)"
    using record_log.wf_fold [of "[]" evs] by (simp add: a fold_with_event) (simp add: for_session_def)
  show "native a = Some sid" by (simp add: a fold_with_event) (simp add: for_session_def)
qed

text \<open>C6: The byte contract: when the last archived line is the export of the source's final state, the
  assembled current view is that very line followed by a newline, whatever observations,
  records and tombstones of this session were archived before it.\<close>

theorem current_view_is_fresh_export:
  assumes "try_fold (feed_line c) ls (for_session sid) = Inr a"
    and "\<forall>i r. bt_get (records a) (Session, i) = Some r \<longrightarrow> i = sid"
    and "source_rows sid session ms ps" and "compose_v1_line c session ms ps = Inr line"
    and "from_str c line = Inr (export_value session ms ps)"
  shows "\<exists>a'. try_fold (feed_line c) (ls @ [line]) (for_session sid) = Inr a' \<and>
    compose c a' Current = Inr (line @ [newline])"
proof -
  note a = assembled [OF assms(1)]
  let ?a' = "a\<lparr>records := apply_observation (bt.insert_all (export_items sid session ms ps) []) (records a)\<rparr>"
  have line: "line = to_vec c (export_value session ms ps)"
    using assms(4) by (simp add: compose_v1_line_def compose_v1_export [OF assms(3)])
  have "feed_line c line a = Inr ?a'"
    using assms(5) by (simp add: feed_line_def feed_value_def feed_v1_observation_def
        observe_export [OF assms(3) a(2)] export_value_def)
      (use observe_export [OF assms(3) a(2)] in \<open>simp add: export_value_def\<close>)
  moreover have "compose c ?a' Current = Inr (line @ [newline])"
    using compose_export [OF a(1) assms(3), where a = a] assms(2) by (simp add: compose_def line)
  ultimately show ?thesis using assms(1) by (intro exI [of _ ?a']) (simp add: try_fold_append)
qed

definition demo_session :: json where
  "demo_session = JObj [(''id'', JStr ''s'')]"

definition demo_message :: json where
  "demo_message = JObj [(''id'', JStr ''m''), (''time_created'', JNum ''1'')]"

definition demo_part :: json where
  "demo_part = JObj [(''id'', JStr ''p''), (''message_id'', JStr ''m'')]"

text \<open>A codec that prints and reads exactly the one export line, and a tombstone before it.\<close>

definition demo_codec :: codec where
  "demo_codec =
     \<lparr>from_str = (\<lambda>s. if s = ''E'' then Inr (export_value demo_session [demo_message] [demo_part])
        else if s = ''T'' then Inr (tombstone_value ''s'' Message ''m'') else Inl ''expected value''),
      to_vec = (\<lambda>v. ''E''), digest = (\<lambda>b. b)\<rparr>"

lemma demo_source: "source_rows ''s'' demo_session [demo_message] [demo_part]"
  by (simp add: source_rows_def demo_session_def demo_message_def demo_part_def bt_ok_def)

theorem current_view_is_fresh_export_witness:
  "\<exists>a'. try_fold (feed_line demo_codec) [''T'', ''E''] (for_session ''s'') = Inr a' \<and>
    compose demo_codec a' Current = Inr ''E\<newline>''"
proof -
  have tomb: "try_fold (feed_line demo_codec) [''T''] (for_session ''s'') =
      Inr (with_event (for_session ''s'') (Tombstoned (Message, ''m'')))"
    by (simp add: feed_line_decode decode_line_def decode_value_def decode_v2_def demo_codec_def
        tombstone_value_def jget_jobj check_session_def for_session_def kind_from_str_def
        SESSION_V1_SCHEMA_def SESSION_V2_SCHEMA_def)
  have "compose_v1_line demo_codec demo_session [demo_message] [demo_part] = Inr ''E''"
    by (simp add: compose_v1_line_def compose_v1_export [OF demo_source] demo_codec_def)
  moreover have "from_str demo_codec ''E'' = Inr (export_value demo_session [demo_message] [demo_part])"
    by (simp add: demo_codec_def)
  moreover have "\<forall>i r. bt_get (records (with_event (for_session ''s'') (Tombstoned (Message, ''m'')))) (Session, i) = Some r \<longrightarrow> i = ''s''"
    by (simp add: for_session_def mask_def)
  ultimately show ?thesis
    using current_view_is_fresh_export [OF tomb _ demo_source, of "''E''"] by simp
qed

end
