(* ===== verification/Manifest.thy ===== *)
theory Manifest
  imports Stage_Spec
begin

text \<open>
  \<open>manifest.rs\<close>: the per-session summaries that outlive a reclaimed body, and the
  captured-start record beside the shards (\<open>store.rs\<close>). The JSON forms of the records are
  parameters; reading, merging and comparing are modelled. A directory exists as far as it
  holds a file, directly or further down.
\<close>

section \<open>Records and paths\<close>

definition META_DIR :: string where "META_DIR = ''meta''"
definition MANIFEST_FILE :: string where "MANIFEST_FILE = ''manifest-v1.jsonl''"
definition CAPTURED_START_FILE :: string where "CAPTURED_START_FILE = ''captured-start''"

record captured_start =
  cs_time :: string
  cs_source :: string

record shard_fingerprint =
  fp_sequence :: nat
  fp_bytes :: nat
  fp_sha256 :: string

record session_manifest =
  sm_session_id :: string
  sm_machine :: string
  sm_shard_count :: nat
  sm_concat_bytes :: nat
  sm_concat_sha256 :: string
  sm_shard_identities :: "shard_fingerprint list"
  sm_sealed_at_unix :: int
  sm_captured_start :: "captured_start option"

datatype manifest_state = Missing | Empty | Loaded "session_manifest list"

record stored_manifest =
  stored_files :: nat
  stored_rows :: "session_manifest list"

datatype manifest_error =
    StageFailed stage_error
  | ReadFailed path
  | WriteFailed path
  | BadLine path nat
  | BadCapturedStart path
  | ClockBeforeEpoch
  | RowMachineMismatch string string
  | StoredOnly string string
  | DerivedOnly string string
  | TripleDiffers string string

record menv = env +
  enc_row :: "session_manifest \<Rightarrow> string"
  dec_row :: "string \<Rightarrow> session_manifest option"
  enc_start :: "captured_start \<Rightarrow> bytes option"
  dec_start :: "bytes \<Rightarrow> captured_start option option"
  now_unix :: "int option"

definition manifest_path :: "string \<Rightarrow> path" where
  "manifest_path machine = [META_DIR, machine, MANIFEST_FILE]"

section \<open>The captured start\<close>

definition write_captured_start_in_dir :: "menv \<Rightarrow> path \<Rightarrow> captured_start \<Rightarrow> (world, manifest_error, unit) io" where
  "write_captured_start_in_dir e dir rec =
     (let p = dir @ [CAPTURED_START_FILE]; tmp = dir @ [''.'' @ CAPTURED_START_FILE @ ''.tmp''] in
      case enc_start e rec of
        None \<Rightarrow> io_fail (WriteFailed p)
      | Some body \<Rightarrow>
          (\<lambda>w. if \<not> fault e (clock w) \<and> map_of (files w) p = Some body
               then (Inr (), w\<lparr>clock := Suc (clock w)\<rparr>)
               else io_bind (touch e (WriteFailed p)) (\<lambda>_.
                    io_bind (create_file e (WriteFailed tmp) tmp) (\<lambda>_.
                    io_bind (write_file e (WriteFailed tmp) tmp body) (\<lambda>_.
                    rename_file e (WriteFailed p) tmp p))) (w\<lparr>clock := Suc (clock w)\<rparr>)))"

definition read_captured_start_in_dir :: "menv \<Rightarrow> path \<Rightarrow> (world, manifest_error, captured_start option) io" where
  "read_captured_start_in_dir e dir w =
     (let p = dir @ [CAPTURED_START_FILE] in
      (if fault e (clock w) then Inl (ReadFailed p)
       else case map_of (files w) p of
           None \<Rightarrow> Inr None
         | Some body \<Rightarrow> (case dec_start e body of None \<Rightarrow> Inl (BadCapturedStart p) | Some r \<Rightarrow> Inr r),
       w\<lparr>clock := Suc (clock w)\<rparr>))"

section \<open>Deriving summaries\<close>

text \<open>The session directories of a machine, and the machines that have a directory below a root.\<close>

definition sessions_of :: "string \<Rightarrow> fs \<Rightarrow> string list" where
  "sessions_of machine f =
     remdups (List.map_filter (\<lambda>(p, _). case p of
         root # m # s # _ # _ \<Rightarrow> if root = SESSIONS_DIR \<and> m = machine then Some s else None
       | _ \<Rightarrow> None) f)"

definition subdirs_of :: "string \<Rightarrow> fs \<Rightarrow> string list" where
  "subdirs_of root f =
     remdups (List.map_filter (\<lambda>(p, _). case p of
         r # m # _ # _ \<Rightarrow> if r = root then Some m else None
       | _ \<Rightarrow> None) f)"

definition fingerprint :: "('x env_scheme) \<Rightarrow> nat \<Rightarrow> bytes \<Rightarrow> shard_fingerprint" where
  "fingerprint e seq raw = \<lparr>fp_sequence = seq, fp_bytes = length raw, fp_sha256 = hex (sha256 e raw)\<rparr>"

abbreviation base :: "('x env_scheme) \<Rightarrow> env" where
  "base e \<equiv> env.truncate e"

definition generate_session ::
  "menv \<Rightarrow> string \<Rightarrow> int \<Rightarrow> string \<Rightarrow> (world, manifest_error, session_manifest option) io" where
  "generate_session e machine sealed_at session_id =
     (let dir = session_shard_dir machine session_id in
      io_bind (io_map_err StageFailed (sealed_shard_entries (base e) dir)) (\<lambda>es.
      let shards = sort_entries es in
      if shards = [] then io_return None
      else
        io_bind (io_traverse (\<lambda>(seq, p). io_bind (read_file e (ReadFailed p) p) (\<lambda>c. io_return (seq, c))) shards) (\<lambda>cs.
        let body = concat (map snd cs) in
        io_bind (read_captured_start_in_dir e dir) (\<lambda>start.
        io_return (Some
          \<lparr>sm_session_id = session_id, sm_machine = machine, sm_shard_count = length shards,
           sm_concat_bytes = length body, sm_concat_sha256 = hex (sha256 e body),
           sm_shard_identities = map (\<lambda>(seq, c). fingerprint e seq c) cs,
           sm_sealed_at_unix = sealed_at, sm_captured_start = start\<rparr>)))))"

definition generate_manifest_at :: "menv \<Rightarrow> string \<Rightarrow> int \<Rightarrow> (world, manifest_error, session_manifest list) io" where
  "generate_manifest_at e machine sealed_at =
     io_bind (touch e (ReadFailed [SESSIONS_DIR, machine])) (\<lambda>_ w.
     io_bind (io_traverse (generate_session e machine sealed_at) (sessions_of machine (files w)))
       (\<lambda>rows. io_return (sort_key sm_session_id (List.map_filter (\<lambda>r. r) rows))) w)"

definition generate_manifest :: "menv \<Rightarrow> string \<Rightarrow> (world, manifest_error, session_manifest list) io" where
  "generate_manifest e machine =
     (case now_unix e of None \<Rightarrow> io_fail ClockBeforeEpoch | Some t \<Rightarrow> generate_manifest_at e machine t)"

section \<open>Storing summaries\<close>

definition to_jsonl :: "menv \<Rightarrow> session_manifest \<Rightarrow> string" where
  "to_jsonl e row = enc_row e row @ [newline]"

definition write_manifest :: "menv \<Rightarrow> string \<Rightarrow> session_manifest list \<Rightarrow> (world, manifest_error, unit) io" where
  "write_manifest e machine rows =
     (let p = manifest_path machine; tmp = [META_DIR, machine, ''.'' @ MANIFEST_FILE @ ''.tmp''] in
      io_bind (touch e (WriteFailed p)) (\<lambda>_.
      io_bind (write_synced e (WriteFailed tmp) tmp (concat (map (to_jsonl e) rows))) (\<lambda>_.
      rename_file e (WriteFailed p) tmp p)))"

fun parse_rows :: "menv \<Rightarrow> path \<Rightarrow> nat \<Rightarrow> string list \<Rightarrow> manifest_error + session_manifest list" where
  "parse_rows e p idx [] = Inr []"
| "parse_rows e p idx (l # ls) =
     (if trim l = [] then parse_rows e p (Suc idx) ls
      else case dec_row e (trim l) of
          None \<Rightarrow> Inl (BadLine p (Suc idx))
        | Some row \<Rightarrow> rbind (parse_rows e p (Suc idx) ls) (\<lambda>rows. Inr (row # rows)))"

definition parse_manifest :: "menv \<Rightarrow> path \<Rightarrow> bytes \<Rightarrow> manifest_error + manifest_state" where
  "parse_manifest e p raw =
     (if \<not> valid_utf8 raw then Inl (ReadFailed p)
      else rbind (parse_rows e p 0 (lines_of raw)) (\<lambda>rows.
        Inr (if rows = [] then Empty else Loaded rows)))"

definition read_manifest :: "menv \<Rightarrow> string \<Rightarrow> (world, manifest_error, manifest_state) io" where
  "read_manifest e machine w =
     (let p = manifest_path machine in
      (if fault e (clock w) then Inl (ReadFailed p)
       else case map_of (files w) p of None \<Rightarrow> Inr Missing | Some raw \<Rightarrow> parse_manifest e p raw,
       w\<lparr>clock := Suc (clock w)\<rparr>))"

fun collect_rows :: "menv \<Rightarrow> string list \<Rightarrow> (world, manifest_error, stored_manifest) io" where
  "collect_rows e [] = io_return \<lparr>stored_files = 0, stored_rows = []\<rparr>"
| "collect_rows e (machine # ms) =
     io_bind (read_manifest e machine) (\<lambda>st.
     let rows = (case st of Loaded rows \<Rightarrow> rows | _ \<Rightarrow> []) in
     case find (\<lambda>row. sm_machine row \<noteq> machine) rows of
       Some row \<Rightarrow> io_fail (RowMachineMismatch (sm_machine row) machine)
     | None \<Rightarrow>
         io_bind (collect_rows e ms) (\<lambda>rest.
         io_return \<lparr>stored_files = (if st = Missing then 0 else 1) + stored_files rest,
                    stored_rows = rows @ stored_rows rest\<rparr>))"

definition stored_manifest_rows :: "menv \<Rightarrow> (world, manifest_error, stored_manifest) io" where
  "stored_manifest_rows e =
     io_bind (touch e (ReadFailed [META_DIR])) (\<lambda>_ w. collect_rows e (subdirs_of META_DIR (files w)) w)"

section \<open>Comparing summaries\<close>

definition row_key :: "session_manifest \<Rightarrow> string \<times> string" where
  "row_key row = (sm_machine row, sm_session_id row)"

definition triple :: "session_manifest \<Rightarrow> nat \<times> nat \<times> string" where
  "triple row = (sm_shard_count row, sm_concat_bytes row, sm_concat_sha256 row)"

definition rows_map :: "session_manifest list \<Rightarrow> ((string \<times> string) \<times> session_manifest) list" where
  "rows_map rows = bt.insert_all (map (\<lambda>r. (row_key r, r)) rows) []"

definition compare_manifests :: "session_manifest list \<Rightarrow> session_manifest list \<Rightarrow> manifest_error + unit" where
  "compare_manifests stored derived =
     (let sm = rows_map stored; dm = rows_map derived in
      case find (\<lambda>(k, _). bt_get dm k = None) sm of
        Some (_, r) \<Rightarrow> Inl (StoredOnly (sm_session_id r) (sm_machine r))
      | None \<Rightarrow>
      (case find (\<lambda>(k, _). bt_get sm k = None) dm of
        Some (_, r) \<Rightarrow> Inl (DerivedOnly (sm_session_id r) (sm_machine r))
      | None \<Rightarrow>
      (case find (\<lambda>(k, r). map_option triple (bt_get dm k) \<noteq> Some (triple r)) sm of
        Some (_, r) \<Rightarrow> Inl (TripleDiffers (sm_session_id r) (sm_machine r))
      | None \<Rightarrow> Inr ())))"

end
