(* ===== verification/Manifest_Spec.thy ===== *)
theory Manifest_Spec
  imports Manifest Stage_Props
begin

text \<open>
  What the summaries promise: they are written all or nothing and read back as written, they
  describe exactly the sessions that have a body, and the comparison accepts exactly equal
  baselines.
\<close>

section \<open>Writing and reading\<close>

text \<open>A printed row is one line of text without white space at its ends.\<close>

definition one_line :: "string \<Rightarrow> bool" where
  "one_line s \<longleftrightarrow> s \<noteq> [] \<and> newline \<notin> set s \<and> solid (hd s) \<and> solid (last s) \<and> valid_utf8 s"

lemma one_line_strip: "one_line s \<Longrightarrow> strip_cr s = s" "one_line s \<Longrightarrow> trim s = s"
  by (auto simp: one_line_def strip_cr_def solid_def ws1_def trim_solid)

lemma parse_rows_written:
  assumes "\<forall>row \<in> set rows. dec_row e (enc_row e row) = Some row \<and> one_line (enc_row e row)"
  shows "parse_rows e p k (lines_of (concat (map (to_jsonl e) rows))) = Inr rows"
  using assms
proof (induction rows arbitrary: k)
  case (Cons row rows)
  then have row: "one_line (enc_row e row)" "dec_row e (enc_row e row) = Some row" by simp_all
  then have "newline \<notin> set (enc_row e row)" "enc_row e row \<noteq> []" by (simp_all add: one_line_def)
  with Cons row show ?case
    by (simp add: to_jsonl_def lines_of_line one_line_strip)
qed simp

lemma parse_written:
  assumes "\<forall>row \<in> set rows. dec_row e (enc_row e row) = Some row \<and> one_line (enc_row e row)"
  shows "parse_manifest e p (concat (map (to_jsonl e) rows)) = Inr (if rows = [] then Empty else Loaded rows)"
proof -
  have "valid_utf8 (concat (map (to_jsonl e) rows))"
    using assms by (induction rows) (auto simp: to_jsonl_def one_line_def intro!: valid_utf8_append)
  then show ?thesis by (simp add: parse_manifest_def parse_rows_written [OF assms])
qed

definition manifest_tmp :: "string \<Rightarrow> path" where
  "manifest_tmp machine = [META_DIR, machine, ''.'' @ MANIFEST_FILE @ ''.tmp'']"

lemma manifest_tmp_neq [simp]: "manifest_tmp machine \<noteq> manifest_path m" "manifest_path m \<noteq> manifest_tmp machine"
  by (simp_all add: manifest_tmp_def manifest_path_def MANIFEST_FILE_def)

definition untouched_but :: "path set \<Rightarrow> fs \<Rightarrow> fs \<Rightarrow> bool" where
  "untouched_but P f0 f \<longleftrightarrow> (\<forall>p. p \<notin> P \<longrightarrow> map_of f p = map_of f0 p)"

lemma untouched_but_refl [simp]: "untouched_but P f f"
  by (simp add: untouched_but_def)

lemma untouched_but_trans: "untouched_but P f g \<Longrightarrow> untouched_but P g h \<Longrightarrow> untouched_but P f h"
  by (simp add: untouched_but_def)

lemma stable_untouched: "p \<in> P \<Longrightarrow> stable p (untouched_but P f0)"
  by (auto simp: stable_def untouched_but_def)

lemma valid_write_manifest:
  "valid (on_files (untouched_but {manifest_tmp machine} f0)) (write_manifest e machine rows)
     (\<lambda>_. on_files (\<lambda>f. untouched_but {manifest_tmp machine, manifest_path machine} f0 f \<and>
        map_of f (manifest_path machine) = Some (concat (map (to_jsonl e) rows))))
     (\<lambda>_. on_files (untouched_but {manifest_tmp machine} f0))"
proof -
  have st: "stable (manifest_tmp machine) (untouched_but {manifest_tmp machine} f0)"
    by (rule stable_untouched) simp
  show ?thesis
    unfolding write_manifest_def Let_def manifest_tmp_def [symmetric]
    apply (rule valid_bind [OF valid_touch], assumption)
    apply (rule valid_then [OF valid_write_synced [OF st]], assumption)
    apply (rule valid_rename)
     apply (auto simp: untouched_but_def)
    done
qed

text \<open>A concrete codec for the witnesses: a row prints as its session.\<close>

definition demo_row :: "string \<Rightarrow> session_manifest" where
  "demo_row s = \<lparr>sm_session_id = s, sm_machine = ''m'', sm_shard_count = 1, sm_concat_bytes = 1,
     sm_concat_sha256 = ''78'', sm_shard_identities = [], sm_sealed_at_unix = 0, sm_captured_start = None\<rparr>"

definition demo_menv :: menv where
  "demo_menv = env.extend demo_env
     \<lparr>enc_row = sm_session_id, dec_row = (\<lambda>s. Some (demo_row s)), enc_start = (\<lambda>_. Some []),
      dec_start = (\<lambda>_. None), now_unix = Some 0\<rparr>"

lemma demo_menv_simps [simp]: "fault demo_menv t = False" "enc_row demo_menv = sm_session_id"
  "dec_row demo_menv s = Some (demo_row s)" "sm_session_id (demo_row s) = s" "sm_machine (demo_row s) = ''m''"
  by (simp_all add: demo_menv_def demo_env_def env.defs demo_row_def)

text \<open>C33: Storing summaries is all or nothing under every fault: the machine's file is the old one or
  holds every new row, success means the latter, and nothing but that file and its temporary
  neighbour changes.\<close>

theorem write_manifest_atomic:
  assumes "write_manifest e machine rows w = (r, w')"
  shows "untouched_but {manifest_tmp machine, manifest_path machine} (files w) (files w') \<and>
    (case r of
       Inr _ \<Rightarrow> map_of (files w') (manifest_path machine) = Some (concat (map (to_jsonl e) rows))
     | Inl _ \<Rightarrow> map_of (files w') (manifest_path machine) = map_of (files w) (manifest_path machine))"
  using validD [OF valid_write_manifest [where ?f0.0 = "files w" and machine = machine and e = e and rows = rows], where s = w] assms
  by (auto simp: on_files_def untouched_but_def split: sum.splits)

definition stored_world :: world where
  "stored_world = \<lparr>files = [(manifest_path ''m'', ''old'')], clock = 0\<rparr>"

theorem write_manifest_atomic_witness:
  "map_of (files (snd (write_manifest (demo_menv\<lparr>fault := (\<lambda>t. t = 3)\<rparr>) ''m'' [demo_row ''s''] stored_world)))
     (manifest_path ''m'') = Some ''old''"
proof -
  have "\<exists>x. fst (write_manifest (demo_menv\<lparr>fault := (\<lambda>t. t = 3)\<rparr>) ''m'' [demo_row ''s''] stored_world) = Inl x"
    by (simp add: write_manifest_def Let_def write_synced_def io_simps file_simps stored_world_def)
  with write_manifest_atomic [OF surjective_pairing, where e = "demo_menv\<lparr>fault := (\<lambda>t. t = 3)\<rparr>" and machine = "''m''" and rows = "[demo_row ''s'']" and w = stored_world]
  show ?thesis by (auto simp: stored_world_def)
qed

text \<open>C37: What was stored is read back: with a row codec that inverts itself on the given rows, a
  successful write followed by an undisturbed read yields exactly these rows, and an empty
  list reads as the empty baseline, never as a missing one.\<close>

theorem manifest_roundtrip:
  assumes "write_manifest e machine rows w = (Inr u, w')" and "\<not> fault e (clock w')"
    and "\<forall>row \<in> set rows. dec_row e (enc_row e row) = Some row \<and> one_line (enc_row e row)"
  shows "fst (read_manifest e machine w') = Inr (if rows = [] then Empty else Loaded rows)"
  using validD [OF valid_write_manifest [where ?f0.0 = "files w" and machine = machine and e = e and rows = rows], where s = w] assms
  by (auto simp: on_files_def read_manifest_def parse_written Let_def)

lemma valid_utf8_s: "one_line ''s''"
  by (simp add: one_line_def solid_def ws1_def Let_def)

theorem manifest_roundtrip_witness:
  "\<exists>w'. write_manifest demo_menv ''m'' [demo_row ''s''] stored_world = (Inr (), w') \<and>
     fst (read_manifest demo_menv ''m'' w') = Inr (Loaded [demo_row ''s''])"
proof -
  have "\<exists>w'. write_manifest demo_menv ''m'' [demo_row ''s''] stored_world = (Inr (), w')"
    by (simp add: write_manifest_def Let_def write_synced_def io_simps file_simps stored_world_def)
  then obtain w' where w': "write_manifest demo_menv ''m'' [demo_row ''s''] stored_world = (Inr (), w')" by blast
  from manifest_roundtrip [OF this] w' show ?thesis by (simp add: valid_utf8_s)
qed

section \<open>Summaries describe bodies\<close>

lemma read_shards:
  assumes "io_traverse (\<lambda>(seq, p). io_bind (read_file e (ReadFailed p) p) (\<lambda>c. io_return (seq, c))) shards w = (Inr cs, w')"
  shows "files w' = files w \<and> cs = map (\<lambda>(seq, p). (seq, the (map_of (files w) p))) shards"
  using assms
proof (induction shards arbitrary: w cs)
  case (Cons sp shards)
  obtain seq p where sp: "sp = (seq, p)" by (cases sp)
  from Cons.prems obtain c cs' w1 where c: "read_file e (ReadFailed p) p w = (Inr c, w1)" "cs = (seq, c) # cs'"
    and rest: "io_traverse (\<lambda>(seq, p). io_bind (read_file e (ReadFailed p) p) (\<lambda>c. io_return (seq, c))) shards w1 = (Inr cs', w')"
    by (auto simp: sp io_bind_Inr io_return_Inr)
  from c(1) have "files w1 = files w" "map_of (files w) p = Some c"
    by (auto simp: read_file_def split: if_splits option.splits)
  with Cons.IH [OF rest] c(2) show ?case by (simp add: sp)
qed (simp add: io_return_def)

text \<open>The recorded start is the one the session's record file decodes to, or none without a file.\<close>

definition carried_start :: "menv \<Rightarrow> path \<Rightarrow> fs \<Rightarrow> captured_start option \<Rightarrow> bool" where
  "carried_start e dir f start \<longleftrightarrow>
     (case map_of f (dir @ [CAPTURED_START_FILE]) of
        None \<Rightarrow> start = None
      | Some body \<Rightarrow> dec_start e body = Some start)"

definition row_describes :: "menv \<Rightarrow> string \<Rightarrow> fs \<Rightarrow> string \<Rightarrow> session_manifest option \<Rightarrow> bool" where
  "row_describes e machine f s r \<longleftrightarrow>
     (if entries_of (session_shard_dir machine s) f = [] then r = None
      else \<exists>row. r = Some row \<and> row_key row = (machine, s) \<and>
        carried_start e (session_shard_dir machine s) f (sm_captured_start row) \<and>
        triple row = (length (entries_of (session_shard_dir machine s) f),
          length (session_body (session_shard_dir machine s) f),
          hex (sha256 e (session_body (session_shard_dir machine s) f))))"

lemma generate_session_result:
  assumes "generate_session e machine t s w = (Inr r, w')"
  shows "files w' = files w \<and> row_describes e machine (files w) s r"
proof -
  let ?dir = "session_shard_dir machine s"
  let ?es = "entries_of ?dir (files w)"
  let ?rest = "\<lambda>shards. if shards = [] then io_return None
      else
        io_bind (io_traverse (\<lambda>(seq, p). io_bind (read_file e (ReadFailed p) p) (\<lambda>c. io_return (seq, c))) shards) (\<lambda>cs.
        let body = concat (map snd cs) in
        io_bind (read_captured_start_in_dir e ?dir) (\<lambda>start.
        io_return (Some
          \<lparr>sm_session_id = s, sm_machine = machine, sm_shard_count = length shards,
           sm_concat_bytes = length body, sm_concat_sha256 = hex (sha256 e body),
           sm_shard_identities = map (\<lambda>(seq, c). fingerprint e seq c) cs,
           sm_sealed_at_unix = t, sm_captured_start = start\<rparr>)))"
  obtain w1 where w1: "files w1 = files w" "?rest (sort_entries ?es) w1 = (Inr r, w')"
  proof -
    from assms obtain es w0 w1 u where t: "touch (base e) IoError w = (Inr u, w0)" "es = entries_of ?dir (files w0)" "w1 = w0"
      and rest: "?rest (sort_entries es) w1 = (Inr r, w')"
      unfolding generate_session_def Let_def io_bind_Inr [where m = "io_map_err _ _"] io_map_err_Inr
        sealed_shard_entries_def io_bind_Inr [where m = "touch _ _"] by auto
    have "es = ?es" "files w1 = files w" using touch_files [OF t(1)] t(2,3) by simp_all
    from rest [unfolded this(1)] show ?thesis by (rule that [OF \<open>files w1 = files w\<close>])
  qed
  show ?thesis
  proof (cases "?es = []")
    case True
    then show ?thesis using w1 by (simp add: sort_entries_def io_return_def row_describes_def)
  next
    case False
    then have ne: "sort_entries ?es \<noteq> []" by (metis length_0_conv length_sort sort_entries_def)
    with w1(2) obtain cs w2 start where
      cs: "io_traverse (\<lambda>(seq, p). io_bind (read_file e (ReadFailed p) p) (\<lambda>c. io_return (seq, c))) (sort_entries ?es) w1 = (Inr cs, w2)"
      and start: "read_captured_start_in_dir e ?dir w2 = (Inr start, w')"
      and r: "r = Some \<lparr>sm_session_id = s, sm_machine = machine, sm_shard_count = length (sort_entries ?es),
           sm_concat_bytes = length (concat (map snd cs)), sm_concat_sha256 = hex (sha256 e (concat (map snd cs))),
           sm_shard_identities = map (\<lambda>(seq, c). fingerprint e seq c) cs,
           sm_sealed_at_unix = t, sm_captured_start = start\<rparr>"
      by (auto simp: io_bind_Inr Let_def io_return_Inr)
    from read_shards [OF cs] w1(1) have body: "concat (map snd cs) = session_body ?dir (files w)" "files w2 = files w"
      by (simp_all add: session_body_def comp_def case_prod_beta')
    moreover have "files w' = files w2" "carried_start e ?dir (files w2) start"
      using start by (auto simp: read_captured_start_in_dir_def Let_def carried_start_def split: if_splits option.splits)
    ultimately show ?thesis
      using False r by (simp add: row_describes_def triple_def row_key_def sort_entries_def)
  qed
qed

lemma generate_sessions_result:
  assumes "io_traverse (generate_session e machine t) ss w = (Inr rs, w')"
  shows "files w' = files w \<and> list_all2 (row_describes e machine (files w)) ss rs"
  using assms
proof (induction ss arbitrary: w rs)
  case (Cons s ss)
  then obtain r rs' w1 where "generate_session e machine t s w = (Inr r, w1)"
    "io_traverse (generate_session e machine t) ss w1 = (Inr rs', w')" "rs = r # rs'"
    by (auto simp: io_bind_Inr io_return_Inr)
  with generate_session_result [OF this(1)] Cons.IH [OF this(2)] show ?case by auto
qed (simp add: io_return_Inr)

text \<open>The body of a session as the summary's triple.\<close>

definition body_triple :: "menv \<Rightarrow> string \<Rightarrow> string \<Rightarrow> fs \<Rightarrow> nat \<times> nat \<times> string" where
  "body_triple e machine s f =
     (length (entries_of (session_shard_dir machine s) f),
      length (session_body (session_shard_dir machine s) f),
      hex (sha256 e (session_body (session_shard_dir machine s) f)))"

lemma generated_rows:
  assumes "generate_manifest_at e machine t w = (Inr rows, w')"
  shows "files w' = files w"
    and "row \<in> set rows \<Longrightarrow> sm_session_id row \<in> set (sessions_of machine (files w)) \<and>
      row_key row = (machine, sm_session_id row) \<and>
      entries_of (session_shard_dir machine (sm_session_id row)) (files w) \<noteq> [] \<and>
      triple row = body_triple e machine (sm_session_id row) (files w)"
    and "s \<in> set (sessions_of machine (files w)) \<Longrightarrow> entries_of (session_shard_dir machine s) (files w) \<noteq> [] \<Longrightarrow>
      \<exists>row \<in> set rows. sm_session_id row = s"
proof -
  from assms obtain u w1 rs where w1: "touch e (ReadFailed [SESSIONS_DIR, machine]) w = (Inr u, w1)"
    and rs: "io_traverse (generate_session e machine t) (sessions_of machine (files w1)) w1 = (Inr rs, w')"
    and rows: "rows = sort_key sm_session_id (List.map_filter (\<lambda>r. r) rs)"
    by (auto simp: generate_manifest_at_def io_bind_Inr io_return_Inr)
  have f1: "files w1 = files w" using touch_files [OF w1] .
  note res = generate_sessions_result [OF rs, unfolded f1]
  have mem: "row \<in> set rows \<longleftrightarrow> Some row \<in> set rs" for row
    by (auto simp: rows set_map_filter)
  show "files w' = files w" using res f1 by simp
  show "sm_session_id row \<in> set (sessions_of machine (files w)) \<and>
      row_key row = (machine, sm_session_id row) \<and>
      entries_of (session_shard_dir machine (sm_session_id row)) (files w) \<noteq> [] \<and>
      triple row = body_triple e machine (sm_session_id row) (files w)" if "row \<in> set rows"
    using list_all2_right [OF conjunct2 [OF res], of "Some row"] that
    by (auto simp: mem row_describes_def row_key_def body_triple_def split: if_splits)
  show "\<exists>row \<in> set rows. sm_session_id row = s"
    if "s \<in> set (sessions_of machine (files w))" "entries_of (session_shard_dir machine s) (files w) \<noteq> []"
    using list_all2_left [OF conjunct2 [OF res] that(1)] that(2)
    by (auto simp: mem row_key_def row_describes_def)
qed

text \<open>The rows before sorting: one for each session that has a body, in the order the sessions are listed.\<close>

lemma described_ids:
  assumes "list_all2 (row_describes e machine f) ss rs"
  shows "map sm_session_id (List.map_filter (\<lambda>r. r) rs) =
    filter (\<lambda>s. entries_of (session_shard_dir machine s) f \<noteq> []) ss"
  using assms
proof (induction rule: list_all2_induct)
  case (Cons s ss r rs)
  then show ?case by (cases r) (auto simp: row_describes_def row_key_def split: if_splits)
qed (simp add: map_filter_simps)

lemma sort_key_images: "map k (sort_key k xs) = sort (map k xs)"
  by (rule properties_for_sort [symmetric]) simp_all

lemma sessions_distinct: "distinct (sessions_of machine f)"
  by (simp add: sessions_of_def)

text \<open>C38: When a manifest is derived for a machine, its rows are exactly one for each session of the machine
  that has a sealed shard, in ascending order of the session ids, and none for a session without one.
  Each row names the machine, carries the session's captured start if the file is there (and none if it is not),
  and its triple is the number of the session's shards and the length and hex SHA-256 of their
  concatenation in sequence order. Deriving a manifest changes no file.\<close>

theorem generated_rows_describe_bodies:
  assumes "generate_manifest_at e machine t w = (Inr rows, w')"
  shows "map sm_session_id rows =
      sort (filter (\<lambda>s. entries_of (session_shard_dir machine s) (files w) \<noteq> []) (sessions_of machine (files w))) \<and>
    distinct (map sm_session_id rows) \<and>
    (\<forall>row \<in> set rows. sm_machine row = machine \<and>
       triple row = body_triple e machine (sm_session_id row) (files w) \<and>
       carried_start e (session_shard_dir machine (sm_session_id row)) (files w) (sm_captured_start row)) \<and>
    files w' = files w"
proof -
  from assms obtain u w1 rs where w1: "touch e (ReadFailed [SESSIONS_DIR, machine]) w = (Inr u, w1)"
    and rs: "io_traverse (generate_session e machine t) (sessions_of machine (files w1)) w1 = (Inr rs, w')"
    and rows: "rows = sort_key sm_session_id (List.map_filter (\<lambda>r. r) rs)"
    by (auto simp: generate_manifest_at_def io_bind_Inr io_return_Inr)
  note res = generate_sessions_result [OF rs, unfolded touch_files [OF w1]]
  have ids: "map sm_session_id rows =
      sort (filter (\<lambda>s. entries_of (session_shard_dir machine s) (files w) \<noteq> []) (sessions_of machine (files w)))"
    using described_ids [OF conjunct2 [OF res]] by (simp add: rows sort_key_images)
  moreover have "distinct (map sm_session_id rows)"
    unfolding ids by (simp add: sessions_distinct)
  moreover have "carried_start e (session_shard_dir machine (sm_session_id row)) (files w) (sm_captured_start row)"
    if "row \<in> set rows" for row
    using list_all2_right [OF conjunct2 [OF res], of "Some row"] that
    by (auto simp: rows set_map_filter row_describes_def row_key_def split: if_splits)
  ultimately show ?thesis using generated_rows [OF assms] by (auto simp: row_key_def)
qed

lemma demo_stage_facts:
  "sessions_of ''m'' (files demo_world) = [''s'']"
  "map_of (files demo_world) (session_shard_dir ''m'' ''s'' @ [CAPTURED_START_FILE]) = None"
  "map_of (files demo_world) demo_shard = Some ''x''"
  "entries_of (session_shard_dir ''m'' ''s'') (files demo_world) = [(1, demo_shard)]"
proof -
  show "sessions_of ''m'' (files demo_world) = [''s'']" by code_simp
  show "map_of (files demo_world) (session_shard_dir ''m'' ''s'' @ [CAPTURED_START_FILE]) = None" by code_simp
  show "map_of (files demo_world) demo_shard = Some ''x''" by (simp add: demo_world_def)
  show "entries_of (session_shard_dir ''m'' ''s'') (files demo_world) = [(1, demo_shard)]"
    using demo_entries by (simp add: demo_dir_def)
qed

theorem generated_rows_describe_bodies_witness:
  "\<exists>rows w'. generate_manifest_at demo_menv ''m'' 0 demo_world = (Inr rows, w') \<and> map sm_session_id rows = [''s'']"
proof -
  have "\<exists>rows w'. generate_manifest_at demo_menv ''m'' 0 demo_world = (Inr rows, w')"
    using demo_stage_facts
    by (simp add: generate_manifest_at_def generate_session_def sealed_shard_entries_def io_map_err_def io_simps
        file_simps env.defs Let_def sort_entries_def read_captured_start_in_dir_def)
  then obtain rows w' where run: "generate_manifest_at demo_menv ''m'' 0 demo_world = (Inr rows, w')" by blast
  from generated_rows_describe_bodies [OF run] run demo_stage_facts show ?thesis by auto
qed

text \<open>A captured-start record that does not decode is not read as an unknown start: as long as one
  session with a body has such a record, no summary of the whole machine can be derived.\<close>

lemma damaged_start_blocks_summaries:
  assumes "s \<in> set (sessions_of machine (files w))"
    and "entries_of (session_shard_dir machine s) (files w) \<noteq> []"
    and "map_of (files w) (session_shard_dir machine s @ [CAPTURED_START_FILE]) = Some body"
    and "dec_start e body = None"
  shows "\<exists>x. fst (generate_manifest_at e machine t w) = Inl x"
proof (cases "generate_manifest_at e machine t w")
  case (Pair r w')
  have False if r: "r = Inr rows" for rows
  proof -
    from Pair r obtain u w1 rs where w1: "touch e (ReadFailed [SESSIONS_DIR, machine]) w = (Inr u, w1)"
      and rs: "io_traverse (generate_session e machine t) (sessions_of machine (files w1)) w1 = (Inr rs, w')"
      by (auto simp: generate_manifest_at_def io_bind_Inr io_return_Inr)
    have "files w1 = files w" using touch_files [OF w1] .
    then obtain r where "row_describes e machine (files w) s r"
      using list_all2_left [OF conjunct2 [OF generate_sessions_result [OF rs]], of s] assms(1) by auto
    with assms(2-4) show False by (simp add: row_describes_def carried_start_def)
  qed
  with Pair show ?thesis by (cases r) auto
qed

definition damaged_world :: world where
  "damaged_world = \<lparr>files = (demo_dir @ [CAPTURED_START_FILE], ''{'') # files demo_world, clock = 0\<rparr>"

lemma damaged_start_blocks_summaries_witness:
  "\<exists>x. fst (generate_manifest_at demo_menv ''m'' 0 damaged_world) = Inl x"
proof -
  have "''s'' \<in> set (sessions_of ''m'' (files damaged_world))" by code_simp
  moreover have "entries_of demo_dir (files damaged_world) \<noteq> []"
    using demo_entries by (simp add: damaged_world_def entries_of_Cons split: option.splits)
  moreover have "map_of (files damaged_world) (demo_dir @ [CAPTURED_START_FILE]) = Some ''{''"
    by (simp add: damaged_world_def)
  moreover have "dec_start demo_menv ''{'' = None" by (simp add: demo_menv_def env.defs)
  ultimately show ?thesis
    unfolding demo_dir_def by (rule damaged_start_blocks_summaries)
qed

section \<open>Comparison\<close>

lemma bt_ok_rows_map: "bt_ok (rows_map rows)"
  by (simp add: rows_map_def bt.wf_insert_all)

text \<open>Two manifests agree exactly if they name the same sessions with the same digest triples, the
  last row counting where a session is named twice; the seal time is not compared.\<close>

theorem compare_manifests_exact:
  "compare_manifests stored derived = Inr () \<longleftrightarrow>
   (\<forall>k. map_option triple (bt_get (rows_map stored) k) = map_option triple (bt_get (rows_map derived) k))"
proof -
  let ?s = "rows_map stored" and ?d = "rows_map derived"
  have items_all: "(\<forall>(k, r) \<in> set ?s. P k r) \<longleftrightarrow> (\<forall>k r. bt_get ?s k = Some r \<longrightarrow> P k r)"
    "(\<forall>(k, r) \<in> set ?d. P k r) \<longleftrightarrow> (\<forall>k r. bt_get ?d k = Some r \<longrightarrow> P k r)" for P
    using bt.items_look [OF bt_ok_rows_map] by fast+
  have find_none_all: "find (\<lambda>(k, r). P k r) xs = None \<longleftrightarrow> (\<forall>(k, r) \<in> set xs. \<not> P k r)"
    for P :: "string \<times> string \<Rightarrow> session_manifest \<Rightarrow> bool" and xs
    by (auto simp: find_None_iff)
  have "compare_manifests stored derived = Inr () \<longleftrightarrow>
      find (\<lambda>(k, _). bt_get ?d k = None) ?s = None \<and> find (\<lambda>(k, _). bt_get ?s k = None) ?d = None \<and>
      find (\<lambda>(k, r). map_option triple (bt_get ?d k) \<noteq> Some (triple r)) ?s = None"
    by (auto simp: compare_manifests_def Let_def split: option.splits)
  also have "\<dots> \<longleftrightarrow>
      (\<forall>k r. bt_get ?s k = Some r \<longrightarrow> bt_get ?d k \<noteq> None) \<and>
      (\<forall>k r. bt_get ?d k = Some r \<longrightarrow> bt_get ?s k \<noteq> None) \<and>
      (\<forall>k r. bt_get ?s k = Some r \<longrightarrow> map_option triple (bt_get ?d k) = Some (triple r))"
    by (simp add: find_none_all items_all del: not_None_eq)
  also have "\<dots> \<longleftrightarrow> (\<forall>k. map_option triple (bt_get ?s k) = map_option triple (bt_get ?d k))"
  proof -
    have "(\<forall>r. bt_get ?s k = Some r \<longrightarrow> bt_get ?d k \<noteq> None) \<and>
        (\<forall>r. bt_get ?d k = Some r \<longrightarrow> bt_get ?s k \<noteq> None) \<and>
        (\<forall>r. bt_get ?s k = Some r \<longrightarrow> map_option triple (bt_get ?d k) = Some (triple r)) \<longleftrightarrow>
        map_option triple (bt_get ?s k) = map_option triple (bt_get ?d k)" for k
      by (cases "bt_get ?s k"; cases "bt_get ?d k") auto
    then show ?thesis by blast
  qed
  finally show ?thesis .
qed

end
