(* ===== verification/State_Files.thy ===== *)
theory State_Files
  imports Ordered_Map Identity_Guard
begin

text \<open>
  The durable records beside the stage: \<open>pushstate.rs\<close> (last successful push per destination),
  \<open>reclaimstate.rs\<close> (the last reclaim attempt and the streak of blocked ones),
  \<open>mirrorstate.rs\<close> (what the local mirror has completely copied), and the health of a
  destination derived from the first (\<open>destdiag.rs\<close>). The JSON forms are parameters.
\<close>

section \<open>Reading and replacing a record file\<close>

datatype unreadable = ReadError | UnknownVersion nat | MalformedJson

datatype 'a state_read = StateMissing | StateUnreadable unreadable | StatePresent 'a

record 'a state_codec =
  put_state :: "'a \<Rightarrow> bytes option"
  get_state :: "bytes \<Rightarrow> 'a option"

datatype state_error = StateWrite | StateSerialise | StateFixture string

definition classify_state :: "'a state_codec \<Rightarrow> ('a \<Rightarrow> nat) \<Rightarrow> nat \<Rightarrow> bytes \<Rightarrow> 'a state_read" where
  "classify_state c version_of current raw =
     (case get_state c raw of
        Some st \<Rightarrow> if version_of st = current then StatePresent st
                   else StateUnreadable (UnknownVersion (version_of st))
      | None \<Rightarrow> StateUnreadable MalformedJson)"

definition load_state ::
  "('x schedule_scheme) \<Rightarrow> 'a state_codec \<Rightarrow> ('a \<Rightarrow> nat) \<Rightarrow> nat \<Rightarrow> path \<Rightarrow> (world, state_error, 'a state_read) io" where
  "load_state e c version_of current p w =
     (Inr (if fault e (clock w) then StateUnreadable ReadError
           else case map_of (files w) p of
               None \<Rightarrow> StateMissing
             | Some raw \<Rightarrow> classify_state c version_of current raw),
      w\<lparr>clock := Suc (clock w)\<rparr>)"

definition save_state ::
  "('x schedule_scheme) \<Rightarrow> 'a state_codec \<Rightarrow> path \<Rightarrow> path \<Rightarrow> 'a \<Rightarrow> (world, state_error, unit) io" where
  "save_state e c p tmp st =
     io_bind (touch e StateWrite) (\<lambda>_.
     case put_state c st of
       None \<Rightarrow> io_fail StateSerialise
     | Some raw \<Rightarrow>
         io_bind (write_synced e StateWrite tmp raw) (\<lambda>_.
         rename_file e StateWrite tmp p))"

section \<open>Last successful push per destination\<close>

definition PUSH_STATE_FILE :: string where "PUSH_STATE_FILE = ''push-state.json''"
definition PUSH_STATE_VERSION :: nat where "PUSH_STATE_VERSION = 1"

record push_record =
  pr_finished_at_unix :: nat
  pr_machine :: string
  pr_snapshots_in_repo :: nat

record push_state =
  ps_version :: nat
  ps_pushes :: "(string \<times> push_record) list"

definition push_state_default :: push_state where
  "push_state_default = \<lparr>ps_version = PUSH_STATE_VERSION, ps_pushes = []\<rparr>"

definition push_state_path :: "path \<Rightarrow> path" where
  "push_state_path dir = dir @ [PUSH_STATE_FILE]"

definition load_push_state ::
  "('x schedule_scheme) \<Rightarrow> push_state state_codec \<Rightarrow> path \<Rightarrow> (world, state_error, push_state state_read) io" where
  "load_push_state e c dir = load_state e c ps_version PUSH_STATE_VERSION (push_state_path dir)"

definition save_push_state ::
  "('x schedule_scheme) \<Rightarrow> push_state state_codec \<Rightarrow> path \<Rightarrow> push_state \<Rightarrow> (world, state_error, unit) io" where
  "save_push_state e c dir = save_state e c (push_state_path dir) (dir @ [''.'' @ PUSH_STATE_FILE @ ''.tmp''])"

definition with_push :: "string \<Rightarrow> push_record \<Rightarrow> push_state state_read \<Rightarrow> push_state" where
  "with_push destination rec old =
     (let st = (case old of StatePresent st \<Rightarrow> st | _ \<Rightarrow> push_state_default) in
      st\<lparr>ps_pushes := bt_insert destination rec (ps_pushes st)\<rparr>)"

definition record_success ::
  "('x schedule_scheme) \<Rightarrow> push_state state_codec \<Rightarrow> path \<Rightarrow> path \<Rightarrow> string \<Rightarrow> string \<Rightarrow> nat \<Rightarrow> nat \<Rightarrow>
     (world, state_error, unit) io" where
  "record_success e c temp dir destination machine snapshots finished_at =
     (case refuse_fixture_write temp [destination, machine] dir of
        Inl i \<Rightarrow> io_fail (StateFixture i)
      | Inr _ \<Rightarrow>
          io_bind (load_push_state e c dir) (\<lambda>old.
          save_push_state e c dir (with_push destination
            \<lparr>pr_finished_at_unix = finished_at, pr_machine = machine, pr_snapshots_in_repo = snapshots\<rparr> old)))"

section \<open>The last reclaim attempt\<close>

definition RECLAIM_STATE_FILE :: string where "RECLAIM_STATE_FILE = ''reclaim-state.json''"
definition RECLAIM_STATE_VERSION :: nat where "RECLAIM_STATE_VERSION = 2"

datatype reclaim_outcome = OutcomeOk | OutcomeBlocked | OutcomeRefused

fun outcome_slug :: "reclaim_outcome \<Rightarrow> string" where
  "outcome_slug OutcomeOk = ''ok''"
| "outcome_slug OutcomeBlocked = ''blocked''"
| "outcome_slug OutcomeRefused = ''refused''"

record reclaim_block =
  rb_destination :: string
  rb_kind :: string
  rb_error_kind :: "string option"
  rb_sessions :: nat
  rb_bytes :: nat

record reclaim_destination_health =
  rd_destination :: string
  rd_health :: string
  rd_role :: string

record reclaim_attempt =
  ra_version :: nat
  ra_finished_at_unix :: nat
  ra_apply :: bool
  ra_outcome :: reclaim_outcome
  ra_blocked :: "reclaim_block list"
  ra_destination_health :: "reclaim_destination_health list option"
  ra_consecutive_blocked :: nat
  ra_candidates :: "nat option"
  ra_candidate_bytes :: "nat option"

definition reclaim_state_path :: "path \<Rightarrow> path" where
  "reclaim_state_path dir = dir @ [RECLAIM_STATE_FILE]"

definition load_reclaim_state ::
  "('x schedule_scheme) \<Rightarrow> reclaim_attempt state_codec \<Rightarrow> path \<Rightarrow> (world, state_error, reclaim_attempt state_read) io" where
  "load_reclaim_state e c dir = load_state e c ra_version RECLAIM_STATE_VERSION (reclaim_state_path dir)"

definition save_reclaim_state ::
  "('x schedule_scheme) \<Rightarrow> reclaim_attempt state_codec \<Rightarrow> path \<Rightarrow> reclaim_attempt \<Rightarrow> (world, state_error, unit) io" where
  "save_reclaim_state e c dir =
     save_state e c (reclaim_state_path dir) (dir @ [''.'' @ RECLAIM_STATE_FILE @ ''.tmp''])"

definition u32_max :: nat where "u32_max = 2 ^ 32 - 1"

definition with_streak :: "reclaim_attempt \<Rightarrow> reclaim_attempt state_read \<Rightarrow> reclaim_attempt" where
  "with_streak attempt old =
     (let previous = (case old of
            StatePresent prev \<Rightarrow> if ra_version prev = RECLAIM_STATE_VERSION then Some (ra_consecutive_blocked prev) else None
          | _ \<Rightarrow> None) in
      attempt\<lparr>ra_consecutive_blocked :=
        (if ra_outcome attempt = OutcomeOk then 0
         else case previous of None \<Rightarrow> 1 | Some n \<Rightarrow> min u32_max (n + 1))\<rparr>)"

definition record_attempt ::
  "('x schedule_scheme) \<Rightarrow> reclaim_attempt state_codec \<Rightarrow> path \<Rightarrow> reclaim_attempt \<Rightarrow> (world, state_error, unit) io" where
  "record_attempt e c dir attempt =
     io_bind (load_reclaim_state e c dir) (\<lambda>old. save_reclaim_state e c dir (with_streak attempt old))"

section \<open>The mirror's completed rounds\<close>

definition MIRROR_STATE_FILE :: string where "MIRROR_STATE_FILE = ''mirror-state.json''"
definition MIRROR_STATE_VERSION :: nat where "MIRROR_STATE_VERSION = 1"

record mirror_state =
  ms_version :: nat
  ms_finished_at_unix :: nat
  ms_mirror_of :: string
  ms_closure_complete :: "string list"
  ms_snapshots_on_remote :: nat
  ms_remote_total_bytes :: nat

definition mirror_state_path :: "path \<Rightarrow> path" where
  "mirror_state_path dir = dir @ [MIRROR_STATE_FILE]"

definition load_mirror_state ::
  "('x schedule_scheme) \<Rightarrow> mirror_state state_codec \<Rightarrow> path \<Rightarrow> (world, state_error, mirror_state state_read) io" where
  "load_mirror_state e c dir = load_state e c ms_version MIRROR_STATE_VERSION (mirror_state_path dir)"

definition save_mirror_state ::
  "('x schedule_scheme) \<Rightarrow> mirror_state state_codec \<Rightarrow> path \<Rightarrow> mirror_state \<Rightarrow> (world, state_error, unit) io" where
  "save_mirror_state e c dir =
     save_state e c (mirror_state_path dir) (dir @ [''.'' @ MIRROR_STATE_FILE @ ''.tmp''])"

fun snapshot_covered :: "mirror_state state_read \<Rightarrow> string \<Rightarrow> string \<Rightarrow> bool" where
  "snapshot_covered (StatePresent st) expected snapshot_id \<longleftrightarrow>
     ms_mirror_of st = expected \<and> snapshot_id \<in> set (ms_closure_complete st)"
| "snapshot_covered StateMissing _ _ \<longleftrightarrow> False"
| "snapshot_covered (StateUnreadable _) _ _ \<longleftrightarrow> False"

section \<open>Destination health\<close>

datatype last_push = PushedAt nat nat | NoPushRecord | PushUnknown unreadable

datatype destination_health = Healthy | Lagging | NeverPushed | HealthUnknown unreadable

fun health_slug :: "destination_health \<Rightarrow> string" where
  "health_slug Healthy = ''healthy''"
| "health_slug Lagging = ''lagging''"
| "health_slug NeverPushed = ''never-pushed''"
| "health_slug (HealthUnknown _) = ''unknown''"

fun is_degraded :: "destination_health \<Rightarrow> bool" where
  "is_degraded Lagging = True"
| "is_degraded NeverPushed = True"
| "is_degraded _ = False"

definition proof_role_word :: "destination_health \<Rightarrow> string" where
  "proof_role_word h = (if is_degraded h then ''degraded-not-consulted'' else ''must-prove'')"

definition DEFAULT_DEGRADE_AFTER_DAYS :: nat where "DEFAULT_DEGRADE_AFTER_DAYS = 7"

definition effective_degrade_after_days :: "nat option \<Rightarrow> nat option \<Rightarrow> nat" where
  "effective_degrade_after_days global per_destination =
     (case per_destination of Some d \<Rightarrow> d
      | None \<Rightarrow> (case global of Some d \<Rightarrow> d | None \<Rightarrow> DEFAULT_DEGRADE_AFTER_DAYS))"

text \<open>Both arithmetic steps saturate at the ends of \<open>u64\<close>.\<close>

fun classify_destination_health :: "last_push \<Rightarrow> nat \<Rightarrow> nat \<Rightarrow> destination_health" where
  "classify_destination_health (PushedAt finished_at _) degrade_after_days now_unix =
     (let age = now_unix - finished_at; threshold = min u64_max (degrade_after_days * 86400) in
      if age \<le> threshold then Healthy else Lagging)"
| "classify_destination_health NoPushRecord _ _ = NeverPushed"
| "classify_destination_health (PushUnknown why) _ _ = HealthUnknown why"

fun last_push_of :: "push_state state_read \<Rightarrow> string \<Rightarrow> last_push" where
  "last_push_of (StatePresent st) name =
     (case bt_get (ps_pushes st) name of
        Some rec \<Rightarrow> PushedAt (pr_finished_at_unix rec) (pr_snapshots_in_repo rec)
      | None \<Rightarrow> NoPushRecord)"
| "last_push_of (StateUnreadable why) name = PushUnknown why"
| "last_push_of StateMissing name = NoPushRecord"

end
