(* ===== verification/State_Files_Spec.thy ===== *)
theory State_Files_Spec
  imports State_Files
begin

text \<open>
  What the record files promise. The contract they share is the locale \<open>durable_record\<close>:
  an update that reports success leaves exactly its revision of what was stored, one that
  fails leaves what was stored. Its client lemma gives the outcome of a whole history of
  updates, whichever of them fail; each record file interprets it.
\<close>

section \<open>The contract\<close>

text \<open>A history of updates, and those of them that succeeded.\<close>

fun run_log :: "('c \<Rightarrow> (world, 'e, unit) io) \<Rightarrow> 'c list \<Rightarrow> world \<Rightarrow> 'c list \<times> world" where
  "run_log u [] w = ([], w)"
| "run_log u (c # cs) w =
     (case u c w of
        (Inl _, w1) \<Rightarrow> run_log u cs w1
      | (Inr _, w1) \<Rightarrow> (case run_log u cs w1 of (did, w2) \<Rightarrow> (c # did, w2)))"

text \<open>Every update finds its record file readable.\<close>

fun undisturbed :: "(world \<Rightarrow> bool) \<Rightarrow> ('c \<Rightarrow> (world, 'e, unit) io) \<Rightarrow> 'c list \<Rightarrow> world \<Rightarrow> bool" where
  "undisturbed ok u [] w \<longleftrightarrow> True"
| "undisturbed ok u (c # cs) w \<longleftrightarrow> ok w \<and> undisturbed ok u cs (snd (u c w))"

locale durable_record =
  fixes lawful :: "'k \<Rightarrow> 'c \<Rightarrow> bool"
    and peek :: "'k \<Rightarrow> fs \<Rightarrow> 'a state_read"
    and ok_read :: "'k \<Rightarrow> world \<Rightarrow> bool"
    and update :: "'k \<Rightarrow> 'c \<Rightarrow> (world, 'e, unit) io"
    and revise :: "'c \<Rightarrow> 'a state_read \<Rightarrow> 'a"
  assumes update_succeeds: "lawful k c \<Longrightarrow> update k c w = (Inr u, w') \<Longrightarrow> ok_read k w \<Longrightarrow>
      peek k (files w') = StatePresent (revise c (peek k (files w)))"
    and update_fails: "update k c w = (Inl x, w') \<Longrightarrow> peek k (files w') = peek k (files w)"
begin

definition outcome :: "'c list \<Rightarrow> 'a state_read \<Rightarrow> 'a state_read" where
  "outcome = fold (\<lambda>c r. StatePresent (revise c r))"

lemma outcome_simps [simp]: "outcome [] r = r" "outcome (c # cs) r = outcome cs (StatePresent (revise c r))"
  "outcome (cs @ [c]) r = StatePresent (revise c (outcome cs r))"
  by (simp_all add: outcome_def)

lemma run_log_outcome:
  assumes "run_log (update k) cs w = (did, w')" and "undisturbed (ok_read k) (update k) cs w"
    and "\<forall>c \<in> set cs. lawful k c"
  shows "peek k (files w') = outcome did (peek k (files w)) \<and> set did \<subseteq> set cs"
  using assms
proof (induction cs arbitrary: w did)
  case (Cons c cs)
  show ?case
  proof (cases "update k c w")
    case (Pair r w1)
    show ?thesis
    proof (cases r)
      case (Inl x)
      with Cons Pair show ?thesis by (auto simp: update_fails [OF Pair [unfolded Inl]])
    next
      case (Inr u)
      with Cons.prems Pair obtain did' where "run_log (update k) cs w1 = (did', w')" "did = c # did'"
        by (auto split: prod.splits)
      moreover have "peek k (files w1) = StatePresent (revise c (peek k (files w)))"
        using update_succeeds [OF _ Pair [unfolded Inr]] Cons.prems by simp
      ultimately show ?thesis using Cons Pair by auto
    qed
  qed
qed simp

end

section \<open>Replacing a record file\<close>

definition peek_state :: "'a state_codec \<Rightarrow> ('a \<Rightarrow> nat) \<Rightarrow> nat \<Rightarrow> path \<Rightarrow> fs \<Rightarrow> 'a state_read" where
  "peek_state c version_of current p f =
     (case map_of f p of None \<Rightarrow> StateMissing | Some raw \<Rightarrow> classify_state c version_of current raw)"

definition codec_ok :: "'a state_codec \<Rightarrow> 'a \<Rightarrow> bool" where
  "codec_ok c st \<longleftrightarrow> (\<forall>raw. put_state c st = Some raw \<longrightarrow> get_state c raw = Some st)"

lemma valid_save_state:
  assumes "tmp \<noteq> p"
  shows "valid (on_files (\<lambda>f. map_of f p = old)) (save_state e c p tmp st)
    (\<lambda>_. on_files (\<lambda>f. \<exists>raw. put_state c st = Some raw \<and> map_of f p = Some raw))
    (\<lambda>_. on_files (\<lambda>f. map_of f p = old))"
proof -
  have s: "stable tmp (\<lambda>f. map_of f p = old)"
    using assms by (simp add: stable_def)
  show ?thesis
    unfolding save_state_def
    apply (rule valid_bind [OF valid_touch], assumption)
    apply (cases "put_state c st")
     apply (simp add: valid_fail)
    apply simp
    apply (rule valid_then [OF valid_write_synced [OF s]], assumption)
    apply (rule valid_rename)
     apply auto
    done
qed

lemma save_state_result:
  assumes "save_state e c p tmp st w = (r, w')" and "tmp \<noteq> p"
  shows "case r of
      Inr _ \<Rightarrow> codec_ok c st \<longrightarrow> version_of st = current \<longrightarrow> peek_state c version_of current p (files w') = StatePresent st
    | Inl _ \<Rightarrow> peek_state c version_of current p (files w') = peek_state c version_of current p (files w)"
  using validD [OF valid_save_state [OF assms(2), of "map_of (files w) p" e c st], of w] assms(1)
  by (auto simp: on_files_def peek_state_def codec_ok_def classify_state_def split: sum.splits)

lemma load_state_bind:
  "io_bind (load_state e c version_of current p) g w =
     g (if fault e (clock w) then StateUnreadable ReadError else peek_state c version_of current p (files w))
       (w\<lparr>clock := Suc (clock w)\<rparr>)"
  by (simp add: io_bind_def load_state_def peek_state_def)

lemma tmp_neq: "dir @ [''.'' @ name @ ''.tmp''] \<noteq> dir @ [name]"
  by (auto dest: arg_cong [where f = length])

text \<open>Where a record file lives, with the schedule of failing operations and its JSON form.\<close>

record 'a site = schedule +
  site_codec :: "'a state_codec"
  site_temp :: path
  site_dir :: path

section \<open>Push records\<close>

type_synonym push_cmd = "string \<times> push_record"

definition push_update :: "push_state site \<Rightarrow> push_cmd \<Rightarrow> (world, state_error, unit) io" where
  "push_update k c = record_success k (site_codec k) (site_temp k) (site_dir k) (fst c)
     (pr_machine (snd c)) (pr_snapshots_in_repo (snd c)) (pr_finished_at_unix (snd c))"

definition push_peek :: "push_state site \<Rightarrow> fs \<Rightarrow> push_state state_read" where
  "push_peek k = peek_state (site_codec k) ps_version PUSH_STATE_VERSION (push_state_path (site_dir k))"

definition site_reads :: "'a site \<Rightarrow> world \<Rightarrow> bool" where
  "site_reads k w \<longleftrightarrow> \<not> fault k (clock w)"

lemma version_with_push [simp]:
  "(\<And>st. old = StatePresent st \<Longrightarrow> ps_version st = PUSH_STATE_VERSION) \<Longrightarrow>
    ps_version (with_push d rec old) = PUSH_STATE_VERSION"
  by (auto simp: with_push_def push_state_default_def split: state_read.splits)

lemma peek_present_version:
  "peek_state c version_of current p f = StatePresent st \<Longrightarrow> version_of st = current"
  by (auto simp: peek_state_def classify_state_def split: option.splits if_splits)

lemma push_update_result:
  assumes "push_update k (d, rec) w = (r, w')"
  shows "case r of
      Inr _ \<Rightarrow> (\<forall>st. codec_ok (site_codec k) st) \<longrightarrow> push_peek k (files w') =
        StatePresent (with_push d rec (if site_reads k w then push_peek k (files w) else StateUnreadable ReadError))
    | Inl _ \<Rightarrow> push_peek k (files w') = push_peek k (files w)"
proof (cases "refuse_fixture_write (site_temp k) [d, pr_machine rec] (site_dir k)")
  case (Inl i)
  with assms show ?thesis by (auto simp: push_update_def record_success_def io_fail_def)
next
  case (Inr u)
  let ?seen = "if site_reads k w then push_peek k (files w) else StateUnreadable ReadError"
  from assms Inr have s: "save_push_state k (site_codec k) (site_dir k) (with_push d rec ?seen)
      (w\<lparr>clock := Suc (clock w)\<rparr>) = (r, w')"
    by (cases rec) (simp add: push_update_def record_success_def load_push_state_def load_state_bind
        push_peek_def site_reads_def split: if_splits)
  have v: "ps_version (with_push d rec ?seen) = PUSH_STATE_VERSION"
    by (rule version_with_push) (auto simp: push_peek_def dest: peek_present_version split: if_splits)
  from save_state_result [OF s [unfolded save_push_state_def push_state_path_def] tmp_neq,
      where version_of = ps_version and current = PUSH_STATE_VERSION] v
  show ?thesis by (auto simp: push_peek_def push_state_path_def split: sum.splits)
qed

interpretation push_file: durable_record "\<lambda>k _. \<forall>st. codec_ok (site_codec k) st" push_peek site_reads push_update
  "\<lambda>(d, rec). with_push d rec"
proof unfold_locales
  fix k :: "push_state site" and c :: push_cmd and w u w'
  assume "\<forall>st. codec_ok (site_codec k) st" "push_update k c w = (Inr u, w')" "site_reads k w"
  then show "push_peek k (files w') = StatePresent ((case c of (d, rec) \<Rightarrow> with_push d rec) (push_peek k (files w)))"
    using push_update_result [of k "fst c" "snd c" w] by (cases c) simp
next
  fix k :: "push_state site" and c :: push_cmd and w x w'
  assume "push_update k c w = (Inl x, w')"
  then show "push_peek k (files w') = push_peek k (files w)"
    using push_update_result [of k "fst c" "snd c" w] by (cases c) simp
qed

section \<open>Reclaim attempts\<close>

definition attempt_update :: "reclaim_attempt site \<Rightarrow> reclaim_attempt \<Rightarrow> (world, state_error, unit) io" where
  "attempt_update k = record_attempt k (site_codec k) (site_dir k)"

definition attempt_peek :: "reclaim_attempt site \<Rightarrow> fs \<Rightarrow> reclaim_attempt state_read" where
  "attempt_peek k = peek_state (site_codec k) ra_version RECLAIM_STATE_VERSION (reclaim_state_path (site_dir k))"

lemma version_with_streak [simp]: "ra_version (with_streak a old) = ra_version a"
  by (simp add: with_streak_def Let_def)

lemma streak_value:
  "ra_consecutive_blocked (with_streak a r) =
     (if ra_outcome a = OutcomeOk then 0
      else case r of
          StatePresent prev \<Rightarrow> if ra_version prev = RECLAIM_STATE_VERSION
            then min u32_max (ra_consecutive_blocked prev + 1) else 1
        | _ \<Rightarrow> 1)"
  by (simp add: with_streak_def Let_def split: state_read.splits)

lemma attempt_update_result:
  assumes "attempt_update k a w = (r, w')"
  shows "case r of
      Inr _ \<Rightarrow> (\<forall>st. codec_ok (site_codec k) st) \<longrightarrow> ra_version a = RECLAIM_STATE_VERSION \<longrightarrow> attempt_peek k (files w') =
        StatePresent (with_streak a (if site_reads k w then attempt_peek k (files w) else StateUnreadable ReadError))
    | Inl _ \<Rightarrow> attempt_peek k (files w') = attempt_peek k (files w)"
proof -
  let ?seen = "if site_reads k w then attempt_peek k (files w) else StateUnreadable ReadError"
  from assms have s: "save_reclaim_state k (site_codec k) (site_dir k) (with_streak a ?seen)
      (w\<lparr>clock := Suc (clock w)\<rparr>) = (r, w')"
    by (simp add: attempt_update_def record_attempt_def load_reclaim_state_def load_state_bind
        attempt_peek_def site_reads_def split: if_splits)
  from save_state_result [OF s [unfolded save_reclaim_state_def reclaim_state_path_def] tmp_neq,
      where version_of = ra_version and current = RECLAIM_STATE_VERSION]
  show ?thesis by (auto simp: attempt_peek_def reclaim_state_path_def split: sum.splits)
qed

interpretation attempt_file: durable_record
  "\<lambda>k a. (\<forall>st. codec_ok (site_codec k) st) \<and> ra_version a = RECLAIM_STATE_VERSION"
  attempt_peek site_reads attempt_update with_streak
proof unfold_locales
  fix k :: "reclaim_attempt site" and a w u w'
  assume "(\<forall>st. codec_ok (site_codec k) st) \<and> ra_version a = RECLAIM_STATE_VERSION"
    "attempt_update k a w = (Inr u, w')" "site_reads k w"
  then show "attempt_peek k (files w') = StatePresent (with_streak a (attempt_peek k (files w)))"
    using attempt_update_result [of k a w "Inr u"] by auto
next
  fix k :: "reclaim_attempt site" and a w x w'
  assume "attempt_update k a w = (Inl x, w')"
  then show "attempt_peek k (files w') = attempt_peek k (files w)"
    using attempt_update_result [of k a w] by simp
qed

section \<open>Properties\<close>

text \<open>What a reader makes of the rows after a history of recorded pushes.\<close>

definition rows_of :: "push_state state_read \<Rightarrow> (string \<times> push_record) list" where
  "rows_of r = (case r of StatePresent st \<Rightarrow> ps_pushes st | _ \<Rightarrow> [])"

lemma rows_of_revised: "rows_of (StatePresent (with_push d rec r)) = bt_insert d rec (rows_of r)"
  by (simp add: rows_of_def with_push_def push_state_default_def split: state_read.splits)

lemma rows_of_outcome: "rows_of (push_file.outcome cs r) = fold (\<lambda>(d, rec). bt_insert d rec) cs (rows_of r)"
  by (induction cs arbitrary: r) (auto simp: rows_of_revised)

text \<open>After any history of pushes, in which any of the file operations of a record may fail except
  the first read, the record of a destination is that of the last push to it whose recording
  succeeded, and what was there before when there was none: a failing or foreign push never
  moves a destination's row.\<close>

theorem push_record_last_success:
  assumes "run_log (push_update k) cmds w = (recorded, w')" and "undisturbed (site_reads k) (push_update k) cmds w"
    and "\<forall>st. codec_ok (site_codec k) st" and "bt_ok (rows_of (push_peek k (files w)))"
  shows "bt_get (rows_of (push_peek k (files w'))) d =
    (case map_of (rev recorded) d of
       Some rec \<Rightarrow> Some rec
     | None \<Rightarrow> bt_get (rows_of (push_peek k (files w))) d)"
proof -
  have "push_peek k (files w') = push_file.outcome recorded (push_peek k (files w))"
    using push_file.run_log_outcome [OF assms(1,2)] assms(3) by simp
  then have "rows_of (push_peek k (files w')) = bt.insert_all recorded (rows_of (push_peek k (files w)))"
    by (simp add: rows_of_outcome bt.insert_all_def)
  with bt.look_insert_all [OF assms(4)] show ?thesis by simp
qed

text \<open>The streak a record carries is the number of attempts in a row, up to the last recorded one, that
  did not end well, saturating at the largest 32-bit number; attempts whose record could not be
  written do not count.\<close>

theorem blocked_streak_counts:
  assumes "run_log (attempt_update k) cmds w = (recorded, w')" and "undisturbed (site_reads k) (attempt_update k) cmds w"
    and "\<forall>st. codec_ok (site_codec k) st" and "\<forall>a \<in> set cmds. ra_version a = RECLAIM_STATE_VERSION"
    and "attempt_peek k (files w) = StateMissing" and "recorded \<noteq> []"
  shows "\<exists>st. attempt_peek k (files w') = StatePresent st \<and>
    ra_consecutive_blocked st = min u32_max (length (takeWhile (\<lambda>a. ra_outcome a \<noteq> OutcomeOk) (rev recorded)))"
proof -
  have streak: "\<exists>st. attempt_file.outcome as StateMissing = StatePresent st \<and> ra_version st = RECLAIM_STATE_VERSION \<and>
      ra_consecutive_blocked st = min u32_max (length (takeWhile (\<lambda>a. ra_outcome a \<noteq> OutcomeOk) (rev as)))"
    if "as \<noteq> []" "\<forall>a \<in> set as. ra_version a = RECLAIM_STATE_VERSION" for as
    using that
  proof (induction as rule: rev_induct)
    case (snoc a as)
    show ?case
    proof (cases "as = []")
      case True
      with snoc.prems show ?thesis by (simp add: streak_value u32_max_def)
    next
      case False
      with snoc obtain st where "attempt_file.outcome as StateMissing = StatePresent st"
        "ra_version st = RECLAIM_STATE_VERSION"
        "ra_consecutive_blocked st = min u32_max (length (takeWhile (\<lambda>a. ra_outcome a \<noteq> OutcomeOk) (rev as)))"
        by auto
      with snoc.prems show ?thesis by (auto simp: streak_value)
    qed
  qed simp
  have "attempt_peek k (files w') = attempt_file.outcome recorded StateMissing" "set recorded \<subseteq> set cmds"
    using attempt_file.run_log_outcome [OF assms(1,2)] assms(3-5) by auto
  with streak [OF assms(6)] assms(4) show ?thesis by auto
qed

text \<open>A destination is excused from the proof exactly when there is positive knowledge of its lag: no
  record at all, a readable record without its row, or a row older than its allowance in days.
  A record file that exists and cannot be read never excuses a destination.\<close>

theorem excused_needs_readable_record:
  assumes "days * 86400 \<le> u64_max"
  shows "is_degraded (classify_destination_health (last_push_of read name) days now_unix) \<longleftrightarrow>
    read = StateMissing \<or>
    (\<exists>st. read = StatePresent st \<and>
       (case bt_get (ps_pushes st) name of
          None \<Rightarrow> True
        | Some rec \<Rightarrow> pr_finished_at_unix rec + days * 86400 < now_unix))"
  using assms by (cases read) (auto simp: Let_def split: option.splits)

text \<open>The record of a push forgets what it cannot read: when the file is damaged before a push to one
  destination is recorded, every other destination turns from one that must be consulted into
  an excused one.\<close>

theorem damaged_record_excuses_others:
  assumes "push_update k (d, rec) w = (Inr u, w')" and "\<forall>st. codec_ok (site_codec k) st"
    and "push_peek k (files w) = StateUnreadable why" and "name \<noteq> d"
  shows "\<not> is_degraded (classify_destination_health (last_push_of (push_peek k (files w)) name) days now_unix) \<and>
    is_degraded (classify_destination_health (last_push_of (push_peek k (files w')) name) days now_unix)"
proof -
  have "push_peek k (files w') = StatePresent (with_push d rec (StateUnreadable
      (if site_reads k w then why else ReadError)))"
    using push_update_result [OF assms(1)] assms(2,3) by (auto split: if_splits)
  then show ?thesis using assms(3,4) by (simp add: with_push_def push_state_default_def)
qed

section \<open>A concrete record file for the witnesses\<close>

text \<open>The codec of the witnesses knows one value.\<close>

definition one_codec :: "'a \<Rightarrow> 'a state_codec" where
  "one_codec x = \<lparr>put_state = (\<lambda>st. if st = x then Some ''x'' else None), get_state = (\<lambda>raw. if raw = ''x'' then Some x else None)\<rparr>"

lemma one_codec_ok [simp]: "codec_ok (one_codec x) st"
  by (simp add: codec_ok_def one_codec_def)

definition one_site :: "'a \<Rightarrow> 'a site" where
  "one_site x = \<lparr>fault = (\<lambda>_. False), torn = (\<lambda>_. 0), site_codec = one_codec x, site_temp = [''tmp''], site_dir = [''state'']\<rparr>"

lemma one_site_simps [simp]: "fault (one_site x) t = False" "site_codec (one_site x) = one_codec x"
  "site_temp (one_site x) = [''tmp'']" "site_dir (one_site x) = [''state'']" "site_reads (one_site x) w"
  by (simp_all add: one_site_def site_reads_def)

definition demo_push :: push_record where
  "demo_push = \<lparr>pr_finished_at_unix = 5, pr_machine = ''m'', pr_snapshots_in_repo = 1\<rparr>"

definition demo_pushes :: push_state where
  "demo_pushes = \<lparr>ps_version = PUSH_STATE_VERSION, ps_pushes = [(''d'', demo_push)]\<rparr>"

definition bare_world :: world where "bare_world = \<lparr>files = [], clock = 0\<rparr>"
definition damaged_state :: world where
  "damaged_state = \<lparr>files = [(push_state_path [''state''], ''?'')], clock = 0\<rparr>"

lemma demo_not_fixture: "refuse_fixture_write [''tmp''] [''d'', ''m''] [''state''] = Inr ()"
  by code_simp

lemma one_site_save:
  "\<exists>w'. save_state (one_site x) (one_codec x) p tmp x w = (Inr (), w')"
  by (simp add: save_state_def write_synced_def io_simps file_simps one_codec_def)

lemma demo_push_run:
  assumes "push_peek (one_site demo_pushes) (files w) \<in> {StateMissing, StateUnreadable MalformedJson}"
  shows "\<exists>w'. push_update (one_site demo_pushes) (''d'', demo_push) w = (Inr (), w')"
proof -
  have "with_push ''d'' demo_push (push_peek (one_site demo_pushes) (files w)) = demo_pushes"
    using assms by (auto simp: with_push_def push_state_default_def demo_pushes_def)
  then show ?thesis
    using one_site_save demo_not_fixture
    by (simp add: push_update_def record_success_def demo_push_def load_push_state_def load_state_bind
        push_peek_def save_push_state_def)
qed

lemma demo_peek: "push_peek (one_site demo_pushes) (files bare_world) = StateMissing"
  "push_peek (one_site demo_pushes) (files damaged_state) = StateUnreadable MalformedJson"
  by (simp_all add: push_peek_def peek_state_def bare_world_def damaged_state_def classify_state_def one_codec_def)

theorem push_record_last_success_witness:
  "\<exists>w'. run_log (push_update (one_site demo_pushes)) [(''d'', demo_push)] bare_world = ([(''d'', demo_push)], w') \<and>
     bt_get (rows_of (push_peek (one_site demo_pushes) (files w'))) ''d'' = Some demo_push"
proof -
  obtain w' where "push_update (one_site demo_pushes) (''d'', demo_push) bare_world = (Inr (), w')"
    using demo_push_run [of bare_world] demo_peek by auto
  then have "run_log (push_update (one_site demo_pushes)) [(''d'', demo_push)] bare_world = ([(''d'', demo_push)], w')"
    by simp
  from push_record_last_success [OF this, of "''d''"] this show ?thesis
    by (simp add: demo_peek rows_of_def)
qed

definition demo_attempt :: reclaim_attempt where
  "demo_attempt = \<lparr>ra_version = RECLAIM_STATE_VERSION, ra_finished_at_unix = 0, ra_apply = True, ra_outcome = OutcomeBlocked,
     ra_blocked = [], ra_destination_health = None, ra_consecutive_blocked = 1, ra_candidates = None, ra_candidate_bytes = None\<rparr>"

theorem blocked_streak_counts_witness:
  "\<exists>w' st. run_log (attempt_update (one_site demo_attempt)) [demo_attempt] bare_world = ([demo_attempt], w') \<and>
     attempt_peek (one_site demo_attempt) (files w') = StatePresent st \<and> ra_consecutive_blocked st = 1"
proof -
  have missing: "attempt_peek (one_site demo_attempt) (files bare_world) = StateMissing"
    by (simp add: attempt_peek_def peek_state_def bare_world_def)
  have "with_streak demo_attempt StateMissing = demo_attempt"
    by (simp add: with_streak_def demo_attempt_def)
  then have "\<exists>w'. attempt_update (one_site demo_attempt) demo_attempt bare_world = (Inr (), w')"
    using one_site_save missing
    by (simp add: attempt_update_def record_attempt_def load_reclaim_state_def load_state_bind save_reclaim_state_def
        attempt_peek_def)
  then obtain w' where "run_log (attempt_update (one_site demo_attempt)) [demo_attempt] bare_world = ([demo_attempt], w')"
    by auto
  from blocked_streak_counts [OF this] this missing show ?thesis
    by (simp add: demo_attempt_def u32_max_def)
qed

theorem excused_needs_readable_record_witness:
  "\<not> is_degraded (classify_destination_health (last_push_of (StateUnreadable ReadError) ''d'') 7 1000)"
  using excused_needs_readable_record [of 7 "StateUnreadable ReadError" "''d''" 1000]
  by (simp add: u64_max_def)

theorem damaged_record_excuses_others_witness:
  "\<exists>w'. push_update (one_site demo_pushes) (''d'', demo_push) damaged_state = (Inr (), w') \<and>
     is_degraded (classify_destination_health (last_push_of (push_peek (one_site demo_pushes) (files w')) ''other'') 7 0)"
proof -
  obtain w' where w': "push_update (one_site demo_pushes) (''d'', demo_push) damaged_state = (Inr (), w')"
    using demo_push_run [of damaged_state] demo_peek by auto
  from damaged_record_excuses_others [OF w' _ demo_peek(2), of "''other''"] w' show ?thesis by simp
qed

end
