(* ===== verification/Verify.thy ===== *)
theory Verify
  imports Manifest
begin

text \<open>
  The reconciliation level of \<open>verify.rs\<close>: the survey of the stage, the expected rows resolved
  from bodies and stored summaries, the verdict per session against what an archive holds, and
  the search for shards sealed twice. Reading the archive is a parameter.
\<close>

section \<open>Expected rows\<close>

datatype expectation_basis = DerivedFromStageBody | FromStoredManifest

fun basis_label :: "expectation_basis \<Rightarrow> string" where
  "basis_label DerivedFromStageBody = ''derived-from-stage''"
| "basis_label FromStoredManifest = ''stored-manifest''"

datatype unverifiable_reason =
    InvalidDigest
  | CorruptManifest manifest_error
  | MissingFromManifest
  | ManifestIsMissing

record session_expectation =
  se_machine :: string
  se_session_id :: string
  se_shard_count :: nat
  se_concat_bytes :: nat
  se_sha256 :: string
  se_basis :: expectation_basis
  se_unverifiable :: "unverifiable_reason option"

record surveyed_session =
  sv_expectation :: session_expectation
  sv_sequences :: "nat list"

definition body_expectation :: "('x env_scheme) \<Rightarrow> string \<Rightarrow> string \<Rightarrow> nat \<Rightarrow> bytes \<Rightarrow> session_expectation" where
  "body_expectation e machine session_id shards body =
     \<lparr>se_machine = machine, se_session_id = session_id, se_shard_count = shards, se_concat_bytes = length body,
      se_sha256 = hex (sha256 e body), se_basis = DerivedFromStageBody, se_unverifiable = None\<rparr>"

text \<open>\<open>Path::is_dir\<close> and \<open>Path::exists\<close> of a directory: false when the question itself fails.\<close>

definition dir_exists :: "path \<Rightarrow> fs \<Rightarrow> bool" where
  "dir_exists d f \<longleftrightarrow> list_ex (\<lambda>(p, _). take (length d) p = d \<and> length d < length p) f"

definition is_dir :: "('x schedule_scheme) \<Rightarrow> path \<Rightarrow> (world, 'e, bool) io" where
  "is_dir e d w = (Inr (\<not> fault e (clock w) \<and> dir_exists d (files w)), w\<lparr>clock := Suc (clock w)\<rparr>)"

definition survey_session :: "menv \<Rightarrow> string \<Rightarrow> string \<Rightarrow> (world, manifest_error, surveyed_session) io" where
  "survey_session e machine session_id =
     io_bind (io_map_err StageFailed (sealed_shard_entries (base e) (session_shard_dir machine session_id))) (\<lambda>es.
     let shards = sort_entries es in
     io_bind (io_traverse (\<lambda>(seq, p). io_bind (read_file e (ReadFailed p) p) (\<lambda>c. io_return (seq, c))) shards) (\<lambda>cs.
     io_return
       \<lparr>sv_expectation = body_expectation e machine session_id (length shards) (concat (map snd cs)),
        sv_sequences = map fst cs\<rparr>))"

definition survey_machine :: "menv \<Rightarrow> string \<Rightarrow> (world, manifest_error, surveyed_session list) io" where
  "survey_machine e machine =
     io_bind (touch e (ReadFailed [SESSIONS_DIR, machine])) (\<lambda>_ w.
     io_traverse (survey_session e machine) (sessions_of machine (files w)) w)"

definition expected_manifest_surveyed :: "menv \<Rightarrow> (world, manifest_error, surveyed_session list) io" where
  "expected_manifest_surveyed e =
     io_bind (is_dir e [SESSIONS_DIR]) (\<lambda>there.
     if \<not> there then io_return []
     else io_bind (touch e (ReadFailed [SESSIONS_DIR])) (\<lambda>_ w.
          io_bind (io_traverse (survey_machine e) (subdirs_of SESSIONS_DIR (files w))) (\<lambda>found.
          io_return (sort_key (\<lambda>sv. (se_machine (sv_expectation sv), se_session_id (sv_expectation sv))) (concat found))) w))"

definition expected_manifest :: "menv \<Rightarrow> (world, manifest_error, session_expectation list) io" where
  "expected_manifest e = io_bind (expected_manifest_surveyed e) (\<lambda>svs. io_return (map sv_expectation svs))"

section \<open>Resolving the baseline\<close>

type_synonym expectations = "((string \<times> string) \<times> session_expectation) list"

datatype baseline_error = NoBaseline | BaselineRead manifest_error

definition CORRUPT_MARKER :: string where "CORRUPT_MARKER = ''<corrupt-manifest>''"

definition stored_expectation :: "string \<Rightarrow> session_manifest \<Rightarrow> session_expectation" where
  "stored_expectation machine row =
     \<lparr>se_machine = machine, se_session_id = sm_session_id row, se_shard_count = sm_shard_count row,
      se_concat_bytes = sm_concat_bytes row, se_sha256 = sm_concat_sha256 row, se_basis = FromStoredManifest,
      se_unverifiable =
        (if length (sm_concat_sha256 row) \<noteq> 64 \<or> \<not> list_all is_hexdigit (sm_concat_sha256 row)
         then Some InvalidDigest else None)\<rparr>"

definition unknown_expectation :: "string \<Rightarrow> string \<Rightarrow> unverifiable_reason option \<Rightarrow> session_expectation" where
  "unknown_expectation machine session_id reason =
     \<lparr>se_machine = machine, se_session_id = session_id, se_shard_count = 0, se_concat_bytes = 0, se_sha256 = [],
      se_basis = FromStoredManifest, se_unverifiable = reason\<rparr>"

definition add_stored :: "string \<Rightarrow> manifest_error + manifest_state \<Rightarrow> expectations \<Rightarrow> expectations" where
  "add_stored machine st m =
     (case st of
        Inr (Loaded rows) \<Rightarrow>
          fold (\<lambda>row. bt_insert (machine, sm_session_id row) (stored_expectation machine row)) rows m
      | Inr Empty \<Rightarrow> m
      | Inr Missing \<Rightarrow> m
      | Inl x \<Rightarrow> bt_insert (machine, CORRUPT_MARKER)
          (unknown_expectation machine CORRUPT_MARKER (Some (CorruptManifest x))) m)"

fun stored_baseline :: "menv \<Rightarrow> string list \<Rightarrow> expectations \<Rightarrow> (world, baseline_error, expectations) io" where
  "stored_baseline e [] m w = (Inr m, w)"
| "stored_baseline e (machine # ms) m w =
     (case read_manifest e machine w of (st, w1) \<Rightarrow> stored_baseline e ms (add_stored machine st m) w1)"

text \<open>A session without a body: the stored row, or the reason why there is none.\<close>

definition add_reclaimed :: "string list \<Rightarrow> string \<Rightarrow> string \<Rightarrow> expectations \<Rightarrow> expectations" where
  "add_reclaimed manifest_machines machine session_id m =
     (case bt_get m (machine, CORRUPT_MARKER) of
        Some corrupt \<Rightarrow>
          bt_insert (machine, session_id) (unknown_expectation machine session_id (se_unverifiable corrupt))
            (bt_remove (machine, CORRUPT_MARKER) m)
      | None \<Rightarrow>
          if bt_get m (machine, session_id) \<noteq> None then m
          else bt_insert (machine, session_id)
            (unknown_expectation machine session_id
              (Some (if machine \<in> set manifest_machines then MissingFromManifest else ManifestIsMissing))) m)"

definition add_session :: "menv \<Rightarrow> string list \<Rightarrow> string \<Rightarrow> string \<Rightarrow> expectations \<Rightarrow> (world, baseline_error, expectations) io" where
  "add_session e manifest_machines machine session_id m =
     io_bind (io_map_err (BaselineRead \<circ> StageFailed)
       (sealed_shard_entries (base e) (session_shard_dir machine session_id))) (\<lambda>es.
     if es \<noteq> []
     then io_bind (io_map_err (BaselineRead \<circ> StageFailed)
            (concat_shards_in_dir (base e) (session_shard_dir machine session_id))) (\<lambda>body.
          io_return (bt_insert (machine, session_id) (body_expectation e machine session_id (length es) body) m))
     else io_return (add_reclaimed manifest_machines machine session_id m))"

fun add_sessions :: "menv \<Rightarrow> string list \<Rightarrow> string \<Rightarrow> string list \<Rightarrow> expectations \<Rightarrow> (world, baseline_error, expectations) io" where
  "add_sessions e mm machine [] m = io_return m"
| "add_sessions e mm machine (s # ss) m =
     io_bind (add_session e mm machine s m) (\<lambda>m1. add_sessions e mm machine ss m1)"

fun body_baseline :: "menv \<Rightarrow> string list \<Rightarrow> string list \<Rightarrow> expectations \<Rightarrow> (world, baseline_error, expectations) io" where
  "body_baseline e mm [] m = io_return m"
| "body_baseline e mm (machine # ms) m =
     io_bind (touch e (BaselineRead (ReadFailed [SESSIONS_DIR, machine]))) (\<lambda>_ w.
     io_bind (add_sessions e mm machine (sessions_of machine (files w)) m) (\<lambda>m1. body_baseline e mm ms m1) w)"

text \<open>
  \<open>load_expected_manifest\<close>. A summary directory that cannot be listed is passed over without an
  error, as in the code.
\<close>

definition list_metas :: "menv \<Rightarrow> (world, baseline_error, string list) io" where
  "list_metas e =
     io_bind (is_dir e [META_DIR]) (\<lambda>there.
     if \<not> there then io_return []
     else (\<lambda>w. (Inr (if fault e (clock w) then [] else subdirs_of META_DIR (files w)), w\<lparr>clock := Suc (clock w)\<rparr>)))"

definition load_bodies :: "menv \<Rightarrow> string list \<Rightarrow> expectations \<Rightarrow> (world, baseline_error, expectations) io" where
  "load_bodies e metas m =
     io_bind (is_dir e [SESSIONS_DIR]) (\<lambda>there.
     if \<not> there then io_return m
     else io_bind (touch e (BaselineRead (ReadFailed [SESSIONS_DIR]))) (\<lambda>_ w.
          body_baseline e metas (subdirs_of SESSIONS_DIR (files w)) m w))"

definition load_expected_manifest :: "menv \<Rightarrow> (world, baseline_error, session_expectation list) io" where
  "load_expected_manifest e =
     io_bind (is_dir e [SESSIONS_DIR]) (\<lambda>bodies.
     io_bind (if bodies then io_return True else is_dir e [META_DIR]) (\<lambda>any.
     if \<not> any then io_fail NoBaseline
     else io_bind (list_metas e) (\<lambda>metas.
          io_bind (stored_baseline e metas []) (\<lambda>stored.
          io_bind (load_bodies e metas stored) (\<lambda>m.
          if m = [] then io_fail NoBaseline else io_return (map snd m))))))"

section \<open>Shards sealed twice\<close>

record session_backed_up =
  sb_machine :: string
  sb_session_id :: string
  sb_shard_count :: nat
  sb_concat_bytes :: nat
  sb_sha256 :: string
  sb_shard_sha256 :: "string list"
  sb_shard_sequences :: "nat option list"
  sb_shard_bytes :: "nat list"
  sb_run_duplicates :: "(nat \<times> nat) list"
  sb_folded_indices :: "nat list"

record duplicate_seal =
  ds_machine :: string
  ds_session_id :: string
  ds_first :: nat
  ds_second :: nat
  ds_repeated :: "nat option"
  ds_prior_run :: "(nat \<times> nat) option"

definition same_shard :: "session_backed_up \<Rightarrow> nat \<Rightarrow> nat \<Rightarrow> bool" where
  "same_shard s i j \<longleftrightarrow> sb_shard_bytes s ! i = sb_shard_bytes s ! j \<and> sb_shard_sha256 s ! i = sb_shard_sha256 s ! j"

definition repeated_run :: "session_backed_up \<Rightarrow> nat \<Rightarrow> bool" where
  "repeated_run s run \<longleftrightarrow> list_all (\<lambda>i. same_shard s i (run + i)) [0..<run]"

definition seal_of :: "session_backed_up \<Rightarrow> nat \<Rightarrow> nat \<Rightarrow> nat option \<Rightarrow> (nat \<times> nat) option \<Rightarrow> duplicate_seal" where
  "seal_of s i j rep prior =
     \<lparr>ds_machine = sb_machine s, ds_session_id = sb_session_id s, ds_first = i, ds_second = j,
      ds_repeated = rep, ds_prior_run = prior\<rparr>"

definition find_duplicate_seal :: "session_backed_up \<Rightarrow> duplicate_seal option" where
  "find_duplicate_seal s =
     (let n = length (sb_shard_sha256 s) in
      if n \<noteq> length (sb_shard_bytes s) \<or> n < 2 then None
      else case find (repeated_run s) [1..<Suc (n div 2)] of
          Some run \<Rightarrow> Some (seal_of s 0 run (Some run) None)
        | None \<Rightarrow>
      (case find (\<lambda>(i, j). same_shard s i j) (concat (map (\<lambda>j. map (\<lambda>i. (i, j)) [0..<j]) [1..<n])) of
          Some (i, j) \<Rightarrow> Some (seal_of s i j None None)
        | None \<Rightarrow>
      (case sb_run_duplicates s of
          (start, shard) # _ \<Rightarrow> Some (seal_of s start shard None (Some (start, shard)))
        | [] \<Rightarrow> None)))"

section \<open>The verdicts\<close>

datatype session_outcome =
    Matches
  | MissingInArchive
  | AbsentFromMirrorCopy
  | ShardCountMismatch nat nat
  | ByteLengthMismatch nat nat
  | ShaMismatch string string
  | Unverifiable unverifiable_reason

record reconcile_row =
  rr_machine :: string
  rr_session_id :: string
  rr_outcome :: session_outcome
  rr_observed_shards :: nat
  rr_observed_bytes :: nat
  rr_observed_sha :: string
  rr_basis :: expectation_basis

record reconcile_report =
  rp_machines :: nat
  rp_rows :: "reconcile_row list"
  rp_extra :: "(string \<times> string) list"
  rp_duplicates :: "duplicate_seal list"

type_synonym observations = "((string \<times> string) \<times> session_backed_up) list"

definition expected_key :: "session_expectation \<Rightarrow> string \<times> string" where
  "expected_key x = (se_machine x, se_session_id x)"

definition wanted :: "session_expectation list \<Rightarrow> (string \<times> string) list" where
  "wanted expected = map expected_key (filter (\<lambda>x. se_unverifiable x = None) expected)"

definition observe :: "session_backed_up list \<Rightarrow> observations" where
  "observe found = fold (\<lambda>s. bt_insert (sb_machine s, sb_session_id s) s) found []"

definition verdict :: "bool \<Rightarrow> session_expectation \<Rightarrow> session_backed_up option \<Rightarrow> session_outcome" where
  "verdict offline x obs =
     (case se_unverifiable x of
        Some reason \<Rightarrow> Unverifiable reason
      | None \<Rightarrow>
     (case obs of
        None \<Rightarrow> if offline then AbsentFromMirrorCopy else MissingInArchive
      | Some s \<Rightarrow>
          if sb_shard_count s \<noteq> se_shard_count x then ShardCountMismatch (se_shard_count x) (sb_shard_count s)
          else if sb_concat_bytes s \<noteq> se_concat_bytes x then ByteLengthMismatch (se_concat_bytes x) (sb_concat_bytes s)
          else if sb_sha256 s \<noteq> se_sha256 x then ShaMismatch (se_sha256 x) (sb_sha256 s)
          else Matches))"

definition reconcile_row_of :: "bool \<Rightarrow> observations \<Rightarrow> session_expectation \<Rightarrow> reconcile_row" where
  "reconcile_row_of offline obs x =
     (let seen = bt_get obs (expected_key x) in
      \<lparr>rr_machine = se_machine x, rr_session_id = se_session_id x, rr_outcome = verdict offline x seen,
       rr_observed_shards = (case seen of None \<Rightarrow> 0 | Some s \<Rightarrow> sb_shard_count s),
       rr_observed_bytes = (case seen of None \<Rightarrow> 0 | Some s \<Rightarrow> sb_concat_bytes s),
       rr_observed_sha = (case seen of None \<Rightarrow> [] | Some s \<Rightarrow> sb_sha256 s),
       rr_basis = se_basis x\<rparr>)"

definition reconcile_report_of :: "bool \<Rightarrow> session_expectation list \<Rightarrow> session_backed_up list \<Rightarrow> reconcile_report" where
  "reconcile_report_of offline expected found =
     (let obs = observe found in
      \<lparr>rp_machines = length (remdups (map se_machine expected @ map (fst \<circ> fst) obs)),
       rp_rows = map (reconcile_row_of offline obs) expected,
       rp_extra = filter (\<lambda>k. k \<notin> set (map expected_key expected)) (map fst obs),
       rp_duplicates = List.map_filter (find_duplicate_seal \<circ> snd) obs\<rparr>)"

text \<open>The archive is asked for the verifiable sessions; its answer is the argument \<open>ask\<close>.\<close>

definition reconcile_manifest ::
  "menv \<Rightarrow> bool \<Rightarrow> ((string \<times> string) list \<Rightarrow> session_backed_up list option) \<Rightarrow> (world, baseline_error option, reconcile_report) io" where
  "reconcile_manifest e offline ask =
     io_bind (io_map_err Some (load_expected_manifest e)) (\<lambda>expected.
     case ask (wanted expected) of
       None \<Rightarrow> io_fail None
     | Some found \<Rightarrow> io_return (reconcile_report_of offline expected found))"

definition report_ok :: "reconcile_report \<Rightarrow> bool" where
  "report_ok rp \<longleftrightarrow> list_all (\<lambda>r. rr_outcome r = Matches) (rp_rows rp)"

fun is_failure :: "session_outcome \<Rightarrow> bool" where
  "is_failure MissingInArchive = True"
| "is_failure (ShardCountMismatch _ _) = True"
| "is_failure (ByteLengthMismatch _ _) = True"
| "is_failure (ShaMismatch _ _) = True"
| "is_failure _ = False"

definition count_rows :: "(session_outcome \<Rightarrow> bool) \<Rightarrow> reconcile_report \<Rightarrow> nat" where
  "count_rows P rp = length (filter (P \<circ> rr_outcome) (rp_rows rp))"

definition failed :: "reconcile_report \<Rightarrow> nat" where "failed = count_rows is_failure"
definition absent_from_mirror_copy :: "reconcile_report \<Rightarrow> nat" where
  "absent_from_mirror_copy = count_rows (\<lambda>x. x = AbsentFromMirrorCopy)"
definition unverifiable :: "reconcile_report \<Rightarrow> nat" where
  "unverifiable = count_rows (\<lambda>x. case x of Unverifiable _ \<Rightarrow> True | _ \<Rightarrow> False)"
definition matched :: "reconcile_report \<Rightarrow> nat" where "matched = count_rows (\<lambda>x. x = Matches)"
definition stored_basis_rows :: "reconcile_report \<Rightarrow> nat" where
  "stored_basis_rows rp = length (filter (\<lambda>r. rr_basis r = FromStoredManifest) (rp_rows rp))"

end
