(* ===== verification/Verify_Spec.thy ===== *)
theory Verify_Spec
  imports Verify Manifest_Spec
begin

text \<open>
  What the reconciliation means: the survey describes exactly the bodies in the stage, the
  baseline covers every session, a clean report says that the archive holds every expected
  body, and the search for repeated shards finds one exactly if there is one.
\<close>

section \<open>The survey\<close>

lemma is_dir_result [simp]: "is_dir e d w = (Inr b, w') \<longleftrightarrow>
    b = (\<not> fault e (clock w) \<and> dir_exists d (files w)) \<and> w' = w\<lparr>clock := Suc (clock w)\<rparr>"
  by (auto simp: is_dir_def)

lemma entries_result:
  assumes "io_map_err g (sealed_shard_entries (base e) dir) w = (Inr es, w')"
  shows "files w' = files w \<and> es = entries_of dir (files w)"
proof -
  obtain u w0 where "touch (base e) IoError w = (Inr u, w0)" "es = entries_of dir (files w0)" "w' = w0"
    using assms by (auto simp: io_map_err_Inr sealed_shard_entries_def io_bind_Inr)
  with touch_files [of "base e" IoError w] show ?thesis by simp
qed

text \<open>What a surveyed session says of the files it was taken from.\<close>

definition surveyed :: "('x env_scheme) \<Rightarrow> string \<Rightarrow> string \<Rightarrow> fs \<Rightarrow> surveyed_session" where
  "surveyed e machine s f =
     (let dir = session_shard_dir machine s in
      \<lparr>sv_expectation = body_expectation e machine s (length (entries_of dir f)) (session_body dir f),
       sv_sequences = map fst (sort_entries (entries_of dir f))\<rparr>)"

lemma survey_session_result:
  assumes "survey_session e machine s w = (Inr sv, w')"
  shows "files w' = files w \<and> sv = surveyed e machine s (files w)"
proof -
  let ?dir = "session_shard_dir machine s"
  from assms obtain es w1 cs where es: "io_map_err StageFailed (sealed_shard_entries (base e) ?dir) w = (Inr es, w1)"
    and cs: "io_traverse (\<lambda>(seq, p). io_bind (read_file e (ReadFailed p) p) (\<lambda>c. io_return (seq, c))) (sort_entries es) w1 = (Inr cs, w')"
    and sv: "sv = \<lparr>sv_expectation = body_expectation e machine s (length (sort_entries es)) (concat (map snd cs)),
        sv_sequences = map fst cs\<rparr>"
    unfolding survey_session_def Let_def by (auto simp: io_bind_Inr io_return_Inr)
  note es = entries_result [OF es]
  with read_shards [OF cs] sv show ?thesis
    by (simp add: surveyed_def Let_def session_body_def comp_def case_prod_beta' sort_entries_def)
qed

lemma traverse_keeps_files:
  assumes "\<And>x w r w'. x \<in> set xs \<Longrightarrow> f x w = (Inr r, w') \<Longrightarrow> files w' = files w \<and> R (files w) x r"
    and "io_traverse f xs w = (Inr rs, w')"
  shows "files w' = files w \<and> list_all2 (R (files w)) xs rs"
  using assms
proof (induction xs arbitrary: w rs)
  case (Cons x xs)
  then obtain r rs' w1 where x: "f x w = (Inr r, w1)" and xs: "io_traverse f xs w1 = (Inr rs', w')" and rs: "rs = r # rs'"
    by (auto simp: io_bind_Inr io_return_Inr)
  from Cons.prems(1) [OF _ x] have "files w1 = files w" "R (files w) x r" by simp_all
  with Cons.IH [OF _ xs] Cons.prems(1) rs show ?case by auto
qed (simp add: io_return_Inr)

lemma survey_machine_result:
  assumes "survey_machine e machine w = (Inr svs, w')"
  shows "files w' = files w \<and> svs = map (\<lambda>s. surveyed e machine s (files w)) (sessions_of machine (files w))"
proof -
  from assms obtain u w1 where w1: "touch e (ReadFailed [SESSIONS_DIR, machine]) w = (Inr u, w1)"
    and t: "io_traverse (survey_session e machine) (sessions_of machine (files w1)) w1 = (Inr svs, w')"
    by (auto simp: survey_machine_def io_bind_Inr)
  have "files w1 = files w" using touch_files [OF w1] .
  with traverse_keeps_files [OF _ t, where R = "\<lambda>f s sv. sv = surveyed e machine s f"] survey_session_result
  show ?thesis by (simp add: list_all2_eq [symmetric] list_all2_map1 list_all2_conv_all_nth list_eq_iff_nth_eq)
qed

text \<open>All sessions of the stage, in the order of the listing.\<close>

definition stage_sessions :: "fs \<Rightarrow> (string \<times> string) list" where
  "stage_sessions f = concat (map (\<lambda>m. map (Pair m) (sessions_of m f)) (subdirs_of SESSIONS_DIR f))"

lemma distinct_pairs: "distinct xs \<Longrightarrow> (\<And>x. distinct (f x)) \<Longrightarrow> distinct (concat (map (\<lambda>x. map (Pair x) (f x)) xs))"
  by (induction xs) (auto simp: distinct_map inj_on_def)

lemma distinct_subdirs: "distinct (subdirs_of root f)"
  by (simp add: subdirs_of_def)

lemma distinct_stage_sessions: "distinct (stage_sessions f)"
  unfolding stage_sessions_def
  by (rule distinct_pairs) (simp_all add: subdirs_of_def sessions_of_def)

lemma stage_sessions_iff: "(m, s) \<in> set (stage_sessions f) \<longleftrightarrow> m \<in> set (subdirs_of SESSIONS_DIR f) \<and> s \<in> set (sessions_of m f)"
  by (auto simp: stage_sessions_def)

lemma sessions_of_iff: "s \<in> set (sessions_of m f) \<longleftrightarrow> (\<exists>x r c. (SESSIONS_DIR # m # s # x # r, c) \<in> set f)"
proof
  assume "s \<in> set (sessions_of m f)"
  then obtain p c where "(p, c) \<in> set f"
    "(case p of root # m' # s # _ # _ \<Rightarrow> if root = SESSIONS_DIR \<and> m' = m then Some s else None | _ \<Rightarrow> None) = Some s"
    by (auto simp: sessions_of_def set_map_filter)
  then show "\<exists>x r c. (SESSIONS_DIR # m # s # x # r, c) \<in> set f"
    by (auto split: list.splits if_splits)
qed (force simp: sessions_of_def set_map_filter)

lemma subdirs_of_iff: "m \<in> set (subdirs_of root f) \<longleftrightarrow> (\<exists>x r c. (root # m # x # r, c) \<in> set f)"
proof
  assume "m \<in> set (subdirs_of root f)"
  then obtain p c where "(p, c) \<in> set f"
    "(case p of r # m # _ # _ \<Rightarrow> if r = root then Some m else None | _ \<Rightarrow> None) = Some m"
    by (auto simp: subdirs_of_def set_map_filter)
  then show "\<exists>x r c. (root # m # x # r, c) \<in> set f"
    by (auto split: list.splits if_splits)
qed (force simp: subdirs_of_def set_map_filter)

lemma session_has_machine: "s \<in> set (sessions_of m f) \<Longrightarrow> m \<in> set (subdirs_of SESSIONS_DIR f)"
  by (auto simp: sessions_of_iff subdirs_of_iff)

lemma survey_result:
  assumes "expected_manifest_surveyed e w = (Inr svs, w')"
  shows "files w' = files w \<and>
    (svs = [] \<or> svs = sort_key (expected_key \<circ> sv_expectation)
       (map (\<lambda>(m, s). surveyed e m s (files w)) (stage_sessions (files w))))"
proof (cases "fst (is_dir e [SESSIONS_DIR] w) = (Inr False :: manifest_error + bool)")
  case True
  with assms show ?thesis by (auto simp: expected_manifest_surveyed_def io_bind_def is_dir_def io_return_def)
next
  case False
  let ?key = "\<lambda>sv. (se_machine (sv_expectation sv), se_session_id (sv_expectation sv))"
  from False assms obtain u w1 found where
    t: "touch e (ReadFailed [SESSIONS_DIR]) (w\<lparr>clock := Suc (clock w)\<rparr>) = (Inr u, w1)"
    and f: "io_traverse (survey_machine e) (subdirs_of SESSIONS_DIR (files w1)) w1 = (Inr found, w')"
    and svs: "svs = sort_key ?key (concat found)"
    by (auto simp: expected_manifest_surveyed_def io_bind_Inr io_return_Inr is_dir_def split: if_splits)
  have f1: "files w1 = files w" using touch_files [OF t] by simp
  from traverse_keeps_files [OF _ f, where R = "\<lambda>f m svs. svs = map (\<lambda>s. surveyed e m s f) (sessions_of m f)"]
    survey_machine_result
  have "files w' = files w1" "found = map (\<lambda>m. map (\<lambda>s. surveyed e m s (files w)) (sessions_of m (files w)))
      (subdirs_of SESSIONS_DIR (files w))"
    by (simp_all add: list_all2_conv_all_nth list_eq_iff_nth_eq f1)
  moreover have key: "?key = expected_key \<circ> sv_expectation" by (auto simp: expected_key_def)
  have "svs = sort_key (expected_key \<circ> sv_expectation) (concat found)"
    by (simp only: svs key)
  ultimately show ?thesis
    by (simp add: f1 stage_sessions_def map_concat comp_def)
qed

lemma surveyed_key [simp]: "expected_key (sv_expectation (surveyed e m s f)) = (m, s)"
  by (simp add: surveyed_def Let_def expected_key_def body_expectation_def)

lemma survey_mem:
  assumes "expected_manifest_surveyed e w = (Inr svs, w')" and "sv \<in> set svs"
  shows "\<exists>m s. s \<in> set (sessions_of m (files w)) \<and> sv = surveyed e m s (files w)"
proof -
  from survey_result [OF assms(1)] assms(2) have
    "sv \<in> set (map (\<lambda>(m, s). surveyed e m s (files w)) (stage_sessions (files w)))" by auto
  then show ?thesis by (auto simp: stage_sessions_iff) blast
qed

lemma survey_distinct:
  assumes "expected_manifest_surveyed e w = (Inr svs, w')"
  shows "distinct (map (expected_key \<circ> sv_expectation) svs)"
proof -
  let ?ys = "map (\<lambda>(m, s). surveyed e m s (files w)) (stage_sessions (files w))"
  have "distinct (map (expected_key \<circ> sv_expectation) ?ys)"
    using distinct_stage_sessions [of "files w"] by (simp add: comp_def case_prod_beta')
  then have "distinct (map (expected_key \<circ> sv_expectation) (sort_key (expected_key \<circ> sv_expectation) ?ys))"
    by (simp only: distinct_map distinct_sort set_sort)
  with survey_result [OF assms] show ?thesis by fastforce
qed

section \<open>Repeated shards\<close>

definition shard_id :: "session_backed_up \<Rightarrow> nat \<Rightarrow> nat \<times> string" where
  "shard_id s i = (sb_shard_bytes s ! i, sb_shard_sha256 s ! i)"

lemma same_shard_id: "same_shard s i j \<longleftrightarrow> shard_id s i = shard_id s j"
  by (auto simp: same_shard_def shard_id_def)

text \<open>A doubled seal is reported exactly when there is something to report: two positions with the
  same size and digest, or a run the archive reader found repeated; and a pair it reports does
  carry the same size and digest unless it stands for such a run.\<close>

theorem duplicate_seal_exact:
  assumes "length (sb_shard_sha256 s) = length (sb_shard_bytes s)"
    and "2 \<le> length (sb_shard_sha256 s)"
  shows "(find_duplicate_seal s = None \<longleftrightarrow>
      distinct (map (shard_id s) [0..<length (sb_shard_sha256 s)]) \<and> sb_run_duplicates s = []) \<and>
    (\<forall>d. find_duplicate_seal s = Some d \<and> ds_prior_run d = None \<longrightarrow>
      ds_first d < ds_second d \<and> ds_second d < length (sb_shard_sha256 s) \<and>
      shard_id s (ds_first d) = shard_id s (ds_second d))"
proof -
  let ?n = "length (sb_shard_sha256 s)"
  let ?runs = "find (repeated_run s) [1..<Suc (?n div 2)]"
  let ?pairs = "concat (map (\<lambda>j. map (\<lambda>i. (i, j)) [0..<j]) [1..<?n])"
  have run: "0 < run \<and> run < ?n \<and> shard_id s 0 = shard_id s run" if "?runs = Some run" for run
  proof -
    from that have r: "repeated_run s run" "0 < run" "run \<le> ?n div 2"
      using find_SomeD [OF that] by (auto simp: less_Suc_eq_le)
    then have "shard_id s 0 = shard_id s (run + 0)"
      unfolding repeated_run_def same_shard_id list_all_iff by fastforce
    with r assms(2) show ?thesis by simp
  qed
  have pair: "i < j \<and> j < ?n \<and> shard_id s i = shard_id s j" if "find (\<lambda>(i, j). same_shard s i j) ?pairs = Some (i, j)" for i j
  proof -
    from that have "(i, j) \<in> set ?pairs" "same_shard s i j"
      using find_SomeD [OF that] by auto
    then show ?thesis by (auto simp: same_shard_id)
  qed
  have nopair: "distinct (map (shard_id s) [0..<?n])" if "find (\<lambda>(i, j). same_shard s i j) ?pairs = None"
  proof -
    have "shard_id s i \<noteq> shard_id s j" if "i < j" "j < ?n" for i j
      using \<open>find _ _ = None\<close> that by (fastforce simp: find_None_iff same_shard_id)
    then show ?thesis by (auto simp: distinct_map inj_on_def) (metis linorder_neqE_nat)
  qed
  have clash: "\<not> distinct (map (shard_id s) [0..<?n])" if "i < j" "j < ?n" "shard_id s i = shard_id s j" for i j
    using that by (auto simp: distinct_map dest: inj_onD [of _ _ i j])
  show ?thesis
  proof (cases ?runs)
    case (Some run)
    with run [OF Some] clash [of 0 run] assms show ?thesis
      by (auto simp: find_duplicate_seal_def Let_def seal_of_def)
  next
    case runs: None
    show ?thesis
    proof (cases "find (\<lambda>(i, j). same_shard s i j) ?pairs")
      case (Some ij)
      obtain i j where "ij = (i, j)" by (cases ij)
      with Some pair clash [of i j] runs assms show ?thesis
        by (auto simp: find_duplicate_seal_def Let_def seal_of_def)
    next
      case None
      with nopair runs assms show ?thesis
        by (auto simp: find_duplicate_seal_def Let_def seal_of_def split: list.splits prod.splits)
    qed
  qed
qed

section \<open>The report\<close>

definition archive_triple :: "session_backed_up \<Rightarrow> nat \<times> nat \<times> string" where
  "archive_triple s = (sb_shard_count s, sb_concat_bytes s, sb_sha256 s)"

definition expected_triple :: "session_expectation \<Rightarrow> nat \<times> nat \<times> string" where
  "expected_triple x = (se_shard_count x, se_concat_bytes x, se_sha256 x)"

lemma verdict_matches:
  "verdict offline x obs = Matches \<longleftrightarrow>
     se_unverifiable x = None \<and> map_option archive_triple obs = Some (expected_triple x)"
  by (auto simp: verdict_def archive_triple_def expected_triple_def split: option.splits)

lemma report_ok_iff:
  "report_ok (reconcile_report_of offline expected found) \<longleftrightarrow>
     (\<forall>x \<in> set expected. se_unverifiable x = None \<and>
        map_option archive_triple (bt_get (observe found) (expected_key x)) = Some (expected_triple x))"
  by (simp add: report_ok_def reconcile_report_of_def Let_def list_all_iff reconcile_row_of_def verdict_matches)

text \<open>A report is clean exactly when every expected row is verifiable and the archive holds a session
  of the same count, length and digest for it; every row gets exactly one of the four kinds of
  verdict, so the counts add up to the number of expected rows.\<close>

theorem report_exact:
  "(report_ok (reconcile_report_of offline expected found) \<longleftrightarrow>
      (\<forall>x \<in> set expected. se_unverifiable x = None \<and>
         map_option archive_triple (bt_get (observe found) (expected_key x)) = Some (expected_triple x))) \<and>
   (let rp = reconcile_report_of offline expected found in
      matched rp + failed rp + absent_from_mirror_copy rp + unverifiable rp = length expected)"
proof -
  have "matched rp + failed rp + absent_from_mirror_copy rp + unverifiable rp = length (rp_rows rp)" for rp
  proof -
    have "length (filter (\<lambda>r. rr_outcome r = Matches) rows) + length (filter (is_failure \<circ> rr_outcome) rows) +
        length (filter (\<lambda>r. rr_outcome r = AbsentFromMirrorCopy) rows) +
        length (filter (\<lambda>r. case rr_outcome r of Unverifiable _ \<Rightarrow> True | _ \<Rightarrow> False) rows) = length rows" for rows
      by (induction rows) (auto split: session_outcome.splits)
    then show ?thesis
      by (simp add: matched_def failed_def absent_from_mirror_copy_def unverifiable_def count_rows_def comp_def)
  qed
  then have "let rp = reconcile_report_of offline expected found in
      matched rp + failed rp + absent_from_mirror_copy rp + unverifiable rp = length expected"
    by (simp add: reconcile_report_of_def Let_def)
  then show ?thesis by (simp only: report_ok_iff)
qed

section \<open>The baseline\<close>

lemma concat_result:
  assumes "io_map_err g (concat_shards_in_dir (base e) dir) w = (Inr body, w')"
  shows "files w' = files w \<and> body = session_body dir (files w)"
proof -
  have read: "read_all e' es w = (Inr r, w') \<Longrightarrow>
      files w' = files w \<and> r = concat (map (\<lambda>(n, p). the (map_of (files w) p)) es)" for e' es w r w'
  proof (induction es arbitrary: w r)
    case (Cons np es)
    obtain n p where np: "np = (n, p)" by (cases np)
    from Cons.prems obtain c r' w1 where "read_file e' IoError p w = (Inr c, w1)" "read_all e' es w1 = (Inr r', w')" "r = c @ r'"
      by (auto simp: np io_bind_Inr io_return_Inr)
    moreover from this(1) have "files w1 = files w" "map_of (files w) p = Some c"
      by (auto simp: read_file_def split: if_splits option.splits)
    ultimately show ?case using Cons.IH [of w1 r'] by (simp add: np)
  qed (simp add: io_return_Inr)
  from assms obtain u w0 where t: "touch (base e) IoError w = (Inr u, w0)"
    and r: "read_all (base e) (sort_entries (entries_of dir (files w0))) w0 = (Inr body, w')"
    unfolding concat_shards_in_dir_def io_map_err_Inr sealed_shard_entries_def io_bind_Inr by auto
  with read [OF r] touch_files [OF t] show ?thesis
    by (simp add: session_body_def comp_def case_prod_beta')
qed

text \<open>The effect of one session on the expectations.\<close>

definition session_effect :: "menv \<Rightarrow> fs \<Rightarrow> string list \<Rightarrow> string \<times> string \<Rightarrow> expectations \<Rightarrow> expectations" where
  "session_effect e f mm ms m =
     (let dir = session_shard_dir (fst ms) (snd ms) in
      if entries_of dir f \<noteq> []
      then bt_insert ms (body_expectation e (fst ms) (snd ms) (length (entries_of dir f)) (session_body dir f)) m
      else add_reclaimed mm (fst ms) (snd ms) m)"

lemma add_session_result:
  assumes "add_session e mm machine s m w = (Inr m', w')"
  shows "files w' = files w \<and> m' = session_effect e (files w) mm (machine, s) m"
proof -
  let ?dir = "session_shard_dir machine s"
  from assms obtain es w1 where es: "io_map_err (BaselineRead \<circ> StageFailed) (sealed_shard_entries (base e) ?dir) w = (Inr es, w1)"
    and rest: "(if es \<noteq> [] then io_bind (io_map_err (BaselineRead \<circ> StageFailed) (concat_shards_in_dir (base e) ?dir))
         (\<lambda>body. io_return (bt_insert (machine, s) (body_expectation e machine s (length es) body) m))
       else io_return (add_reclaimed mm machine s m)) w1 = (Inr m', w')"
    unfolding add_session_def io_bind_Inr by blast
  note es = entries_result [OF es]
  show ?thesis
  proof (cases "es = []")
    case True
    with rest es show ?thesis by (simp add: io_return_Inr session_effect_def)
  next
    case False
    with rest obtain body w2 where "io_map_err (BaselineRead \<circ> StageFailed) (concat_shards_in_dir (base e) ?dir) w1 = (Inr body, w2)"
      "m' = bt_insert (machine, s) (body_expectation e machine s (length es) body) m" "w' = w2"
      by (auto simp: io_bind_Inr io_return_Inr)
    with concat_result [OF this(1)] es False show ?thesis by (simp add: session_effect_def Let_def)
  qed
qed

lemma add_sessions_result:
  "add_sessions e mm machine ss m w = (Inr m', w') \<Longrightarrow>
     files w' = files w \<and> m' = fold (session_effect e (files w) mm) (map (Pair machine) ss) m"
proof (induction ss arbitrary: m w)
  case (Cons s ss)
  then obtain m1 w1 where "add_session e mm machine s m w = (Inr m1, w1)" "add_sessions e mm machine ss m1 w1 = (Inr m', w')"
    by (auto simp: io_bind_Inr)
  with add_session_result [OF this(1)] Cons.IH [OF this(2)] show ?case by simp
qed (simp add: io_return_Inr)

lemma body_baseline_result:
  "body_baseline e mm ms m w = (Inr m', w') \<Longrightarrow>
     files w' = files w \<and>
     m' = fold (session_effect e (files w) mm) (concat (map (\<lambda>x. map (Pair x) (sessions_of x (files w))) ms)) m"
proof (induction ms arbitrary: m w)
  case (Cons x ms)
  then obtain u m1 w0 w1 where t: "touch e (BaselineRead (ReadFailed [SESSIONS_DIR, x])) w = (Inr u, w0)"
    and "add_sessions e mm x (sessions_of x (files w0)) m w0 = (Inr m1, w1)" "body_baseline e mm ms m1 w1 = (Inr m', w')"
    by (auto simp: io_bind_Inr)
  with touch_files [OF t] add_sessions_result [OF this(2)] Cons.IH [OF this(3)] show ?case by simp
qed (simp add: io_return_Inr)

lemma bt_ok_add_reclaimed [simp]: "bt_ok m \<Longrightarrow> bt_ok (add_reclaimed mm x s m)"
  by (simp add: add_reclaimed_def split: option.splits)

lemma bt_ok_session_effect [simp]: "bt_ok m \<Longrightarrow> bt_ok (session_effect e f mm ms m)"
  by (simp add: session_effect_def Let_def)

lemma bt_ok_effects [simp]: "bt_ok m \<Longrightarrow> bt_ok (fold (session_effect e f mm) mss m)"
  by (induction mss arbitrary: m) auto

text \<open>A session leaves the rows of all others alone.\<close>

lemma session_effect_other:
  assumes "bt_ok m" "ms \<noteq> k" "snd k \<noteq> CORRUPT_MARKER"
  shows "bt_get (session_effect e f mm ms m) k = bt_get m k"
  using assms
  by (cases ms; cases k) (auto simp: session_effect_def Let_def add_reclaimed_def bt_get_insert bt_get_remove split: option.splits)

lemma effects_other:
  assumes "bt_ok m" "k \<notin> set mss" "snd k \<noteq> CORRUPT_MARKER"
  shows "bt_get (fold (session_effect e f mm) mss m) k = bt_get m k"
  using assms by (induction mss arbitrary: m) (auto simp: session_effect_other)

lemma effects_body:
  assumes "bt_ok m" "k \<in> set mss" "distinct mss" "snd k \<noteq> CORRUPT_MARKER"
    and "entries_of (session_shard_dir (fst k) (snd k)) f \<noteq> []"
  shows "bt_get (fold (session_effect e f mm) mss m) k =
    Some (body_expectation e (fst k) (snd k) (length (entries_of (session_shard_dir (fst k) (snd k)) f))
      (session_body (session_shard_dir (fst k) (snd k)) f))"
proof -
  from assms(2,3) obtain xs ys where "mss = xs @ k # ys" "k \<notin> set ys"
    by (metis distinct.simps(2) distinct_append split_list)
  with assms show ?thesis
    by (simp add: effects_other) (simp add: session_effect_def Let_def bt_get_insert)
qed

text \<open>No stored row and no session passes for the marker of a damaged summary file.\<close>

lemma effects_stored:
  assumes "bt_ok m" "bt_get m k = Some x" "bt_get m (fst k, CORRUPT_MARKER) = None" "snd k \<noteq> CORRUPT_MARKER"
    and "\<forall>s. (fst k, s) \<in> set mss \<longrightarrow> s \<noteq> CORRUPT_MARKER" "distinct mss"
    and "entries_of (session_shard_dir (fst k) (snd k)) f = []"
  shows "bt_get (fold (session_effect e f mm) mss m) k = Some x"
  using assms
proof (induction mss arbitrary: m)
  case (Cons ms mss)
  have marker: "bt_get (session_effect e f mm ms m) (fst k, CORRUPT_MARKER) = None"
  proof (cases "fst ms = fst k")
    case True
    then have "snd ms \<noteq> CORRUPT_MARKER" using Cons.prems(5) by (cases ms) auto
    with Cons.prems True show ?thesis
      by (cases ms) (auto simp: session_effect_def Let_def add_reclaimed_def bt_get_insert bt_get_remove split: option.splits)
  next
    case False
    with Cons.prems show ?thesis
      by (cases ms) (auto simp: session_effect_def Let_def add_reclaimed_def bt_get_insert bt_get_remove split: option.splits)
  qed
  have "bt_get (session_effect e f mm ms m) k = Some x"
  proof (cases "ms = k")
    case True
    with Cons.prems show ?thesis by (cases k) (simp add: session_effect_def add_reclaimed_def Let_def)
  next
    case False
    with Cons.prems show ?thesis by (simp add: session_effect_other)
  qed
  with Cons marker show ?case by simp
qed simp

text \<open>The rows a machine's summary file contributes, when the file can be read.\<close>

definition stored_rows_of :: "menv \<Rightarrow> string \<Rightarrow> fs \<Rightarrow> session_manifest list option" where
  "stored_rows_of e machine f =
     (case map_of f (manifest_path machine) of
        None \<Rightarrow> None
      | Some raw \<Rightarrow> (case parse_manifest e (manifest_path machine) raw of Inr (Loaded rows) \<Rightarrow> Some rows | _ \<Rightarrow> None))"

lemma bt_ok_add_stored [simp]: "bt_ok m \<Longrightarrow> bt_ok (add_stored x st m)"
proof -
  have "bt_ok m \<Longrightarrow> bt_ok (fold (\<lambda>row. bt_insert (x, sm_session_id row) (g row)) rows m)" for g and rows :: "session_manifest list"
    by (induction rows arbitrary: m) auto
  then show "bt_ok m \<Longrightarrow> bt_ok (add_stored x st m)"
    by (auto simp: add_stored_def split: sum.splits manifest_state.splits)
qed

lemma add_stored_other:
  assumes "bt_ok m" "fst k \<noteq> x"
  shows "bt_get (add_stored x st m) k = bt_get m k"
proof -
  have "bt_ok n \<Longrightarrow> bt_get (fold (\<lambda>row. bt_insert (x, sm_session_id row) (g row)) rows n) k = bt_get n k"
    for g n and rows :: "session_manifest list"
    using assms(2) by (induction rows arbitrary: n) (auto simp: bt_get_insert)
  with assms show ?thesis
    by (auto simp: add_stored_def bt_get_insert split: sum.splits manifest_state.splits)
qed

lemma stored_baseline_result:
  "fault e = (\<lambda>_. False) \<Longrightarrow> stored_baseline e ms m w = (r, w') \<Longrightarrow> bt_ok m \<Longrightarrow>
    \<exists>m'. r = Inr m' \<and> files w' = files w \<and> bt_ok m' \<and>
      (\<forall>k. fst k \<notin> set ms \<longrightarrow> bt_get m' k = bt_get m k)"
proof (induction ms arbitrary: m w)
  case (Cons x ms)
  obtain st w1 where rd: "read_manifest e x w = (st, w1)" by (cases "read_manifest e x w")
  then have f: "files w1 = files w" by (auto simp: read_manifest_def Let_def)
  from Cons.IH [of "add_stored x st m" w1] Cons.prems rd obtain m' where m': "r = Inr m'" "files w' = files w1" "bt_ok m'"
    "\<forall>k. fst k \<notin> set ms \<longrightarrow> bt_get m' k = bt_get (add_stored x st m) k" by auto
  with f Cons.prems show ?case by (auto simp: add_stored_other)
qed (auto intro!: exI)

lemma stored_baseline_rows:
  assumes "fault e = (\<lambda>_. False)" "stored_baseline e ms m w = (Inr m', w')" "bt_ok m" "distinct ms" "x \<in> set ms"
    and "stored_rows_of e x (files w) = Some rows"
    and "\<forall>k. fst k = x \<longrightarrow> bt_get m k = None"
  shows "bt_get m' (x, s) = map_option (stored_expectation x) (map_of (rev (map (\<lambda>r. (sm_session_id r, r)) rows)) s)"
  using assms(2,3,4,5,6,7)
proof (induction ms arbitrary: m w)
  case (Cons y ms)
  obtain st w1 where rd: "read_manifest e y w = (st, w1)" by (cases "read_manifest e y w")
  then have f: "files w1 = files w" by (auto simp: read_manifest_def Let_def)
  from Cons.prems rd have rest: "stored_baseline e ms (add_stored y st m) w1 = (Inr m', w')" by simp
  show ?case
  proof (cases "y = x")
    case True
    have st: "st = Inr (Loaded rows)"
      using rd True Cons.prems(5) assms(1)
      by (auto simp: read_manifest_def Let_def stored_rows_of_def split: option.splits sum.splits manifest_state.splits)
    have rows: "bt_ok n \<Longrightarrow> bt_get (fold (\<lambda>row. bt_insert (x, sm_session_id row) (stored_expectation x row)) rs n) (x, s) =
        (case map_of (rev (map (\<lambda>r. (sm_session_id r, r)) rs)) s of
           None \<Rightarrow> bt_get n (x, s) | Some r \<Rightarrow> Some (stored_expectation x r))" for rs n
      by (induction rs arbitrary: n) (auto simp: bt_get_insert map_add_def split: option.splits)
    have "bt_get m' (x, s) = bt_get (add_stored y st m) (x, s)"
      using stored_baseline_result [OF assms(1) rest] Cons.prems True by auto
    with rows [OF Cons.prems(2)] st True Cons.prems(6) show ?thesis
      by (auto simp: add_stored_def split: option.splits)
  next
    case False
    have "\<forall>k. fst k = x \<longrightarrow> bt_get (add_stored y st m) k = None"
      using Cons.prems(2,6) False by (simp add: add_stored_other)
    with Cons.IH [OF rest] Cons.prems False f show ?thesis by simp
  qed
qed simp

lemma list_metas_result:
  "fault e = (\<lambda>_. False) \<Longrightarrow> list_metas e w = (Inr ms, w') \<Longrightarrow>
    files w' = files w \<and> distinct ms \<and> (\<forall>x rows. stored_rows_of e x (files w) = Some rows \<longrightarrow> x \<in> set ms)"
proof -
  assume nf: "fault e = (\<lambda>_. False)" and l: "list_metas e w = (Inr ms, w')"
  have "dir_exists [META_DIR] (files w) \<and> x \<in> set (subdirs_of META_DIR (files w))"
    if "stored_rows_of e x (files w) = Some rows" for x rows
  proof -
    from that obtain raw where "(manifest_path x, raw) \<in> set (files w)"
      by (auto simp: stored_rows_of_def dest: map_of_SomeD split: option.splits)
    then show ?thesis
      by (force simp: manifest_path_def subdirs_of_iff dir_exists_def list_ex_iff)
  qed
  note there = this
  show ?thesis
  proof (cases "dir_exists [META_DIR] (files w)")
    case True
    with nf l there show ?thesis
      by (auto simp: list_metas_def io_bind_def is_dir_def io_return_def distinct_subdirs)
  next
    case False
    then have "stored_rows_of e x (files w) = None" for x
      using there [of x] by (cases "stored_rows_of e x (files w)") auto
    with False nf l show ?thesis
      by (auto simp: list_metas_def io_bind_def is_dir_def io_return_def)
  qed
qed

lemma load_bodies_result:
  assumes "fault e = (\<lambda>_. False)" "load_bodies e mm m w = (Inr m', w')"
  shows "files w' = files w \<and> m' = fold (session_effect e (files w) mm) (stage_sessions (files w)) m"
proof (cases "dir_exists [SESSIONS_DIR] (files w)")
  case True
  with assms obtain u w1 where t: "touch e (BaselineRead (ReadFailed [SESSIONS_DIR])) (w\<lparr>clock := Suc (clock w)\<rparr>) = (Inr u, w1)"
    and b: "body_baseline e mm (subdirs_of SESSIONS_DIR (files w1)) m w1 = (Inr m', w')"
    by (auto simp: load_bodies_def io_bind_Inr)
  from touch_files [OF t] body_baseline_result [OF b] show ?thesis by (simp add: stage_sessions_def)
next
  case False
  have "x \<notin> set (subdirs_of SESSIONS_DIR (files w))" for x
  proof
    assume "x \<in> set (subdirs_of SESSIONS_DIR (files w))"
    then obtain y r c where "(SESSIONS_DIR # x # y # r, c) \<in> set (files w)" by (auto simp: subdirs_of_iff)
    then have "dir_exists [SESSIONS_DIR] (files w)" unfolding dir_exists_def list_ex_iff by (rule bexI [rotated]) simp
    with False show False by simp
  qed
  then have "subdirs_of SESSIONS_DIR (files w) = []" by (cases "subdirs_of SESSIONS_DIR (files w)") auto
  with False assms show ?thesis
    by (auto simp: load_bodies_def io_bind_Inr io_return_Inr stage_sessions_def)
qed

text \<open>What the archive must hold for a session: the body in the stage, or else the stored summary.\<close>

definition due :: "menv \<Rightarrow> fs \<Rightarrow> string \<times> string \<Rightarrow> (nat \<times> nat \<times> string) option" where
  "due e f ms =
     (let dir = session_shard_dir (fst ms) (snd ms) in
      if entries_of dir f \<noteq> []
      then Some (length (entries_of dir f), length (session_body dir f), hex (sha256 e (session_body dir f)))
      else Option.bind (stored_rows_of e (fst ms) f) (\<lambda>rows.
        map_option triple (map_of (rev (map (\<lambda>r. (sm_session_id r, r)) rows)) (snd ms))))"

definition marker_free :: "menv \<Rightarrow> fs \<Rightarrow> bool" where
  "marker_free e f \<longleftrightarrow>
     (\<forall>m. (m, CORRUPT_MARKER) \<notin> set (stage_sessions f)) \<and>
     (\<forall>m rows. stored_rows_of e m f = Some rows \<longrightarrow> CORRUPT_MARKER \<notin> sm_session_id ` set rows)"

lemma load_expected_parts:
  assumes "load_expected_manifest e w = (Inr xs, w')"
  obtains w1 metas w2 stored w3 m where "list_metas e w1 = (Inr metas, w2)" "files w1 = files w"
    "stored_baseline e metas [] w2 = (Inr stored, w3)" "load_bodies e metas stored w3 = (Inr m, w')"
    "m \<noteq> []" "xs = map snd m"
proof -
  let ?rest = "io_bind (list_metas e) (\<lambda>metas. io_bind (stored_baseline e metas []) (\<lambda>stored.
      io_bind (load_bodies e metas stored) (\<lambda>m. if m = [] then io_fail NoBaseline else io_return (map snd m))))"
  have "\<exists>n. ?rest (w\<lparr>clock := n\<rparr>) = (Inr xs, w')"
    using assms unfolding load_expected_manifest_def io_bind_Inr [where m = "is_dir e [SESSIONS_DIR]"]
      io_bind_Inr [where m = "if _ then _ else _"]
    by (auto simp: io_return_Inr io_fail_def split: if_splits)
  then obtain n where n: "?rest (w\<lparr>clock := n\<rparr>) = (Inr xs, w')" by blast
  then obtain metas w2 where l: "list_metas e (w\<lparr>clock := n\<rparr>) = (Inr metas, w2)"
    and r: "io_bind (stored_baseline e metas []) (\<lambda>stored. io_bind (load_bodies e metas stored)
      (\<lambda>m. if m = [] then io_fail NoBaseline else io_return (map snd m))) w2 = (Inr xs, w')"
    unfolding io_bind_Inr [where m = "list_metas e"] by blast
  from r obtain stored w3 where st: "stored_baseline e metas [] w2 = (Inr stored, w3)"
    and r: "io_bind (load_bodies e metas stored)
      (\<lambda>m. if m = [] then io_fail NoBaseline else io_return (map snd m)) w3 = (Inr xs, w')"
    unfolding io_bind_Inr [where m = "stored_baseline e metas []"] by blast
  from r obtain m w4 where b: "load_bodies e metas stored w3 = (Inr m, w4)"
    and "(if m = [] then io_fail NoBaseline else io_return (map snd m)) w4 = (Inr xs, w')"
    unfolding io_bind_Inr by blast
  then have "m \<noteq> []" "xs = map snd m" "w4 = w'" by (auto simp: io_return_Inr io_fail_def split: if_splits)
  with l st b show thesis by (intro that [of "w\<lparr>clock := n\<rparr>"]) simp_all
qed

lemma baseline_due:
  assumes nf: "fault e = (\<lambda>_. False)" and run: "load_expected_manifest e w = (Inr xs, w')"
    and mf: "marker_free e (files w)" and k: "k \<in> set (stage_sessions (files w))" "due e (files w) k = Some t"
  shows "\<exists>x \<in> set xs. expected_key x = k \<and> expected_triple x = t" and "xs \<noteq> []"
proof -
  obtain metas w1 stored w2 m w3 where metas: "list_metas e w1 = (Inr metas, w2)" "files w1 = files w"
    and stored: "stored_baseline e metas [] w2 = (Inr stored, w3)"
    and bodies: "load_bodies e metas stored w3 = (Inr m, w')" and m: "m \<noteq> []" "xs = map snd m"
    by (rule load_expected_parts [OF run])
  note lm = list_metas_result [OF nf metas(1)]
  from stored_baseline_result [OF nf stored] have st: "files w3 = files w2" "bt_ok stored" by simp_all
  from load_bodies_result [OF nf bodies] st lm metas(2)
  have mm: "m = fold (session_effect e (files w) metas) (stage_sessions (files w)) stored" by simp
  then have okm: "bt_ok m" using st by simp
  have nk: "snd k \<noteq> CORRUPT_MARKER" using mf k(1) by (cases k) (auto simp: marker_free_def)
  let ?dir = "session_shard_dir (fst k) (snd k)"
  have "\<exists>x. bt_get m k = Some x \<and> expected_key x = k \<and> expected_triple x = t"
  proof (cases "entries_of ?dir (files w) = []")
    case False
    with effects_body [OF st(2) k(1) distinct_stage_sessions nk False, of e metas] k(2) show ?thesis
      by (auto simp: mm due_def Let_def body_expectation_def expected_key_def expected_triple_def)
  next
    case True
    with k(2) obtain rows row where rows: "stored_rows_of e (fst k) (files w) = Some rows"
      "map_of (rev (map (\<lambda>r. (sm_session_id r, r)) rows)) (snd k) = Some row" "t = triple row"
      by (auto simp: due_def Let_def bind_eq_Some_conv)
    then have "stored_rows_of e (fst k) (files w2) = Some rows" "fst k \<in> set metas" "distinct metas"
      using lm metas(2) by auto
    note get = stored_baseline_rows [OF nf stored bt_ok_Nil this(3,2,1)]
    have "bt_get stored (fst k, snd k) = Some (stored_expectation (fst k) row)"
      using get [of "snd k"] rows(2) by simp
    moreover have "bt_get stored (fst k, CORRUPT_MARKER) = None"
    proof -
      have "map_of (rev (map (\<lambda>r. (sm_session_id r, r)) rows)) CORRUPT_MARKER = None"
        using mf rows(1) by (force simp: marker_free_def map_of_eq_None_iff)
      with get [of CORRUPT_MARKER] show ?thesis by simp
    qed
    moreover have "\<forall>s. (fst k, s) \<in> set (stage_sessions (files w)) \<longrightarrow> s \<noteq> CORRUPT_MARKER"
      using mf by (auto simp: marker_free_def)
    ultimately have "bt_get m k = Some (stored_expectation (fst k) row)"
      using effects_stored [OF st(2), of k] nk distinct_stage_sessions True by (simp add: mm)
    moreover have "sm_session_id row = snd k"
      using map_of_SomeD [OF rows(2)] by auto
    ultimately show ?thesis using rows(3)
      by (auto simp: stored_expectation_def expected_key_def expected_triple_def triple_def)
  qed
  then obtain x where "(k, x) \<in> set m" "expected_key x = k" "expected_triple x = t"
    by (auto dest: map_of_SomeD)
  then show "\<exists>x \<in> set xs. expected_key x = k \<and> expected_triple x = t" using m by force
  show "xs \<noteq> []" using m by simp
qed

text \<open>Without a body and without a stored row a session is expected all the same, but as one that cannot be verified.\<close>

definition undocumented :: "string \<times> string \<Rightarrow> expectations \<Rightarrow> bool" where
  "undocumented k m \<longleftrightarrow> bt_get m k = None \<and>
     (\<forall>x. bt_get m (fst k, CORRUPT_MARKER) = Some x \<longrightarrow> se_unverifiable x \<noteq> None)"

lemma undocumented_stored:
  assumes "bt_ok m" "undocumented k m" "snd k \<noteq> CORRUPT_MARKER"
    and "\<And>rows. st = Inr (Loaded rows) \<Longrightarrow> y = fst k \<Longrightarrow> snd k \<notin> sm_session_id ` set rows \<and> CORRUPT_MARKER \<notin> sm_session_id ` set rows"
  shows "undocumented k (add_stored y st m)"
proof (cases "y = fst k")
  case True
  have rows: "bt_ok n \<Longrightarrow> s \<notin> sm_session_id ` set rs \<Longrightarrow>
      bt_get (fold (\<lambda>row. bt_insert (y, sm_session_id row) (stored_expectation y row)) rs n) (y, s) = bt_get n (y, s)" for rs n s
    by (induction rs arbitrary: n) (auto simp: bt_get_insert)
  show ?thesis using assms True rows [OF assms(1)]
    by (cases k) (auto simp: add_stored_def undocumented_def bt_get_insert unknown_expectation_def split: sum.splits manifest_state.splits)
next
  case False
  then show ?thesis using assms(1,2) by (simp add: undocumented_def add_stored_other)
qed

lemma undocumented_baseline:
  assumes "fault e = (\<lambda>_. False)" "snd k \<noteq> CORRUPT_MARKER"
    and "\<And>rows. stored_rows_of e (fst k) (files w) = Some rows \<Longrightarrow> snd k \<notin> sm_session_id ` set rows \<and> CORRUPT_MARKER \<notin> sm_session_id ` set rows"
  shows "stored_baseline e ms m w = (Inr m', w') \<Longrightarrow> bt_ok m \<Longrightarrow> undocumented k m \<Longrightarrow> undocumented k m'"
  using assms(3)
proof (induction ms arbitrary: m w)
  case (Cons y ms)
  obtain st w1 where rd: "read_manifest e y w = (st, w1)" by (cases "read_manifest e y w")
  then have f: "files w1 = files w" by (auto simp: read_manifest_def Let_def)
  have "stored_rows_of e y (files w) = Some rows" if "st = Inr (Loaded rows)" for rows
    using rd that assms(1) by (auto simp: read_manifest_def Let_def stored_rows_of_def split: option.splits sum.splits manifest_state.splits)
  then have "undocumented k (add_stored y st m)" using Cons.prems(2,3,4) assms(2) by (intro undocumented_stored) auto
  with Cons.IH [of "add_stored y st m" w1] Cons.prems rd f show ?case by auto
qed simp

lemma undocumented_effect:
  assumes "bt_ok m" "undocumented k m" "ms \<noteq> k" "snd ms \<noteq> CORRUPT_MARKER" "snd k \<noteq> CORRUPT_MARKER"
  shows "undocumented k (session_effect e f mm ms m)"
proof -
  have "bt_get (session_effect e f mm ms m) (fst k, CORRUPT_MARKER) \<in> {None, bt_get m (fst k, CORRUPT_MARKER)}"
    using assms(1,4) by (cases ms) (auto simp: session_effect_def Let_def add_reclaimed_def bt_get_insert bt_get_remove split: option.splits)
  with session_effect_other [OF assms(1,3,5), of e f mm] assms(2) show ?thesis by (auto simp: undocumented_def)
qed

lemma effects_undocumented:
  assumes "bt_ok m" "undocumented k m" "k \<in> set mss" "distinct mss" "\<forall>ms \<in> set mss. snd ms \<noteq> CORRUPT_MARKER"
    and "entries_of (session_shard_dir (fst k) (snd k)) f = []"
  shows "\<exists>x. bt_get (fold (session_effect e f mm) mss m) k = Some x \<and> se_unverifiable x \<noteq> None"
  using assms(1-5)
proof (induction mss arbitrary: m)
  case (Cons ms mss)
  have nk: "snd k \<noteq> CORRUPT_MARKER" using Cons.prems(3,5) by auto
  show ?case
  proof (cases "ms = k")
    case True
    have "\<exists>x. bt_get (session_effect e f mm k m) k = Some x \<and> se_unverifiable x \<noteq> None"
      using Cons.prems(1,2) assms(6) nk
      by (cases k) (auto simp: session_effect_def Let_def add_reclaimed_def undocumented_def bt_get_insert unknown_expectation_def split: option.splits)
    with Cons.prems(1,4) True effects_other [of "session_effect e f mm k m" k mss e f mm] nk show ?thesis by simp
  next
    case False
    with Cons.prems nk undocumented_effect [OF Cons.prems(1,2) False _ nk, of e f mm] Cons.IH [of "session_effect e f mm ms m"]
    show ?thesis by auto
  qed
qed simp

lemma baseline_unverifiable:
  assumes nf: "fault e = (\<lambda>_. False)" and run: "load_expected_manifest e w = (Inr xs, w')"
    and mf: "marker_free e (files w)" and k: "k \<in> set (stage_sessions (files w))" "due e (files w) k = None"
  shows "\<exists>x \<in> set xs. se_unverifiable x \<noteq> None"
proof -
  obtain w1 metas w2 stored w3 m where metas: "list_metas e w1 = (Inr metas, w2)" "files w1 = files w"
    and stored: "stored_baseline e metas [] w2 = (Inr stored, w3)"
    and bodies: "load_bodies e metas stored w3 = (Inr m, w')" and m: "m \<noteq> []" "xs = map snd m"
    by (rule load_expected_parts [OF run])
  have f2: "files w2 = files w" using list_metas_result [OF nf metas(1)] metas(2) by simp
  from stored_baseline_result [OF nf stored] have st: "files w3 = files w2" "bt_ok stored" by simp_all
  have mm: "m = fold (session_effect e (files w) metas) (stage_sessions (files w)) stored"
    using load_bodies_result [OF nf bodies] st f2 by simp
  have nk: "\<forall>ms \<in> set (stage_sessions (files w)). snd ms \<noteq> CORRUPT_MARKER" using mf by (auto simp: marker_free_def)
  have es: "entries_of (session_shard_dir (fst k) (snd k)) (files w) = []" using k(2) by (auto simp: due_def Let_def split: if_splits)
  have "snd k \<notin> sm_session_id ` set rows \<and> CORRUPT_MARKER \<notin> sm_session_id ` set rows" if "stored_rows_of e (fst k) (files w2) = Some rows" for rows
  proof -
    have "map_of (rev (map (\<lambda>r. (sm_session_id r, r)) rows)) (snd k) = None" using that f2 es k(2) by (auto simp: due_def Let_def)
    then show ?thesis using mf that f2 by (force simp: marker_free_def map_of_eq_None_iff)
  qed
  from undocumented_baseline [OF nf _ this stored] nk k(1) have "undocumented k stored" by (simp add: undocumented_def)
  from effects_undocumented [OF st(2) this k(1) distinct_stage_sessions nk es, of e metas] obtain x
    where "bt_get m k = Some x" "se_unverifiable x \<noteq> None" unfolding mm by blast
  then show ?thesis using m(2) by (force dest: map_of_SomeD)
qed

lemma observe_mem:
  assumes "bt_get (observe found) k = Some s"
  shows "s \<in> set found \<and> (sb_machine s, sb_session_id s) = k"
proof -
  have "bt_get (fold (\<lambda>s. bt_insert (sb_machine s, sb_session_id s) s) fs m) k = Some s \<Longrightarrow> bt_ok m \<Longrightarrow>
      bt_get m k = Some s \<or> s \<in> set fs \<and> (sb_machine s, sb_session_id s) = k" for fs m
  proof (induction fs arbitrary: m)
    case (Cons a fs)
    then have "bt_get (bt_insert (sb_machine a, sb_session_id a) a m) k = Some s \<or>
        s \<in> set fs \<and> (sb_machine s, sb_session_id s) = k" by simp
    with Cons.prems(2) show ?case by (auto simp: bt_get_insert split: if_splits)
  qed simp
  from this [of found "[]"] assms show ?thesis by (simp add: observe_def)
qed


section \<open>Witnesses\<close>

definition demo_backed_up :: session_backed_up where
  "demo_backed_up = \<lparr>sb_machine = ''m'', sb_session_id = ''s'', sb_shard_count = 1, sb_concat_bytes = 1,
     sb_sha256 = ''78'', sb_shard_sha256 = [''a'', ''b'', ''a''], sb_shard_sequences = [],
     sb_shard_bytes = [1, 1, 1], sb_run_duplicates = [], sb_folded_indices = []\<rparr>"

theorem duplicate_seal_exact_witness:
  "find_duplicate_seal demo_backed_up \<noteq> None"
  using duplicate_seal_exact [of demo_backed_up]
  by (simp add: demo_backed_up_def shard_id_def upt_rec)

lemma demo_hex: "hex ''x'' = ''78''"
  by code_simp

theorem report_exact_witness:
  "report_ok (reconcile_report_of False [body_expectation demo_menv ''m'' ''s'' 1 ''x''] [demo_backed_up])"
  using report_exact [of False "[body_expectation demo_menv ''m'' ''s'' 1 ''x'']" "[demo_backed_up]"]
  by (simp add: body_expectation_def expected_key_def expected_triple_def archive_triple_def
      observe_def demo_backed_up_def demo_hex demo_menv_def demo_env_def env.defs)

lemma demo_verify_facts: "subdirs_of SESSIONS_DIR (files demo_world) = [''m'']"
  "dir_exists [SESSIONS_DIR] (files demo_world)" "\<not> dir_exists [META_DIR] (files demo_world)"
  "sha256 demo_menv x = x" "files (demo_world\<lparr>clock := n\<rparr>) = files demo_world" "clock (demo_world\<lparr>clock := n\<rparr>) = n"
  by (code_simp, code_simp, code_simp, simp_all add: demo_menv_def demo_env_def env.defs)

lemma demo_no_manifest: "map_of (files demo_world) (manifest_path m) = None"
  by (simp add: demo_world_def demo_shard_def shard_path_in_dir_def shard_seq_file_in_dir_def demo_dir_def
      session_shard_dir_def manifest_path_def META_DIR_def name_defs)

lemma demo_load: "\<exists>w'. load_expected_manifest demo_menv demo_world =
    (Inr [body_expectation demo_menv ''m'' ''s'' 1 ''x''], w')"
  using demo_stage_facts demo_verify_facts
  by (simp add: load_expected_manifest_def list_metas_def load_bodies_def is_dir_def add_session_def
      sealed_shard_entries_def concat_shards_in_dir_def io_map_err_def io_simps file_simps sort_entries_def
      env.defs Let_def)


end
