(* ===== verification/Remote_Err.thy ===== *)
theory Remote_Err
  imports Prelude
begin

text \<open>
  \<open>remote_err.rs\<close>: the kinds of remote failure told apart by the text of an error, and the host
  and port of an endpoint.
\<close>

datatype remote_error_kind = HostKeyChanged | HostUntrusted | AuthDenied | RemoteUnreachable | CredentialsMissingOrInvalid

fun remote_label :: "remote_error_kind \<Rightarrow> string" where
  "remote_label HostKeyChanged = ''host fingerprint changed (potential MITM attack)''"
| "remote_label HostUntrusted = ''host untrusted (strict checking)''"
| "remote_label AuthDenied = ''authentication denied''"
| "remote_label RemoteUnreachable = ''remote host unreachable''"
| "remote_label CredentialsMissingOrInvalid = ''credentials missing or invalid''"

fun remote_slug :: "remote_error_kind \<Rightarrow> string" where
  "remote_slug HostKeyChanged = ''host_key_changed''"
| "remote_slug HostUntrusted = ''host_untrusted''"
| "remote_slug AuthDenied = ''auth_denied''"
| "remote_slug RemoteUnreachable = ''unreachable''"
| "remote_slug CredentialsMissingOrInvalid = ''credentials_missing_or_invalid''"

text \<open>\<open>str::contains\<close>.\<close>

fun contains :: "string \<Rightarrow> string \<Rightarrow> bool" where
  "contains [] pat = (pat = [])"
| "contains (c # s) pat = (take (length pat) (c # s) = pat \<or> contains s pat)"

definition mentions :: "string list \<Rightarrow> string \<Rightarrow> bool" where
  "mentions pats err = list_ex (contains err) pats"

definition changed_texts :: "string list" where
  "changed_texts =
     [''REMOTE HOST IDENTIFICATION HAS CHANGED'', ''IT IS POSSIBLE THAT SOMEONE IS DOING SOMETHING NASTY'',
      ''POSSIBLE DNS SPOOFING DETECTED'', ''host key has just been changed'']"

definition untrusted_texts :: "string list" where
  "untrusted_texts =
     [''host key is known for'', ''Host key verification failed'', ''StrictHostKeyChecking'',
      ''authenticity of host'', ''can'' @ [CHR 0x27] @ ''t be established'']"

definition denied_texts :: "string list" where
  "denied_texts =
     [''Permission denied ('', ''Permission denied, please try again'', ''Authentication failed'',
      ''Authentication rejected'']"

definition unreachable_texts :: "string list" where
  "unreachable_texts =
     [''Connection refused'', ''Could not resolve hostname'', ''Name or service not known'', ''Connection timed out'',
      ''Operation timed out'', ''Network is unreachable'', ''No route to host'', ''Connection closed by remote host'',
      ''Connection reset by peer'']"

definition classify_error_str :: "string \<Rightarrow> remote_error_kind option" where
  "classify_error_str err =
     (if mentions changed_texts err then Some HostKeyChanged
      else if mentions untrusted_texts err then Some HostUntrusted
      else if mentions denied_texts err then Some AuthDenied
      else if mentions unreachable_texts err then Some RemoteUnreachable
      else if contains err ''failed to load signing credential''
        \<or> (contains err ''status: 400'' \<and> contains err ''service: s3'')
      then Some CredentialsMissingOrInvalid
      else None)"

section \<open>Endpoints\<close>

text \<open>\<open>str::parse::<u16>\<close>.\<close>

definition parse_u16 :: "string \<Rightarrow> nat option" where
  "parse_u16 s = (case parse_u64 s of Some n \<Rightarrow> if n < 2 ^ 16 then Some n else None | None \<Rightarrow> None)"

definition strip_prefix :: "string \<Rightarrow> string \<Rightarrow> string option" where
  "strip_prefix pre s = (if take (length pre) s = pre then Some (drop (length pre) s) else None)"

definition after_last :: "char \<Rightarrow> string \<Rightarrow> string" where
  "after_last c s = rev (takeWhile (\<lambda>x. x \<noteq> c) (rev s))"

definition split_first :: "char \<Rightarrow> string \<Rightarrow> (string \<times> string) option" where
  "split_first c s =
     (case dropWhile (\<lambda>x. x \<noteq> c) s of [] \<Rightarrow> None | _ # r \<Rightarrow> Some (takeWhile (\<lambda>x. x \<noteq> c) s, r))"

definition port_or_22 :: "string \<Rightarrow> nat" where
  "port_or_22 s = (case parse_u16 s of None \<Rightarrow> 22 | Some n \<Rightarrow> n)"

definition bracketed :: "string \<Rightarrow> (string \<times> nat) option" where
  "bracketed s =
     (case s of
        [] \<Rightarrow> None
      | c # rest \<Rightarrow>
          if c \<noteq> CHR ''['' then None
          else case split_first CHR '']'' rest of
              None \<Rightarrow> None
            | Some (ip, after) \<Rightarrow>
                Some (ip, case after of d # port \<Rightarrow> if d = CHR '':'' then port_or_22 port else 22 | [] \<Rightarrow> 22))"

definition host_of :: "string \<Rightarrow> string option \<times> nat" where
  "host_of s =
     (if s = [] then (None, 22)
      else case bracketed s of
          Some (ip, port) \<Rightarrow> (Some ip, port)
        | None \<Rightarrow>
      (case split_first CHR '':'' s of
          Some (host, port) \<Rightarrow> if host \<noteq> [] then (Some host, port_or_22 port) else (Some s, 22)
        | None \<Rightarrow> (Some s, 22)))"

definition endpoint_host_port :: "string \<Rightarrow> string option \<times> nat" where
  "endpoint_host_port endpoint =
     (let s = (case strip_prefix ''ssh://'' endpoint of
            Some r \<Rightarrow> r
          | None \<Rightarrow> (case strip_prefix ''sftp://'' endpoint of Some r \<Rightarrow> r | None \<Rightarrow> endpoint)) in
      host_of (after_last CHR ''@'' (takeWhile (\<lambda>x. x \<noteq> CHR ''/'') s)))"

section \<open>Properties\<close>

lemma contains_append: "contains (s @ pat @ t) pat"
proof (induction s)
  case Nil
  show ?case
  proof (cases "pat @ t")
    case (Cons a r)
    then have "take (length pat) (a # r) = pat" using append_eq_conv_conj by metis
    with Cons show ?thesis by simp
  qed simp
next
  case (Cons a s)
  then show ?case by simp
qed

text \<open>An error text that carries the alarm of a changed host key is never taken for the routine
  question of an unknown host, whatever stands before and after it: in particular not when the
  generic line on failed verification follows.\<close>

theorem changed_key_outranks:
  assumes "alarm \<in> set changed_texts"
  shows "classify_error_str (before @ alarm @ after) = Some HostKeyChanged"
  using assms contains_append [of before alarm after]
  by (auto simp: classify_error_str_def mentions_def list_ex_iff)

theorem changed_key_outranks_witness:
  "classify_error_str (''@ '' @ ''REMOTE HOST IDENTIFICATION HAS CHANGED'' @ ''! Host key verification failed.'') = Some HostKeyChanged"
  by (rule changed_key_outranks) (simp add: changed_texts_def)

lemma takeWhile_skip: "\<forall>x \<in> set s. P x \<Longrightarrow> \<not> P c \<Longrightarrow> takeWhile P (s @ c # t) = s"
  by (induction s) auto

lemma dropWhile_skip: "\<forall>x \<in> set s. P x \<Longrightarrow> \<not> P c \<Longrightarrow> dropWhile P (s @ c # t) = c # t"
  by (induction s) auto

lemma after_last_skip: "c \<notin> set t \<Longrightarrow> after_last c (s @ c # t) = t"
proof -
  assume "c \<notin> set t"
  then have "\<forall>x \<in> set (rev t). x \<noteq> c" by auto
  from takeWhile_skip [OF this, of c "rev s"] show ?thesis by (simp add: after_last_def)
qed

lemma digit_range: "c \<in> set (dec n) \<Longrightarrow> c \<noteq> CHR ''/'' \<and> c \<noteq> CHR ''@''"
  using dec_digits [of c n] by (auto simp: is_digit_def)

text \<open>An endpoint of scheme, user, host and port is read back into its host and port, for every port
  of 16 bits and every user name without a slash.\<close>

theorem endpoint_roundtrip:
  assumes "scheme \<in> {''ssh://'', ''sftp://''}" and "host \<noteq> []" and "hd host \<noteq> CHR ''[''"
    and "set host \<inter> {CHR ''/'', CHR ''@'', CHR '':''} = {}" and "CHR ''/'' \<notin> set user" and "port < 2 ^ 16"
  shows "endpoint_host_port (scheme @ user @ ''@'' @ host @ '':'' @ dec port @ ''/'' @ path) = (Some host, port)"
proof -
  let ?rest = "user @ ''@'' @ host @ '':'' @ dec port @ ''/'' @ path"
  have strip: "(case strip_prefix ''ssh://'' (scheme @ ?rest) of Some r \<Rightarrow> r
      | None \<Rightarrow> (case strip_prefix ''sftp://'' (scheme @ ?rest) of Some r \<Rightarrow> r | None \<Rightarrow> scheme @ ?rest)) = ?rest"
    using assms(1) by (auto simp: strip_prefix_def)
  have "CHR ''/'' \<notin> set (user @ ''@'' @ host @ '':'' @ dec port)"
    using assms(4,5) digit_range [of "CHR ''/''" port] by auto
  then have "\<forall>x \<in> set (user @ ''@'' @ host @ '':'' @ dec port). x \<noteq> CHR ''/''" by metis
  then have path: "takeWhile (\<lambda>x. x \<noteq> CHR ''/'') ?rest = user @ ''@'' @ host @ '':'' @ dec port"
    using takeWhile_skip [of "user @ ''@'' @ host @ '':'' @ dec port" "\<lambda>x. x \<noteq> CHR ''/''" "CHR ''/''" path] by simp
  have "CHR ''@'' \<notin> set (host @ '':'' @ dec port)"
    using assms(4) digit_range [of "CHR ''@''" port] by auto
  then have user: "after_last CHR ''@'' (user @ ''@'' @ host @ '':'' @ dec port) = host @ '':'' @ dec port"
    using after_last_skip [of "CHR ''@''" "host @ '':'' @ dec port" user] by simp
  have nob: "bracketed (host @ '':'' @ dec port) = None"
    using assms(2,3) by (cases host) (auto simp: bracketed_def)
  have colon: "\<forall>x \<in> set host. x \<noteq> CHR '':''" using assms(4) by auto
  have "split_first CHR '':'' (host @ '':'' @ dec port) = Some (host, dec port)"
    using takeWhile_skip [OF colon, of "CHR '':''" "dec port"] dropWhile_skip [OF colon, of "CHR '':''" "dec port"]
    by (simp add: split_first_def)
  moreover have "parse_u16 (dec port) = Some port"
    using assms(6) parse_u64_dec [of port] by (simp add: parse_u16_def u64_max_def)
  ultimately show ?thesis
    using assms(2) nob unfolding endpoint_host_port_def Let_def strip path user
    by (simp add: host_of_def port_or_22_def)
qed

theorem endpoint_roundtrip_witness:
  "endpoint_host_port (''ssh://'' @ ''u'' @ ''@'' @ ''h'' @ '':'' @ dec 2222 @ ''/'' @ ''p'') = (Some ''h'', 2222)"
  by (rule endpoint_roundtrip) simp_all

end
