(* ===== verification/Reclaim.thy ===== *)
theory Reclaim
  imports Verify State_Files Remote_Err Opencode_Records
begin

text \<open>
  \<open>stagereclaim.rs\<close>: the deletion of bodies from the stage after every destination that must
  prove has shown, from its own archive, the digest triple of every session. With it the
  increment maps of \<open>collect.rs\<close> that have to be in place before a body goes. The key files, the
  archives of the destinations and the presence of a mirror copy are parameters, and so is what
  other processes do to the stage between the proof and a deletion (\<open>race\<close>). The texts of
  errors are kept where the code inspects them.
\<close>

section \<open>The environment\<close>

record session_read =
  sr_machine :: string
  sr_session_id :: string
  sr_shard_count :: nat
  sr_concat_bytes :: nat
  sr_sha256 :: string

record machine_merge =
  mm_snapshot_id :: string
  mm_sessions :: "session_read list"

record read_all_report =
  ra_machines :: "machine_merge list"
  ra_warnings :: "string list"

definition read_complete :: "read_all_report \<Rightarrow> bool" where
  "read_complete rep \<longleftrightarrow> ra_warnings rep = []"

record map_state =
  om_version :: nat
  om_session_id :: string
  om_records :: "(string \<times> string) list"

record 'c named_store =
  ns_name :: string
  ns_cfg :: 'c
  ns_health :: destination_health

record mirror_holdback =
  mh_mirror_of :: string
  mh_mirror_root :: path
  mh_state :: "mirror_state state_read"

record ('c, 'k) renv = menv +
  load_key_file :: "'c \<Rightarrow> string + 'k"
  read_latest_per_machine :: "'c \<Rightarrow> 'k \<Rightarrow> string + read_all_report"
  mirror_on_disk :: "path \<Rightarrow> bool"
  json :: codec
  enc_map :: "map_state \<Rightarrow> bytes option"
  dec_map :: "bytes \<Rightarrow> map_state option"
  race :: "string \<Rightarrow> string \<Rightarrow> fs \<Rightarrow> fs"

abbreviation mbase :: "('c, 'k) renv \<Rightarrow> menv" where
  "mbase e \<equiv> menv.truncate e"

record candidate =
  cd_machine :: string
  cd_session_id :: string
  cd_shard_count :: nat
  cd_concat_bytes :: nat
  cd_sha256 :: string

datatype unresolved = MirrorOfEmpty | MirrorOfUndeclared string | MirrorOfNotConsulted string string

datatype blocked_kind =
    Unreachable "remote_error_kind option" string
  | PartialRead string
  | SessionNotHeld
  | TripleMismatch
  | NotMirrored
  | MirrorUnresolved unresolved

record blocked =
  bl_destination :: string
  bl_kind :: blocked_kind
  bl_sessions :: nat
  bl_bytes :: nat

record proof_state =
  dp_name :: string
  dp_health :: destination_health
  dp_role :: string

record reclaimed =
  rm_machine :: string
  rm_session_id :: string
  rm_shard_count :: nat
  rm_bytes :: nat

record reclaim_report =
  rc_destinations :: "string list"
  rc_states :: "proof_state list"
  rc_candidates :: "candidate list"
  rc_already_reclaimed :: nat
  rc_no_healthy_prover :: bool
  rc_blocked :: "blocked list"
  rc_reclaimed :: "reclaimed list"
  rc_map_omitted :: "(string \<times> string) list"
  rc_candidate_bytes :: nat

definition report_blocked :: "reclaim_report \<Rightarrow> bool" where
  "report_blocked rep \<longleftrightarrow> rc_blocked rep \<noteq> [] \<or> rc_no_healthy_prover rep"

definition HELD_BACK_KIND :: string where "HELD_BACK_KIND = ''not-mirrored''"
definition UNRESOLVED_KIND :: string where "UNRESOLVED_KIND = ''mirror-unresolved''"

fun block_kind_word :: "blocked_kind \<Rightarrow> string" where
  "block_kind_word (Unreachable _ _) = ''unreachable''"
| "block_kind_word (PartialRead _) = ''partial-read''"
| "block_kind_word SessionNotHeld = ''not-held''"
| "block_kind_word TripleMismatch = ''triple-mismatch''"
| "block_kind_word NotMirrored = HELD_BACK_KIND"
| "block_kind_word (MirrorUnresolved _) = UNRESOLVED_KIND"

fun block_error_kind :: "blocked_kind \<Rightarrow> string option" where
  "block_error_kind (Unreachable kind _) = map_option remote_slug kind"
| "block_error_kind _ = None"

definition blocks_as_state :: "blocked list \<Rightarrow> reclaim_block list" where
  "blocks_as_state = map (\<lambda>b.
     \<lparr>rb_destination = bl_destination b, rb_kind = block_kind_word (bl_kind b),
      rb_error_kind = block_error_kind (bl_kind b), rb_sessions = bl_sessions b, rb_bytes = bl_bytes b\<rparr>)"

definition destination_states_as_state :: "'c named_store list \<Rightarrow> reclaim_destination_health list" where
  "destination_states_as_state = map (\<lambda>d.
     \<lparr>rd_destination = ns_name d, rd_health = health_slug (ns_health d), rd_role = proof_role_word (ns_health d)\<rparr>)"

section \<open>Consulting the destinations\<close>

type_synonym answers = "((string \<times> string) \<times> candidate) list"

datatype destination_read =
    ReadReady answers "(string \<times> string) list"
  | ReadUnreachable "remote_error_kind option" string
  | ReadPartial string

fun join_with :: "string \<Rightarrow> string list \<Rightarrow> string" where
  "join_with sep [] = []"
| "join_with sep [s] = s"
| "join_with sep (s # ss) = s @ sep @ join_with sep ss"

definition candidate_of_read :: "session_read \<Rightarrow> candidate" where
  "candidate_of_read s =
     \<lparr>cd_machine = sr_machine s, cd_session_id = sr_session_id s, cd_shard_count = sr_shard_count s,
      cd_concat_bytes = sr_concat_bytes s, cd_sha256 = sr_sha256 s\<rparr>"

text \<open>The sessions of a report with the snapshot they were read from, in the order of the loops.\<close>

definition read_sessions :: "read_all_report \<Rightarrow> (string \<times> session_read) list" where
  "read_sessions rep = concat (map (\<lambda>m. map (Pair (mm_snapshot_id m)) (mm_sessions m)) (ra_machines rep))"

definition answer_map :: "read_all_report \<Rightarrow> answers" where
  "answer_map rep =
     fold (\<lambda>(_, s). bt_insert (sr_machine s, sr_session_id s) (candidate_of_read s)) (read_sessions rep) []"

definition snapshot_map :: "read_all_report \<Rightarrow> (string \<times> string) list" where
  "snapshot_map rep = fold (\<lambda>(snap, s). bt_insert (sr_machine s) snap) (read_sessions rep) []"

definition consult_destination :: "('c, 'k) renv \<Rightarrow> 'c named_store \<Rightarrow> 'k \<Rightarrow> destination_read" where
  "consult_destination e dest key =
     (case read_latest_per_machine e (ns_cfg dest) key of
        Inl error \<Rightarrow> ReadUnreachable (classify_error_str error) error
      | Inr rep \<Rightarrow>
          if \<not> read_complete rep then ReadPartial (join_with ''; '' (ra_warnings rep))
          else ReadReady (answer_map rep) (snapshot_map rep))"

type_synonym 'c consulted = "'c named_store \<times> answers \<times> (string \<times> string) list"

definition consult :: "('c, 'k) renv \<Rightarrow> nat \<Rightarrow> nat \<Rightarrow> 'c named_store \<Rightarrow> blocked + 'c consulted" where
  "consult e sessions weight dest =
     (let block = (\<lambda>kind. Inl \<lparr>bl_destination = ns_name dest, bl_kind = kind, bl_sessions = sessions, bl_bytes = weight\<rparr>) in
      case load_key_file e (ns_cfg dest) of
        Inl x \<Rightarrow> (let error = ''cannot read masterkey: '' @ x in block (Unreachable (classify_error_str error) error))
      | Inr key \<Rightarrow>
          (case consult_destination e dest key of
             ReadReady answers snapshots \<Rightarrow> Inr (dest, answers, snapshots)
           | ReadUnreachable kind error \<Rightarrow> block (Unreachable kind error)
           | ReadPartial detail \<Rightarrow> block (PartialRead detail)))"

fun consult_all :: "('c, 'k) renv \<Rightarrow> nat \<Rightarrow> nat \<Rightarrow> 'c named_store list \<Rightarrow> blocked list \<times> 'c consulted list" where
  "consult_all e sessions weight [] = ([], [])"
| "consult_all e sessions weight (d # ds) =
     (let (bs, rs) = consult_all e sessions weight ds in
      case consult e sessions weight d of Inl b \<Rightarrow> (b # bs, rs) | Inr r \<Rightarrow> (bs, r # rs))"

section \<open>The proof per session\<close>

type_synonym held_map = "(string \<times> nat \<times> nat \<times> blocked_kind) list"

definition note_held :: "string \<Rightarrow> nat \<Rightarrow> blocked_kind \<Rightarrow> held_map \<Rightarrow> held_map" where
  "note_held name body kind h =
     (case bt_get h name of
        None \<Rightarrow> bt_insert name (1, body, kind) h
      | Some (n, b, k) \<Rightarrow> bt_insert name (n + 1, b + body, k) h)"

definition same_triple :: "candidate \<Rightarrow> candidate \<Rightarrow> bool" where
  "same_triple a b \<longleftrightarrow> cd_shard_count a = cd_shard_count b \<and> cd_concat_bytes a = cd_concat_bytes b \<and> cd_sha256 a = cd_sha256 b"

definition cand_key :: "candidate \<Rightarrow> string \<times> string" where
  "cand_key c = (cd_machine c, cd_session_id c)"

definition check_candidate :: "candidate \<Rightarrow> 'c consulted \<Rightarrow> held_map \<Rightarrow> held_map" where
  "check_candidate cand r h =
     (case r of (dest, answers, _) \<Rightarrow>
        case bt_get answers (cand_key cand) of
          None \<Rightarrow> note_held (ns_name dest) (cd_concat_bytes cand) SessionNotHeld h
        | Some obs \<Rightarrow>
            if same_triple obs cand then h
            else note_held (ns_name dest) (cd_concat_bytes cand) TripleMismatch h)"

definition held_back :: "candidate list \<Rightarrow> 'c consulted list \<Rightarrow> held_map" where
  "held_back cands ready = fold (\<lambda>c. fold (check_candidate c) ready) cands []"

definition held_blocks :: "held_map \<Rightarrow> blocked list" where
  "held_blocks = map (\<lambda>(name, n, b, kind).
     \<lparr>bl_destination = name, bl_kind = kind, bl_sessions = n, bl_bytes = b\<rparr>)"

section \<open>The mirror leg\<close>

definition sat_add :: "nat \<Rightarrow> nat \<Rightarrow> nat" where
  "sat_add a b = min u64_max (a + b)"

definition mirror_detail :: "'c named_store list \<Rightarrow> string \<Rightarrow> unresolved" where
  "mirror_detail dests name =
     (case find (\<lambda>d. ns_name d = name) dests of
        None \<Rightarrow> if name = [] then MirrorOfEmpty else MirrorOfUndeclared name
      | Some d \<Rightarrow> MirrorOfNotConsulted name (proof_role_word (ns_health d)))"

definition mirror_covers :: "('c, 'k) renv \<Rightarrow> mirror_holdback \<Rightarrow> (string \<times> string) list \<Rightarrow> candidate \<Rightarrow> bool" where
  "mirror_covers e h snapshots cand \<longleftrightarrow>
     mirror_on_disk e (mh_mirror_root h) \<and>
     (case bt_get snapshots (cd_machine cand) of
        None \<Rightarrow> False
      | Some snap \<Rightarrow> snapshot_covered (mh_state h) (mh_mirror_of h) snap)"

definition mirror_blocks ::
  "('c, 'k) renv \<Rightarrow> 'c named_store list \<Rightarrow> 'c consulted list \<Rightarrow> candidate list \<Rightarrow> nat \<Rightarrow> mirror_holdback option \<Rightarrow> blocked list" where
  "mirror_blocks e dests ready cands weight mirror =
     (case mirror of
        None \<Rightarrow> []
      | Some h \<Rightarrow>
          (case find (\<lambda>(d, _). ns_name d = mh_mirror_of h) ready of
             None \<Rightarrow>
               if cands = [] then []
               else [\<lparr>bl_destination = mh_mirror_of h, bl_kind = MirrorUnresolved (mirror_detail dests (mh_mirror_of h)),
                      bl_sessions = length cands, bl_bytes = weight\<rparr>]
           | Some (d, _, snapshots) \<Rightarrow>
               (let held = filter (\<lambda>c. \<not> mirror_covers e h snapshots c) cands in
                if held = [] then []
                else [\<lparr>bl_destination = ns_name d, bl_kind = NotMirrored, bl_sessions = length held,
                       bl_bytes = fold (\<lambda>c b. sat_add b (cd_concat_bytes c)) held 0\<rparr>])))"

text \<open>The whole proof: whether no destination was left to ask, and what blocks the deletion.\<close>

definition prove ::
  "('c, 'k) renv \<Rightarrow> 'c named_store list \<Rightarrow> mirror_holdback option \<Rightarrow> candidate list \<Rightarrow> nat \<Rightarrow> bool \<times> blocked list" where
  "prove e dests mirror cands weight =
     (if dests = []
      then (False, [\<lparr>bl_destination = ''<none>'',
             bl_kind = Unreachable None ''no destination declared; nothing can be proven against an empty set'',
             bl_sessions = length cands, bl_bytes = weight\<rparr>])
      else
        let must_prove = filter (\<lambda>d. \<not> is_degraded (ns_health d)) dests in
        if must_prove = [] then (True, [])
        else
          let (blocks, ready) = consult_all e (length cands) weight must_prove in
          if blocks \<noteq> [] then (False, blocks)
          else
            let held = held_back cands ready in
            if held \<noteq> [] then (False, held_blocks held)
            else (False, mirror_blocks e dests ready cands weight mirror))"

section \<open>Increment maps\<close>

datatype fold_error =
    FoldEntries stage_error
  | FoldBadId string
  | FoldRead path
  | FoldAssembly assembly_error

datatype reclaim_error =
    SurveyFailed manifest_error
  | UnsafeMachine string
  | NothingToFold string
  | MapFold string fold_error
  | MapSave path
  | ManifestFailed string manifest_error
  | SurveyedSetMissing string string
  | RemovalFailed path
  | ListingFailed path

definition OPENCODE_RECORD_MAP_DIR :: string where "OPENCODE_RECORD_MAP_DIR = ''opencode-session-maps''"
definition OPENCODE_RECORD_MAP_VERSION :: nat where "OPENCODE_RECORD_MAP_VERSION = 1"

definition safe_machine_id :: "string \<Rightarrow> bool" where
  "safe_machine_id machine \<longleftrightarrow>
     machine \<noteq> [] \<and> machine \<noteq> ''.'' \<and> machine \<noteq> ''..'' \<and>
     CHR ''/'' \<notin> set machine \<and> CHR 0x5C \<notin> set machine \<and> CHR 0x00 \<notin> set machine"

definition opencode_record_map_meta_path :: "('x env_scheme) \<Rightarrow> string \<Rightarrow> string \<Rightarrow> reclaim_error + path" where
  "opencode_record_map_meta_path e machine session_id =
     (if \<not> safe_machine_id machine then Inl (UnsafeMachine machine)
      else Inr [META_DIR, machine, OPENCODE_RECORD_MAP_DIR, hex (sha256 e session_id) @ ''.json''])"

definition load_opencode_record_map ::
  "('c, 'k) renv \<Rightarrow> path \<Rightarrow> string \<Rightarrow> (world, reclaim_error, (string \<times> string) list option) io" where
  "load_opencode_record_map e p expected w =
     (Inr (if fault e (clock w) then None
           else Option.bind (map_of (files w) p) (\<lambda>raw.
                Option.bind (dec_map e raw) (\<lambda>st.
                if om_version st \<noteq> OPENCODE_RECORD_MAP_VERSION \<or> om_session_id st \<noteq> expected then None
                else Some (om_records st)))),
      w\<lparr>clock := Suc (clock w)\<rparr>)"

definition save_opencode_record_map ::
  "('c, 'k) renv \<Rightarrow> path \<Rightarrow> string \<Rightarrow> (string \<times> string) list \<Rightarrow> (world, reclaim_error, unit) io" where
  "save_opencode_record_map e p session_id entries =
     io_bind (load_opencode_record_map e p session_id) (\<lambda>existing.
     if existing = Some entries then io_return ()
     else
       let tmp = butlast p @ [last p @ ''.tmp''] in
       io_bind (touch e (MapSave p)) (\<lambda>_.
       case enc_map e \<lparr>om_version = OPENCODE_RECORD_MAP_VERSION, om_session_id = session_id, om_records = entries\<rparr> of
         None \<Rightarrow> io_fail (MapSave p)
       | Some raw \<Rightarrow>
           io_bind (create_file e (MapSave p) tmp) (\<lambda>_.
           io_bind (write_file e (MapSave p) tmp raw) (\<lambda>_.
           io_bind (rename_file e (MapSave p) tmp p) (\<lambda>_.
           touch e (MapSave p))))))"

fun feed_shards :: "('c, 'k) renv \<Rightarrow> (nat \<times> path) list \<Rightarrow> assembly \<Rightarrow> (world, fold_error, assembly) io" where
  "feed_shards e [] a = io_return a"
| "feed_shards e ((_, p) # es) a =
     io_bind (read_file e (FoldRead p) p) (\<lambda>body.
     case feed_shard_body (json e) body a of
       Inl x \<Rightarrow> io_fail (FoldAssembly x)
     | Inr a1 \<Rightarrow> feed_shards e es a1)"

definition fold_opencode_staged_map ::
  "('c, 'k) renv \<Rightarrow> string \<Rightarrow> string \<Rightarrow> (world, fold_error, (string \<times> string) list option) io" where
  "fold_opencode_staged_map e machine session_id =
     io_bind (io_map_err FoldEntries (sealed_shard_entries (base e) (session_shard_dir machine session_id))) (\<lambda>es.
     let shards = sort_entries es in
     if shards = [] then io_return None
     else case native_session_id session_id of
         None \<Rightarrow> io_fail (FoldBadId session_id)
       | Some own \<Rightarrow>
           io_bind (feed_shards e shards (for_session own)) (\<lambda>a. io_return (Some (live_map (json e) a))))"

fun read_bodies :: "('c, 'k) renv \<Rightarrow> (nat \<times> path) list \<Rightarrow> (world, unit, bytes list) io" where
  "read_bodies e [] = io_return []"
| "read_bodies e ((_, p) # es) =
     io_bind (read_file e () p) (\<lambda>b. io_bind (read_bodies e es) (\<lambda>bs. io_return (b # bs)))"

definition staged_body_family :: "('c, 'k) renv \<Rightarrow> string \<Rightarrow> string \<Rightarrow> (world, unit, body_family) io" where
  "staged_body_family e machine session_id =
     io_bind (io_map_err (\<lambda>_. ()) (sealed_shard_entries (base e) (session_shard_dir machine session_id))) (\<lambda>es.
     io_bind (read_bodies e (sort_entries es)) (\<lambda>bodies. io_return (classify_session_body (json e) bodies)))"

text \<open>One turn of the pre-pass: \<open>True\<close> when the session is passed over as one that owes no map.\<close>

definition map_turn :: "('c, 'k) renv \<Rightarrow> candidate \<Rightarrow> path \<Rightarrow> (world, reclaim_error, bool) io" where
  "map_turn e cand p w =
     (case fold_opencode_staged_map e (cd_machine cand) (cd_session_id cand) w of
        (Inr (Some entries), w1) \<Rightarrow>
          io_bind (save_opencode_record_map e p (cd_session_id cand) entries) (\<lambda>_. io_return False) w1
      | (Inr None, w1) \<Rightarrow> (Inl (NothingToFold (cd_session_id cand)), w1)
      | (Inl x, w1) \<Rightarrow>
          (case staged_body_family e (cd_machine cand) (cd_session_id cand) w1 of
             (Inr Other, w2) \<Rightarrow> (Inr True, w2)
           | (_, w2) \<Rightarrow> (Inl (MapFold (cd_session_id cand) x), w2)))"

definition ensure_map :: "('c, 'k) renv \<Rightarrow> candidate \<Rightarrow> (world, reclaim_error, bool) io" where
  "ensure_map e cand =
     (if take 9 (cd_session_id cand) \<noteq> ''opencode.'' then io_return False
      else case opencode_record_map_meta_path e (cd_machine cand) (cd_session_id cand) of
          Inl x \<Rightarrow> io_fail x
        | Inr p \<Rightarrow> io_bind (file_exists e p) (\<lambda>there. if there then io_return False else map_turn e cand p))"

fun ensure_maps :: "('c, 'k) renv \<Rightarrow> candidate list \<Rightarrow> (world, reclaim_error, (string \<times> string) list) io" where
  "ensure_maps e [] = io_return []"
| "ensure_maps e (c # cs) =
     io_bind (ensure_map e c) (\<lambda>omitted.
     io_bind (ensure_maps e cs) (\<lambda>rest. io_return (if omitted then cand_key c # rest else rest)))"

section \<open>The deletion\<close>

definition carry_start :: "session_manifest \<Rightarrow> (string \<times> session_manifest) list \<Rightarrow> session_manifest" where
  "carry_start row merged =
     (if sm_captured_start row = None
      then case bt_get merged (sm_session_id row) of
          Some stored \<Rightarrow> row\<lparr>sm_captured_start := sm_captured_start stored\<rparr>
        | None \<Rightarrow> row
      else row)"

definition merge_rows :: "session_manifest list \<Rightarrow> session_manifest list \<Rightarrow> session_manifest list" where
  "merge_rows stored fresh =
     (let merged = fold (\<lambda>row. bt_insert (sm_session_id row) row) stored [] in
      map snd (fold (\<lambda>row m. if sm_shard_count row > 0 then bt_insert (sm_session_id row) (carry_start row m) m else m) fresh merged))"

definition refresh_manifest :: "menv \<Rightarrow> string \<Rightarrow> session_manifest list \<Rightarrow> (world, manifest_error, unit) io" where
  "refresh_manifest e machine fresh =
     io_bind (read_manifest e machine) (\<lambda>st.
     write_manifest e machine (merge_rows (case st of Loaded rows \<Rightarrow> rows | _ \<Rightarrow> []) fresh))"

text \<open>A file that is already gone is not counted and no error.\<close>

definition remove_counted :: "('x schedule_scheme) \<Rightarrow> path \<Rightarrow> (world, reclaim_error, nat) io" where
  "remove_counted e p w =
     (if fault e (clock w) then (Inl (RemovalFailed p), w\<lparr>clock := Suc (clock w)\<rparr>)
      else if map_of (files w) p = None then (Inr 0, w\<lparr>clock := Suc (clock w)\<rparr>)
      else (Inr 1, w\<lparr>files := AList.delete p (files w), clock := Suc (clock w)\<rparr>))"

fun remove_proven :: "('x schedule_scheme) \<Rightarrow> nat list \<Rightarrow> (nat \<times> path) list \<Rightarrow> (world, reclaim_error, nat \<times> nat) io" where
  "remove_proven e proven [] = io_return (0, 0)"
| "remove_proven e proven ((seq, p) # es) =
     (if seq \<notin> set proven
      then io_bind (remove_proven e proven es) (\<lambda>(removed, survivors). io_return (removed, Suc survivors))
      else io_bind (remove_counted e p) (\<lambda>n.
           io_bind (remove_proven e proven es) (\<lambda>(removed, survivors). io_return (n + removed, survivors))))"

definition body_sidecars :: "path \<Rightarrow> fs \<Rightarrow> path list" where
  "body_sidecars dir f =
     filter (\<lambda>p. butlast p = dir \<and> p \<noteq> [] \<and> (is_extra_file (last p) \<or> last p = FACTS_FILE)) (map fst f)"

text \<open>
  The entries of the directory that are directories are removed when empty; in a tree of files
  that changes nothing. Listing may fail at any entry.
\<close>

definition reclaim_session_body ::
  "('x env_scheme) \<Rightarrow> string \<Rightarrow> string \<Rightarrow> nat list \<Rightarrow> (world, reclaim_error, nat) io" where
  "reclaim_session_body e machine session_id proven =
     (let dir = session_shard_dir machine session_id in
      io_bind (io_map_err (\<lambda>_. ListingFailed dir) (sealed_shard_entries (base e) dir)) (\<lambda>es.
      io_bind (remove_proven e proven es) (\<lambda>(removed, survivors).
      if survivors > 0 then io_return removed
      else io_bind (touch e (ListingFailed dir)) (\<lambda>_ w.
           io_bind (io_for (body_sidecars dir (files w)) (\<lambda>p.
             io_bind (touch e (ListingFailed dir)) (\<lambda>_. remove_file e (RemovalFailed p) p)))
             (\<lambda>_. io_return removed) w))))"

definition present_shard_seqs :: "('x env_scheme) \<Rightarrow> string \<Rightarrow> string \<Rightarrow> (world, stage_error, nat list) io" where
  "present_shard_seqs e machine session_id =
     io_bind (sealed_shard_entries (base e) (session_shard_dir machine session_id)) (\<lambda>es. io_return (map fst es))"

section \<open>The run\<close>

definition other_processes :: "('c, 'k) renv \<Rightarrow> candidate \<Rightarrow> (world, reclaim_error, unit) io" where
  "other_processes e cand w = (Inr (), w\<lparr>files := race e (cd_machine cand) (cd_session_id cand) (files w)\<rparr>)"

type_synonym proven_map = "((string \<times> string) \<times> nat list) list"

definition reclaim_candidate :: "('c, 'k) renv \<Rightarrow> proven_map \<Rightarrow> candidate \<Rightarrow> (world, reclaim_error, reclaimed) io" where
  "reclaim_candidate e proven_seqs cand =
     io_bind (other_processes e cand) (\<lambda>_.
     case bt_get proven_seqs (cand_key cand) of
       None \<Rightarrow> io_fail (SurveyedSetMissing (cd_session_id cand) (cd_machine cand))
     | Some proven \<Rightarrow>
         io_bind (reclaim_session_body e (cd_machine cand) (cd_session_id cand) proven) (\<lambda>removed.
         io_return \<lparr>rm_machine = cd_machine cand, rm_session_id = cd_session_id cand,
                    rm_shard_count = removed, rm_bytes = cd_concat_bytes cand\<rparr>))"

definition by_machine :: "candidate list \<Rightarrow> (string \<times> candidate list) list" where
  "by_machine cands = fold (\<lambda>c m. bt_insert (cd_machine c)
     ((case bt_get m (cd_machine c) of None \<Rightarrow> [] | Some cs \<Rightarrow> cs) @ [c]) m) cands []"

definition reclaim_machine :: "('c, 'k) renv \<Rightarrow> proven_map \<Rightarrow> string \<times> candidate list \<Rightarrow> (world, reclaim_error, reclaimed list) io" where
  "reclaim_machine e proven_seqs mc =
     (case mc of (machine, cands) \<Rightarrow>
        io_bind (io_map_err (ManifestFailed machine) (generate_manifest (mbase e) machine)) (\<lambda>fresh.
        io_bind (io_map_err (ManifestFailed machine) (refresh_manifest (mbase e) machine fresh)) (\<lambda>_.
        io_traverse (reclaim_candidate e proven_seqs) cands)))"

definition delete_all :: "('c, 'k) renv \<Rightarrow> proven_map \<Rightarrow> candidate list \<Rightarrow> (world, reclaim_error, reclaimed list) io" where
  "delete_all e proven_seqs cands =
     io_bind (io_traverse (reclaim_machine e proven_seqs) (by_machine cands)) (\<lambda>rss. io_return (concat rss))"

definition candidate_of :: "surveyed_session \<Rightarrow> candidate" where
  "candidate_of sv =
     (let x = sv_expectation sv in
      \<lparr>cd_machine = se_machine x, cd_session_id = se_session_id x, cd_shard_count = se_shard_count x,
       cd_concat_bytes = se_concat_bytes x, cd_sha256 = se_sha256 x\<rparr>)"

definition with_body :: "surveyed_session list \<Rightarrow> surveyed_session list" where
  "with_body svs = filter (\<lambda>sv. se_shard_count (sv_expectation sv) \<noteq> 0) svs"

definition proven_map_of :: "surveyed_session list \<Rightarrow> proven_map" where
  "proven_map_of svs =
     fold (\<lambda>sv. bt_insert (expected_key (sv_expectation sv)) (sv_sequences sv)) (with_body svs) []"

definition total_bytes :: "candidate list \<Rightarrow> nat" where
  "total_bytes cands = fold (\<lambda>c b. sat_add b (cd_concat_bytes c)) cands 0"

text \<open>Summaries that cannot be read count no session as reclaimed.\<close>

definition count_reclaimed :: "('c, 'k) renv \<Rightarrow> candidate list \<Rightarrow> (world, reclaim_error, nat) io" where
  "count_reclaimed e cands w =
     (case stored_manifest_rows (mbase e) w of
        (Inr st, w1) \<Rightarrow> (Inr (length (filter (\<lambda>r. row_key r \<notin> set (map cand_key cands)) (stored_rows st))), w1)
      | (Inl _, w1) \<Rightarrow> (Inr 0, w1))"

definition proof_states :: "'c named_store list \<Rightarrow> proof_state list" where
  "proof_states = map (\<lambda>d. \<lparr>dp_name = ns_name d, dp_health = ns_health d, dp_role = proof_role_word (ns_health d)\<rparr>)"

definition reclaim_stage ::
  "('c, 'k) renv \<Rightarrow> 'c named_store list \<Rightarrow> bool \<Rightarrow> mirror_holdback option \<Rightarrow> (world, reclaim_error, reclaim_report) io" where
  "reclaim_stage e dests apply_it mirror =
     io_bind (io_map_err SurveyFailed (expected_manifest_surveyed (mbase e))) (\<lambda>svs.
     let cands = map candidate_of (with_body svs); weight = total_bytes cands in
     io_bind (count_reclaimed e cands) (\<lambda>already.
     let rep = \<lparr>rc_destinations = map ns_name dests, rc_states = proof_states dests, rc_candidates = cands,
                rc_already_reclaimed = already, rc_no_healthy_prover = False, rc_blocked = [], rc_reclaimed = [],
                rc_map_omitted = [], rc_candidate_bytes = weight\<rparr> in
     if cands = [] then io_return rep
     else
       let (alone, blocks) = prove e dests mirror cands weight;
           rep = rep\<lparr>rc_no_healthy_prover := alone, rc_blocked := blocks\<rparr> in
       if report_blocked rep \<or> \<not> apply_it then io_return rep
       else io_bind (ensure_maps e cands) (\<lambda>omitted.
            io_bind (delete_all e (proven_map_of svs) cands) (\<lambda>gone.
            io_return (rep\<lparr>rc_reclaimed := gone, rc_map_omitted := omitted\<rparr>)))))"

end
