(* ===== verification/File_Relation.thy ===== *)
theory File_Relation
  imports Prelude
begin

text \<open>
  What an operation can change, as a relation on the files before and after it that holds on every exit,
  under every fault schedule. The components instantiate it: nothing changes, nothing outside a set of
  paths changes, nothing is written, a mirror only gains verified files.
\<close>

section \<open>Operations that respect a relation on the files\<close>

text \<open>On every exit the files before and after are related.\<close>

definition obeys :: "(fs \<Rightarrow> fs \<Rightarrow> bool) \<Rightarrow> (world, 'e, 'a) io \<Rightarrow> bool" where
  "obeys R m \<longleftrightarrow> (\<forall>w. R (files w) (files (snd (m w))))"

lemma obeysD: "obeys R m \<Longrightarrow> m w = (r, w') \<Longrightarrow> R (files w) (files w')"
  unfolding obeys_def by (metis snd_conv)

locale file_relation =
  fixes R :: "fs \<Rightarrow> fs \<Rightarrow> bool"
  assumes refl: "R f f" and trans: "R f g \<Longrightarrow> R g h \<Longrightarrow> R f h"
begin

lemma simple: "obeys R (io_return a)" "obeys R (io_fail x)" "obeys R (touch e x)"
  by (simp_all add: obeys_def io_return_def io_fail_def file_simps refl)

lemma bind:
  assumes "obeys R m" "\<And>a. obeys R (k a)"
  shows "obeys R (io_bind m k)"
proof -
  have "R (files w) (files (snd (io_bind m k w)))" for w
  proof (cases "m w")
    case (Pair r w1)
    with obeysD [OF assms(1)] have r1: "R (files w) (files w1)" by blast
    show ?thesis
    proof (cases r)
      case (Inr a)
      have "R (files w1) (files (snd (k a w1)))" using assms(2) [of a] by (simp add: obeys_def)
      with Pair Inr trans [OF r1] show ?thesis by (simp add: io_bind_def)
    qed (use Pair r1 in \<open>simp add: io_bind_def\<close>)
  qed
  then show ?thesis by (simp add: obeys_def)
qed

lemma map_err: "obeys R m \<Longrightarrow> obeys R (io_map_err g m)"
proof -
  have "files (snd (io_map_err g m w)) = files (snd (m w))" for w
    by (simp add: io_map_err_def split: prod.splits sum.splits)
  then show "obeys R m \<Longrightarrow> obeys R (io_map_err g m)" by (simp add: obeys_def)
qed

lemma for_each: "(\<And>x. x \<in> set xs \<Longrightarrow> obeys R (f x)) \<Longrightarrow> obeys R (io_for xs f)"
  by (induction xs) (auto intro!: simple bind)

lemma traverse: "(\<And>x. x \<in> set xs \<Longrightarrow> obeys R (f x)) \<Longrightarrow> obeys R (io_traverse f xs)"
  by (induction xs) (auto intro!: simple bind)

text \<open>An operation that looks at the files before it acts.\<close>

lemma look: "(\<And>f. obeys R (g f)) \<Longrightarrow> obeys R (\<lambda>w. g (files w) w)"
  by (auto simp: obeys_def)

end

section \<open>Operations that only read\<close>

abbreviation readonly :: "(world, 'e, 'a) io \<Rightarrow> bool" where
  "readonly \<equiv> obeys (\<lambda>f g. g = f)"

lemmas readonly_def = obeys_def [where R = "\<lambda>f g. g = f"]

named_theorems reads \<open>operations that leave the files alone\<close>

interpretation kept: file_relation "\<lambda>f g. g = f"
  by unfold_locales simp_all

lemma readonly_simple [reads]: "readonly (io_return a)" "readonly (io_fail x)" "readonly (touch e x)"
  "readonly (read_file e x p)" "readonly (file_exists e p)"
  by (simp_all add: readonly_def io_return_def io_fail_def file_simps)

lemmas readonly_bind [reads] = kept.bind and readonly_map_err [reads] = kept.map_err
  and readonly_traverse [reads] = kept.traverse

end
