(* ===== verification/Reclaim_Frame.thy ===== *)
theory Reclaim_Frame
  imports Reclaim Verify_Spec File_Relation
begin

text \<open>
  What a deletion run can change. Two contracts carry it: operations that only read
  (\<open>readonly\<close>), and operations that change nothing outside a set of paths (\<open>confined\<close>); both
  hold on every exit, under every fault schedule.
\<close>

section \<open>Operations that only read\<close>

lemma readonly_stores [reads]: "readonly (is_dir e p)"
  "readonly (read_manifest e' machine)" "readonly (read_captured_start_in_dir e' p)"
  "readonly (load_opencode_record_map e'' p s)"
  by (simp_all add: readonly_def io_return_def io_fail_def file_simps is_dir_def read_manifest_def
      read_captured_start_in_dir_def load_opencode_record_map_def Let_def)

lemma readonly_entries [reads]: "readonly (sealed_shard_entries e dir)"
  by (auto simp: readonly_def sealed_shard_entries_def io_bind_def file_simps)

lemma readonly_survey [reads]: "readonly (survey_session e machine s)"
  by (auto simp: survey_session_def Let_def intro!: reads)

lemma readonly_survey_all [reads]: "readonly (expected_manifest_surveyed e)"
proof -
  have "readonly (survey_machine e machine)" for machine
    unfolding survey_machine_def by (rule readonly_bind, rule reads, rule kept.look) (auto intro!: reads)
  then show ?thesis
    unfolding expected_manifest_surveyed_def
    by (intro readonly_bind reads, split if_split, intro conjI impI reads readonly_bind)
      (rule kept.look, auto intro!: reads)
qed

lemma readonly_collect [reads]: "readonly (collect_rows e ms)"
  by (induction ms) (auto intro!: reads simp: Let_def split: option.splits)

lemma readonly_stored [reads]: "readonly (stored_manifest_rows e)"
  unfolding stored_manifest_rows_def
  by (rule readonly_bind, rule reads, rule kept.look) (rule readonly_collect)

lemma readonly_count [reads]: "readonly (count_reclaimed e cands)"
proof -
  have "files (snd (count_reclaimed e cands w)) = files w" for w
    using obeysD [OF readonly_stored, of "mbase e" w]
    by (cases "stored_manifest_rows (mbase e) w") (auto simp: count_reclaimed_def split: sum.splits)
  then show ?thesis by (simp add: readonly_def)
qed

lemma readonly_generate [reads]: "readonly (generate_manifest e machine)"
proof -
  have "readonly (generate_session e machine t s)" for t s
    unfolding generate_session_def by (auto simp: Let_def intro!: reads split: prod.splits)
  then have "readonly (generate_manifest_at e machine t)" for t
    unfolding generate_manifest_at_def
    by (intro readonly_bind readonly_simple) (rule kept.look, auto intro!: reads)
  then show ?thesis
    unfolding generate_manifest_def by (auto intro!: reads split: option.splits)
qed

lemma readonly_feed [reads]: "readonly (feed_shards e es a)"
  by (induction es arbitrary: a) (auto intro!: reads split: sum.splits)

lemma readonly_fold [reads]: "readonly (fold_opencode_staged_map e machine s)"
  unfolding fold_opencode_staged_map_def by (auto simp: Let_def intro!: reads split: option.splits)

lemma readonly_family [reads]: "readonly (staged_body_family e machine s)"
proof -
  have "readonly (read_bodies e es)" for es
    by (induction es) (auto intro!: reads)
  then show ?thesis unfolding staged_body_family_def by (auto intro!: reads)
qed

section \<open>Operations confined to a set of paths\<close>

text \<open>Files outside the set that were there are there unchanged; new files may appear.\<close>

definition retains :: "path set \<Rightarrow> fs \<Rightarrow> fs \<Rightarrow> bool" where
  "retains P f0 f \<longleftrightarrow> (\<forall>p c. p \<notin> P \<longrightarrow> map_of f0 p = Some c \<longrightarrow> map_of f p = Some c)"

abbreviation confined :: "path set \<Rightarrow> (world, 'e, 'a) io \<Rightarrow> bool" where
  "confined P \<equiv> obeys (retains P)"

lemmas confined_def = obeys_def [where R = "retains P" for P]

named_theorems confines \<open>operations confined to a set of paths\<close>

lemma retains_refl [simp]: "retains P f f"
  by (simp add: retains_def)

lemma retains_trans: "retains P f g \<Longrightarrow> retains P g h \<Longrightarrow> retains P f h"
  by (simp add: retains_def)

interpretation held: file_relation "retains P" for P
  by unfold_locales (simp, rule retains_trans)

lemmas confined_simple [confines] = held.simple and confined_bind [confines] = held.bind
  and confined_map_err [confines] = held.map_err and confined_for [confines] = held.for_each
  and confined_traverse [confines] = held.traverse

lemma readonly_confined: "readonly m \<Longrightarrow> confined P m"
  by (simp add: obeys_def)

lemma confined_mono: "confined P m \<Longrightarrow> P \<subseteq> Q \<Longrightarrow> confined Q m"
  by (auto simp: obeys_def retains_def)

lemma confined_file [confines]:
  "p \<in> P \<Longrightarrow> confined P (create_file e x p)" "p \<in> P \<Longrightarrow> confined P (write_file e x p c)"
  "p \<in> P \<Longrightarrow> q \<in> P \<Longrightarrow> confined P (rename_file e x p q)"
  by (auto simp: obeys_def retains_def file_simps split: option.splits)

lemma confined_synced [confines]: "p \<in> P \<Longrightarrow> confined P (write_synced e x p c)"
  unfolding write_synced_def by (auto intro!: confines)

lemma confined_write_manifest: "manifest_path machine \<in> P \<Longrightarrow> manifest_tmp machine \<in> P \<Longrightarrow> confined P (write_manifest e machine rows)"
  unfolding write_manifest_def Let_def manifest_tmp_def by (auto intro!: confines)

section \<open>Operations that only delete\<close>

text \<open>Nothing in \<open>K\<close> is deleted, and nothing at all is written.\<close>

definition shrinks :: "path set \<Rightarrow> fs \<Rightarrow> fs \<Rightarrow> bool" where
  "shrinks K f g \<longleftrightarrow>
     (\<forall>p. map_of g p = None \<and> p \<notin> K \<or> map_of g p = map_of f p) \<and> (distinct (map fst f) \<longrightarrow> distinct (map fst g))"

interpretation shrunk: file_relation "shrinks K" for K
proof
  fix f g h assume "shrinks K f g" "shrinks K g h"
  then show "shrinks K f h" unfolding shrinks_def by metis
qed (simp add: shrinks_def)

lemma shrinks_file:
  "p \<notin> K \<Longrightarrow> obeys (shrinks K) (remove_file e x p)" "p \<notin> K \<Longrightarrow> obeys (shrinks K) (remove_counted e p)"
  by (auto simp: obeys_def shrinks_def file_simps remove_counted_def distinct_delete)

lemma shrinks_old: "shrinks K f g \<Longrightarrow> map_of g p = Some c \<Longrightarrow> map_of f p = Some c"
  unfolding shrinks_def by (metis option.distinct(1))

lemma shrinks_retains: "shrinks K f g \<Longrightarrow> retains (- K) f g"
  by (auto simp: shrinks_def retains_def)

section \<open>What a session's deletion may touch\<close>

text \<open>Its shards of the proven numbers and the files that belong to the body.\<close>

definition body_paths :: "path \<Rightarrow> nat set \<Rightarrow> path set" where
  "body_paths dir proven =
     {p. \<exists>n \<in> proven. shard_seq_of dir p = Some n} \<union>
     {p. butlast p = dir \<and> p \<noteq> [] \<and> (is_extra_file (last p) \<or> last p = FACTS_FILE)}"

lemma shrinks_remove_proven:
  assumes "\<forall>(n, p) \<in> set es. n \<in> set proven \<longrightarrow> p \<notin> K"
  shows "obeys (shrinks K) (remove_proven e proven es)"
  using assms
proof (induction es)
  case (Cons np es)
  obtain n p where np: "np = (n, p)" by (cases np)
  with Cons show ?case
    by (auto intro!: shrunk.simple shrunk.bind shrinks_file split: prod.splits)
qed (simp add: shrunk.simple)

lemma entries_of_seq: "(n, p) \<in> set (entries_of dir f) \<Longrightarrow> shard_seq_of dir p = Some n"
  by (auto simp: entries_of_def set_map_filter split: option.splits)

text \<open>The rest of a deletion once its shards are listed.\<close>

definition delete_listed ::
  "('x schedule_scheme) \<Rightarrow> path \<Rightarrow> nat list \<Rightarrow> (nat \<times> path) list \<Rightarrow> (world, reclaim_error, nat) io" where
  "delete_listed e dir proven es =
     io_bind (remove_proven e proven es) (\<lambda>(removed, survivors).
      if survivors > 0 then io_return removed
      else io_bind (touch e (ListingFailed dir)) (\<lambda>_ w.
           io_bind (io_for (body_sidecars dir (files w)) (\<lambda>p.
             io_bind (touch e (ListingFailed dir)) (\<lambda>_. remove_file e (RemovalFailed p) p)))
             (\<lambda>_. io_return removed) w))"

lemma reclaim_body_listed:
  assumes "reclaim_session_body e machine s proven w = (r, w')"
  obtains "files w' = files w" | w1 where "files w1 = files w"
    "delete_listed e (session_shard_dir machine s) proven (entries_of (session_shard_dir machine s) (files w)) w1 = (r, w')"
proof -
  let ?dir = "session_shard_dir machine s"
  let ?list = "io_map_err (\<lambda>_. ListingFailed ?dir) (sealed_shard_entries (base e) ?dir)"
  obtain r1 w1 where l: "?list w = (r1, w1)" by (cases "?list w")
  from obeysD [OF readonly_map_err [OF readonly_entries] l] have f: "files w1 = files w" .
  show ?thesis
  proof (cases r1)
    case (Inl x)
    with l f assms show ?thesis
      by (intro that(1)) (auto simp: reclaim_session_body_def Let_def io_bind_def)
  next
    case (Inr es)
    with entries_result [OF l [unfolded Inr]] have es: "es = entries_of ?dir (files w)" by simp
    have "reclaim_session_body e machine s proven w = delete_listed e ?dir proven es w1"
      using l Inr by (simp add: reclaim_session_body_def Let_def delete_listed_def io_bind_def [where m = "io_map_err _ _"])
    with assms es f show ?thesis by (intro that(2)) simp_all
  qed
qed

lemma shrinks_delete_listed:
  assumes "\<forall>(n, p) \<in> set es. shard_seq_of dir p = Some n"
  shows "obeys (shrinks (- body_paths dir (set proven))) (delete_listed e dir proven es)"
proof -
  let ?K = "- body_paths dir (set proven)"
  have rem: "obeys (shrinks ?K) (remove_proven e proven es)"
    using assms by (intro shrinks_remove_proven) (auto simp: body_paths_def)
  have side: "p \<notin> ?K" if "p \<in> set (body_sidecars dir f)" for p f
    using that by (auto simp: body_sidecars_def body_paths_def)
  have "obeys (shrinks ?K) (\<lambda>w. io_bind (io_for (body_sidecars dir (files w)) (\<lambda>p.
             io_bind (touch e (ListingFailed dir)) (\<lambda>_. remove_file e (RemovalFailed p) p)))
             (\<lambda>_. io_return removed) w)" for removed :: nat
    by (rule shrunk.look) (auto intro!: shrunk.simple shrunk.bind shrunk.for_each shrinks_file dest: side)
  with rem show ?thesis
    unfolding delete_listed_def by (auto intro!: shrunk.simple shrunk.bind split: prod.splits)
qed

lemma shrinks_reclaim_body:
  "obeys (shrinks (- body_paths (session_shard_dir machine s) (set proven))) (reclaim_session_body e machine s proven)"
proof -
  let ?dir = "session_shard_dir machine s"
  have "shrinks (- body_paths ?dir (set proven)) (files w) (files w')"
    if "reclaim_session_body e machine s proven w = (r, w')" for w r w'
    using that
  proof (cases rule: reclaim_body_listed)
    case 1
    then show ?thesis by (simp add: shrunk.refl)
  next
    case (2 w1)
    from obeysD [OF shrinks_delete_listed 2(2)] 2(1) show ?thesis by (auto dest: entries_of_seq)
  qed
  then show ?thesis unfolding obeys_def by (metis prod.collapse)
qed

lemma confined_reclaim_body:
  "confined (body_paths (session_shard_dir machine s) (set proven)) (reclaim_session_body e machine s proven)"
  using shrinks_reclaim_body shrinks_retains unfolding obeys_def by fastforce

end
