(* ===== verification/Reclaim_Body.thy ===== *)
theory Reclaim_Body
  imports Reclaim_Frame Stage_Props
begin

text \<open>
  The deletion of one session's body: what it spares under every fault, what it leaves when
  nothing fails, and how it works together with the writer over the life of a session directory.
\<close>

section \<open>Names that are not shards\<close>

lemma named_not_shard:
  assumes "shard_seq_of dir p = Some n" "is_extra_file x \<or> x = FACTS_FILE \<or> x = SHARD_SEQ_FILE"
  shows "p \<noteq> dir @ [x]"
proof
  assume p: "p = dir @ [x]"
  with assms(1) have "x = shard_filename n"
    by (auto simp: shard_seq_of_def dest: parse_shard_seq_canonical)
  then have "is_digit (hd x)" "x \<noteq> []" using shard_filename_hd_last by (auto simp: shard_filename_def name_defs)
  moreover have "x = take 6 x @ drop 6 x" by simp
  ultimately show False
    using assms(2) by (cases x) (auto simp: is_extra_file_def name_defs is_digit_def)
qed

lemma counter_not_body [simp]: "ctr dir \<notin> body_paths dir N"
  using named_not_shard [of dir "ctr dir" _ SHARD_SEQ_FILE]
  by (auto simp: body_paths_def shard_seq_file_in_dir_def is_extra_file_def name_defs)

definition sidecar :: "path \<Rightarrow> path \<Rightarrow> bool" where
  "sidecar dir p \<longleftrightarrow> (\<exists>x. p = dir @ [x] \<and> (is_extra_file x \<or> x = FACTS_FILE))"

lemma sidecar_alt: "butlast p = dir \<and> p \<noteq> [] \<and> (is_extra_file (last p) \<or> last p = FACTS_FILE) \<longleftrightarrow> sidecar dir p"
proof (cases p rule: rev_cases)
  case (snoc q x)
  then show ?thesis by (auto simp: sidecar_def)
qed (simp add: sidecar_def)

lemma body_paths_cases: "p \<in> body_paths dir N \<longleftrightarrow> (\<exists>n \<in> N. shard_seq_of dir p = Some n) \<or> sidecar dir p"
  unfolding body_paths_def sidecar_alt by simp

lemma body_sidecars_iff: "p \<in> set (body_sidecars dir f) \<longleftrightarrow> sidecar dir p \<and> present f p"
  unfolding body_sidecars_def sidecar_alt by (auto simp: present_def map_of_eq_None_iff)

lemma bodies_listed: "fst ` bodies dir f = fst ` set (entries_of dir f)"
proof -
  have "n \<in> fst ` bodies dir f \<longleftrightarrow> (\<exists>p. shard_seq_of dir p = Some n \<and> present f p)" for n
    by (auto simp: bodies_def present_def image_iff)
  moreover have "n \<in> fst ` set (entries_of dir f) \<longleftrightarrow> (\<exists>p. shard_seq_of dir p = Some n \<and> present f p)" for n
    by (auto simp: image_iff entries_of_iff Bex_def)
  ultimately show ?thesis by blast
qed

section \<open>Under every fault\<close>

lemma remove_proven_counts:
  "remove_proven e proven es w = (Inr (n, k), w') \<Longrightarrow> k = length (filter (\<lambda>(q, _). q \<notin> set proven) es)"
  by (induction es arbitrary: w n k) (auto simp: io_bind_Inr io_return_Inr split: if_splits)

lemma delete_listed_survivors:
  assumes "\<exists>(q, p) \<in> set es. q \<notin> set proven" and "\<forall>(q, p) \<in> set es. q \<in> set proven \<longrightarrow> p \<notin> K"
  shows "obeys (shrinks K) (delete_listed e dir proven es)"
proof -
  have "shrinks K (files w) (files (snd (delete_listed e dir proven es w)))" for w
  proof (cases "remove_proven e proven es w")
    case (Pair r w1)
    from obeysD [OF shrinks_remove_proven [OF assms(2)] Pair] have sh: "shrinks K (files w) (files w1)" .
    show ?thesis
    proof (cases r)
      case (Inl x)
      with Pair sh show ?thesis by (simp add: delete_listed_def io_bind_def)
    next
      case (Inr nk)
      obtain n k where nk: "nk = (n, k)" by (cases nk)
      with remove_proven_counts Pair Inr have "k = length (filter (\<lambda>(q, _). q \<notin> set proven) es)" by blast
      then have "k > 0" using assms(1) by (auto simp: filter_empty_conv)
      with Pair Inr nk sh show ?thesis by (simp add: delete_listed_def io_bind_def io_return_def)
    qed
  qed
  then show ?thesis by (simp add: obeys_def)
qed

text \<open>Under every fault and wherever it stops, deleting a session's proven body removes no shard whose
  number was not proven and never the counter file, and as long as one unproven shard is there
  the raw sidecars and the digest record stay as they are; it writes nothing.\<close>

theorem reclaim_body_spares:
  assumes "reclaim_session_body e machine s proven w = (r, w')"
  defines "dir \<equiv> session_shard_dir machine s"
  shows "{(n, c) \<in> bodies dir (files w). n \<notin> set proven} \<subseteq> bodies dir (files w') \<and>
    bodies dir (files w') \<subseteq> bodies dir (files w) \<and>
    map_of (files w') (ctr dir) = map_of (files w) (ctr dir) \<and>
    ((\<exists>(n, c) \<in> bodies dir (files w). n \<notin> set proven) \<longrightarrow>
       (\<forall>p. sidecar dir p \<longrightarrow> map_of (files w') p = map_of (files w) p))"
proof (intro conjI impI allI)
  have sh: "shrinks (- body_paths dir (set proven)) (files w) (files w')"
    using obeysD [OF shrinks_reclaim_body assms(1)] by (simp add: dir_def)
  then show "map_of (files w') (ctr dir) = map_of (files w) (ctr dir)"
    unfolding shrinks_def using counter_not_body [of dir "set proven"] by (metis ComplI)
  have "map_of (files w') p = Some c" if "shard_seq_of dir p = Some n" "map_of (files w) p = Some c" "n \<notin> set proven" for p n c
  proof -
    have "\<not> sidecar dir p" using named_not_shard [OF that(1)] by (auto simp: sidecar_def)
    with that have "p \<in> - body_paths dir (set proven)" by (auto simp: body_paths_cases)
    with sh that show ?thesis by (auto simp: shrinks_def)
  qed
  then show "{(n, c) \<in> bodies dir (files w). n \<notin> set proven} \<subseteq> bodies dir (files w')"
    by (auto simp: bodies_def)
  show "bodies dir (files w') \<subseteq> bodies dir (files w)"
    using shrinks_old [OF sh] by (auto simp: bodies_def)
  fix p assume un: "\<exists>(n, c) \<in> bodies dir (files w). n \<notin> set proven" and p: "sidecar dir p"
  from assms(1) show "map_of (files w') p = map_of (files w) p"
  proof (cases rule: reclaim_body_listed)
    case (2 w1)
    from un obtain n q c where q: "shard_seq_of dir q = Some n" "map_of (files w) q = Some c" "n \<notin> set proven"
      by (auto simp: bodies_def)
    then have "(n, q) \<in> set (entries_of dir (files w))" by (auto simp: entries_of_iff present_def)
    moreover have "q' \<notin> {p. sidecar dir p}" if "(n', q') \<in> set (entries_of dir (files w))" for n' q'
      using named_not_shard [OF entries_of_seq [OF that]] by (auto simp: sidecar_def)
    ultimately have "obeys (shrinks {p. sidecar dir p}) (delete_listed e dir proven (entries_of dir (files w)))"
      using q(3) by (intro delete_listed_survivors) blast+
    from obeysD [OF this 2(2) [folded dir_def]] 2(1) p show ?thesis by (auto simp: shrinks_def)
  qed simp
qed

theorem reclaim_body_spares_witness:
  "map_of (files (snd (reclaim_session_body (demo_env\<lparr>fault := (\<lambda>t. t = 1)\<rparr>) ''m'' ''s'' [1] demo_world))) (ctr demo_dir) = Some ''1''"
  using reclaim_body_spares [OF surjective_pairing, where e = "demo_env\<lparr>fault := (\<lambda>t. t = 1)\<rparr>" and machine = "''m''" and s = "''s''"
      and proven = "[1]" and w = demo_world] demo_names(1)
  by (simp add: demo_world_def demo_dir_def)

section \<open>When nothing fails\<close>

lemma remove_proven_nofault:
  assumes "nofault e"
  shows "\<exists>n w'. remove_proven e proven es w = (Inr (n, length (filter (\<lambda>(q, _). q \<notin> set proven) es)), w') \<and>
    (\<forall>p. map_of (files w') p = (if \<exists>q \<in> set proven. (q, p) \<in> set es then None else map_of (files w) p))"
proof (induction es arbitrary: w)
  case (Cons qp es)
  obtain q p where qp: "qp = (q, p)" by (cases qp)
  show ?case
  proof (cases "q \<in> set proven")
    case True
    obtain k w1 where k: "remove_counted e p w = (Inr k, w1)"
      and f: "\<And>x. map_of (files w1) x = (if x = p then None else map_of (files w) x)"
      using assms by (cases "map_of (files w) p") (auto simp: remove_counted_def)
    from Cons.IH [of w1] k f True qp show ?thesis
      by (fastforce simp: io_bind_def io_return_def)
  next
    case False
    with Cons.IH [of w] qp show ?thesis
      by (fastforce simp: io_bind_def io_return_def)
  qed
qed (simp add: io_return_def)

lemma io_for_removes_nofault:
  assumes "nofault e"
  shows "\<exists>w'. io_for ps (\<lambda>p. io_bind (touch e x) (\<lambda>_. remove_file e (y p) p)) w = (Inr (), w') \<and>
    (\<forall>p. map_of (files w') p = (if p \<in> set ps then None else map_of (files w) p))"
proof (induction ps arbitrary: w)
  case (Cons p ps)
  let ?op = "\<lambda>p. io_bind (touch e x) (\<lambda>_. remove_file e (y p) p)"
  obtain w1 where w1: "?op p w = (Inr (), w1)" "\<And>q. map_of (files w1) q = (if q = p then None else map_of (files w) q)"
    using assms by (auto simp: io_simps file_simps)
  from Cons.IH [of w1] w1 show ?case
    by (auto simp: io_bind_def [where m = "?op p"])
qed (simp add: io_return_def)

lemma fault_base [simp]: "fault (base e) t = fault e t"
  by (simp add: env.defs)

lemma reclaim_body_run:
  assumes "nofault e" and "fst ` bodies dir (files w) \<subseteq> set proven" and "dir = session_shard_dir machine s"
  shows "\<exists>n w'. reclaim_session_body e machine s proven w = (Inr n, w') \<and>
    (\<forall>p. map_of (files w') p = (if p \<in> body_paths dir (set proven) then None else map_of (files w) p))"
proof -
  let ?es = "entries_of dir (files w)" and ?w1 = "w\<lparr>clock := Suc (clock w)\<rparr>"
  have mem: "(q, p) \<in> set ?es \<longleftrightarrow> shard_seq_of dir p = Some q \<and> present (files w) p" for q p
    by (auto simp: entries_of_iff)
  have all: "q \<in> set proven" if "(q, p) \<in> set ?es" for q p
    using assms(2) that unfolding mem present_def bodies_def by force
  have l: "io_map_err (\<lambda>_. ListingFailed dir) (sealed_shard_entries (base e) dir) w = (Inr ?es, ?w1)"
    using assms(1) by (simp add: io_map_err_def sealed_shard_entries_def io_simps file_simps)
  obtain n w2 where r: "remove_proven e proven ?es ?w1 = (Inr (n, 0), w2)"
    and f2: "\<And>p. map_of (files w2) p = (if \<exists>q \<in> set proven. (q, p) \<in> set ?es then None else map_of (files w) p)"
    using remove_proven_nofault [OF assms(1), of proven ?es ?w1] all by (fastforce simp: filter_empty_conv)
  let ?w3 = "w2\<lparr>clock := Suc (clock w2)\<rparr>"
  have t: "touch e (ListingFailed dir) w2 = (Inr (), ?w3)"
    using assms(1) by (simp add: file_simps)
  obtain w4 where c: "io_for (body_sidecars dir (files ?w3)) (\<lambda>p.
      io_bind (touch e (ListingFailed dir)) (\<lambda>_. remove_file e (RemovalFailed p) p)) ?w3 = (Inr (), w4)"
    and f4: "\<And>p. map_of (files w4) p = (if p \<in> set (body_sidecars dir (files w2)) then None else map_of (files w2) p)"
    using io_for_removes_nofault [OF assms(1), of "body_sidecars dir (files ?w3)" "ListingFailed dir" RemovalFailed ?w3] by auto
  have run: "reclaim_session_body e machine s proven w = (Inr n, w4)"
    using l r t c by (simp add: reclaim_session_body_def Let_def assms(3) io_bind_def io_return_def)
  have "map_of (files w4) p = (if p \<in> body_paths dir (set proven) then None else map_of (files w) p)" for p
  proof (cases "sidecar dir p")
    case True
    then show ?thesis using f4 [of p] by (auto simp: body_paths_cases body_sidecars_iff present_def)
  next
    case False
    then have "map_of (files w4) p = map_of (files w2) p" using f4 [of p] by (simp add: body_sidecars_iff)
    with f2 [of p] False show ?thesis unfolding body_paths_cases mem by (auto simp: present_def)
  qed
  with run show ?thesis by blast
qed

text \<open>C11: When nothing fails, deleting a session all of whose shards are proven ends well and leaves no shard,
  no raw sidecar and no digest record, while every other file, the counter included, is untouched.\<close>

theorem reclaim_body_empties:
  assumes "nofault e" and "fst ` bodies dir (files w) \<subseteq> set proven" and "dir = session_shard_dir machine s"
  shows "\<exists>n w'. reclaim_session_body e machine s proven w = (Inr n, w') \<and> bodies dir (files w') = {} \<and>
    (\<forall>p. sidecar dir p \<longrightarrow> map_of (files w') p = None) \<and>
    (\<forall>p. (\<forall>k \<in> set proven. shard_seq_of dir p \<noteq> Some k) \<longrightarrow> \<not> sidecar dir p \<longrightarrow>
       map_of (files w') p = map_of (files w) p)"
proof -
  obtain n w' where run: "reclaim_session_body e machine s proven w = (Inr n, w')"
    and f: "\<And>p. map_of (files w') p = (if p \<in> body_paths dir (set proven) then None else map_of (files w) p)"
    using reclaim_body_run [OF assms] by blast
  have "bodies dir (files w') = {}"
    using f assms(2) by (fastforce simp: bodies_def body_paths_cases split: if_splits)
  with run f show ?thesis by (auto simp: body_paths_cases)
qed

lemma demo_bodies: "bodies demo_dir (files demo_world) = {(1, ''x'')}"
  using demo_entries demo_names
  by (auto simp: bodies_def demo_world_def shard_seq_of_numbered split: if_splits)

theorem reclaim_body_empties_witness:
  "\<exists>n w'. reclaim_session_body demo_env ''m'' ''s'' [1] demo_world = (Inr n, w') \<and> bodies demo_dir (files w') = {}"
  using reclaim_body_empties [OF demo_nofault _ demo_dir_def, of demo_world "[1]"] by (auto simp: demo_bodies)

section \<open>The life of a session directory\<close>

text \<open>
  A history of writes and deletions, each under its own faults and each stopping where it may,
  with the numbers in use so far: those the writer has reported and, if the directory had a readable
  counter at the start, those of the shards that were in it.
\<close>

inductive history :: "string \<Rightarrow> string \<Rightarrow> fs \<Rightarrow> nat set \<Rightarrow> bool" for machine s where
  start: "dir_ok (session_shard_dir machine s) f \<Longrightarrow>
    history machine s f (if counter_value (session_shard_dir machine s) f = None then {} else fst ` bodies (session_shard_dir machine s) f)"
| wrote: "history machine s (files w) ever \<Longrightarrow> counter_room (session_shard_dir machine s) (files w) \<Longrightarrow>
    source_ready (session_shard_dir machine s) source (files w) \<Longrightarrow>
    write_shard_in_dir e (session_shard_dir machine s) cap source ids w = (r, w') \<Longrightarrow>
    history machine s (files w') (ever \<union> {n. r = Inr (Allocated n)})"
| reclaimed: "history machine s (files w) ever \<Longrightarrow>
    reclaim_session_body (e :: env) machine s proven w = (r, w') \<Longrightarrow> history machine s (files w') ever"

definition counted :: "path \<Rightarrow> nat set \<Rightarrow> fs \<Rightarrow> bool" where
  "counted dir ever f \<longleftrightarrow> (\<forall>n \<in> ever. \<exists>c. counter_value dir f = Some c \<and> n \<le> c)"

lemma shrinks_dir_ok:
  assumes "shrinks K f g" "ctr dir \<in> K" "dir_ok dir f"
  shows "dir_ok dir g"
proof -
  have c: "map_of g (ctr dir) = map_of f (ctr dir)" using assms(1,2) by (auto simp: shrinks_def)
  have pr: "present g p \<Longrightarrow> present f p" for p
    using shrinks_old [OF assms(1), of p] unfolding present_def by fast
  have "counter_inv dir f" using assms(3) by (simp add: dir_ok_def)
  then have "counter_inv dir g"
    unfolding counter_inv_def c by (cases "map_of f (ctr dir)") (auto dest!: pr)
  with assms(1,3) show ?thesis by (simp add: dir_ok_def shrinks_def)
qed

lemma counted_mono: "counter_mono dir f g \<Longrightarrow> counted dir ever f \<Longrightarrow> counted dir ever g"
  by (fastforce simp: counter_mono_def counted_def)

lemma written_counted:
  assumes "dir_ok dir (files w)" "counter_room dir (files w)" "source_ready dir source (files w)"
    and "counted dir ever (files w)" and "write_shard_in_dir e dir cap source ids w = (r, w')"
  shows "dir_ok dir (files w') \<and> counted dir (ever \<union> {n. r = Inr (Allocated n)}) (files w') \<and>
    (\<forall>n. r = Inr (Allocated n) \<longrightarrow> (\<forall>m \<in> ever. m < n))"
proof -
  have s: "settled dir (source_raw source) (moved_by source) (files w) (files w')"
    using write_shard_settled [OF assms(1-3), of e cap ids] assms(5) by simp
  then have k: "dir_ok dir (files w')" "counted dir ever (files w')"
    using counted_mono assms(4) by (auto simp: settled_def dir_ok_def)
  have "\<exists>raw. map_of (files w') (ctr dir) = Some (dec n) \<and> n \<le> u64_max \<and>
      (\<forall>c. counter_value dir (files w) = Some c \<longrightarrow> c < n)" if "r = Inr (Allocated n)" for n
    using assms(1-3) by (rule write_shard_exits [where e = e and cap = cap and ids = ids])
      (use assms(5) that in \<open>auto simp: written_def installed_def\<close>)
  with k assms(4) show ?thesis
    by (fastforce simp: counted_def counter_value_def classify_dec)
qed

lemma history_counted: "history machine s f ever \<Longrightarrow>
    dir_ok (session_shard_dir machine s) f \<and> counted (session_shard_dir machine s) ever f"
proof (induction rule: history.induct)
  case (start f)
  have "n \<le> c" if "counter_value (session_shard_dir machine s) f = Some c" "(n, b) \<in> bodies (session_shard_dir machine s) f" for n b c
    using that start by (auto simp: dir_ok_def counter_inv_def counter_value_def bodies_def present_def shard_seq_of_numbered
        split: option.splits seq_state.splits)
  with start show ?case by (fastforce simp: counted_def)
next
  case (wrote w ever source e cap ids r w')
  then show ?case using written_counted by blast
next
  case (reclaimed w ever e proven r w')
  from obeysD [OF shrinks_reclaim_body reclaimed.hyps(2)]
  have sh: "shrinks (- body_paths (session_shard_dir machine s) (set proven)) (files w) (files w')" .
  then have "map_of (files w') (ctr (session_shard_dir machine s)) = map_of (files w) (ctr (session_shard_dir machine s))"
    unfolding shrinks_def using counter_not_body by (metis ComplI)
  with shrinks_dir_ok [OF sh] reclaimed.IH show ?case
    by (simp add: counted_def counter_value_def)
qed

text \<open>C10: Sequence numbers are never reused: however often a session's body is written and deleted, under
  whatever faults, a number the writer reports is above every number it reported for this
  session before in that history and, when the directory had a readable counter file at the beginning, above the number
  of every shard that was in it then.\<close>

theorem numbers_never_reused:
  assumes "history machine s (files w) ever"
    and "counter_room (session_shard_dir machine s) (files w)"
    and "source_ready (session_shard_dir machine s) source (files w)"
    and "write_shard_in_dir e (session_shard_dir machine s) cap source ids w = (Inr (Allocated n), w')"
  shows "\<forall>m \<in> ever. m < n"
  using written_counted [OF _ assms(2,3) _ assms(4)] history_counted [OF assms(1)] by blast

theorem numbers_never_reused_witness:
  "\<exists>w2 w3. bodies demo_dir (files w2) = {} \<and>
     write_shard_in_dir demo_env demo_dir 20 (Store ''z'' Collect False) [] w2 = (Inr (Allocated 3), w3) \<and> (1::nat) < 3 \<and> (2::nat) < 3"
proof -
  let ?src = "\<lambda>c. Store [c] Collect False"
  obtain w1 where w1: "write_shard_in_dir demo_env demo_dir 20 (?src CHR ''y'') [] demo_world = (Inr (Allocated 2), w1)"
    using demo_run by blast
  have "map_of (files demo_world) (ctr demo_dir) = Some ''1''" using demo_names(1) by (simp add: demo_world_def)
  then have start: "counter_value demo_dir (files demo_world) \<noteq> None" "fst ` bodies demo_dir (files demo_world) = {1}"
    unfolding demo_bodies by (simp_all add: counter_value_def demo_counter)
  have h0: "history ''m'' ''s'' (files demo_world) {1}"
    using history.start [of "''m''" "''s''" "files demo_world"] start demo_ok(1) unfolding demo_dir_def by simp
  have h1: "history ''m'' ''s'' (files w1) ({1} \<union> {n. (Inr (Allocated 2) :: stage_error + shard_write) = Inr (Allocated n)})"
    by (rule history.wrote [OF h0 _ _ w1 [unfolded demo_dir_def]]) (simp_all add: demo_dir_def [symmetric])
  have "installed demo_dir ''y'' None (files demo_world) (shard_path_in_dir demo_dir 2 20) 2 (files w1)"
    using allocated_installed [OF demo_ok(1,2) _ w1] by simp
  then have c1: "map_of (files w1) (ctr demo_dir) = Some (dec 2)" by (simp add: installed_def)
  let ?proven = "map fst (entries_of demo_dir (files w1))"
  have all: "fst ` bodies demo_dir (files w1) \<subseteq> set ?proven" by (simp add: bodies_listed)
  from reclaim_body_run [OF demo_nofault all demo_dir_def] obtain k w2 where
    w2: "reclaim_session_body demo_env ''m'' ''s'' ?proven w1 = (Inr k, w2)"
    and f2: "\<And>p. map_of (files w2) p = (if p \<in> body_paths demo_dir (set ?proven) then None else map_of (files w1) p)" by blast
  note h2 = history.reclaimed [OF h1 w2]
  have c2: "map_of (files w2) (ctr demo_dir) = Some (dec 2)" using f2 [of "ctr demo_dir"] c1 by simp
  have none: "bodies demo_dir (files w2) = {}"
    using f2 all by (fastforce simp: bodies_def body_paths_cases split: if_splits)
  then have "entries_of demo_dir (files w2) = []" using bodies_listed [of demo_dir "files w2"] by simp
  then have dup: "duplicate_of demo_env ''z'' demo_dir (files w2) = None"
    by (simp add: duplicate_of_def sort_entries_def)
  have ok: "dir_ok demo_dir (files w2)" using history_counted [OF h2] by (simp add: demo_dir_def)
  have hw: "high_water demo_env demo_dir (files w2) = Some 2"
    using c2 by (simp add: high_water_def counter_value_def classify_dec u64_max_def)
  have room: "(2::nat) < u64_max" and three: "Suc 2 = 3" by (simp_all add: u64_max_def)
  obtain w3 where w3: "write_shard_in_dir demo_env demo_dir 20 (?src CHR ''z'') [] w2 = (Inr (Allocated 3), w3)"
    using write_store_run [OF demo_nofault ok hw room, of "''z''" Collect False 20 "[]"] dup three by auto
  have "counter_room demo_dir (files w2)" by (rule high_water_room [OF hw room])
  with numbers_never_reused [OF h2, of "?src CHR ''z''" demo_env 20 "[]" 3 w3] w3 none show ?thesis
    by (auto simp: demo_dir_def)
qed

text \<open>C39: Without a counter file the numbers start over. Take a session directory in order that has no counter, as
  one written before there was a counter, whose shards are all among the proven ones: when no operation fails, the
  deletion succeeds and leaves no shard, and nothing to derive the numbers from, so that the next shard stored from
  memory, once the absence of the counter is confirmed, is given number 1, whichever numbers the
  deleted shards had; if there was a shard 1, its name, which the archive has, is used again.\<close>

theorem reclaim_without_counter_starts_over:
  assumes "nofault e" and "nofault (e' :: env)" and "dir = session_shard_dir machine s"
    and "map_of (files w) (ctr dir) = None" and "dir_ok dir (files w)"
    and "confirm_shard_seq_absence (ancestors e' (ctr dir))" and "fst ` bodies dir (files w) \<subseteq> set proven"
  shows "\<exists>n w1 w2. reclaim_session_body e machine s proven w = (Inr n, w1) \<and> bodies dir (files w1) = {} \<and>
    write_shard_in_dir e' dir cap (Store raw writer rep) ids w1 = (Inr (Allocated 1), w2)"
proof -
  from reclaim_body_run [OF assms(1,7,3)] obtain n w1 where run: "reclaim_session_body e machine s proven w = (Inr n, w1)"
    and f: "\<And>p. map_of (files w1) p = (if p \<in> body_paths dir (set proven) then None else map_of (files w) p)" by blast
  have none: "bodies dir (files w1) = {}"
    using f assms(7) by (fastforce simp: bodies_def body_paths_cases split: if_splits)
  then have es: "entries_of dir (files w1) = []" using bodies_listed [of dir "files w1"] by simp
  have c: "map_of (files w1) (ctr dir) = None" using f [of "ctr dir"] assms(4) by simp
  from obeysD [OF shrinks_reclaim_body run] have "shrinks (- body_paths dir (set proven)) (files w) (files w1)"
    by (simp add: assms(3))
  from shrinks_dir_ok [OF this _ assms(5)] have ok: "dir_ok dir (files w1)" by simp
  have hw: "high_water e' dir (files w1) = Some 0" using c es assms(6) by (simp add: high_water_def)
  have "duplicate_of e' raw dir (files w1) = None" by (simp add: duplicate_of_def es sort_entries_def)
  with write_store_run [OF assms(2) ok hw, of raw writer rep cap ids] obtain w2 where
    "write_shard_in_dir e' dir cap (Store raw writer rep) ids w1 = (Inr (Allocated 1), w2)" by (auto simp: u64_max_def)
  with run none show ?thesis by blast
qed

theorem reclaim_without_counter_starts_over_witness:
  "\<exists>n w1 w2. reclaim_session_body demo_env ''m'' ''s'' [1] \<lparr>files = [(demo_shard, ''x'')], clock = 0\<rparr> = (Inr n, w1) \<and>
    write_shard_in_dir demo_env demo_dir 20 (Store ''y'' Collect False) [] w1 = (Inr (Allocated 1), w2)"
proof -
  let ?w = "\<lparr>files = [(demo_shard, ''x'')], clock = 0\<rparr> :: world"
  have "bodies demo_dir (files ?w) \<subseteq> bodies demo_dir (files demo_world)"
  proof -
    have "map_of (files demo_world) p = Some c" if "map_of (files ?w) p = Some c" for p c
      using that unfolding demo_world_def by (simp split: if_splits)
    then show ?thesis unfolding bodies_def by blast
  qed
  then have "fst ` bodies demo_dir (files ?w) \<subseteq> set [1]" unfolding demo_bodies by auto
  moreover have "map_of (files ?w) (ctr demo_dir) = None" using demo_names(1) by simp
  moreover have "confirm_shard_seq_absence (ancestors demo_env (ctr demo_dir))"
    by (simp add: demo_env_def)
  moreover have "dir_ok demo_dir (files ?w)"
    using demo_names by (auto simp: dir_ok_def counter_inv_def present_def split: if_splits)
  ultimately obtain n w1 w2 where "reclaim_session_body demo_env ''m'' ''s'' [1] ?w = (Inr n, w1)"
    "write_shard_in_dir demo_env demo_dir 20 (Store ''y'' Collect False) [] w1 = (Inr (Allocated 1), w2)"
    using reclaim_without_counter_starts_over [OF demo_nofault demo_nofault demo_dir_def] by metis
  then show ?thesis by blast
qed

end
