(* ===== verification/Reclaim_Spec.thy ===== *)
theory Reclaim_Spec
  imports Reclaim_Body
begin

text \<open>
  What carries the promise of the deletion: the meaning of a clear proof, the paths a run may
  touch, the shape of a run, and the summary that is stored before a body goes.
\<close>

section \<open>What a clear proof means\<close>

definition cand_triple :: "candidate \<Rightarrow> nat \<times> nat \<times> string" where
  "cand_triple c = (cd_shard_count c, cd_concat_bytes c, cd_sha256 c)"

text \<open>The destination answered in full and holds the session with this triple.\<close>

definition answered :: "('c, 'k) renv \<Rightarrow> 'c named_store \<Rightarrow> string \<times> string \<Rightarrow> nat \<times> nat \<times> string \<Rightarrow> bool" where
  "answered e d ms t \<longleftrightarrow>
     (\<exists>key rep obs. load_key_file e (ns_cfg d) = Inr key \<and> read_latest_per_machine e (ns_cfg d) key = Inr rep \<and>
        read_complete rep \<and> bt_get (answer_map rep) ms = Some obs \<and> cand_triple obs = t)"

definition proven_by_all :: "('c, 'k) renv \<Rightarrow> 'c named_store list \<Rightarrow> string \<times> string \<Rightarrow> nat \<times> nat \<times> string \<Rightarrow> bool" where
  "proven_by_all e dests ms t \<longleftrightarrow>
     (\<exists>d \<in> set dests. \<not> is_degraded (ns_health d)) \<and>
     (\<forall>d \<in> set dests. \<not> is_degraded (ns_health d) \<longrightarrow> answered e d ms t)"

text \<open>The copy of the mirrored destination is on disk and its readable record covers the snapshot.\<close>

definition mirrored :: "('c, 'k) renv \<Rightarrow> 'c named_store list \<Rightarrow> mirror_holdback \<Rightarrow> string \<Rightarrow> bool" where
  "mirrored e dests h machine \<longleftrightarrow>
     (\<exists>d \<in> set dests. ns_name d = mh_mirror_of h \<and> \<not> is_degraded (ns_health d) \<and> mirror_on_disk e (mh_mirror_root h) \<and>
       (\<exists>key rep snap st. load_key_file e (ns_cfg d) = Inr key \<and> read_latest_per_machine e (ns_cfg d) key = Inr rep \<and>
          bt_get (snapshot_map rep) machine = Some snap \<and> mh_state h = StatePresent st \<and>
          ms_mirror_of st = mh_mirror_of h \<and> snap \<in> set (ms_closure_complete st)))"

lemma consult_Inr:
  assumes "consult e n b d = Inr r"
  shows "\<exists>key rep. load_key_file e (ns_cfg d) = Inr key \<and> read_latest_per_machine e (ns_cfg d) key = Inr rep \<and>
    read_complete rep \<and> r = (d, answer_map rep, snapshot_map rep)"
  using assms by (auto simp: consult_def consult_destination_def Let_def split: sum.splits destination_read.splits if_splits)

lemma consult_all_clear:
  "consult_all e n b ds = ([], rs) \<Longrightarrow> list_all2 (\<lambda>d r. consult e n b d = Inr r) ds rs"
  by (induction ds arbitrary: rs) (auto split: prod.splits sum.splits)

lemma bt_insert_not_Nil [simp]: "bt_insert k v m \<noteq> []"
  by (cases m) auto

lemma note_held_not_Nil [simp]: "note_held name b k h \<noteq> []"
  by (simp add: note_held_def split: option.splits prod.splits)

lemma check_candidate_Nil:
  "check_candidate c (d, answers, s) h = [] \<longleftrightarrow>
     h = [] \<and> map_option cand_triple (bt_get answers (cand_key c)) = Some (cand_triple c)"
  by (auto simp: check_candidate_def same_triple_def cand_triple_def split: option.splits)

lemma check_ready_Nil:
  "fold (check_candidate c) ready h = [] \<longleftrightarrow> h = [] \<and>
     (\<forall>(d, answers, s) \<in> set ready. map_option cand_triple (bt_get answers (cand_key c)) = Some (cand_triple c))"
proof (induction ready arbitrary: h)
  case (Cons r ready)
  obtain d answers s where "r = (d, answers, s)" by (cases r)
  with Cons show ?case by (auto simp: check_candidate_Nil)
qed simp

lemma held_back_Nil:
  "held_back cands ready = [] \<longleftrightarrow>
     (\<forall>c \<in> set cands. \<forall>(d, answers, s) \<in> set ready. map_option cand_triple (bt_get answers (cand_key c)) = Some (cand_triple c))"
proof -
  have "fold (\<lambda>c. fold (check_candidate c) ready) cands h = [] \<longleftrightarrow> h = [] \<and>
      (\<forall>c \<in> set cands. \<forall>(d, answers, s) \<in> set ready. map_option cand_triple (bt_get answers (cand_key c)) = Some (cand_triple c))" for h
    by (induction cands arbitrary: h) (auto simp: check_ready_Nil)
  then show ?thesis by (simp add: held_back_def)
qed

lemma prove_clear:
  assumes "prove e dests mirror cands b = (False, [])" and "c \<in> set cands"
  shows "proven_by_all e dests (cand_key c) (cand_triple c) \<and>
    (\<forall>h. mirror = Some h \<longrightarrow> mirrored e dests h (cd_machine c))"
proof -
  let ?must = "filter (\<lambda>d. \<not> is_degraded (ns_health d)) dests"
  obtain blocks ready where ca: "consult_all e (length cands) b ?must = (blocks, ready)"
    by (cases "consult_all e (length cands) b ?must")
  from assms(1) ca have ne: "?must \<noteq> []" and bl: "blocks = []" and held: "held_back cands ready = []"
    and mb: "mirror_blocks e dests ready cands b mirror = []"
    by (auto simp: prove_def Let_def held_blocks_def split: if_splits)
  note l2 = consult_all_clear [OF ca [unfolded bl]]
  have ans: "answered e d (cand_key c) (cand_triple c)" if d: "d \<in> set ?must" for d
  proof -
    from list_all2_left [OF l2 d] obtain r where r: "r \<in> set ready" "consult e (length cands) b d = Inr r" by blast
    from consult_Inr [OF r(2)] held r(1) assms(2) show ?thesis
      by (fastforce simp: held_back_Nil answered_def)
  qed
  have "mirrored e dests h (cd_machine c)" if h: "mirror = Some h" for h
  proof -
    have "cands \<noteq> []" using assms(2) by auto
    with mb h obtain r where r: "find (\<lambda>(d, _). ns_name d = mh_mirror_of h) ready = Some r"
      by (auto simp: mirror_blocks_def split: option.splits)
    obtain d answers snaps where rr: "r = (d, answers, snaps)" by (cases r)
    from find_SomeD [OF r] rr have d: "ns_name d = mh_mirror_of h" "r \<in> set ready" by auto
    from list_all2_right [OF l2 d(2)] obtain d' where d': "d' \<in> set ?must" "consult e (length cands) b d' = Inr r" by blast
    from consult_Inr [OF d'(2)] rr obtain key rep where k: "load_key_file e (ns_cfg d) = Inr key"
      "read_latest_per_machine e (ns_cfg d) key = Inr rep" "snaps = snapshot_map rep" "d' = d" by auto
    from mb h r rr have "filter (\<lambda>c. \<not> mirror_covers e h snaps c) cands = []"
      by (auto simp: mirror_blocks_def Let_def split: if_splits)
    with assms(2) have "mirror_covers e h snaps c" by (auto simp: filter_empty_conv)
    then obtain snap st where "mirror_on_disk e (mh_mirror_root h)" "bt_get snaps (cd_machine c) = Some snap"
      "mh_state h = StatePresent st" "ms_mirror_of st = mh_mirror_of h" "snap \<in> set (ms_closure_complete st)"
      by (cases "mh_state h") (auto simp: mirror_covers_def split: option.splits)
    with k d d' show ?thesis unfolding mirrored_def by auto
  qed
  with ans ne show ?thesis
    by (fastforce simp: proven_by_all_def filter_empty_conv)
qed

section \<open>The paths of a run\<close>

text \<open>Other processes only add to the stage.\<close>

definition only_add :: "('c, 'k) renv \<Rightarrow> bool" where
  "only_add e \<longleftrightarrow> (\<forall>m s f p c. map_of f p = Some c \<longrightarrow> map_of (race e m s f) p = Some c)"

definition map_paths :: "('c, 'k) renv \<Rightarrow> candidate \<Rightarrow> path set" where
  "map_paths e c =
     {p. \<exists>q. opencode_record_map_meta_path e (cd_machine c) (cd_session_id c) = Inr q \<and>
        (p = q \<or> p = butlast q @ [last q @ ''.tmp''])}"

definition run_paths :: "('c, 'k) renv \<Rightarrow> proven_map \<Rightarrow> candidate list \<Rightarrow> path set" where
  "run_paths e proven cands =
     (\<Union>c \<in> set cands. {manifest_path (cd_machine c), manifest_tmp (cd_machine c)} \<union> map_paths e c \<union>
        (case bt_get proven (cand_key c) of None \<Rightarrow> {}
         | Some seqs \<Rightarrow> body_paths (session_shard_dir (cd_machine c) (cd_session_id c)) (set seqs)))"

lemma confined_save_map:
  assumes "p \<in> P" "butlast p @ [last p @ ''.tmp''] \<in> P"
  shows "confined P (save_opencode_record_map e p s recs)"
  using assms readonly_confined [OF readonly_stores(4)]
  unfolding save_opencode_record_map_def Let_def
  by (auto intro!: confines split: option.splits)

lemma confined_ensure_map:
  assumes "map_paths e c \<subseteq> P"
  shows "confined P (ensure_map e c)"
proof -
  have turn: "confined P (map_turn e c p)" if p: "p \<in> P" "butlast p @ [last p @ ''.tmp''] \<in> P" for p
  proof -
    have "retains P (files w) (files (snd (map_turn e c p w)))" for w
    proof (cases "fold_opencode_staged_map e (cd_machine c) (cd_session_id c) w")
      case (Pair r w1)
      have f: "files w1 = files w" using readonly_fold [of e "cd_machine c" "cd_session_id c"] Pair
        unfolding readonly_def by (metis snd_conv)
      show ?thesis
      proof (cases r)
        case (Inl x)
        have "files (snd (staged_body_family e (cd_machine c) (cd_session_id c) w1)) = files w1"
          using readonly_family [of e "cd_machine c" "cd_session_id c"] unfolding readonly_def by blast
        with Pair Inl f show ?thesis
          by (auto simp: map_turn_def split: prod.splits sum.splits body_family.splits)
      next
        case (Inr o')
        show ?thesis
        proof (cases o')
          case None
          with Pair Inr f show ?thesis by (simp add: map_turn_def)
        next
          case (Some recs)
          have "confined P (io_bind (save_opencode_record_map e p (cd_session_id c) recs) (\<lambda>_. io_return False))"
            by (intro confines confined_save_map p)
          then have "retains P (files w1) (files (snd (io_bind (save_opencode_record_map e p (cd_session_id c) recs)
              (\<lambda>_. io_return False :: (world, reclaim_error, bool) io) w1)))"
            unfolding confined_def by blast
          with Pair Inr Some f show ?thesis by (simp add: map_turn_def)
        qed
      qed
    qed
    then show ?thesis by (simp add: confined_def)
  qed
  have "confined P (if there then io_return False else map_turn e c p)"
    if "opencode_record_map_meta_path e (cd_machine c) (cd_session_id c) = Inr p" for p there
    using turn [of p] that assms by (auto simp: map_paths_def intro!: confines)
  then show ?thesis
    unfolding ensure_map_def
    by (auto intro!: confined_bind confined_simple readonly_confined [OF readonly_simple(5)] split: sum.splits)
qed

lemma confined_ensure_maps: "(\<forall>c \<in> set cands. map_paths e c \<subseteq> P) \<Longrightarrow> confined P (ensure_maps e cands)"
  by (induction cands) (auto intro!: confines confined_ensure_map)

lemma confined_candidate:
  assumes "only_add e"
    and "\<And>seqs. bt_get proven (cand_key c) = Some seqs \<Longrightarrow>
      body_paths (session_shard_dir (cd_machine c) (cd_session_id c)) (set seqs) \<subseteq> P"
  shows "confined P (reclaim_candidate e proven c)"
proof -
  have "confined P (other_processes e c)"
    using assms(1) by (auto simp: confined_def retains_def other_processes_def only_add_def)
  moreover have "confined P (reclaim_session_body e (cd_machine c) (cd_session_id c) seqs)"
    if "bt_get proven (cand_key c) = Some seqs" for seqs
    using confined_mono [OF confined_reclaim_body assms(2) [OF that]] .
  ultimately show ?thesis
    unfolding reclaim_candidate_def by (auto intro!: confines split: option.splits)
qed

text \<open>Grouping the candidates by machine invents none.\<close>

definition grouped_from :: "candidate set \<Rightarrow> (string \<times> candidate list) list \<Rightarrow> bool" where
  "grouped_from S g \<longleftrightarrow> bt_ok g \<and> (\<forall>(m, cs) \<in> set g. cs \<noteq> [] \<and> (\<forall>c \<in> set cs. c \<in> S \<and> cd_machine c = m))"

lemma grouped_step:
  assumes "grouped_from S g" "c \<in> S"
  shows "grouped_from S (bt_insert (cd_machine c) ((case bt_get g (cd_machine c) of None \<Rightarrow> [] | Some cs \<Rightarrow> cs) @ [c]) g)"
proof -
  define old where "old = (case bt_get g (cd_machine c) of None \<Rightarrow> [] | Some cs \<Rightarrow> cs)"
  from assms(1) have ok: "bt_ok g" by (simp add: grouped_from_def)
  have g0: "cs \<noteq> []" if "bt_get g m = Some cs" for m cs
    using assms(1) map_of_SomeD [OF that] by (fastforce simp: grouped_from_def)
  have g: "x \<in> S \<and> cd_machine x = m" if "bt_get g m = Some cs" "x \<in> set cs" for m cs x
    using assms(1) that map_of_SomeD [OF that(1)] by (fastforce simp: grouped_from_def)
  have old: "x \<in> S \<and> cd_machine x = cd_machine c" if "x \<in> set old" for x
    using that g [of "cd_machine c"] by (cases "bt_get g (cd_machine c)") (auto simp: old_def)
  have "cs \<noteq> [] \<and> (\<forall>x \<in> set cs. x \<in> S \<and> cd_machine x = m)" if that: "(m, cs) \<in> set (bt_insert (cd_machine c) (old @ [c]) g)" for m cs
  proof -
    have "bt_get (bt_insert (cd_machine c) (old @ [c]) g) m = Some cs"
      using that bt.items_look [of "bt_insert (cd_machine c) (old @ [c]) g" m cs] ok by simp
    then have "(if m = cd_machine c then Some (old @ [c]) else bt_get g m) = Some cs"
      by (simp only: bt_get_insert [OF ok])
    with old g [of m cs] g0 [of m cs] assms(2) show ?thesis by (cases "m = cd_machine c") auto
  qed
  moreover have "bt_ok (bt_insert (cd_machine c) (old @ [c]) g)" using ok by simp
  ultimately show ?thesis unfolding grouped_from_def old_def [symmetric] by blast
qed

lemma grouped_by_machine: "grouped_from (set cands) (by_machine cands)"
proof -
  have "grouped_from S g \<Longrightarrow> set xs \<subseteq> S \<Longrightarrow> grouped_from S (fold (\<lambda>c m. bt_insert (cd_machine c)
     ((case bt_get m (cd_machine c) of None \<Rightarrow> [] | Some cs \<Rightarrow> cs) @ [c]) m) xs g)" for S g xs
  proof (induction xs arbitrary: g)
    case (Cons x xs)
    from grouped_step [OF Cons.prems(1), of x] Cons.prems(2) Cons.IH show ?case by simp
  qed simp
  moreover have "grouped_from (set cands) []" by (simp add: grouped_from_def)
  ultimately show ?thesis by (simp add: by_machine_def)
qed

lemma by_machine_mem: "(m, cs) \<in> set (by_machine cands) \<Longrightarrow> c \<in> set cs \<Longrightarrow> c \<in> set cands \<and> cd_machine c = m"
  using grouped_by_machine [of cands] by (auto simp: grouped_from_def)

lemma by_machine_ne: "(m, cs) \<in> set (by_machine cands) \<Longrightarrow> cs \<noteq> []"
  using grouped_by_machine [of cands] by (auto simp: grouped_from_def)

lemma confined_refresh:
  "manifest_path m \<in> P \<Longrightarrow> manifest_tmp m \<in> P \<Longrightarrow> confined P (refresh_manifest e m fresh)"
  unfolding refresh_manifest_def
  by (intro confined_bind readonly_confined [OF readonly_stores(2)] confined_write_manifest)

lemma confined_machine:
  assumes "only_add e" and "(m, cs) \<in> set (by_machine cands)"
  shows "confined (run_paths e proven cands) (reclaim_machine e proven (m, cs))"
proof -
  let ?P = "run_paths e proven cands"
  obtain c where "c \<in> set cs" using by_machine_ne [OF assms(2)] by (cases cs) auto
  with by_machine_mem [OF assms(2)] have "manifest_path m \<in> ?P" "manifest_tmp m \<in> ?P"
    by (fastforce simp: run_paths_def)+
  then have r: "confined ?P (refresh_manifest (mbase e) m fresh)" for fresh by (rule confined_refresh)
  have "confined ?P (reclaim_candidate e proven c)" if "c \<in> set cs" for c
    using by_machine_mem [OF assms(2) that]
    by (intro confined_candidate [OF assms(1)]) (force simp: run_paths_def)
  with r readonly_confined [OF readonly_generate, of ?P "mbase e" m] show ?thesis
    unfolding reclaim_machine_def prod.case by (intro confined_bind confined_map_err confined_traverse)
qed

lemma confined_deletion:
  assumes "only_add e"
  shows "confined (run_paths e proven cands) (io_bind (ensure_maps e cands) (\<lambda>omitted.
    io_bind (delete_all e proven cands) (\<lambda>gone. io_return (g omitted gone))))"
proof -
  have "confined (run_paths e proven cands) (ensure_maps e cands)"
    by (rule confined_ensure_maps) (auto simp: run_paths_def)
  moreover have "confined (run_paths e proven cands) (delete_all e proven cands)"
    unfolding delete_all_def using confined_machine [OF assms] by (auto intro!: confines)
  ultimately show ?thesis by (auto intro!: confines)
qed

section \<open>The shape of a run\<close>

definition delete_proven ::
  "('c, 'k) renv \<Rightarrow> proven_map \<Rightarrow> candidate list \<Rightarrow> reclaim_report \<Rightarrow> (world, reclaim_error, reclaim_report) io" where
  "delete_proven e proven cands rep =
     io_bind (ensure_maps e cands) (\<lambda>omitted.
     io_bind (delete_all e proven cands) (\<lambda>gone.
     io_return (rep\<lparr>rc_reclaimed := gone, rc_map_omitted := omitted\<rparr>)))"

lemma count_Inr: "\<exists>n w'. count_reclaimed e cands w = (Inr n, w')"
  by (auto simp: count_reclaimed_def split: prod.splits sum.splits)

lemma reclaim_cases:
  assumes "reclaim_stage e dests apply_it mirror w = (r, w')"
  obtains (kept) "files w' = files w" "\<And>rep. r = Inr rep \<Longrightarrow> rc_reclaimed rep = [] \<and>
        (apply_it \<longrightarrow> rc_candidates rep = [] \<or> report_blocked rep)"
    | (deleted) svs w1 w2 rep where "apply_it" "expected_manifest_surveyed (mbase e) w = (Inr svs, w1)"
        "files w2 = files w" "prove e dests mirror (map candidate_of (with_body svs))
           (total_bytes (map candidate_of (with_body svs))) = (False, [])"
        "delete_proven e (proven_map_of svs) (map candidate_of (with_body svs)) rep w2 = (r, w')"
        "\<not> report_blocked rep"
proof (cases "expected_manifest_surveyed (mbase e) w")
  case (Pair sr w1)
  have f1: "files w1 = files w" using readonly_survey_all [of "mbase e"] Pair unfolding readonly_def by (metis snd_conv)
  show ?thesis
  proof (cases sr)
    case (Inl x)
    with assms Pair f1 show ?thesis by (intro kept) (auto simp: reclaim_stage_def io_bind_def io_map_err_def)
  next
    case (Inr svs)
    let ?cands = "map candidate_of (with_body svs)"
    obtain n w2 where c: "count_reclaimed e ?cands w1 = (Inr n, w2)" using count_Inr by blast
    have f2: "files w2 = files w"
      using readonly_count [of e ?cands] c f1 unfolding readonly_def by (metis snd_conv)
    obtain alone blocks where pr: "prove e dests mirror ?cands (total_bytes ?cands) = (alone, blocks)"
      by (cases "prove e dests mirror ?cands (total_bytes ?cands)")
    let ?start = "\<lparr>rc_destinations = map ns_name dests, rc_states = proof_states dests, rc_candidates = ?cands,
                rc_already_reclaimed = n, rc_no_healthy_prover = False, rc_blocked = [], rc_reclaimed = [],
                rc_map_omitted = [], rc_candidate_bytes = total_bytes ?cands\<rparr>"
    let ?rep = "?start\<lparr>rc_no_healthy_prover := alone, rc_blocked := blocks\<rparr>"
    note steps = assms Pair Inr c pr
    note unfold = reclaim_stage_def io_bind_def [where m = "io_map_err _ _"] io_bind_def [where m = "count_reclaimed _ _"]
      io_map_err_def Let_def
    show ?thesis
    proof (cases "with_body svs = []")
      case True
      with steps have "(r, w') = (Inr ?start, w2)" by (simp add: unfold io_return_def)
      with True f2 show ?thesis by (intro kept) auto
    next
      case ne: False
      show ?thesis
      proof (cases "report_blocked ?rep \<or> \<not> apply_it")
        case True
        with steps ne have "(r, w') = (Inr ?rep, w2)" by (simp add: unfold io_return_def)
        with True f2 show ?thesis by (intro kept) auto
      next
        case False
        with steps ne have "(r, w') = delete_proven e (proven_map_of svs) ?cands ?rep w2"
          by (simp add: unfold delete_proven_def)
        moreover from False have "alone = False" "blocks = []" by (auto simp: report_blocked_def)
        ultimately show ?thesis using False pr f2 Pair Inr by (intro deleted [of svs w1 w2 ?rep]) simp_all
      qed
    qed
  qed
qed

section \<open>What a run may lose\<close>

lemma session_shard_dir_inj [simp]: "session_shard_dir m s = session_shard_dir m' s' \<longleftrightarrow> m = m' \<and> s = s'"
  by (simp add: session_shard_dir_def)

lemma shard_path_shape:
  assumes "shard_seq_of (session_shard_dir m s) p = Some n"
  shows "\<exists>rest. p = session_shard_dir m s @ rest \<and> rest \<noteq> []"
  using assms by (auto simp: shard_seq_of_def split: if_splits list.splits)
    (metis append_take_drop_id list.distinct(1))+

lemma run_paths_shard:
  assumes "p \<in> run_paths e proven cands" and "shard_seq_of (session_shard_dir m s) p = Some n"
  shows "\<exists>c \<in> set cands. cand_key c = (m, s) \<and> (\<exists>seqs. bt_get proven (m, s) = Some seqs)"
proof -
  from shard_path_shape [OF assms(2)] obtain rest where p: "p = [SESSIONS_DIR, m, s] @ rest" "rest \<noteq> []"
    by (auto simp: session_shard_dir_def)
  have not_meta: "p \<noteq> META_DIR # q" for q
    using p by (simp add: name_defs META_DIR_def)
  from assms(1) obtain c where c: "c \<in> set cands"
    and mem: "p \<in> {manifest_path (cd_machine c), manifest_tmp (cd_machine c)} \<union> map_paths e c \<union>
        (case bt_get proven (cand_key c) of None \<Rightarrow> {}
         | Some seqs \<Rightarrow> body_paths (session_shard_dir (cd_machine c) (cd_session_id c)) (set seqs))"
    by (auto simp: run_paths_def)
  have "p \<notin> {manifest_path (cd_machine c), manifest_tmp (cd_machine c)} \<union> map_paths e c"
    using not_meta by (auto simp: manifest_path_def manifest_tmp_def map_paths_def opencode_record_map_meta_path_def)
  with mem obtain seqs where seqs: "bt_get proven (cand_key c) = Some seqs"
    and b: "p \<in> body_paths (session_shard_dir (cd_machine c) (cd_session_id c)) (set seqs)"
    by (auto split: option.splits)
  from b consider k where "shard_seq_of (session_shard_dir (cd_machine c) (cd_session_id c)) p = Some k"
    | "butlast p = session_shard_dir (cd_machine c) (cd_session_id c)"
    by (auto simp: body_paths_def)
  then have "cd_machine c = m \<and> cd_session_id c = s"
  proof cases
    case 1
    from shard_path_shape [OF this] p show ?thesis by (auto simp: session_shard_dir_def)
  next
    case 2
    with p show ?thesis by (cases rest rule: rev_cases) (auto simp: session_shard_dir_def butlast_append)
  qed
  with c seqs show ?thesis by (auto simp: cand_key_def)
qed

lemma entries_of_body: "bodies dir f \<noteq> {} \<Longrightarrow> entries_of dir f \<noteq> []"
proof -
  assume "bodies dir f \<noteq> {}"
  then obtain n p c where "shard_seq_of dir p = Some n" "map_of f p = Some c" by (auto simp: bodies_def)
  then have "(n, p) \<in> set (entries_of dir f)" by (auto simp: entries_of_iff present_def)
  then show ?thesis by auto
qed

lemma candidate_surveyed:
  assumes "expected_manifest_surveyed (mbase e) w = (Inr svs, w1)"
    and "c \<in> set (map candidate_of (with_body svs))" and "cand_key c = (m, s)"
  shows "cand_triple c = (length (entries_of (session_shard_dir m s) (files w)),
      length (session_body (session_shard_dir m s) (files w)),
      hex (sha256 e (session_body (session_shard_dir m s) (files w))))"
proof -
  from assms(2) obtain sv where sv: "sv \<in> set svs" "c = candidate_of sv" by (auto simp: with_body_def)
  from survey_mem [OF assms(1) sv(1)] obtain m' s' where sv': "sv = surveyed (mbase e) m' s' (files w)" by blast
  with sv assms(3) have "m' = m" "s' = s"
    by (simp_all add: candidate_of_def surveyed_def Let_def body_expectation_def cand_key_def)
  with sv sv' show ?thesis
    by (simp add: candidate_of_def surveyed_def Let_def body_expectation_def cand_triple_def menv.defs)
qed

section \<open>The summary lands before the body goes\<close>

lemma carry_start_keeps [simp]: "row_key (carry_start row m) = row_key row" "triple (carry_start row m) = triple row"
  "sm_session_id (carry_start row m) = sm_session_id row"
  by (simp_all add: carry_start_def row_key_def triple_def split: option.splits)

lemma merge_rows_fresh:
  assumes "row \<in> set fresh" "sm_shard_count row > 0"
  shows "\<exists>row' \<in> set (merge_rows stored fresh). \<exists>src \<in> set fresh.
    sm_session_id src = sm_session_id row \<and> row_key row' = row_key src \<and> triple row' = triple src"
proof -
  let ?step = "\<lambda>row m. if sm_shard_count row > 0 then bt_insert (sm_session_id row) (carry_start row m) m else m"
  have "bt_ok (fold ?step xs m) \<and> (row \<in> set xs \<longrightarrow> sm_shard_count row > 0 \<longrightarrow>
      (\<exists>row' src. bt_get (fold ?step xs m) (sm_session_id row) = Some row' \<and> src \<in> set xs \<and>
         sm_session_id src = sm_session_id row \<and> row_key row' = row_key src \<and> triple row' = triple src))"
    if "bt_ok m" for xs and m :: "(string \<times> session_manifest) list"
  proof (induction xs rule: rev_induct)
    case (snoc x xs)
    then have ok: "bt_ok (fold ?step xs m)" by simp
    show ?case
    proof (cases "sm_shard_count x > 0 \<and> sm_session_id x = sm_session_id row")
      case True
      then have "bt_get (fold ?step (xs @ [x]) m) (sm_session_id row) = Some (carry_start x (fold ?step xs m))"
        using ok by (simp add: bt_get_insert)
      with ok True show ?thesis
        by (intro conjI impI exI [where x = "carry_start x (fold ?step xs m)"] exI [where x = x]) simp_all
    next
      case False
      then have "bt_get (fold ?step (xs @ [x]) m) (sm_session_id row) = bt_get (fold ?step xs m) (sm_session_id row)"
        using ok by (auto simp: bt_get_insert)
      with snoc ok False show ?thesis by auto
    qed
  qed (simp add: that)
  moreover have "bt_ok (fold (\<lambda>row. bt_insert (sm_session_id row) row) stored m)" if "bt_ok m" for m :: "(string \<times> session_manifest) list"
    using that by (induction stored arbitrary: m) simp_all
  then have "bt_ok (fold (\<lambda>row. bt_insert (sm_session_id row) row) stored [])" by simp
  ultimately obtain row' src where g: "bt_get (fold ?step fresh (fold (\<lambda>row. bt_insert (sm_session_id row) row) stored []))
      (sm_session_id row) = Some row'" "src \<in> set fresh"
      "sm_session_id src = sm_session_id row" "row_key row' = row_key src" "triple row' = triple src"
    using assms by meson
  from map_of_SomeD [OF g(1)] have "row' \<in> set (merge_rows stored fresh)"
    unfolding merge_rows_def Let_def by force
  with g show ?thesis by blast
qed

definition summarised :: "menv \<Rightarrow> fs \<Rightarrow> fs \<Rightarrow> string \<Rightarrow> string \<Rightarrow> bool" where
  "summarised e f0 f machine s \<longleftrightarrow>
     (\<exists>rows. map_of f (manifest_path machine) = Some (concat (map (to_jsonl e) rows)) \<and>
        (\<exists>row \<in> set rows. row_key row = (machine, s) \<and> triple row = body_triple e machine s f0))"

lemma body_in_session:
  assumes "bodies (session_shard_dir m s) f \<noteq> {}"
  shows "s \<in> set (sessions_of m f)"
proof -
  from assms obtain n p c where p: "shard_seq_of (session_shard_dir m s) p = Some n" "map_of f p = Some c"
    by (auto simp: bodies_def)
  from shard_path_shape [OF p(1)] obtain x r where "p = SESSIONS_DIR # m # s # x # r"
    by (auto simp: session_shard_dir_def neq_Nil_conv)
  with map_of_SomeD [OF p(2)] show ?thesis by (auto simp: sessions_of_iff)
qed

lemma refresh_content:
  assumes "refresh_manifest e machine fresh w = (Inr u, w')"
  shows "\<exists>stored. map_of (files w') (manifest_path machine) = Some (concat (map (to_jsonl e) (merge_rows stored fresh)))"
proof -
  from assms obtain stored w1 where wr: "write_manifest e machine (merge_rows stored fresh) w1 = (Inr u, w')"
    by (auto simp: refresh_manifest_def io_bind_Inr)
  from validD [OF valid_write_manifest [where ?f0.0 = "files w1" and machine = machine and e = e
      and rows = "merge_rows stored fresh"], where s = w1] wr
  have "map_of (files w') (manifest_path machine) = Some (concat (map (to_jsonl e) (merge_rows stored fresh)))"
    by (auto simp: on_files_def)
  then show ?thesis by blast
qed

lemma generated_summarised:
  assumes "generate_manifest e machine w = (Inr fresh, w1)" and "bodies (session_shard_dir machine s) (files w) \<noteq> {}"
    and "map_of f (manifest_path machine) = Some (concat (map (to_jsonl e) (merge_rows stored fresh)))"
  shows "summarised e (files w) f machine s"
proof -
  from assms(1) obtain t where gen: "generate_manifest_at e machine t w = (Inr fresh, w1)"
    by (auto simp: generate_manifest_def io_fail_def split: option.splits)
  from generated_rows(3) [OF gen body_in_session [OF assms(2)] entries_of_body [OF assms(2)]]
  obtain row where row: "row \<in> set fresh" "sm_session_id row = s" by blast
  from generated_rows(2) [OF gen row(1)] have "sm_shard_count row > 0"
    by (simp add: triple_def body_triple_def)
  from merge_rows_fresh [OF row(1) this, of stored] obtain row' src where row': "row' \<in> set (merge_rows stored fresh)"
    "src \<in> set fresh" "sm_session_id src = s" "row_key row' = row_key src" "triple row' = triple src"
    using row(2) by blast
  with generated_rows(2) [OF gen row'(2)] assms(3) show ?thesis
    unfolding summarised_def by (intro exI [where x = "merge_rows stored fresh"]) auto
qed

lemma session_not_meta: "shard_seq_of (session_shard_dir m s) p = Some n \<Longrightarrow> p \<notin> {manifest_path m', manifest_tmp m'}"
  using shard_path_shape [of m s p n]
  by (auto simp: manifest_path_def manifest_tmp_def session_shard_dir_def name_defs META_DIR_def)

lemma bodies_retained:
  assumes "retains P f f'" and "\<And>p n. shard_seq_of dir p = Some n \<Longrightarrow> p \<notin> P"
  shows "bodies dir f \<subseteq> bodies dir f'"
  using assms by (fastforce simp: bodies_def retains_def)

lemma manifest_not_body: "manifest_path m \<notin> body_paths (session_shard_dir m' s) N"
proof -
  have "shard_seq_of (session_shard_dir m' s) (manifest_path m) \<noteq> Some n" for n
    using shard_path_shape [of m' s "manifest_path m" n]
    by (auto simp: manifest_path_def session_shard_dir_def name_defs META_DIR_def)
  then show ?thesis
    by (auto simp: body_paths_def manifest_path_def session_shard_dir_def)
qed


end
