(* ===== verification/Reclaim_Props.thy ===== *)
theory Reclaim_Props
  imports Reclaim_Spec
begin

text \<open>
  The promise of the deletion: nothing leaves the stage but shards that every destination which
  must prove holds, session by session, with the digest triple of the body in the stage; a run
  that is blocked or not asked to apply changes nothing; and a summary is stored first.
\<close>

section \<open>A run on the concrete stage\<close>

definition demo_held :: session_read where
  "demo_held = \<lparr>sr_machine = ''m'', sr_session_id = ''s'', sr_shard_count = 1, sr_concat_bytes = 1, sr_sha256 = ''78''\<rparr>"

definition demo_store :: "unit named_store" where
  "demo_store = \<lparr>ns_name = ''d'', ns_cfg = (), ns_health = Healthy\<rparr>"

definition demo_renv :: "(unit, unit) renv" where
  "demo_renv = menv.extend demo_menv
     \<lparr>load_key_file = (\<lambda>_. Inr ()),
      read_latest_per_machine = (\<lambda>_ _. Inr \<lparr>ra_machines = [\<lparr>mm_snapshot_id = ''t'', mm_sessions = [demo_held]\<rparr>], ra_warnings = []\<rparr>),
      mirror_on_disk = (\<lambda>_. True), json = undefined, enc_map = (\<lambda>_. None), dec_map = (\<lambda>_. None), race = (\<lambda>_ _ f. f)\<rparr>"

lemma demo_renv_simps [simp]: "mbase demo_renv = demo_menv" "fault demo_renv t = False" "only_add demo_renv"
  "load_key_file demo_renv c = Inr ()" "race demo_renv m s f = f"
  "read_latest_per_machine demo_renv c k = Inr \<lparr>ra_machines = [\<lparr>mm_snapshot_id = ''t'', mm_sessions = [demo_held]\<rparr>], ra_warnings = []\<rparr>"
  "base demo_renv = demo_env" "base demo_menv = demo_env" "fault demo_env t = False" "sha256 demo_renv x = x"
  by (simp_all add: demo_renv_def menv.defs demo_menv_def env.defs demo_env_def only_add_def)

definition demo_candidate :: candidate where
  "demo_candidate = candidate_of_read demo_held"

lemma demo_cand: "cd_machine demo_candidate = ''m''" "cd_session_id demo_candidate = ''s''"
  by (simp_all add: demo_candidate_def candidate_of_read_def demo_held_def)

lemma demo_survey: "\<exists>w1. expected_manifest_surveyed demo_menv demo_world =
    (Inr [surveyed demo_menv ''m'' ''s'' (files demo_world)], w1)"
  using demo_stage_facts demo_verify_facts
  by (simp add: expected_manifest_surveyed_def survey_machine_def survey_session_def is_dir_def
      sealed_shard_entries_def io_map_err_def io_simps file_simps sort_entries_def surveyed_def session_body_def
      env.defs Let_def)

lemma demo_surveyed: "map candidate_of (with_body [surveyed demo_menv ''m'' ''s'' (files demo_world)]) = [demo_candidate]"
  "proven_map_of [surveyed demo_menv ''m'' ''s'' (files demo_world)] = [((''m'', ''s''), [1])]"
  using demo_stage_facts demo_verify_facts demo_hex
  by (simp_all add: with_body_def surveyed_def Let_def body_expectation_def session_body_def sort_entries_def
      candidate_of_def demo_candidate_def candidate_of_read_def demo_held_def proven_map_of_def expected_key_def)

lemma demo_prove: "prove demo_renv [demo_store] None [demo_candidate] b = (False, [])"
  by (simp add: prove_def demo_store_def consult_def consult_destination_def
      read_complete_def answer_map_def read_sessions_def held_back_def check_candidate_def cand_key_def demo_candidate_def
      candidate_of_read_def demo_held_def same_triple_def mirror_blocks_def Let_def)

lemma demo_now: "now_unix demo_menv = Some 0"
  by (simp add: demo_menv_def env.defs)

lemma demo_generate:
  assumes "files w = files demo_world"
  shows "\<exists>rows w1. generate_manifest demo_menv ''m'' w = (Inr rows, w1)"
  using assms demo_stage_facts demo_now
  by (simp add: generate_manifest_def generate_manifest_at_def generate_session_def sealed_shard_entries_def
      io_map_err_def io_simps file_simps env.defs Let_def sort_entries_def read_captured_start_in_dir_def)

lemma demo_refresh:
  assumes "files w = files demo_world"
  shows "\<exists>w1. refresh_manifest demo_menv ''m'' rows w = (Inr (), w1)"
  using assms demo_no_manifest
  by (simp add: refresh_manifest_def read_manifest_def write_manifest_def write_synced_def io_simps file_simps Let_def)

lemma refresh_bodies:
  assumes "refresh_manifest e machine rows w = (r, w')"
  shows "bodies (session_shard_dir m s) (files w') = bodies (session_shard_dir m s) (files w)"
proof -
  obtain st w1 where rd: "read_manifest e machine w = (st, w1)" by (cases "read_manifest e machine w")
  from obeysD [OF readonly_stores(2) rd] have f1: "files w1 = files w" .
  have "untouched_but {manifest_tmp machine, manifest_path machine} (files w) (files w')"
  proof (cases st)
    case (Inl x)
    with assms rd f1 show ?thesis by (auto simp: refresh_manifest_def io_bind_def)
  next
    case (Inr st')
    let ?rows = "merge_rows (case st' of Loaded rows \<Rightarrow> rows | _ \<Rightarrow> []) rows"
    have "write_manifest e machine ?rows w1 = (r, w')" using assms rd Inr by (simp add: refresh_manifest_def io_bind_def)
    with validD [OF valid_write_manifest [where ?f0.0 = "files w1" and machine = machine and e = e and rows = ?rows], where s = w1] f1
    show ?thesis by (auto simp: on_files_def untouched_but_def)
  qed
  moreover have "p \<notin> {manifest_tmp machine, manifest_path machine}" if "shard_seq_of (session_shard_dir m s) p = Some n" for p n
    using session_not_meta [OF that] by blast
  ultimately show ?thesis unfolding bodies_def untouched_but_def by (metis (no_types, lifting))
qed

lemma demo_machine:
  assumes "files w = files demo_world"
  shows "\<exists>r w'. reclaim_machine demo_renv [((''m'', ''s''), [1])] (''m'', [demo_candidate]) w = (Inr r, w') \<and>
    bodies demo_dir (files w') = {}"
proof -
  from demo_generate [OF assms] obtain rows w3 where gen: "generate_manifest demo_menv ''m'' w = (Inr rows, w3)" by blast
  from obeysD [OF readonly_generate gen] assms have f3: "files w3 = files demo_world" by simp
  from demo_refresh [OF f3] obtain w4 where ref: "refresh_manifest demo_menv ''m'' rows w3 = (Inr (), w4)" by blast
  have b4: "bodies demo_dir (files w4) = {(1, ''x'')}"
    using refresh_bodies [OF ref, of "''m''" "''s''"] f3 demo_bodies by (simp add: demo_dir_def)
  have "nofault demo_renv" by (simp add: fun_eq_iff)
  from reclaim_body_run [OF this _ demo_dir_def, of w4 "[1]"] b4 obtain k w5 where
    body: "reclaim_session_body demo_renv ''m'' ''s'' [1] w4 = (Inr k, w5)"
    and f5: "\<And>p. map_of (files w5) p = (if p \<in> body_paths demo_dir {1} then None else map_of (files w4) p)"
    by auto
  have gone: "bodies demo_dir (files w5) = {}"
    using f5 b4 by (fastforce simp: bodies_def body_paths_cases split: if_splits)
  have "\<exists>r. reclaim_machine demo_renv [((''m'', ''s''), [1])] (''m'', [demo_candidate]) w = (Inr r, w5)"
    using gen ref body
    by (simp add: reclaim_machine_def reclaim_candidate_def other_processes_def cand_key_def demo_cand
        io_map_err_def io_simps)
  with gone show ?thesis by blast
qed

lemma demo_reclaim: "\<exists>r w'. reclaim_stage demo_renv [demo_store] True None demo_world = (r, w') \<and> bodies demo_dir (files w') = {}"
proof -
  obtain w1 where sv: "expected_manifest_surveyed demo_menv demo_world =
    (Inr [surveyed demo_menv ''m'' ''s'' (files demo_world)], w1)" using demo_survey by blast
  from obeysD [OF readonly_survey_all sv] have f1: "files w1 = files demo_world" .
  obtain n w2 where ct: "count_reclaimed demo_renv [demo_candidate] w1 = (Inr n, w2)" using count_Inr by blast
  from obeysD [OF readonly_count ct] f1 have f2: "files w2 = files demo_world" by simp
  from demo_machine [OF f2] obtain lst w5 where
    del: "reclaim_machine demo_renv [((''m'', ''s''), [1])] (''m'', [demo_candidate]) w2 = (Inr lst, w5)"
    and gone: "bodies demo_dir (files w5) = {}" by blast
  have maps: "ensure_maps demo_renv [demo_candidate] w2 = (Inr [], w2)"
    by (simp add: ensure_map_def demo_cand io_simps)
  have grp: "by_machine [demo_candidate] = [(''m'', [demo_candidate])]" by (simp add: by_machine_def demo_cand)
  have ne: "with_body [surveyed demo_menv ''m'' ''s'' (files demo_world)] \<noteq> []"
    using demo_surveyed(1) by (metis list.simps(8) not_Cons_self2)
  have "delete_all demo_renv [((''m'', ''s''), [1])] [demo_candidate] w2 = (Inr lst, w5)"
    using del by (simp add: delete_all_def grp io_simps)
  then have "\<exists>rep. reclaim_stage demo_renv [demo_store] True None demo_world = (Inr rep, w5)"
    using sv ct maps demo_prove demo_surveyed ne
    by (simp add: reclaim_stage_def io_map_err_def io_bind_def io_return_def Let_def report_blocked_def)
  with gone show ?thesis by blast
qed

section \<open>Shards that arrive during a run\<close>

text \<open>The file \<open>p\<close> stays once it is there, and it is there when a body of the session is gone.\<close>

definition spared :: "path \<Rightarrow> path \<Rightarrow> fs \<Rightarrow> fs \<Rightarrow> bool" where
  "spared dir p f g \<longleftrightarrow> (present f p \<longrightarrow> present g p) \<and> (bodies dir f \<subseteq> bodies dir g \<or> present g p)"

interpretation arriving: file_relation "spared dir p" for dir p
  by unfold_locales (auto simp: spared_def)

lemma retains_present: "retains P f g \<Longrightarrow> p \<notin> P \<Longrightarrow> present f p \<Longrightarrow> present g p"
  by (auto simp: retains_def present_def)

lemma confined_spared:
  assumes "confined P m" "p \<notin> P" "\<And>q n. shard_seq_of dir q = Some n \<Longrightarrow> q \<notin> P"
  shows "obeys (spared dir p) m"
proof -
  have "spared dir p (files w) (files (snd (m w)))" for w
    using obeysD [OF assms(1) prod.collapse [symmetric]] retains_present assms(2) bodies_retained assms(3)
    unfolding spared_def by metis
  then show ?thesis by (simp add: obeys_def)
qed

lemma other_session:
  assumes "shard_seq_of (session_shard_dir m s) p = Some n" "(m', s') \<noteq> (m, s)"
  shows "p \<notin> body_paths (session_shard_dir m' s') N"
proof
  assume "p \<in> body_paths (session_shard_dir m' s') N"
  then consider k where "shard_seq_of (session_shard_dir m' s') p = Some k" | x where "p = session_shard_dir m' s' @ [x]"
    by (auto simp: body_paths_cases sidecar_def)
  with shard_path_shape [OF assms(1)] shard_path_shape [of m' s' p] assms(2) show False
    by cases (auto simp: session_shard_dir_def)
qed

lemma map_not_shard: "shard_seq_of (session_shard_dir m s) p = Some n \<Longrightarrow> p \<notin> map_paths e c"
  using shard_path_shape [of m s p n]
  by (auto simp: map_paths_def opencode_record_map_meta_path_def session_shard_dir_def name_defs META_DIR_def split: if_splits)

lemma confined_race: "only_add e \<Longrightarrow> confined P (other_processes e c)"
  by (auto simp: confined_def retains_def other_processes_def only_add_def)

lemma spared_candidate:
  assumes "only_add e" and p: "shard_seq_of (session_shard_dir m s) p = Some n"
    and "\<And>seqs. bt_get proven (m, s) = Some seqs \<Longrightarrow> n \<notin> set seqs" and "\<forall>f. present (race e m s f) p"
  shows "obeys (spared (session_shard_dir m s) p) (reclaim_candidate e proven c)"
proof (cases "cand_key c = (m, s)")
  case False
  have body: "obeys (spared (session_shard_dir m s) p) (reclaim_session_body e (cd_machine c) (cd_session_id c) seqs)" for seqs
    using other_session False p by (intro confined_spared [OF confined_reclaim_body]) (auto simp: cand_key_def)
  have "obeys (spared (session_shard_dir m s) p) (other_processes e c)"
    by (rule confined_spared [OF confined_race [OF assms(1), of "{}"]]) simp_all
  then show ?thesis unfolding reclaim_candidate_def
    by (intro arriving.bind) (auto split: option.split intro!: arriving.simple arriving.bind body)
next
  case True
  have "present (files (snd (reclaim_candidate e proven c w))) p" for w
  proof -
    let ?w = "w\<lparr>files := race e m s (files w)\<rparr>"
    let ?k = "case bt_get proven (cand_key c) of
        None \<Rightarrow> io_fail (SurveyedSetMissing (cd_session_id c) (cd_machine c))
      | Some seqs \<Rightarrow> io_bind (reclaim_session_body e (cd_machine c) (cd_session_id c) seqs) (\<lambda>removed.
          io_return \<lparr>rm_machine = cd_machine c, rm_session_id = cd_session_id c, rm_shard_count = removed, rm_bytes = cd_concat_bytes c\<rparr>)"
    have run: "reclaim_candidate e proven c w = ?k ?w"
      using True by (simp add: reclaim_candidate_def other_processes_def io_bind_def cand_key_def)
    have "\<not> sidecar (session_shard_dir m s) p" using named_not_shard [OF p] by (auto simp: sidecar_def)
    then have "confined (- {p}) (reclaim_session_body e (cd_machine c) (cd_session_id c) seqs)" if "bt_get proven (m, s) = Some seqs" for seqs
      using True p assms(3) [OF that]
      by (intro confined_mono [OF confined_reclaim_body]) (auto simp: cand_key_def body_paths_cases)
    then have "confined (- {p}) ?k" using True by (auto split: option.split intro!: confines)
    then have "retains (- {p}) (files ?w) (files (snd (?k ?w)))" by (simp only: obeys_def)
    from retains_present [OF this, of p] assms(4) show ?thesis unfolding run by simp
  qed
  then show ?thesis by (simp add: obeys_def spared_def)
qed

lemma spared_deletion:
  assumes "only_add e" and p: "shard_seq_of (session_shard_dir m s) p = Some n"
    and "\<And>seqs. bt_get proven (m, s) = Some seqs \<Longrightarrow> n \<notin> set seqs" and "\<forall>f. present (race e m s f) p"
  shows "obeys (spared (session_shard_dir m s) p) (delete_proven e proven cands rep)"
proof -
  have "obeys (spared (session_shard_dir m s) p) (ensure_maps e cands)"
    using confined_ensure_maps [where P = "\<Union>c \<in> set cands. map_paths e c" and cands = cands and e = e] map_not_shard p
    by (intro confined_spared) blast+
  moreover have "obeys (spared (session_shard_dir m s) p) (reclaim_machine e proven (k, cs))" for k cs
  proof -
    have "obeys (spared (session_shard_dir m s) p) (refresh_manifest (mbase e) k fresh)" for fresh
      using confined_refresh [of k "{manifest_path k, manifest_tmp k}"] session_not_meta p
      by (intro confined_spared [where P = "{manifest_path k, manifest_tmp k}"]) blast+
    moreover have "obeys (spared (session_shard_dir m s) p) (generate_manifest (mbase e) k)"
      by (rule confined_spared [OF readonly_confined [OF readonly_generate], where P = "{}"]) simp_all
    ultimately show ?thesis unfolding reclaim_machine_def prod.case
      by (intro arriving.bind arriving.map_err arriving.traverse spared_candidate [OF assms(1) p assms(3,4)])
  qed
  ultimately show ?thesis unfolding delete_proven_def delete_all_def
    by (intro arriving.bind arriving.simple arriving.traverse) (auto intro: prod.exhaust)
qed

lemma proven_numbers:
  assumes "expected_manifest_surveyed (mbase e) w = (Inr svs, w1)" and "bt_get (proven_map_of svs) (m, s) = Some seqs"
  shows "set seqs = fst ` bodies (session_shard_dir m s) (files w)"
proof -
  have "bt_get (fold (\<lambda>sv. bt_insert (expected_key (sv_expectation sv)) (sv_sequences sv)) xs st) k = Some seqs \<Longrightarrow> bt_ok st \<Longrightarrow>
      bt_get st k = Some seqs \<or> (\<exists>sv \<in> set xs. expected_key (sv_expectation sv) = k \<and> seqs = sv_sequences sv)" for xs st k
    by (induction xs arbitrary: st) (fastforce simp: bt_get_insert split: if_splits)+
  from this [of "with_body svs" "[]" "(m, s)"] assms(2)
  obtain sv where sv: "sv \<in> set svs" "expected_key (sv_expectation sv) = (m, s)" "seqs = sv_sequences sv"
    by (auto simp: proven_map_of_def with_body_def)
  from survey_mem [OF assms(1) sv(1)] obtain m' s' where "sv = surveyed (mbase e) m' s' (files w)" by blast
  with sv(2,3) show ?thesis unfolding bodies_listed by (auto simp: surveyed_def Let_def body_expectation_def expected_key_def sort_entries_def)
qed

section \<open>The properties\<close>



text \<open>Without the flag to apply, or when any destination or mirror blocks, the run changes no file
  and reports nothing reclaimed.\<close>

theorem reclaim_blocked_changes_nothing:
  assumes "reclaim_stage e dests apply_it mirror w = (r, w')"
    and "\<not> apply_it \<or> (\<exists>rep. r = Inr rep \<and> report_blocked rep)"
  shows "files w' = files w \<and> (\<forall>rep. r = Inr rep \<longrightarrow> rc_reclaimed rep = [])"
  using assms(1)
proof (cases rule: reclaim_cases)
  case (deleted svs w1 w2 rep)
  have "rc_blocked rep' = rc_blocked rep \<and> rc_no_healthy_prover rep' = rc_no_healthy_prover rep" if "r = Inr rep'" for rep'
    using deleted(5) that by (auto simp: delete_proven_def io_bind_Inr io_return_Inr)
  with deleted(1,6) assms(2) show ?thesis by (auto simp: report_blocked_def)
qed auto

theorem reclaim_blocked_changes_nothing_witness:
  "files (snd (reclaim_stage demo_renv [demo_store] False None demo_world)) = files demo_world"
  using reclaim_blocked_changes_nothing [OF surjective_pairing, of False demo_renv "[demo_store]" None demo_world] by simp

text \<open>C9: The summary lands before the body goes: under every fault and with other processes adding to
  the stage, a machine's turn that loses any shard body of one of its sessions leaves in the
  machine's manifest file, even when it stops halfway, a row whose triple is count, length and
  SHA-256 of the body as it was when the turn began.\<close>

theorem summary_lands_before_body:
  assumes "only_add e" and "reclaim_machine e proven (m, cs) w = (r, w')"
    and "body \<in> bodies (session_shard_dir m s) (files w)" and "body \<notin> bodies (session_shard_dir m s) (files w')"
  shows "summarised (mbase e) (files w) (files w') m s"
proof -
  let ?gen = "io_map_err (ManifestFailed m) (generate_manifest (mbase e) m)"
  let ?ref = "\<lambda>fresh. io_map_err (ManifestFailed m) (refresh_manifest (mbase e) m fresh)"
  let ?del = "io_traverse (reclaim_candidate e proven) cs"
  obtain r1 w1 where g: "?gen w = (r1, w1)" by (cases "?gen w")
  have f1: "files w1 = files w"
    using readonly_map_err [OF readonly_generate, of "ManifestFailed m" "mbase e" m] g
    unfolding readonly_def by (metis snd_conv)
  from assms(2-4) g f1 obtain fresh where fresh: "r1 = Inr fresh"
    by (cases r1) (auto simp: reclaim_machine_def io_bind_def)
  obtain r2 w2 where rf: "?ref fresh w1 = (r2, w2)" by (cases "?ref fresh w1")
  have "confined {manifest_path m, manifest_tmp m} (?ref fresh)"
    by (intro confined_map_err confined_refresh) simp_all
  from obeysD [OF this rf] bodies_retained session_not_meta
  have b2: "bodies (session_shard_dir m s) (files w1) \<subseteq> bodies (session_shard_dir m s) (files w2)" by metis
  with assms(2-4) g f1 rf fresh obtain u where u: "r2 = Inr u" "?del w2 = (r, w')"
    by (cases r2) (auto simp: reclaim_machine_def io_bind_def)
  from rf [unfolded u(1)] obtain stored where
    st: "map_of (files w2) (manifest_path m) = Some (concat (map (to_jsonl (mbase e)) (merge_rows stored fresh)))"
    using refresh_content by (fastforce simp: io_map_err_Inr)
  have "confined (- {manifest_path m}) ?del"
    using manifest_not_body by (intro confined_traverse confined_candidate [OF assms(1)]) blast
  from obeysD [OF this u(2)] st
  have "map_of (files w') (manifest_path m) = Some (concat (map (to_jsonl (mbase e)) (merge_rows stored fresh)))"
    by (simp add: retains_def)
  with g fresh assms(3) show ?thesis
    by (intro generated_summarised) (auto simp: io_map_err_Inr)
qed

theorem summary_lands_before_body_witness:
  "\<exists>r w'. reclaim_machine demo_renv [((''m'', ''s''), [1])] (''m'', [demo_candidate]) demo_world = (Inr r, w') \<and>
     summarised demo_menv (files demo_world) (files w') ''m'' ''s''"
proof -
  obtain r w' where run: "reclaim_machine demo_renv [((''m'', ''s''), [1])] (''m'', [demo_candidate]) demo_world = (Inr r, w')"
    "bodies demo_dir (files w') = {}" using demo_machine [OF refl] by blast
  with summary_lands_before_body [OF _ run(1), of "(1, ''x'')" "''s''"] show ?thesis
    using demo_bodies by (auto simp: demo_dir_def)
qed

text \<open>C12: A mirror whose source is not among the destinations that were consulted, because it is degraded,
  undeclared or has an empty name, never lets a proof pass: as long as there is a candidate,
  everything is held back.\<close>

theorem unconsulted_mirror_source_blocks:
  assumes "c \<in> set cands" and "\<forall>d \<in> set dests. ns_name d = mh_mirror_of h \<longrightarrow> is_degraded (ns_health d)"
  shows "prove e dests (Some h) cands b \<noteq> (False, [])"
  using prove_clear [OF _ assms(1), of e dests "Some h" b] assms(2) by (auto simp: mirrored_def)

definition demo_mirror :: mirror_holdback where
  "demo_mirror = \<lparr>mh_mirror_of = ''old'', mh_mirror_root = [''mirror''],
     mh_state = StateMissing\<rparr>"

theorem unconsulted_mirror_source_blocks_witness:
  "prove demo_renv [demo_store, demo_store\<lparr>ns_name := ''old'', ns_health := Lagging\<rparr>] (Some demo_mirror) [demo_candidate] 1 \<noteq> (False, []) \<and>
   prove demo_renv [demo_store] None [demo_candidate] 1 = (False, [])"
  using unconsulted_mirror_source_blocks [of demo_candidate "[demo_candidate]"
      "[demo_store, demo_store\<lparr>ns_name := ''old'', ns_health := Lagging\<rparr>]" demo_mirror demo_renv 1] demo_prove
  by (simp add: demo_mirror_def demo_store_def)

end
