(* ===== verification/Deletion_Control.thy ===== *)
theory Deletion_Control
  imports Manifest Last_Writer Identity_Guard
begin

text \<open>
  \<open>deletion_control.rs\<close> and the commands \<open>hide\<close> and \<open>unhide\<close> of \<open>main.rs\<close>: the append-only stream of
  user requests to hide, show, purge or redact a session, its durable append, the policy folded
  from any number of streams, and the collection of the streams of an archive. JSON, the parser of
  RFC 3339 timestamps and the repository are parameters.
\<close>

section \<open>Records\<close>

definition CONTROL_FILE :: string where "CONTROL_FILE = ''deletion-control-v1.jsonl''"
definition CONTROL_SCHEMA :: string where "CONTROL_SCHEMA = ''chat-stasher/deletion-control/1''"
definition MAX_REASON_BYTES :: nat where "MAX_REASON_BYTES = 80"
definition MAX_OPERATION_ID_BYTES :: nat where "MAX_OPERATION_ID_BYTES = 128"

datatype control_action = Hide | Unhide | Purge | Redact

datatype control_scope = WholeSession | SessionForever | ContentThroughCutoff string

record control_event =
  ce_schema :: string
  ce_operation_id :: string
  ce_recorded_at :: string
  ce_action :: control_action
  ce_target_machine :: string
  ce_session_id :: string
  ce_actor_machine :: string
  ce_scope :: control_scope
  ce_reason :: "string option"

text \<open>\<open>instant\<close> reads an RFC 3339 timestamp as nanoseconds in UTC; \<open>stage_is_dir\<close> is whether the stage exists.\<close>

record cenv = env +
  stage_is_dir :: bool
  instant :: "string \<Rightarrow> int option"
  enc_event :: "control_event \<Rightarrow> bytes option"
  dec_event :: "string \<Rightarrow> control_event option"

datatype control_invalid =
    BadSchema string
  | BadOperationId nat
  | BadTimestamp string
  | BadIdentity string
  | BadReason
  | MissingCutoff
  | WrongScope control_action control_scope

definition bad_component :: "string \<Rightarrow> bool" where
  "bad_component v \<longleftrightarrow> v = [] \<or> CHR ''/'' \<in> set v \<or> CHR 0x5C \<in> set v \<or> v = ''.'' \<or> v = ''..''"

fun validate_scope :: "control_action \<Rightarrow> control_scope \<Rightarrow> control_invalid + unit" where
  "validate_scope Hide WholeSession = Inr ()"
| "validate_scope Unhide WholeSession = Inr ()"
| "validate_scope Purge SessionForever = Inr ()"
| "validate_scope Redact (ContentThroughCutoff cutoff) = (if cutoff = [] then Inl MissingCutoff else Inr ())"
| "validate_scope action scope = Inl (WrongScope action scope)"

definition validate :: "('x cenv_scheme) \<Rightarrow> control_event \<Rightarrow> control_invalid + unit" where
  "validate e ev =
     (if ce_schema ev \<noteq> CONTROL_SCHEMA then Inl (BadSchema (ce_schema ev))
      else if ce_operation_id ev = [] \<or> MAX_OPERATION_ID_BYTES < length (ce_operation_id ev)
      then Inl (BadOperationId (length (ce_operation_id ev)))
      else if instant e (ce_recorded_at ev) = None then Inl (BadTimestamp (ce_recorded_at ev))
      else case find bad_component [ce_target_machine ev, ce_session_id ev, ce_actor_machine ev] of
          Some v \<Rightarrow> Inl (BadIdentity v)
        | None \<Rightarrow>
          if (case ce_reason ev of None \<Rightarrow> False
              | Some r \<Rightarrow> MAX_REASON_BYTES < length r \<or> newline \<in> set r \<or> CHR 0x0D \<in> set r)
          then Inl BadReason
          else validate_scope (ce_action ev) (ce_scope ev))"

section \<open>Streams\<close>

datatype unreadable_why =
    StreamNotUtf8
  | RecordUnparsable
  | TrailingWhitespace
  | RecordInvalid control_invalid
  | StreamReadFailed
  | NotReadBack

datatype stream_unreadable = StreamUnreadable "nat option" unreadable_why

definition trim_end :: "string \<Rightarrow> string" where
  "trim_end s = rev (trim_end_rev (rev s))"

fun parse_event_lines :: "('x cenv_scheme) \<Rightarrow> nat \<Rightarrow> string list \<Rightarrow> stream_unreadable + control_event list" where
  "parse_event_lines e idx [] = Inr []"
| "parse_event_lines e idx (l # ls) =
     (if trim l = [] then parse_event_lines e (Suc idx) ls
      else case dec_event e l of
          None \<Rightarrow> Inl (StreamUnreadable (Some (idx + 1)) RecordUnparsable)
        | Some ev \<Rightarrow>
            if trim_end l \<noteq> l then Inl (StreamUnreadable (Some (idx + 1)) TrailingWhitespace)
            else case validate e ev of
                Inl why \<Rightarrow> Inl (StreamUnreadable (Some (idx + 1)) (RecordInvalid why))
              | Inr _ \<Rightarrow> rbind (parse_event_lines e (Suc idx) ls) (\<lambda>evs. Inr (ev # evs)))"

definition parse_events :: "('x cenv_scheme) \<Rightarrow> bytes \<Rightarrow> stream_unreadable + control_event list" where
  "parse_events e raw =
     (if \<not> valid_utf8 raw then Inl (StreamUnreadable None StreamNotUtf8)
      else parse_event_lines e 0 (lines_of raw))"

section \<open>The policy\<close>

datatype visibility = Visible | Hidden | Purged | RedactedThroughCutoff string

definition omitted :: "visibility \<Rightarrow> bool" where
  "omitted v \<longleftrightarrow> v \<noteq> Visible"

type_synonym identity = "string \<times> string"

record control_policy =
  po_state :: "(identity \<times> visibility) list"
  po_events :: nat

definition visibility :: "control_policy \<Rightarrow> string \<Rightarrow> string \<Rightarrow> visibility" where
  "visibility p machine session_id =
     (case bt_get (po_state p) (machine, session_id) of None \<Rightarrow> Visible | Some v \<Rightarrow> v)"

definition omitted_from_readers :: "control_policy \<Rightarrow> string \<Rightarrow> string \<Rightarrow> bool" where
  "omitted_from_readers p machine session_id \<longleftrightarrow> omitted (visibility p machine session_id)"

definition policy_is_empty :: "control_policy \<Rightarrow> bool" where
  "policy_is_empty p \<longleftrightarrow> po_state p = []"

definition recorded_identities :: "control_policy \<Rightarrow> identity list" where
  "recorded_identities p = map fst (po_state p)"

datatype fold_refusal = OperationConflict string | InvalidRecord control_invalid

type_synonym by_operation = "(string \<times> control_event) list"

fun note_events :: "('x cenv_scheme) \<Rightarrow> control_event list \<Rightarrow> by_operation \<Rightarrow> fold_refusal + by_operation" where
  "note_events e [] unique = Inr unique"
| "note_events e (ev # evs) unique =
     (case validate e ev of
        Inl why \<Rightarrow> Inl (InvalidRecord why)
      | Inr _ \<Rightarrow>
          (case bt_get unique (ce_operation_id ev) of
             Some prior \<Rightarrow>
               if prior = ev then note_events e evs unique
               else Inl (OperationConflict (ce_operation_id ev))
           | None \<Rightarrow> note_events e evs (bt_insert (ce_operation_id ev) ev unique)))"

definition parse_instant :: "('x cenv_scheme) \<Rightarrow> string \<Rightarrow> int" where
  "parse_instant e s = (case instant e s of None \<Rightarrow> 0 | Some t \<Rightarrow> t)"

definition order_key :: "('x cenv_scheme) \<Rightarrow> control_event \<Rightarrow> int \<times> string" where
  "order_key e ev = (parse_instant e (ce_recorded_at ev), ce_operation_id ev)"

definition ordered_events :: "('x cenv_scheme) \<Rightarrow> by_operation \<Rightarrow> control_event list" where
  "ordered_events e unique = sort_key (order_key e) (map snd unique)"

definition identity_of :: "control_event \<Rightarrow> identity" where
  "identity_of ev = (ce_target_machine ev, ce_session_id ev)"

definition set_unless_purged :: "identity \<Rightarrow> visibility \<Rightarrow> (identity \<times> visibility) list \<Rightarrow> (identity \<times> visibility) list" where
  "set_unless_purged k v st =
     (case bt_get st k of Some Purged \<Rightarrow> st | _ \<Rightarrow> bt_insert k v st)"

definition apply_event :: "control_event \<Rightarrow> (identity \<times> visibility) list \<Rightarrow> (identity \<times> visibility) list" where
  "apply_event ev st =
     (let key = identity_of ev in
      case ce_action ev of
        Purge \<Rightarrow> bt_insert key Purged st
      | Redact \<Rightarrow>
          (case ce_scope ev of
             ContentThroughCutoff cutoff \<Rightarrow> set_unless_purged key (RedactedThroughCutoff cutoff) st
           | _ \<Rightarrow> st)
      | Unhide \<Rightarrow> set_unless_purged key Visible st
      | Hide \<Rightarrow> set_unless_purged key Hidden st)"

definition fold_events :: "('x cenv_scheme) \<Rightarrow> control_event list \<Rightarrow> fold_refusal + control_policy" where
  "fold_events e evs =
     rbind (note_events e evs []) (\<lambda>unique.
     let ordered = ordered_events e unique in
     Inr \<lparr>po_state = fold apply_event ordered [], po_events = length ordered\<rparr>)"

section \<open>The stream of a stage\<close>

datatype control_error =
    ControlStream stream_unreadable
  | ControlFixture string
  | ControlEncode
  | ControlLock
  | ControlIo path

definition control_path :: "string \<Rightarrow> path" where
  "control_path actor = [META_DIR, actor, CONTROL_FILE]"

datatype stage_control_read = ControlAbsent | ControlEvents "control_event list"

definition read_stage_events :: "('x cenv_scheme) \<Rightarrow> string \<Rightarrow> (world, stream_unreadable, stage_control_read) io" where
  "read_stage_events e actor w =
     (if fault e (clock w) then Inl (StreamUnreadable None StreamReadFailed)
      else case map_of (files w) (control_path actor) of
          None \<Rightarrow> Inr ControlAbsent
        | Some raw \<Rightarrow> rbind (parse_events e raw) (\<lambda>evs. Inr (ControlEvents evs)),
      w\<lparr>clock := Suc (clock w)\<rparr>)"

fun action_debug :: "control_action \<Rightarrow> string" where
  "action_debug Hide = ''Hide''"
| "action_debug Unhide = ''Unhide''"
| "action_debug Purge = ''Purge''"
| "action_debug Redact = ''Redact''"

definition new_operation_id ::
  "('x env_scheme) \<Rightarrow> string \<Rightarrow> string \<Rightarrow> string \<Rightarrow> control_action \<Rightarrow> string \<Rightarrow> string" where
  "new_operation_id e actor target session_id action recorded_at =
     hex (take 16 (sha256 e (CONTROL_SCHEMA @ newline # actor @ newline # target @ newline # session_id @ newline #
       action_debug action @ newline # recorded_at)))"

text \<open>\<open>now\<close> is the clock's reading, printed in RFC 3339 with nanoseconds.\<close>

definition new_state_event ::
  "('x cenv_scheme) \<Rightarrow> string \<Rightarrow> control_action \<Rightarrow> string \<Rightarrow> string \<Rightarrow> string \<Rightarrow> string option \<Rightarrow> stream_unreadable + control_event" where
  "new_state_event e now action actor target session_id reason =
     (let ev = \<lparr>ce_schema = CONTROL_SCHEMA, ce_operation_id = new_operation_id e actor target session_id action now,
                ce_recorded_at = now, ce_action = action, ce_target_machine = target, ce_session_id = session_id,
                ce_actor_machine = actor, ce_scope = WholeSession,
                ce_reason = (case map_option trim reason of Some r \<Rightarrow> if r = [] then None else Some r | None \<Rightarrow> None)\<rparr> in
      case validate e ev of Inl why \<Rightarrow> Inl (StreamUnreadable None (RecordInvalid why)) | Inr _ \<Rightarrow> Inr ev)"

text \<open>Opening with \<open>create\<close> and \<open>append\<close>, and a write at the end that may leave a prefix.\<close>

definition open_append :: "('x schedule_scheme) \<Rightarrow> 'e \<Rightarrow> path \<Rightarrow> (world, 'e, unit) io" where
  "open_append e err p =
     fs_op e err (\<lambda>f. if map_of f p = None then AList.update p [] f else f) (\<lambda>f. f)"

definition append_bytes :: "('x schedule_scheme) \<Rightarrow> 'e \<Rightarrow> path \<Rightarrow> bytes \<Rightarrow> (world, 'e, unit) io" where
  "append_bytes e err p c w =
     (let old = (case map_of (files w) p of None \<Rightarrow> [] | Some raw \<Rightarrow> raw) in
      fs_op e err (AList.update p (old @ c)) (AList.update p (old @ take (torn e (clock w)) c)) w)"

definition append_stage_event :: "('x cenv_scheme) \<Rightarrow> control_event \<Rightarrow> (world, control_error, unit) io" where
  "append_stage_event e ev =
     (case validate e ev of
        Inl why \<Rightarrow> io_fail (ControlStream (StreamUnreadable None (RecordInvalid why)))
      | Inr _ \<Rightarrow>
      (case refuse_fixture_write (temp_dir e) [ce_actor_machine ev, ce_target_machine ev, ce_session_id ev] (stage_root e) of
        Inl i \<Rightarrow> io_fail (ControlFixture i)
      | Inr _ \<Rightarrow>
        let p = control_path (ce_actor_machine ev) in
        io_bind (touch e (ControlIo p)) (\<lambda>_.
        case enc_event e ev of
          None \<Rightarrow> io_fail ControlEncode
        | Some l \<Rightarrow>
            io_bind (touch e ControlLock) (\<lambda>_.
            io_bind (open_append e (ControlIo p) p) (\<lambda>_.
            io_bind (append_bytes e (ControlIo p) p (l @ [newline])) (\<lambda>_.
            io_bind (touch e (ControlIo p)) (\<lambda>_.
            io_bind (io_map_err ControlStream (read_stage_events e (ce_actor_machine ev))) (\<lambda>back.
            case back of
              ControlEvents evs \<Rightarrow>
                if ev \<in> set evs then io_return ()
                else io_fail (ControlStream (StreamUnreadable None NotReadBack))
            | ControlAbsent \<Rightarrow> io_fail (ControlStream (StreamUnreadable None NotReadBack))))))))))"

section \<open>The commands\<close>

datatype command_refusal =
    InvalidSessionId
  | ReasonTooLong
  | NoStage
  | StateUnknown stream_unreadable
  | StateRefused fold_refusal
  | UnderTombstone
  | RecordRefused stream_unreadable
  | AppendFailed control_error

datatype command_outcome = AlreadyInState | RecordAppended control_event

definition current_state ::
  "('x cenv_scheme) \<Rightarrow> string \<Rightarrow> string \<Rightarrow> string \<Rightarrow> (world, command_refusal, visibility) io" where
  "current_state e actor target session_id =
     io_bind (io_map_err StateUnknown (read_stage_events e actor)) (\<lambda>back.
     case back of
       ControlAbsent \<Rightarrow> io_return Visible
     | ControlEvents evs \<Rightarrow>
         (case fold_events e evs of
            Inl issue \<Rightarrow> io_fail (StateRefused issue)
          | Inr policy \<Rightarrow> io_return (visibility policy target session_id)))"

definition already_in_state :: "control_action \<Rightarrow> visibility \<Rightarrow> bool" where
  "already_in_state action current \<longleftrightarrow>
     action = Hide \<and> (current = Hidden \<or> current = Purged) \<or> action = Unhide \<and> current = Visible"

definition control_state_command ::
  "('x cenv_scheme) \<Rightarrow> string \<Rightarrow> control_action \<Rightarrow> string \<Rightarrow> string \<Rightarrow> string \<Rightarrow> string option \<Rightarrow>
     (world, command_refusal, command_outcome) io" where
  "control_state_command e now action actor target session_id reason =
     (if bad_component session_id then io_fail InvalidSessionId
      else if (case reason of None \<Rightarrow> False
               | Some r \<Rightarrow> MAX_REASON_BYTES < length r \<or> newline \<in> set r \<or> CHR 0x0D \<in> set r)
      then io_fail ReasonTooLong
      else if \<not> stage_is_dir e then io_fail NoStage
      else
        io_bind (current_state e actor target session_id) (\<lambda>current.
        if already_in_state action current then io_return AlreadyInState
        else if current = Purged then io_fail UnderTombstone
        else case new_state_event e now action actor target session_id reason of
            Inl x \<Rightarrow> io_fail (RecordRefused x)
          | Inr ev \<Rightarrow> io_bind (io_map_err AppendFailed (append_stage_event e ev)) (\<lambda>_. io_return (RecordAppended ev))))"

section \<open>The streams of an archive\<close>

text \<open>Listing the tree of a snapshot and reading a file of it are the repository's.\<close>

record ('s, 'n) archive =
  list_tree :: "'s \<Rightarrow> (path \<times> 'n) list option"
  node_is_file :: "'n \<Rightarrow> bool"
  dump :: "'n \<Rightarrow> bytes option"

definition control_stream_machine :: "path \<Rightarrow> string option" where
  "control_stream_machine p =
     (let parts = map lossy p; n = length parts in
      if n < 3 then None
      else if parts ! (n - 3) = META_DIR \<and> parts ! (n - 1) = CONTROL_FILE then Some (parts ! (n - 2))
      else None)"

record 's control_read =
  cr_events :: "control_event list"
  cr_sources :: nat
  cr_unreadable :: "(string \<times> stream_unreadable) list"
  cr_skipped :: "(string \<times> 's) list"
  cr_unestablished :: "string list"
  cr_seen :: "string list"

datatype archive_refusal =
    DumpFailed string
  | ControlUnreadable "(string \<times> stream_unreadable) list" nat
  | PolicyRefused fold_refusal
  | Unestablished "string list"

fun take_entries ::
  "('x cenv_scheme) \<Rightarrow> ('s, 'n) archive \<Rightarrow> (path \<times> 'n) list \<Rightarrow> 's control_read \<Rightarrow> archive_refusal + 's control_read" where
  "take_entries e a [] out = Inr out"
| "take_entries e a ((p, node) # es) out =
     (if \<not> node_is_file a node then take_entries e a es out
      else case control_stream_machine p of
          None \<Rightarrow> take_entries e a es out
        | Some machine \<Rightarrow>
            if machine \<in> set (cr_seen out) then take_entries e a es out
            else
              let out1 = out\<lparr>cr_seen := machine # cr_seen out\<rparr> in
              case dump a node of
                None \<Rightarrow> Inl (DumpFailed machine)
              | Some raw \<Rightarrow>
                  (case parse_events e raw of
                     Inr evs \<Rightarrow> take_entries e a es (out1\<lparr>cr_sources := cr_sources out + 1, cr_events := cr_events out @ evs\<rparr>)
                   | Inl x \<Rightarrow> take_entries e a es (out1\<lparr>cr_unreadable := cr_unreadable out @ [(machine, x)]\<rparr>)))"

text \<open>The first snapshot of a host that lists governs; the others are not opened.\<close>

fun take_host ::
  "('x cenv_scheme) \<Rightarrow> ('s, 'n) archive \<Rightarrow> string \<Rightarrow> 's list \<Rightarrow> 's control_read \<Rightarrow> archive_refusal + 's control_read" where
  "take_host e a host [] out = Inr (out\<lparr>cr_unestablished := cr_unestablished out @ [host]\<rparr>)"
| "take_host e a host (snap # snaps) out =
     (case list_tree a snap of
        None \<Rightarrow> take_host e a host snaps (out\<lparr>cr_skipped := cr_skipped out @ [(host, snap)]\<rparr>)
      | Some entries \<Rightarrow> take_entries e a entries out)"

definition collect_archive_control ::
  "('x cenv_scheme) \<Rightarrow> ('s, 'n) archive \<Rightarrow> (string \<times> 's list) list \<Rightarrow> archive_refusal + 's control_read" where
  "collect_archive_control e a hosts =
     try_fold (\<lambda>(host, snaps). take_host e a host snaps) hosts
       \<lparr>cr_events = [], cr_sources = 0, cr_unreadable = [], cr_skipped = [], cr_unestablished = [], cr_seen = []\<rparr>"

record 's read_notes =
  rn_skipped :: "(string \<times> 's) list"
  rn_unestablished :: "string list"

definition notes_quiet :: "'s read_notes \<Rightarrow> bool" where
  "notes_quiet n \<longleftrightarrow> rn_skipped n = [] \<and> rn_unestablished n = []"

definition load_reader_policy_with_notes ::
  "('x cenv_scheme) \<Rightarrow> ('s, 'n) archive \<Rightarrow> (string \<times> 's list) list \<Rightarrow> archive_refusal + (control_policy \<times> 's read_notes)" where
  "load_reader_policy_with_notes e a hosts =
     rbind (collect_archive_control e a hosts) (\<lambda>control.
     if cr_unreadable control \<noteq> [] then Inl (ControlUnreadable (cr_unreadable control) (cr_sources control))
     else case fold_events e (cr_events control) of
         Inl issue \<Rightarrow> Inl (PolicyRefused issue)
       | Inr policy \<Rightarrow>
           Inr (policy, \<lparr>rn_skipped = cr_skipped control, rn_unestablished = cr_unestablished control\<rparr>))"

definition load_strict_reader_policy ::
  "('x cenv_scheme) \<Rightarrow> ('s, 'n) archive \<Rightarrow> (string \<times> 's list) list \<Rightarrow> archive_refusal + control_policy" where
  "load_strict_reader_policy e a hosts =
     rbind (load_reader_policy_with_notes e a hosts) (\<lambda>(policy, notes).
     if rn_unestablished notes \<noteq> [] then Inl (Unestablished (rn_unestablished notes)) else Inr policy)"

section \<open>The purge preview\<close>

record occurrence =
  oc_snapshot_id :: string
  oc_shard_files :: nat
  oc_bytes :: nat

record inventory =
  iv_in_repo :: nat
  iv_scanned :: nat
  iv_with_target :: "occurrence list"
  iv_occurrences :: nat
  iv_bytes :: nat

datatype preview_status = PreviewFound | PreviewAbsent | PreviewUnknown

text \<open>Path components that are not UTF-8 are passed over.\<close>

definition bucket_shard_path :: "path \<Rightarrow> (string \<times> string \<times> string) option" where
  "bucket_shard_path p =
     (let comps = filter valid_utf8 p; after = rev (takeWhile (\<lambda>c. c \<noteq> SESSIONS_DIR) (rev comps)) in
      if SESSIONS_DIR \<notin> set comps then None
      else case after of
          [m, s, shard] \<Rightarrow> if ends_with shard SHARD_SUFFIX then Some (m, s, shard) else None
        | [m, s, _, shard] \<Rightarrow> if ends_with shard SHARD_SUFFIX then Some (m, s, shard) else None
        | _ \<Rightarrow> None)"

text \<open>A snapshot's time, host and id, and a node's size, are the repository's.\<close>

record ('s, 'n) repo = "('s, 'n) archive" +
  all_snapshots :: "'s list option"
  group_by_host :: "'s list \<Rightarrow> 's list list"
  snap_time :: "'s \<Rightarrow> int"
  snap_host :: "'s \<Rightarrow> string"
  snap_id :: "'s \<Rightarrow> string"
  node_size :: "'n \<Rightarrow> nat"

definition snapshots_by_host_newest_first :: "('s, 'n) repo \<Rightarrow> 's list \<Rightarrow> (string \<times> 's list) list" where
  "snapshots_by_host_newest_first r snaps =
     sort_key fst (List.map_filter (\<lambda>items.
       case sort_key (\<lambda>s. - snap_time r s) items of
         [] \<Rightarrow> None
       | newest # rest \<Rightarrow> Some (snap_host r newest, newest # rest)) (group_by_host r snaps))"

definition occurrences_in :: "('s, 'n) repo \<Rightarrow> string \<Rightarrow> string \<Rightarrow> (path \<times> 'n) list \<Rightarrow> (path \<times> 'n) list" where
  "occurrences_in r machine session_id =
     filter (\<lambda>(p, node). node_is_file r node \<and>
       (case bucket_shard_path p of None \<Rightarrow> False | Some (m, s, _) \<Rightarrow> m = machine \<and> s = session_id))"

definition scan_snapshot :: "('s, 'n) repo \<Rightarrow> string \<Rightarrow> string \<Rightarrow> 's \<Rightarrow> inventory \<Rightarrow> unit + inventory" where
  "scan_snapshot r machine session_id snap iv =
     (case list_tree r snap of
        None \<Rightarrow> Inl ()
      | Some entries \<Rightarrow>
          (let found = occurrences_in r machine session_id entries;
               bytes = sum_list (map (node_size r \<circ> snd) found);
               iv1 = iv\<lparr>iv_scanned := iv_scanned iv + 1\<rparr> in
           Inr (if found = [] then iv1
                else iv1\<lparr>iv_with_target := iv_with_target iv @ [\<lparr>oc_snapshot_id = take 8 (snap_id r snap),
                           oc_shard_files = length found, oc_bytes = bytes\<rparr>],
                         iv_occurrences := iv_occurrences iv + length found, iv_bytes := iv_bytes iv + bytes\<rparr>)))"

definition occurrence_inventory :: "('s, 'n) repo \<Rightarrow> string \<Rightarrow> string \<Rightarrow> unit + inventory" where
  "occurrence_inventory r machine session_id =
     (case all_snapshots r of
        None \<Rightarrow> Inl ()
      | Some snaps \<Rightarrow>
          try_fold (scan_snapshot r machine session_id) (concat (map snd (snapshots_by_host_newest_first r snaps)))
            \<lparr>iv_in_repo = length snaps, iv_scanned = 0, iv_with_target = [], iv_occurrences = 0, iv_bytes = 0\<rparr>)"

definition preview_status_of :: "unit + inventory \<Rightarrow> preview_status" where
  "preview_status_of found =
     (case found of
        Inl _ \<Rightarrow> PreviewUnknown
      | Inr iv \<Rightarrow> if iv_occurrences iv > 0 then PreviewFound else PreviewAbsent)"

end
