(* ===== verification/Deletion_Spec.thy ===== *)
theory Deletion_Spec
  imports Deletion_Control
begin

text \<open>
  What the control stream promises: the policy depends only on the set of records, a purge is
  never lifted, otherwise the latest record decides, and nothing unknown is read as nothing.
\<close>

section \<open>Noting the records by operation\<close>

definition consistent :: "control_event set \<Rightarrow> bool" where
  "consistent S \<longleftrightarrow> (\<forall>a \<in> S. \<forall>b \<in> S. ce_operation_id a = ce_operation_id b \<longrightarrow> a = b)"

definition keyed :: "by_operation \<Rightarrow> bool" where
  "keyed u \<longleftrightarrow> bt_ok u \<and> (\<forall>(k, ev) \<in> set u. k = ce_operation_id ev)"

lemma keyed_Nil [simp]: "keyed []"
  by (simp add: keyed_def)

lemma keyed_look: "keyed u \<Longrightarrow> bt_get u k = Some ev \<longleftrightarrow> ev \<in> snd ` set u \<and> k = ce_operation_id ev"
  by (force simp: keyed_def bt.items_look [symmetric])

lemma keyed_consistent: "keyed u \<Longrightarrow> consistent (snd ` set u)"
  unfolding consistent_def by (metis keyed_look option.inject)

lemma keyed_insert:
  assumes "keyed u" "bt_get u (ce_operation_id ev) = None"
  shows "keyed (bt_insert (ce_operation_id ev) ev u) \<and> snd ` set (bt_insert (ce_operation_id ev) ev u) = insert ev (snd ` set u)"
proof -
  let ?v = "bt_insert (ce_operation_id ev) ev u"
  have ok: "bt_ok u" "bt_ok ?v" using assms(1) by (simp_all add: keyed_def)
  have mem: "(k, x) \<in> set ?v \<longleftrightarrow> k = ce_operation_id ev \<and> x = ev \<or> (k, x) \<in> set u" for k x
    using ok assms(2) by (auto simp: bt.items_look bt_get_insert)
  with assms(1) ok have "keyed ?v" by (auto simp: keyed_def)
  moreover have "snd ` set ?v = insert ev (snd ` set u)" using mem by force
  ultimately show ?thesis by blast
qed

lemma keyed_eqI: "keyed u \<Longrightarrow> keyed v \<Longrightarrow> snd ` set u = snd ` set v \<Longrightarrow> u = v"
proof (rule bt_eqI)
  fix k
  assume *: "keyed u" "keyed v" "snd ` set u = snd ` set v"
  have "bt_get u k = Some x \<longleftrightarrow> bt_get v k = Some x" for x using * by (simp add: keyed_look)
  then show "bt_get u k = bt_get v k" by (metis option.exhaust)
qed (auto simp: keyed_def)

lemma note_events_result:
  assumes "keyed u"
  shows "note_events e evs u = Inr v \<longleftrightarrow>
    keyed v \<and> snd ` set v = set evs \<union> snd ` set u \<and> (\<forall>ev \<in> set evs. validate e ev = Inr ()) \<and>
    consistent (set evs \<union> snd ` set u)"
  using assms
proof (induction evs arbitrary: u)
  case Nil
  then show ?case using keyed_consistent [of u] keyed_eqI [of u v] by auto
next
  case (Cons ev evs)
  show ?case
  proof (cases "validate e ev")
    case (Inl why)
    then show ?thesis by auto
  next
    case (Inr n)
    show ?thesis
    proof (cases "bt_get u (ce_operation_id ev)")
      case None
      note ins = keyed_insert [OF Cons.prems None]
      have "note_events e (ev # evs) u = note_events e evs (bt_insert (ce_operation_id ev) ev u)"
        using Inr None by simp
      also have "\<dots> = Inr v \<longleftrightarrow> keyed v \<and> snd ` set v = set evs \<union> insert ev (snd ` set u) \<and>
          (\<forall>ev \<in> set evs. validate e ev = Inr ()) \<and> consistent (set evs \<union> insert ev (snd ` set u))"
        using Cons.IH [of "bt_insert (ce_operation_id ev) ev u"] ins by simp
      finally show ?thesis using Inr by simp
    next
      case (Some prior)
      with Cons.prems have p: "prior \<in> snd ` set u" "ce_operation_id prior = ce_operation_id ev"
        by (auto simp: keyed_look)
      show ?thesis
      proof (cases "prior = ev")
        case True
        with p(1) have "insert ev (set evs \<union> snd ` set u) = set evs \<union> snd ` set u" by blast
        with True Inr Some Cons.IH [OF Cons.prems] show ?thesis by simp
      next
        case False
        have "prior \<in> set (ev # evs) \<union> snd ` set u" "ev \<in> set (ev # evs) \<union> snd ` set u" using p(1) by simp_all
        with p(2) False have "\<not> consistent (set (ev # evs) \<union> snd ` set u)" unfolding consistent_def by metis
        with False Inr Some show ?thesis by simp
      qed
    qed
  qed
qed

lemma fold_events_result:
  "fold_events e evs = Inr p \<longleftrightarrow> (\<exists>u. keyed u \<and> snd ` set u = set evs \<and>
     (\<forall>ev \<in> set evs. validate e ev = Inr ()) \<and> consistent (set evs) \<and>
     p = \<lparr>po_state = fold apply_event (ordered_events e u) [], po_events = length u\<rparr>)"
  by (auto simp: fold_events_def rbind_eq_Inr note_events_result Let_def ordered_events_def)

text \<open>Records and a codec for the witnesses: a record prints as its id, and a timestamp is a number.\<close>

definition demo_event :: "string \<Rightarrow> string \<Rightarrow> control_action \<Rightarrow> control_event" where
  "demo_event i t action =
     \<lparr>ce_schema = CONTROL_SCHEMA, ce_operation_id = i, ce_recorded_at = t, ce_action = action,
      ce_target_machine = ''m'', ce_session_id = ''s'', ce_actor_machine = ''m'', ce_scope = WholeSession, ce_reason = None\<rparr>"

definition demo_hide :: control_event where "demo_hide = demo_event ''h'' ''1'' Hide"
definition demo_show :: control_event where "demo_show = demo_event ''u'' ''2'' Unhide"

definition demo_cenv :: cenv where
  "demo_cenv = env.extend
     \<lparr>fault = (\<lambda>_. False), torn = (\<lambda>_. 0), sha256 = (\<lambda>c. c), enc_fact = (\<lambda>_. Some ''{}''),
      dec_fact = (\<lambda>_. None), temp_dir = [''tmp''], stage_root = [''stage''], ancestors = (\<lambda>_. [])\<rparr>
     \<lparr>stage_is_dir = True, instant = (\<lambda>s. map_option int (parse_u64 s)),
      enc_event = (\<lambda>ev. Some (ce_operation_id ev @ ''.'' )),
      dec_event = (\<lambda>l. if l = ''h.'' then Some demo_hide else if l = ''u.'' then Some demo_show else None)\<rparr>"

lemma demo_cenv_simps [simp]: "stage_is_dir demo_cenv" "fault demo_cenv t = False" "instant demo_cenv s = map_option int (parse_u64 s)"
  "enc_event demo_cenv ev = Some (ce_operation_id ev @ ''.'')"
  "dec_event demo_cenv l = (if l = ''h.'' then Some demo_hide else if l = ''u.'' then Some demo_show else None)"
  by (simp_all add: demo_cenv_def env.defs)

lemma demo_digits: "parse_u64 ''1'' = Some 1" "parse_u64 ''2'' = Some 2"
proof -
  have "dec 1 = ''1''" "dec 2 = ''2''" by code_simp+
  then show "parse_u64 ''1'' = Some 1" "parse_u64 ''2'' = Some 2"
    using parse_u64_dec [of 1] parse_u64_dec [of 2] by (simp_all add: u64_max_def)
qed

lemma demo_valid: "validate demo_cenv demo_hide = Inr ()" "validate demo_cenv demo_show = Inr ()"
  by (simp_all add: validate_def demo_hide_def demo_show_def demo_event_def bad_component_def MAX_OPERATION_ID_BYTES_def demo_digits)

text \<open>The policy depends only on which records there are: neither the order in which the streams of the
  machines are read, nor a record that is read twice, changes the policy or whether there is one.\<close>

theorem policy_of_record_set:
  assumes "set xs = set ys"
  shows "fold_events e xs = Inr p \<longleftrightarrow> fold_events e ys = Inr p"
  using assms by (simp add: fold_events_result)

lemma demo_fold: "fold_events demo_cenv [demo_show, demo_hide] =
    Inr \<lparr>po_state = [((''m'', ''s''), Visible)], po_events = 2\<rparr>"
  using demo_valid
  by (simp add: fold_events_def Let_def ordered_events_def order_key_def parse_instant_def apply_event_def
      set_unless_purged_def identity_of_def)
    (simp add: demo_show_def demo_hide_def demo_event_def demo_digits set_unless_purged_def)

theorem policy_of_record_set_witness:
  "\<exists>p. fold_events demo_cenv [demo_hide, demo_show, demo_hide] = Inr p \<and> visibility p ''m'' ''s'' = Visible"
proof -
  have "set [demo_hide, demo_show, demo_hide] = set [demo_show, demo_hide]" by auto
  from policy_of_record_set [OF this, of demo_cenv] demo_fold show ?thesis by (simp add: visibility_def)
qed

section \<open>What a policy says\<close>

definition outcome :: "control_event \<Rightarrow> visibility option" where
  "outcome ev = (case ce_action ev of Purge \<Rightarrow> Some Purged | Hide \<Rightarrow> Some Hidden | Unhide \<Rightarrow> Some Visible
     | Redact \<Rightarrow> (case ce_scope ev of ContentThroughCutoff cutoff \<Rightarrow> Some (RedactedThroughCutoff cutoff) | _ \<Rightarrow> None))"

lemma valid_outcome: "validate e ev = Inr () \<Longrightarrow> \<exists>v. outcome ev = Some v"
  by (cases "(ce_action ev, ce_scope ev)" rule: validate_scope.cases)
    (auto simp: validate_def outcome_def split: if_splits option.splits)

text \<open>Without the latch the stream is a plain log in which the last record decides.\<close>

definition apply_plain :: "control_event \<Rightarrow> (identity \<times> visibility) list \<Rightarrow> (identity \<times> visibility) list" where
  "apply_plain ev st = (case outcome ev of None \<Rightarrow> st | Some v \<Rightarrow> bt_insert (identity_of ev) v st)"

definition control_effect :: "control_event \<Rightarrow> identity \<Rightarrow> visibility option option" where
  "control_effect ev k = (if identity_of ev = k then map_option Some (outcome ev) else None)"

interpretation control_log: last_writer bt_get apply_plain control_effect bt_ok
  by unfold_locales (auto simp: apply_plain_def control_effect_def bt_get_insert split: option.splits)

lemma bt_ok_apply [simp]: "bt_ok st \<Longrightarrow> bt_ok (apply_event ev st)"
  by (auto simp: apply_event_def Let_def set_unless_purged_def split: control_action.splits control_scope.splits option.splits visibility.splits)

lemma look_apply:
  assumes "bt_ok st"
  shows "bt_get (apply_event ev st) k =
    (if bt_get st k = Some Purged then Some Purged
     else case control_effect ev k of None \<Rightarrow> bt_get st k | Some x \<Rightarrow> x)"
  using assms
  by (cases "ce_action ev"; cases "ce_scope ev"; cases "bt_get st (identity_of ev)"; cases "the (bt_get st (identity_of ev))")
    (auto simp: apply_event_def Let_def set_unless_purged_def control_effect_def outcome_def bt_get_insert)

text \<open>The latch: purged once, purged for good; else the plain log.\<close>

lemma look_fold_apply:
  "bt_get (fold apply_event evs []) k =
     (if \<exists>ev \<in> set evs. control_effect ev k = Some (Some Purged) then Some Purged
      else bt_get (fold apply_plain evs []) k)"
proof (induction evs rule: rev_induct)
  case (snoc ev evs)
  have ok: "bt_ok (fold apply_event evs [])" by (induction evs rule: rev_induct) simp_all
  have okp: "bt_ok (fold apply_plain evs [])" using control_log.wf_fold [of "[]" evs] by simp
  have "\<exists>ev \<in> set evs. control_effect ev k = Some (Some Purged)" if "bt_get (fold apply_plain evs []) k = Some Purged"
  proof -
    from that have "control_log.last_effect evs k = Some (Some Purged)"
      using control_log.look_fold [of "[]" evs k] by (auto split: option.splits)
    then show ?thesis using control_log.last_effect_Some [of evs k] by auto
  qed
  then show ?case
    using snoc.IH look_apply [OF ok, of ev k] control_log.look_step [OF okp, of ev k]
    by (cases "control_effect ev k") auto
qed simp

text \<open>In the order of the fold the last record about a session is the one with the greatest key.\<close>

lemma ordered_latest:
  assumes "keyed u" and "ev \<in> snd ` set u" and "identity_of ev = k" and "outcome ev = Some v"
    and "\<forall>x \<in> snd ` set u. identity_of x = k \<longrightarrow> order_key e x \<le> order_key e ev"
  shows "bt_get (fold apply_plain (ordered_events e u) []) k = Some v"
proof -
  let ?xs = "ordered_events e u"
  have mem: "set ?xs = snd ` set u" by (simp add: ordered_events_def)
  have "distinct (map ce_operation_id (map snd u))"
  proof -
    have eq: "map ce_operation_id (map snd u) = map fst u" using assms(1) by (auto simp: keyed_def)
    have "bt_ok u" using assms(1) by (simp add: keyed_def)
    then show ?thesis unfolding eq by (rule bt_ok_distinct)
  qed
  then have "inj_on ce_operation_id (set (map snd u)) \<and> distinct (map snd u)"
    unfolding distinct_map [of ce_operation_id] by blast
  then have inj: "inj_on ce_operation_id (set ?xs)" and dist: "distinct ?xs"
    unfolding ordered_events_def by (simp_all only: set_sort distinct_sort)
  have srt: "sorted (map (order_key e) ?xs)" by (simp add: ordered_events_def)
  obtain before after where xs: "?xs = before @ ev # after"
    using assms(2) by (metis mem in_set_conv_decomp)
  have "control_effect x k = None" if x: "x \<in> set after" for x
  proof (rule ccontr)
    assume "control_effect x k \<noteq> None"
    then have "identity_of x = k" by (auto simp: control_effect_def split: if_splits)
    moreover have "x \<in> set ?xs" using x xs by simp
    ultimately have "order_key e x \<le> order_key e ev" using assms(5) unfolding mem by blast
    moreover have "order_key e ev \<le> order_key e x" using srt x unfolding xs by (auto simp: sorted_append)
    ultimately have "order_key e x = order_key e ev" by (rule antisym)
    then have "ce_operation_id x = ce_operation_id ev" by (simp add: order_key_def)
    with inj x xs have "x = ev" by (auto simp: inj_on_def)
    with dist x xs show False by simp
  qed
  moreover have "control_effect ev k = Some (Some v)" using assms(3,4) by (simp add: control_effect_def)
  ultimately have "control_log.last_effect ?xs k = Some (Some v)"
    unfolding control_log.last_effect_Some using xs by blast
  then show ?thesis using control_log.look_fold [of "[]" ?xs k] by simp
qed

lemma visibility_cases:
  assumes "fold_events e evs = Inr p"
  shows "(\<exists>ev \<in> set evs. identity_of ev = (m, s) \<and> ce_action ev = Purge) \<Longrightarrow> visibility p m s = Purged"
    and "\<forall>ev \<in> set evs. identity_of ev \<noteq> (m, s) \<Longrightarrow> visibility p m s = Visible"
    and "\<forall>x \<in> set evs. identity_of x = (m, s) \<longrightarrow> ce_action x \<noteq> Purge \<Longrightarrow> ev \<in> set evs \<Longrightarrow> identity_of ev = (m, s) \<Longrightarrow>
      \<forall>x \<in> set evs. identity_of x = (m, s) \<longrightarrow> order_key e x \<le> order_key e ev \<Longrightarrow> outcome ev = Some (visibility p m s)"
proof -
  from assms obtain u where u: "keyed u" "snd ` set u = set evs" and ok: "\<forall>ev \<in> set evs. validate e ev = Inr ()"
    and p: "p = \<lparr>po_state = fold apply_event (ordered_events e u) [], po_events = length u\<rparr>"
    by (auto simp: fold_events_result)
  have mem: "set (ordered_events e u) = set evs" using u(2) by (simp add: ordered_events_def)
  have vis: "visibility p m s = (case (if \<exists>ev \<in> set evs. control_effect ev (m, s) = Some (Some Purged) then Some Purged
      else bt_get (fold apply_plain (ordered_events e u) []) (m, s)) of None \<Rightarrow> Visible | Some v \<Rightarrow> v)"
    by (simp add: visibility_def p look_fold_apply mem)
  have purge: "control_effect ev (m, s) = Some (Some Purged) \<longleftrightarrow> identity_of ev = (m, s) \<and> ce_action ev = Purge" for ev
    by (auto simp: control_effect_def outcome_def split: control_action.splits control_scope.splits)
  show "(\<exists>ev \<in> set evs. identity_of ev = (m, s) \<and> ce_action ev = Purge) \<Longrightarrow> visibility p m s = Purged"
    using vis purge by (simp split: option.splits)
  show "visibility p m s = Visible" if "\<forall>ev \<in> set evs. identity_of ev \<noteq> (m, s)"
  proof -
    have "control_log.last_effect (ordered_events e u) (m, s) = None"
      using that by (simp add: control_log.last_effect_None mem control_effect_def)
    then show ?thesis using vis purge that control_log.look_fold [of "[]" "ordered_events e u" "(m, s)"] by simp
  qed
  show "outcome ev = Some (visibility p m s)"
    if no: "\<forall>x \<in> set evs. identity_of x = (m, s) \<longrightarrow> ce_action x \<noteq> Purge" and ev: "ev \<in> set evs" "identity_of ev = (m, s)"
      "\<forall>x \<in> set evs. identity_of x = (m, s) \<longrightarrow> order_key e x \<le> order_key e ev"
  proof -
    from ok ev(1) obtain v where v: "outcome ev = Some v" using valid_outcome by blast
    from ordered_latest [OF u(1) _ ev(2) v, of e] ev u(2)
    have "bt_get (fold apply_plain (ordered_events e u) []) (m, s) = Some v" by simp
    moreover have "\<not> (\<exists>ev \<in> set evs. control_effect ev (m, s) = Some (Some Purged))" using no purge by blast
    ultimately show ?thesis using vis v by simp
  qed
qed

text \<open>C19: The effective state of a session is exact: purged when any record purges it, whatever was recorded
  before or after; visible when no record names it; and otherwise what the record with the latest
  instant says, the operation id deciding between equal instants.\<close>

theorem visibility_exact:
  assumes "fold_events e evs = Inr p"
  shows "((\<exists>ev \<in> set evs. identity_of ev = (m, s) \<and> ce_action ev = Purge) \<longrightarrow> visibility p m s = Purged) \<and>
    ((\<forall>ev \<in> set evs. identity_of ev \<noteq> (m, s)) \<longrightarrow> visibility p m s = Visible) \<and>
    (\<forall>ev \<in> set evs. identity_of ev = (m, s) \<and>
       (\<forall>x \<in> set evs. identity_of x = (m, s) \<longrightarrow> ce_action x \<noteq> Purge \<and> order_key e x \<le> order_key e ev) \<longrightarrow>
       outcome ev = Some (visibility p m s))"
  using visibility_cases [OF assms] by blast

theorem visibility_exact_witness:
  "visibility \<lparr>po_state = [((''m'', ''s''), Visible)], po_events = 2\<rparr> ''m'' ''s'' = Visible \<and> outcome demo_show = Some Visible"
proof -
  have "identity_of demo_show = (''m'', ''s'')" "identity_of demo_hide = (''m'', ''s'')"
    "ce_action demo_show = Unhide" "ce_action demo_hide = Hide" "order_key demo_cenv demo_hide \<le> order_key demo_cenv demo_show"
    by (simp_all add: identity_of_def demo_show_def demo_hide_def demo_event_def order_key_def parse_instant_def demo_digits)
  with visibility_exact [OF demo_fold, of "''m''" "''s''"] show ?thesis by (simp add: outcome_def)
qed

end
