(* ===== verification/Deletion_Props.thy ===== *)
theory Deletion_Props
  imports Deletion_Spec Manifest_Spec
begin

text \<open>
  The stream on disk, the commands that append to it and the policy read from an archive.
\<close>

section \<open>The append\<close>

definition stream_of :: "string \<Rightarrow> fs \<Rightarrow> bytes" where
  "stream_of actor f = (case map_of f (control_path actor) of None \<Rightarrow> [] | Some raw \<Rightarrow> raw)"

definition only_appended :: "string \<Rightarrow> bytes \<Rightarrow> fs \<Rightarrow> fs \<Rightarrow> bool" where
  "only_appended actor line f g \<longleftrightarrow>
     untouched_but {control_path actor} f g \<and> (\<exists>k. stream_of actor g = stream_of actor f @ take k line)"

definition all_appended :: "string \<Rightarrow> bytes \<Rightarrow> fs \<Rightarrow> fs \<Rightarrow> bool" where
  "all_appended actor line f g \<longleftrightarrow>
     untouched_but {control_path actor} f g \<and> map_of g (control_path actor) = Some (stream_of actor f @ line)"

lemma only_appended_refl [simp]: "only_appended actor line f f"
  by (auto simp: only_appended_def intro: exI [where x = 0])

lemma all_appended_only: "all_appended actor line f g \<Longrightarrow> only_appended actor line f g"
  by (auto simp: all_appended_def only_appended_def stream_of_def intro: exI [where x = "length line"])

lemma valid_open_append:
  "valid (on_files ((=) f0)) (open_append e err (control_path actor))
     (\<lambda>_. on_files (\<lambda>f. untouched_but {control_path actor} f0 f \<and> stream_of actor f = stream_of actor f0))
     (\<lambda>_. on_files ((=) f0))"
  unfolding open_append_def
  by (rule valid_fs_op) (auto simp: untouched_but_def stream_of_def split: option.splits)

lemma valid_append_bytes:
  "valid (on_files (\<lambda>f. untouched_but {control_path actor} f0 f \<and> stream_of actor f = stream_of actor f0))
     (append_bytes e err (control_path actor) line)
     (\<lambda>_. on_files (all_appended actor line f0)) (\<lambda>_. on_files (only_appended actor line f0))"
  by (auto simp: valid_def append_bytes_def fs_op_def on_files_def Let_def all_appended_def only_appended_def
      untouched_but_def stream_of_def)

lemma valid_read_back:
  "valid (on_files P) (io_map_err g (read_stage_events e actor))
     (\<lambda>back. on_files (\<lambda>f. P f \<and> (\<forall>evs. back = ControlEvents evs \<longrightarrow> parse_events e (stream_of actor f) = Inr evs)))
     (\<lambda>_. on_files P)"
  by (auto simp: valid_def io_map_err_def read_stage_events_def on_files_def stream_of_def rbind_def
      split: sum.splits option.splits)

lemma append_triple:
  assumes "enc_event e ev = Some line"
  shows "valid (on_files ((=) f0)) (append_stage_event e ev)
    (\<lambda>_. on_files (\<lambda>f. all_appended (ce_actor_machine ev) (line @ [newline]) f0 f \<and> validate e ev = Inr () \<and>
       (\<exists>evs. parse_events e (stream_of (ce_actor_machine ev) f) = Inr evs \<and> ev \<in> set evs)))
    (\<lambda>_. on_files (only_appended (ce_actor_machine ev) (line @ [newline]) f0))"
proof -
  let ?a = "ce_actor_machine ev" and ?l = "line @ [newline]"
  have fail: "valid (on_files ((=) f0)) (io_fail x) Q (\<lambda>_. on_files (only_appended ?a ?l f0))" for x :: control_error and Q
    by (rule valid_fail) (auto simp: on_files_def)
  have steps: "valid (on_files ((=) f0))
     (io_bind (touch e (ControlIo (control_path ?a))) (\<lambda>_. io_bind (touch e ControlLock) (\<lambda>_.
      io_bind (open_append e (ControlIo (control_path ?a)) (control_path ?a)) (\<lambda>_.
      io_bind (append_bytes e (ControlIo (control_path ?a)) (control_path ?a) ?l) (\<lambda>_.
      io_bind (touch e (ControlIo (control_path ?a))) (\<lambda>_.
      io_bind (io_map_err ControlStream (read_stage_events e ?a)) (\<lambda>back.
      case back of ControlEvents evs \<Rightarrow> if ev \<in> set evs then io_return ()
          else io_fail (ControlStream (StreamUnreadable None NotReadBack))
        | ControlAbsent \<Rightarrow> io_fail (ControlStream (StreamUnreadable None NotReadBack)))))))))
     (\<lambda>_. on_files (\<lambda>f. all_appended ?a ?l f0 f \<and> (\<exists>evs. parse_events e (stream_of ?a f) = Inr evs \<and> ev \<in> set evs)))
     (\<lambda>_. on_files (only_appended ?a ?l f0))"
    apply (rule valid_then [OF valid_touch [where E = "(=) f0"]], assumption, force)
    apply (rule valid_then [OF valid_touch [where E = "(=) f0"]], assumption, force)
    apply (rule valid_then [OF valid_open_append], force)
    apply (rule valid_then [OF valid_append_bytes], assumption)
    apply (rule valid_then [OF valid_touch [where E = "all_appended ?a ?l f0"]], assumption, erule all_appended_only)
    apply (rule valid_then [OF valid_read_back], erule all_appended_only)
    subgoal for u v x y z got
      by (cases got) (auto simp: valid_def io_return_def io_fail_def on_files_def all_appended_only)
    done
  show ?thesis
    using steps
    by (cases "validate e ev"; cases "refuse_fixture_write (temp_dir e) [?a, ce_target_machine ev, ce_session_id ev] (stage_root e)")
      (auto simp: append_stage_event_def Let_def assms fail)
qed

lemma append_result:
  assumes "append_stage_event e ev w = (r, w')" and "enc_event e ev = Some line"
  shows "only_appended (ce_actor_machine ev) (line @ [newline]) (files w) (files w')"
    and "r = Inr () \<Longrightarrow> validate e ev = Inr () \<and>
       map_of (files w') (control_path (ce_actor_machine ev)) = Some (stream_of (ce_actor_machine ev) (files w) @ line @ [newline]) \<and>
       (\<exists>evs. parse_events e (stream_of (ce_actor_machine ev) (files w) @ line @ [newline]) = Inr evs \<and> ev \<in> set evs)"
proof -
  have "on_files ((=) (files w)) w" by (simp add: on_files_def)
  note v = validD [OF append_triple [OF assms(2), of "files w"] this]
  show "only_appended (ce_actor_machine ev) (line @ [newline]) (files w) (files w')"
    using v assms(1) all_appended_only by (auto simp: on_files_def)
  show "r = Inr () \<Longrightarrow> validate e ev = Inr () \<and>
       map_of (files w') (control_path (ce_actor_machine ev)) = Some (stream_of (ce_actor_machine ev) (files w) @ line @ [newline]) \<and>
       (\<exists>evs. parse_events e (stream_of (ce_actor_machine ev) (files w) @ line @ [newline]) = Inr evs \<and> ev \<in> set evs)"
    using v assms(1) by (auto simp: on_files_def all_appended_def stream_of_def)
qed

lemma append_unencodable: "enc_event e ev = None \<Longrightarrow> append_stage_event e ev w = (r, w') \<Longrightarrow> files w' = files w \<and> r \<noteq> Inr ()"
  by (auto simp: append_stage_event_def io_simps file_simps Let_def split: sum.splits if_splits)

section \<open>The commands\<close>

lemma current_state_files: "current_state e actor target s w = (r, w1) \<Longrightarrow> files w1 = files w"
  by (auto simp: current_state_def io_bind_def io_map_err_def read_stage_events_def io_simps
      split: sum.splits stage_control_read.splits prod.splits if_splits option.splits)

lemma current_state_unknown:
  assumes "\<not> fault e (clock w)" "map_of (files w) (control_path actor) = Some raw" "parse_events e raw = Inl x"
  shows "current_state e actor target s w = (Inl (StateUnknown x), w\<lparr>clock := Suc (clock w)\<rparr>)"
  using assms by (simp add: current_state_def io_bind_def io_map_err_def read_stage_events_def)

text \<open>A command that reaches the append makes the record it then reports.\<close>

lemma command_cases:
  assumes "control_state_command e now action actor target s reason w = (r, w')"
  shows "(files w' = files w \<and> (\<forall>ev. r \<noteq> Inr (RecordAppended ev))) \<or>
    (\<exists>ev w1 r1. new_state_event e now action actor target s reason = Inr ev \<and> files w1 = files w \<and>
       append_stage_event e ev w1 = (r1, w') \<and> (\<forall>ev'. r = Inr (RecordAppended ev') \<longleftrightarrow> ev' = ev \<and> r1 = Inr ()) \<and> r \<noteq> Inr AlreadyInState)"
proof (cases "current_state e actor target s w")
  case (Pair r0 w1)
  note files = current_state_files [OF Pair]
  note bind = io_bind_def [where m = "current_state e actor target s"]
  show ?thesis
  proof (cases r0)
    case (Inl x)
    with assms Pair files show ?thesis
      by (auto simp: control_state_command_def bind io_fail_def split: if_splits)
  next
    case (Inr current)
    show ?thesis
    proof (cases "new_state_event e now action actor target s reason")
      case (Inl x)
      with Inr assms Pair files show ?thesis
        by (auto simp: control_state_command_def bind io_fail_def io_return_def split: if_splits)
    next
      case ev: (Inr ev)
      show ?thesis
      proof (cases "append_stage_event e ev w1")
        case app: (Pair r1 w2)
        show ?thesis
          using Inr assms Pair files ev app
          by (cases r1) (auto simp: control_state_command_def bind io_bind_def io_map_err_def io_fail_def io_return_def split: if_splits)
      qed
    qed
  qed
qed

lemma new_state_event_fields:
  "new_state_event e now action actor target s reason = Inr ev \<Longrightarrow>
     ce_actor_machine ev = actor \<and> identity_of ev = (target, s) \<and> ce_action ev = action \<and> ce_recorded_at ev = now \<and>
     ce_scope ev = WholeSession \<and> validate e ev = Inr ()"
  by (auto simp: new_state_event_def Let_def identity_of_def split: sum.splits)

text \<open>C27: \<open>hide\<close> and \<open>unhide\<close> only ever add to the stream of the acting machine, under every pattern of failing
  operations and whatever the answer: no other file changes, and the stream is either as it was with all
  other files, or followed by an initial part, possibly the whole, of one line, the encoding
  of the record the command itself builds. A session that is already in the state costs no write, and a
  reported record is on disk whole, in a stream that reads back with the record in it.\<close>

theorem command_only_appends:
  assumes "control_state_command e now action actor target s reason w = (r, w')"
  shows "untouched_but {control_path actor} (files w) (files w') \<and>
    (files w' = files w \<or>
     (\<exists>ev line k. new_state_event e now action actor target s reason = Inr ev \<and> enc_event e ev = Some line \<and>
        stream_of actor (files w') = stream_of actor (files w) @ take k (line @ [newline]))) \<and>
    (r = Inr AlreadyInState \<longrightarrow> files w' = files w) \<and>
    (\<forall>ev. r = Inr (RecordAppended ev) \<longrightarrow> (\<exists>line evs. enc_event e ev = Some line \<and>
       stream_of actor (files w') = stream_of actor (files w) @ line @ [newline] \<and>
       parse_events e (stream_of actor (files w')) = Inr evs \<and> ev \<in> set evs))"
  using command_cases [OF assms]
proof
  assume "files w' = files w \<and> (\<forall>ev. r \<noteq> Inr (RecordAppended ev))"
  then show ?thesis by simp
next
  assume "\<exists>ev w1 r1. new_state_event e now action actor target s reason = Inr ev \<and> files w1 = files w \<and>
       append_stage_event e ev w1 = (r1, w') \<and> (\<forall>ev'. r = Inr (RecordAppended ev') \<longleftrightarrow> ev' = ev \<and> r1 = Inr ()) \<and> r \<noteq> Inr AlreadyInState"
  then obtain ev w1 r1 where new: "new_state_event e now action actor target s reason = Inr ev" and w1: "files w1 = files w"
    and app: "append_stage_event e ev w1 = (r1, w')" and r: "\<forall>ev'. r = Inr (RecordAppended ev') \<longleftrightarrow> ev' = ev \<and> r1 = Inr ()"
    and not: "r \<noteq> Inr AlreadyInState" by blast
  have actor: "ce_actor_machine ev = actor" using new_state_event_fields [OF new] by blast
  show ?thesis
  proof (cases "enc_event e ev")
    case None
    from append_unencodable [OF None app] w1 r not show ?thesis by auto
  next
    case (Some line)
    note res = append_result [OF app Some, unfolded actor w1]
    from res(1) obtain k where "untouched_but {control_path actor} (files w) (files w')"
      "stream_of actor (files w') = stream_of actor (files w) @ take k (line @ [newline])" by (auto simp: only_appended_def)
    moreover have "\<forall>ev'. r = Inr (RecordAppended ev') \<longrightarrow> (\<exists>line evs. enc_event e ev' = Some line \<and>
       stream_of actor (files w') = stream_of actor (files w) @ line @ [newline] \<and>
       parse_events e (stream_of actor (files w')) = Inr evs \<and> ev' \<in> set evs)"
      using res(2) Some r by (auto simp: stream_of_def)
    ultimately show ?thesis using new Some not by blast
  qed
qed

text \<open>A codec and worlds for the witnesses: the new record is \<open>h.\<close>, an earlier one \<open>u.\<close>.\<close>

definition demo_new :: control_event where
  "demo_new = demo_event (hex ''chat-stasher/del'') ''1'' Hide"

definition demo_cenv2 :: cenv where
  "demo_cenv2 = demo_cenv\<lparr>enc_event := (\<lambda>_. Some ''h.''),
     dec_event := (\<lambda>l. if l = ''h.'' then Some demo_new else if l = ''u.'' then Some demo_show else None)\<rparr>"

lemma demo_cenv2_simps [simp]: "stage_is_dir demo_cenv2" "fault demo_cenv2 t = False" "instant demo_cenv2 s = map_option int (parse_u64 s)"
  "enc_event demo_cenv2 ev = Some ''h.''" "temp_dir demo_cenv2 = [''tmp'']" "stage_root demo_cenv2 = [''stage'']"
  "sha256 demo_cenv2 c = c"
  "dec_event demo_cenv2 l = (if l = ''h.'' then Some demo_new else if l = ''u.'' then Some demo_show else None)"
  by (simp_all add: demo_cenv2_def demo_cenv_def env.defs)

lemma demo_new_valid: "validate demo_cenv2 demo_new = Inr ()" "validate demo_cenv2 demo_show = Inr ()"
proof -
  have "hex ''chat-stasher/del'' \<noteq> []" "length (hex ''chat-stasher/del'') = 32"
    by (simp_all add: hex_def)
  then show "validate demo_cenv2 demo_new = Inr ()" "validate demo_cenv2 demo_show = Inr ()"
    by (simp_all add: validate_def demo_new_def demo_show_def demo_event_def bad_component_def MAX_OPERATION_ID_BYTES_def demo_digits)
qed

lemma demo_new_made: "new_state_event demo_cenv2 ''1'' Hide ''m'' ''m'' ''s'' None = Inr demo_new"
  using demo_new_valid(1)
  by (simp add: new_state_event_def new_operation_id_def Let_def demo_new_def demo_event_def CONTROL_SCHEMA_def)

lemma demo_parses:
  "parse_events demo_cenv2 ''h.\<newline>'' = Inr [demo_new]"
  "parse_events demo_cenv2 ''u.\<newline>'' = Inr [demo_show]"
  "parse_events demo_cenv2 ''u.\<newline>h.\<newline>'' = Inr [demo_show, demo_new]"
proof -
  have l: "lines_of ''h.\<newline>'' = [''h.'']" "lines_of ''u.\<newline>'' = [''u.'']" "lines_of ''u.\<newline>h.\<newline>'' = [''u.'', ''h.'']" by code_simp+
  have t: "trim ''h.'' = ''h.''" "trim ''u.'' = ''u.''" "trim_end ''h.'' = ''h.''" "trim_end ''u.'' = ''u.''" by code_simp+
  have v: "valid_utf8 ''h.\<newline>''" "valid_utf8 ''u.\<newline>''" "valid_utf8 ''u.\<newline>h.\<newline>''" by code_simp+
  show "parse_events demo_cenv2 ''h.\<newline>'' = Inr [demo_new]"
    "parse_events demo_cenv2 ''u.\<newline>'' = Inr [demo_show]"
    "parse_events demo_cenv2 ''u.\<newline>h.\<newline>'' = Inr [demo_show, demo_new]"
    using l t v demo_new_valid by (simp_all add: parse_events_def)
qed

lemma demo_guard: "refuse_fixture_write [''tmp''] [''m'', ''m'', ''s''] [''stage''] = Inr ()"
  by code_simp

lemma demo_new_fields: "ce_actor_machine demo_new = ''m''" "ce_target_machine demo_new = ''m''" "ce_session_id demo_new = ''s''"
  "identity_of demo_new = (''m'', ''s'')" "ce_action demo_new = Hide" "ce_operation_id demo_new = hex ''chat-stasher/del''"
  "ce_recorded_at demo_new = ''1''"
  by (simp_all add: demo_new_def demo_event_def identity_of_def)

lemma demo_show_fields: "identity_of demo_show = (''m'', ''s'')" "ce_action demo_show = Unhide" "ce_operation_id demo_show = ''u''"
  "ce_recorded_at demo_show = ''2''"
  by (simp_all add: demo_show_def demo_event_def identity_of_def)

lemma demo_show_fold: "fold_events demo_cenv2 [demo_show] = Inr \<lparr>po_state = [((''m'', ''s''), Visible)], po_events = 1\<rparr>"
  by (simp add: fold_events_def demo_new_valid Let_def ordered_events_def apply_event_def set_unless_purged_def demo_show_fields)

lemma demo_current:
  assumes "files w = (if b then [(control_path ''m'', ''u.\<newline>'')] else [])"
  shows "current_state demo_cenv2 ''m'' ''m'' ''s'' w = (Inr Visible, w\<lparr>clock := Suc (clock w)\<rparr>)"
  using assms demo_parses(2) demo_show_fold
  by (simp add: current_state_def io_bind_def io_map_err_def read_stage_events_def io_return_def visibility_def)

lemma demo_append:
  assumes "files w = (if b then [(control_path ''m'', ''u.\<newline>'')] else [])"
  shows "\<exists>w'. append_stage_event demo_cenv2 demo_new w = (Inr (), w') \<and>
    stream_of ''m'' (files w') = (if b then ''u.\<newline>h.\<newline>'' else ''h.\<newline>'')"
  using assms demo_parses(1,3) demo_new_valid(1) demo_guard
  by (cases b) (simp_all add: append_stage_event_def demo_new_fields Let_def io_bind_def io_map_err_def io_return_def file_simps
      open_append_def append_bytes_def read_stage_events_def stream_of_def)

lemma demo_command:
  assumes "files w = (if b then [(control_path ''m'', ''u.\<newline>'')] else [])"
  shows "\<exists>w'. control_state_command demo_cenv2 ''1'' Hide ''m'' ''m'' ''s'' None w = (Inr (RecordAppended demo_new), w') \<and>
    stream_of ''m'' (files w') = (if b then ''u.\<newline>h.\<newline>'' else ''h.\<newline>'')"
proof -
  have "files (w\<lparr>clock := Suc (clock w)\<rparr>) = (if b then [(control_path ''m'', ''u.\<newline>'')] else [])" using assms by simp
  from demo_append [OF this] obtain w' where "append_stage_event demo_cenv2 demo_new (w\<lparr>clock := Suc (clock w)\<rparr>) = (Inr (), w')"
    "stream_of ''m'' (files w') = (if b then ''u.\<newline>h.\<newline>'' else ''h.\<newline>'')" by blast
  then show ?thesis
    using demo_current [OF assms] demo_new_made
    by (simp add: control_state_command_def bad_component_def already_in_state_def io_bind_def io_map_err_def io_return_def)
qed

theorem command_only_appends_witness:
  "\<exists>w w'. control_state_command demo_cenv2 ''1'' Hide ''m'' ''m'' ''s'' None w = (Inr (RecordAppended demo_new), w') \<and>
     (\<exists>t. stream_of ''m'' (files w') = stream_of ''m'' (files w) @ t)"
proof -
  let ?w = "\<lparr>files = [], clock = 0\<rparr> :: world"
  have "files ?w = (if False then [(control_path ''m'', ''u.\<newline>'')] else [])" by simp
  from demo_command [OF this] obtain w' where
    "control_state_command demo_cenv2 ''1'' Hide ''m'' ''m'' ''s'' None ?w = (Inr (RecordAppended demo_new), w')" by blast
  with command_only_appends [OF this] show ?thesis by blast
qed

text \<open>The order in which records count: by instant, and of two with the same instant by operation id.\<close>

definition later :: "('x cenv_scheme) \<Rightarrow> control_event \<Rightarrow> control_event \<Rightarrow> bool" where
  "later e x y \<longleftrightarrow> parse_instant e (ce_recorded_at y) < parse_instant e (ce_recorded_at x) \<or>
     parse_instant e (ce_recorded_at y) = parse_instant e (ce_recorded_at x) \<and> ce_operation_id y < ce_operation_id x"

lemma not_later: "\<not> later e x y \<longleftrightarrow> order_key e x \<le> order_key e y"
  by (auto simp: later_def order_key_def)

text \<open>A reported record is the command's own, and it is among the records that are read back.\<close>

lemma recorded_event:
  assumes "control_state_command e now action actor target s reason w = (Inr (RecordAppended ev), w')"
    and "parse_events e (stream_of actor (files w')) = Inr evs"
  shows "ev \<in> set evs" and "identity_of ev = (target, s)" and "ce_action ev = action"
proof -
  from command_cases [OF assms(1)] obtain w1 where new: "new_state_event e now action actor target s reason = Inr ev"
    and app: "append_stage_event e ev w1 = (Inr (), w')" by (elim disjE conjE exE) (simp, metis)
  note fields = new_state_event_fields [OF new]
  from fields show "identity_of ev = (target, s)" "ce_action ev = action" by (simp_all add: identity_of_def)
  obtain line where line: "enc_event e ev = Some line"
    using append_unencodable [OF _ app] by (cases "enc_event e ev") auto
  from append_result(2) [OF app line] fields assms(2) show "ev \<in> set evs" by (auto simp: stream_of_def)
qed

text \<open>C29: What a \<open>hide\<close> or \<open>unhide\<close> that reports a record achieves is decided by the instants in the stream, not by
  the order of the appends. In the state folded from the stream it leaves, if no record of the session is a purge:
  when no record of the session is later than the new one, the session is hidden by the \<open>hide\<close> and visible by
  the \<open>unhide\<close>; when some record is later, the command has no effect, for the state is the one the latest
  record of the session gives, as a clock set back between two commands makes it. Of two records with the same
  instant the one with the larger operation id is the later one, for \<open>hide\<close> and \<open>unhide\<close> alike.\<close>

theorem command_effect_by_instant:
  assumes "control_state_command e now action actor target s reason w = (Inr (RecordAppended ev), w')"
    and "action = Hide \<or> action = Unhide"
    and "parse_events e (stream_of actor (files w')) = Inr evs" and "fold_events e evs = Inr p"
    and "mine = {x \<in> set evs. identity_of x = (target, s)}" and "\<forall>x \<in> mine. ce_action x \<noteq> Purge"
  shows "ev \<in> mine \<and>
    ((\<forall>x \<in> mine. \<not> later e x ev) \<longrightarrow> visibility p target s = (if action = Hide then Hidden else Visible)) \<and>
    (\<forall>x \<in> mine. later e x ev \<and> (\<forall>y \<in> mine. \<not> later e y x) \<longrightarrow> x \<noteq> ev \<and> outcome x = Some (visibility p target s))"
proof -
  note ev = recorded_event [OF assms(1,3)]
  have latest: "outcome x = Some (visibility p target s)" if "x \<in> mine" "\<forall>y \<in> mine. \<not> later e y x" for x
    using visibility_cases(3) [OF assms(4), of target s x] that assms(5,6) by (simp add: not_later)
  have mine: "ev \<in> mine" using ev assms(5) by simp
  have "outcome ev = Some (if action = Hide then Hidden else Visible)"
    using ev(3) assms(2) by (auto simp: outcome_def)
  with latest [OF mine] have "(\<forall>x \<in> mine. \<not> later e x ev) \<longrightarrow> visibility p target s = (if action = Hide then Hidden else Visible)"
    by simp
  moreover have "x \<noteq> ev" if "later e x ev" for x
    using that by (auto simp: later_def)
  ultimately show ?thesis using latest mine by blast
qed

text \<open>A hide after an unhide whose instant is later: reported, recorded, and not in force.\<close>

theorem command_effect_by_instant_witness:
  "\<exists>w w' evs p. control_state_command demo_cenv2 ''1'' Hide ''m'' ''m'' ''s'' None w = (Inr (RecordAppended demo_new), w') \<and>
     parse_events demo_cenv2 (stream_of ''m'' (files w')) = Inr evs \<and> fold_events demo_cenv2 evs = Inr p \<and>
     visibility p ''m'' ''s'' = Visible"
proof -
  let ?w = "\<lparr>files = [(control_path ''m'', ''u.\<newline>'')], clock = 0\<rparr> :: world"
  have "files ?w = (if True then [(control_path ''m'', ''u.\<newline>'')] else [])" by simp
  from demo_command [OF this] obtain w' where
    cmd: "control_state_command demo_cenv2 ''1'' Hide ''m'' ''m'' ''s'' None ?w = (Inr (RecordAppended demo_new), w')"
    and str: "stream_of ''m'' (files w') = ''u.\<newline>h.\<newline>''" by auto
  have ids: "hex ''chat-stasher/del'' \<noteq> ''u''" by (simp add: hex_def)
  have "consistent {demo_show, demo_new}"
    using ids by (auto simp: consistent_def demo_new_fields demo_show_fields)
  then obtain p where p: "fold_events demo_cenv2 [demo_show, demo_new] = Inr p"
    using demo_new_valid ids
    by (auto simp: fold_events_def Let_def demo_new_fields demo_show_fields bt_get_insert rbind_def split: option.splits)
  have later: "later demo_cenv2 demo_show demo_new" "\<not> later demo_cenv2 demo_new demo_show" "\<not> later demo_cenv2 demo_show demo_show"
    by (simp_all add: later_def parse_instant_def demo_new_fields demo_show_fields demo_digits)
  have parse: "parse_events demo_cenv2 (stream_of ''m'' (files w')) = Inr [demo_show, demo_new]"
    using str demo_parses(3) by simp
  have mine: "{demo_show, demo_new} = {x \<in> set [demo_show, demo_new]. identity_of x = (''m'', ''s'')}"
    by (auto simp: demo_show_fields demo_new_fields)
  have "\<forall>x \<in> {demo_show, demo_new}. ce_action x \<noteq> Purge" by (simp add: demo_show_fields demo_new_fields)
  from command_effect_by_instant [OF cmd _ parse p mine this] later
  have "outcome demo_show = Some (visibility p ''m'' ''s'')" by blast
  then have "visibility p ''m'' ''s'' = Visible" by (simp add: outcome_def demo_show_fields)
  with cmd parse p show ?thesis by blast
qed

section \<open>A record cut short\<close>

lemma parse_event_lines_append:
  "parse_event_lines e idx (xs @ ys) = rbind (parse_event_lines e idx xs)
     (\<lambda>a. rbind (parse_event_lines e (idx + length xs) ys) (\<lambda>b. Inr (a @ b)))"
proof (induction xs arbitrary: idx)
  case (Cons l ls)
  then show ?case
    by (simp add: rbind_def split: option.splits sum.splits)
qed (simp add: rbind_def split: sum.splits)

lemma split_on_join: "p d \<Longrightarrow> split_on p (s @ d # t) = split_on p s @ split_on p t"
  by (induction s) (auto split: list.splits)

lemma split_on_clean: "\<forall>c \<in> set s. \<not> p c \<Longrightarrow> split_on p s = [s]"
  by (induction s) auto

lemma lines_of_tail:
  assumes "good = [] \<or> last good = newline"
  shows "lines_of (good @ part) = lines_of good @ lines_of part"
proof (cases "good = []")
  case False
  with assms obtain s where s: "good = s @ [newline]" by (metis append_butlast_last_id)
  have "split_on (\<lambda>c. c = newline) (s @ newline # part) = split_on (\<lambda>c. c = newline) s @ split_on (\<lambda>c. c = newline) part"
    and "split_on (\<lambda>c. c = newline) (s @ [newline]) = split_on (\<lambda>c. c = newline) s @ [[]]"
    using split_on_join [of "\<lambda>c. c = newline" newline s] by auto
  then show ?thesis by (simp add: s lines_of_def Let_def butlast_append)
qed simp

lemma torn_parse:
  assumes "good = [] \<or> last good = newline" "parse_events e good = Inr evs"
    and "newline \<notin> set part" "trim part \<noteq> []" "dec_event e part = None"
  shows "parse_events e (good @ part) = Inl (if valid_utf8 (good @ part)
    then StreamUnreadable (Some (length (lines_of good) + 1)) RecordUnparsable else StreamUnreadable None StreamNotUtf8)"
proof -
  have "part \<noteq> []"
  proof
    assume "part = []"
    moreover have "trim [] = []" by code_simp
    ultimately show False using assms(4) by simp
  qed
  moreover have "split_on (\<lambda>c. c = newline) part = [part]" using assms(3) by (intro split_on_clean) auto
  ultimately have "lines_of part = [part]" by (simp add: lines_of_def)
  moreover have "parse_event_lines e 0 (lines_of good) = Inr evs"
    using assms(2) by (simp add: parse_events_def split: if_splits)
  ultimately show ?thesis
    using assms(1,4,5) by (simp add: parse_events_def lines_of_tail parse_event_lines_append)
qed

text \<open>C30: A write that was cut short in the middle of a record makes the state unknown, never empty: if the stream
  can be read and ends in a part of a line that is not blank and is no record, every later \<open>hide\<close> or \<open>unhide\<close>
  of the machine that passes the argument checks (a session id that is a path component, no overlong or
  multi-line reason, a stage that is there), of whatever session, is refused and changes nothing, however many
  sound records stand before it. The refusal names the line it stopped at; when the stream is not UTF-8,
  as it is not when the cut falls inside a character, it says that and names no line.\<close>

theorem torn_record_blocks:
  assumes "map_of (files w) (control_path actor) = Some (good @ part)" "\<not> fault e (clock w)"
    and "good = [] \<or> last good = newline" "parse_events e good = Inr evs"
    and "newline \<notin> set part" "trim part \<noteq> []" "dec_event e part = None" "\<not> bad_component s" "stage_is_dir e"
    and "\<And>r. reason = Some r \<Longrightarrow> length r \<le> MAX_REASON_BYTES \<and> newline \<notin> set r \<and> CHR 0x0D \<notin> set r"
  shows "control_state_command e now action actor target s reason w =
    (Inl (StateUnknown (if valid_utf8 (good @ part)
       then StreamUnreadable (Some (length (lines_of good) + 1)) RecordUnparsable else StreamUnreadable None StreamNotUtf8)),
     w\<lparr>clock := Suc (clock w)\<rparr>)"
proof -
  have "\<not> (case reason of None \<Rightarrow> False | Some r \<Rightarrow> MAX_REASON_BYTES < length r \<or> newline \<in> set r \<or> CHR 0x0D \<in> set r)"
    using assms(10) by (auto split: option.splits)
  then show ?thesis
    using current_state_unknown [OF assms(2,1) torn_parse [OF assms(3-7)]] assms(8,9)
    by (simp only: control_state_command_def io_bind_def if_False if_True simp_thms sum.case prod.case)
qed

text \<open>The write of the first command stops after one byte; the second command is refused.\<close>

theorem torn_record_blocks_witness:
  "\<exists>(e :: cenv) w w1 w2. files w = [] \<and>
     control_state_command e ''1'' Hide ''m'' ''m'' ''s'' None w = (Inl (AppendFailed (ControlIo (control_path ''m''))), w1) \<and>
     control_state_command e ''1'' Hide ''m'' ''m'' ''other'' None w1 =
       (Inl (StateUnknown (StreamUnreadable (Some 1) RecordUnparsable)), w2)"
proof -
  let ?e = "demo_cenv2\<lparr>fault := (\<lambda>t. t = 4), torn := (\<lambda>_. 1)\<rparr>"
  let ?w = "\<lparr>files = [], clock = 0\<rparr> :: world"
  let ?w1 = "\<lparr>files = [(control_path ''m'', ''h'')], clock = 5\<rparr> :: world"
  have v: "validate ?e ev = validate demo_cenv2 ev" for ev by (simp add: validate_def)
  then have made: "new_state_event ?e ''1'' Hide ''m'' ''m'' ''s'' None = Inr demo_new" "validate ?e demo_new = Inr ()"
    using demo_new_made demo_new_valid(1) unfolding new_state_event_def v by (simp_all add: new_operation_id_def)
  have one: "control_state_command ?e ''1'' Hide ''m'' ''m'' ''s'' None ?w = (Inl (AppendFailed (ControlIo (control_path ''m''))), ?w1)"
    using made demo_guard
    by (simp add: control_state_command_def current_state_def bad_component_def already_in_state_def io_bind_def io_map_err_def
        io_return_def read_stage_events_def append_stage_event_def demo_new_fields Let_def file_simps open_append_def append_bytes_def)
  have "trim ''h'' \<noteq> []" "valid_utf8 ''h''" "lines_of [] = []" by code_simp+
  then have two: "control_state_command ?e ''1'' Hide ''m'' ''m'' ''other'' None ?w1 =
      (Inl (StateUnknown (StreamUnreadable (Some 1) RecordUnparsable)), ?w1\<lparr>clock := Suc (clock ?w1)\<rparr>)"
    using torn_record_blocks [of ?w1 "''m''" "[]" "''h''" ?e "[]" "''other''" None "''1''" Hide "''m''"]
    by (simp add: parse_events_def bad_component_def)
  show ?thesis
    by (rule exI [of _ ?e], rule exI [of _ ?w], rule exI [of _ ?w1], rule exI, intro conjI) (simp, rule one, rule two)
qed

end
