(* ===== verification/Deletion_Archive.thy ===== *)
theory Deletion_Archive
  imports Deletion_Props
begin

text \<open>
  The policy read from an archive, against a direct description of which streams count, and the
  preview of a purge.
\<close>

section \<open>Which streams count\<close>

text \<open>The entries that govern: of every host the first snapshot that lists, in the order of the hosts.\<close>

definition governing :: "('s, 'n) archive \<Rightarrow> (string \<times> 's list) list \<Rightarrow> (path \<times> 'n) list" where
  "governing a hosts = concat (map (\<lambda>(host, snaps). case List.find (\<lambda>s. list_tree a s \<noteq> None) snaps of
     None \<Rightarrow> [] | Some s \<Rightarrow> the (list_tree a s)) hosts)"

text \<open>Of every machine the first stream that no earlier one was taken for.\<close>

fun first_streams :: "('s, 'n) archive \<Rightarrow> string set \<Rightarrow> (path \<times> 'n) list \<Rightarrow> (string \<times> 'n) list" where
  "first_streams a seen [] = []"
| "first_streams a seen ((p, node) # es) =
     (case (if node_is_file a node then control_stream_machine p else None) of
        None \<Rightarrow> first_streams a seen es
      | Some machine \<Rightarrow>
          if machine \<in> seen then first_streams a seen es
          else (machine, node) # first_streams a (insert machine seen) es)"

definition stream_records :: "('x cenv_scheme) \<Rightarrow> ('s, 'n) archive \<Rightarrow> 'n \<Rightarrow> control_event list option" where
  "stream_records e a node = (case dump a node of None \<Rightarrow> None
     | Some raw \<Rightarrow> (case parse_events e raw of Inl _ \<Rightarrow> None | Inr evs \<Rightarrow> Some evs))"

definition host_lists :: "('s, 'n) archive \<Rightarrow> string \<times> 's list \<Rightarrow> bool" where
  "host_lists a h \<longleftrightarrow> (\<exists>s \<in> set (snd h). list_tree a s \<noteq> None)"

definition all_records :: "('x cenv_scheme) \<Rightarrow> ('s, 'n) archive \<Rightarrow> (string \<times> 'n) list \<Rightarrow> control_event list" where
  "all_records e a ms = concat (map (\<lambda>(m, node). the (stream_records e a node)) ms)"

lemma all_records_simps [simp]: "all_records e a [] = []"
  "all_records e a ((m, node) # ms) = the (stream_records e a node) @ all_records e a ms"
  "all_records e a (ms @ ns) = all_records e a ms @ all_records e a ns"
  by (simp_all add: all_records_def)

lemma first_streams_append:
  "first_streams a seen (xs @ ys) = first_streams a seen xs @ first_streams a (seen \<union> fst ` set (first_streams a seen xs)) ys"
  by (induction xs arbitrary: seen) (auto split: option.splits)

text \<open>A clean read: nothing unreadable.\<close>

lemma take_entries_unreadable:
  "take_entries e a es out = Inr out' \<Longrightarrow> \<exists>us. cr_unreadable out' = cr_unreadable out @ us"
  by (induction e a es out rule: take_entries.induct)
    (fastforce split: if_splits option.splits sum.splits simp: Let_def)+

lemma take_entries_clean:
  assumes "cr_unreadable out = []"
  shows "take_entries e a es out = Inr out' \<and> cr_unreadable out' = [] \<longleftrightarrow>
    (\<forall>(m, node) \<in> set (first_streams a (set (cr_seen out)) es). stream_records e a node \<noteq> None) \<and>
    out' = out\<lparr>cr_seen := rev (map fst (first_streams a (set (cr_seen out)) es)) @ cr_seen out,
      cr_sources := cr_sources out + length (first_streams a (set (cr_seen out)) es),
      cr_events := cr_events out @ all_records e a (first_streams a (set (cr_seen out)) es)\<rparr>"
  using assms
proof (induction es arbitrary: out)
  case Nil
  then show ?case by auto
next
  case (Cons x es)
  obtain p node where x: "x = (p, node)" by (cases x)
  show ?case
  proof (cases "if node_is_file a node then control_stream_machine p else None")
    case None
    then have "take_entries e a (x # es) out = take_entries e a es out" by (auto simp: x split: if_splits)
    with None Cons show ?thesis by (simp add: x)
  next
    case (Some machine)
    then have fm: "node_is_file a node" "control_stream_machine p = Some machine" by (auto split: if_splits)
    show ?thesis
    proof (cases "machine \<in> set (cr_seen out)")
      case True
      with Cons fm show ?thesis by (simp add: x)
    next
      case new: False
      let ?out = "out\<lparr>cr_seen := machine # cr_seen out\<rparr>"
      show ?thesis
      proof (cases "dump a node")
        case None
        with new fm show ?thesis by (auto simp: x stream_records_def)
      next
        case raw: (Some raw)
        show ?thesis
        proof (cases "parse_events e raw")
          case (Inl bad)
          have "cr_unreadable out' \<noteq> []" if "take_entries e a (x # es) out = Inr out'"
            using that new fm raw Inl take_entries_unreadable by (fastforce simp: x Let_def)
          with new fm raw Inl show ?thesis by (auto simp: x stream_records_def)
        next
          case (Inr evs)
          let ?out2 = "?out\<lparr>cr_sources := cr_sources out + 1, cr_events := cr_events out @ evs\<rparr>"
          have "cr_unreadable ?out2 = []" using Cons.prems by simp
          note IH = Cons.IH [OF this]
          have "take_entries e a (x # es) out = take_entries e a es ?out2"
            using new fm raw Inr by (simp add: x Let_def)
          then show ?thesis
            using IH new fm raw Inr by (simp add: x stream_records_def)
        qed
      qed
    qed
  qed
qed

text \<open>What a clean read of hosts leaves in the record of the read.\<close>

definition absorbed :: "('x cenv_scheme) \<Rightarrow> ('s, 'n) archive \<Rightarrow> (string \<times> 's list) list \<Rightarrow> 's control_read \<Rightarrow> 's control_read" where
  "absorbed e a hosts out = (let ms = first_streams a (set (cr_seen out)) (governing a hosts) in
     out\<lparr>cr_seen := rev (map fst ms) @ cr_seen out, cr_sources := cr_sources out + length ms,
       cr_events := cr_events out @ all_records e a ms,
       cr_skipped := cr_skipped out @ concat (map (\<lambda>(h, snaps). map (Pair h) (takeWhile (\<lambda>s. list_tree a s = None) snaps)) hosts),
       cr_unestablished := cr_unestablished out @ map fst (filter (\<lambda>h. \<not> host_lists a h) hosts)\<rparr>)"

definition streams_readable :: "('x cenv_scheme) \<Rightarrow> ('s, 'n) archive \<Rightarrow> string set \<Rightarrow> (path \<times> 'n) list \<Rightarrow> bool" where
  "streams_readable e a seen es \<longleftrightarrow> (\<forall>(m, node) \<in> set (first_streams a seen es). stream_records e a node \<noteq> None)"

lemma governing_simps [simp]: "governing a [] = []"
  "governing a ((h, []) # hs) = governing a hs"
  "list_tree a s = None \<Longrightarrow> governing a ((h, s # ss) # hs) = governing a ((h, ss) # hs)"
  "list_tree a s = Some es \<Longrightarrow> governing a ((h, s # ss) # hs) = es @ governing a hs"
  by (simp_all add: governing_def)

lemma host_lists_simps [simp]: "\<not> host_lists a (h, [])"
  "host_lists a (h, s # ss) \<longleftrightarrow> list_tree a s \<noteq> None \<or> host_lists a (h, ss)"
  by (auto simp: host_lists_def)

lemma take_host_clean:
  assumes "cr_unreadable out = []"
  shows "take_host e a h snaps out = Inr out' \<and> cr_unreadable out' = [] \<longleftrightarrow>
    streams_readable e a (set (cr_seen out)) (governing a [(h, snaps)]) \<and> out' = absorbed e a [(h, snaps)] out"
  using assms
proof (induction snaps arbitrary: out)
  case Nil
  then show ?case by (auto simp: streams_readable_def absorbed_def Let_def)
next
  case (Cons s ss)
  show ?case
  proof (cases "list_tree a s")
    case None
    have "cr_unreadable (out\<lparr>cr_skipped := cr_skipped out @ [(h, s)]\<rparr>) = []" using Cons.prems by simp
    from Cons.IH [OF this] None show ?thesis by (simp add: absorbed_def Let_def)
  next
    case (Some es)
    then show ?thesis
      using take_entries_clean [OF Cons.prems, of e a es out'] by (simp add: absorbed_def Let_def streams_readable_def)
  qed
qed

lemma take_host_unreadable:
  "take_host e a h snaps out = Inr out' \<Longrightarrow> \<exists>us. cr_unreadable out' = cr_unreadable out @ us"
proof (induction snaps arbitrary: out)
  case (Cons s ss)
  then show ?case
    using take_entries_unreadable by (cases "list_tree a s") fastforce+
qed auto

lemma governing_Cons: "governing a (x # hs) = governing a [x] @ governing a hs"
  by (simp add: governing_def)

lemma absorbed_Cons: "absorbed e a (x # hs) out = absorbed e a hs (absorbed e a [x] out)"
  by (simp add: absorbed_def Let_def governing_Cons [of a x hs] first_streams_append Un_commute)

lemma readable_Cons:
  "streams_readable e a (set (cr_seen out)) (governing a (x # hs)) \<longleftrightarrow>
     streams_readable e a (set (cr_seen out)) (governing a [x]) \<and>
     streams_readable e a (set (cr_seen (absorbed e a [x] out))) (governing a hs)"
  by (simp add: streams_readable_def absorbed_def Let_def governing_Cons [of a x hs] first_streams_append Un_commute ball_Un)

lemma collect_clean:
  assumes "cr_unreadable out = []"
  shows "try_fold (\<lambda>(h, snaps). take_host e a h snaps) hosts out = Inr out' \<and> cr_unreadable out' = [] \<longleftrightarrow>
    streams_readable e a (set (cr_seen out)) (governing a hosts) \<and> out' = absorbed e a hosts out"
  using assms
proof (induction hosts arbitrary: out)
  case Nil
  then show ?case by (auto simp: streams_readable_def absorbed_def Let_def)
next
  case (Cons x hs)
  obtain h snaps where x: "x = (h, snaps)" by (cases x)
  let ?f = "\<lambda>(h, snaps). take_host e a h snaps"
  have keeps: "\<exists>us. cr_unreadable o2 = cr_unreadable o1 @ us" if "try_fold ?f hs o1 = Inr o2" for o1 o2
    using that
  proof (induction hs arbitrary: o1)
    case (Cons y ys)
    then obtain o3 where "?f y o1 = Inr o3" "try_fold ?f ys o3 = Inr o2" by (auto simp: rbind_eq_Inr)
    moreover from this have "\<exists>us. cr_unreadable o3 = cr_unreadable o1 @ us"
      using take_host_unreadable by (cases y) fastforce
    ultimately show ?case using Cons.IH [of o3] by auto
  qed simp
  have "try_fold ?f (x # hs) out = Inr out' \<and> cr_unreadable out' = [] \<longleftrightarrow>
      (\<exists>o1. (take_host e a h snaps out = Inr o1 \<and> cr_unreadable o1 = []) \<and> (try_fold ?f hs o1 = Inr out' \<and> cr_unreadable out' = []))"
    using keeps by (fastforce simp: x rbind_eq_Inr)
  also have "\<dots> \<longleftrightarrow> streams_readable e a (set (cr_seen out)) (governing a [x]) \<and>
      (try_fold ?f hs (absorbed e a [x] out) = Inr out' \<and> cr_unreadable out' = [])"
    unfolding take_host_clean [OF Cons.prems] x by blast
  also have "\<dots> \<longleftrightarrow> streams_readable e a (set (cr_seen out)) (governing a (x # hs)) \<and> out' = absorbed e a (x # hs) out"
  proof -
    have "cr_unreadable (absorbed e a [x] out) = []" using Cons.prems by (simp add: absorbed_def Let_def)
    from Cons.IH [OF this] show ?thesis unfolding absorbed_Cons [of e a x hs] readable_Cons [of e a out x hs] by blast
  qed
  finally show ?case .
qed

lemma strict_policy_iff:
  "load_strict_reader_policy e a hosts = Inr p \<longleftrightarrow>
     (\<forall>h \<in> set hosts. host_lists a h) \<and> streams_readable e a {} (governing a hosts) \<and>
     fold_events e (all_records e a (first_streams a {} (governing a hosts))) = Inr p"
proof -
  let ?o = "\<lparr>cr_events = [], cr_sources = 0, cr_unreadable = [], cr_skipped = [], cr_unestablished = [], cr_seen = []\<rparr>"
  let ?fin = "absorbed e a hosts ?o"
  have ab: "cr_events ?fin = all_records e a (first_streams a {} (governing a hosts))"
    "cr_unestablished ?fin = map fst (filter (\<lambda>h. \<not> host_lists a h) hosts)" "cr_unreadable ?fin = []"
    by (simp_all add: absorbed_def Let_def)
  have "load_strict_reader_policy e a hosts = Inr p \<longleftrightarrow>
      (\<exists>out. (collect_archive_control e a hosts = Inr out \<and> cr_unreadable out = []) \<and>
         fold_events e (cr_events out) = Inr p \<and> cr_unestablished out = [])"
    by (fastforce simp: load_strict_reader_policy_def load_reader_policy_with_notes_def rbind_eq_Inr
        split: if_splits sum.splits)
  also have "\<dots> \<longleftrightarrow> streams_readable e a {} (governing a hosts) \<and> fold_events e (cr_events ?fin) = Inr p \<and> cr_unestablished ?fin = []"
    unfolding collect_archive_control_def using collect_clean [of ?o e a hosts] by auto
  finally show ?thesis unfolding ab by (auto simp: filter_empty_conv)
qed

text \<open>C26: The strict policy is the fold of exactly the streams that count, or there is none: it is given when and
  only when every host has a snapshot that lists, every stream of those snapshots (one per machine, the
  first in the order of the hosts) is read and parses whole, and their records fold; one damaged stream
  or one host without a readable snapshot leaves no policy at all.\<close>

theorem strict_policy_exact:
  "load_strict_reader_policy e a hosts = Inr p \<longleftrightarrow>
     (\<forall>h \<in> set hosts. host_lists a h) \<and> streams_readable e a {} (governing a hosts) \<and>
     fold_events e (all_records e a (first_streams a {} (governing a hosts))) = Inr p"
  by (rule strict_policy_iff)

text \<open>An archive for the witnesses: the snapshot of one host holds a copy of the machine's stream as it was
  before the machine's own host pushed a \<open>hide\<close>.\<close>

definition demo_cenv3 :: cenv where
  "demo_cenv3 = demo_cenv\<lparr>dec_event := (\<lambda>l. if l = ''u.'' then Some (demo_event ''u'' ''1'' Unhide)
     else if l = ''h.'' then Some (demo_event ''h'' ''2'' Hide) else None)\<rparr>"

definition demo_archive :: "(bool, bool) archive" where
  "demo_archive = \<lparr>list_tree = (\<lambda>own. Some [([''stage'', META_DIR, ''m'', CONTROL_FILE], own)]),
     node_is_file = (\<lambda>_. True), dump = (\<lambda>own. Some (if own then ''u.\<newline>h.\<newline>'' else ''u.\<newline>''))\<rparr>"

lemma demo_archive_simps [simp]: "list_tree demo_archive own = Some [([''stage'', META_DIR, ''m'', CONTROL_FILE], own)]"
  "node_is_file demo_archive own" "dump demo_archive own = Some (if own then ''u.\<newline>h.\<newline>'' else ''u.\<newline>'')"
  by (simp_all add: demo_archive_def)

lemma demo_records: "stream_records demo_cenv3 demo_archive False = Some [demo_event ''u'' ''1'' Unhide]"
  "stream_records demo_cenv3 demo_archive True = Some [demo_event ''u'' ''1'' Unhide, demo_event ''h'' ''2'' Hide]"
proof -
  have dec: "dec_event demo_cenv3 ''u.'' = Some (demo_event ''u'' ''1'' Unhide)" "dec_event demo_cenv3 ''h.'' = Some (demo_event ''h'' ''2'' Hide)"
    and i: "instant demo_cenv3 s = map_option int (parse_u64 s)" for s
    by (simp_all add: demo_cenv3_def)
  have v: "validate demo_cenv3 (demo_event ''u'' ''1'' Unhide) = Inr ()" "validate demo_cenv3 (demo_event ''h'' ''2'' Hide) = Inr ()"
    by (simp_all add: validate_def demo_event_def bad_component_def MAX_OPERATION_ID_BYTES_def demo_digits i)
  have "lines_of ''u.\<newline>'' = [''u.'']" "lines_of ''u.\<newline>h.\<newline>'' = [''u.'', ''h.'']"
    "trim ''h.'' = ''h.''" "trim ''u.'' = ''u.''" "trim_end ''h.'' = ''h.''" "trim_end ''u.'' = ''u.''"
    "valid_utf8 ''u.\<newline>''" "valid_utf8 ''u.\<newline>h.\<newline>''" by code_simp+
  with dec v show "stream_records demo_cenv3 demo_archive False = Some [demo_event ''u'' ''1'' Unhide]"
    "stream_records demo_cenv3 demo_archive True = Some [demo_event ''u'' ''1'' Unhide, demo_event ''h'' ''2'' Hide]"
    by (simp_all add: stream_records_def parse_events_def)
qed

lemma demo_stream_machine: "control_stream_machine [''stage'', META_DIR, ''m'', CONTROL_FILE] = Some ''m''"
  by code_simp

lemma demo_stale_fold: "fold_events demo_cenv3 [demo_event ''u'' ''1'' Unhide] = Inr \<lparr>po_state = [((''m'', ''s''), Visible)], po_events = 1\<rparr>"
proof -
  have "instant demo_cenv3 s = map_option int (parse_u64 s)" for s by (simp add: demo_cenv3_def)
  then have "validate demo_cenv3 (demo_event ''u'' ''1'' Unhide) = Inr ()"
    by (simp add: validate_def demo_event_def bad_component_def MAX_OPERATION_ID_BYTES_def demo_digits)
  then show ?thesis
    by (simp add: fold_events_def Let_def ordered_events_def apply_event_def set_unless_purged_def identity_of_def)
      (simp add: demo_event_def set_unless_purged_def)
qed

theorem strict_policy_exact_witness:
  "load_strict_reader_policy demo_cenv3 demo_archive [(''a'', [False])] = Inr \<lparr>po_state = [((''m'', ''s''), Visible)], po_events = 1\<rparr>"
proof -
  have "first_streams demo_archive {} (governing demo_archive [(''a'', [False])]) = [(''m'', False)]"
    by (simp add: demo_stream_machine)
  with strict_policy_exact [of demo_cenv3 demo_archive "[(''a'', [False])]"] demo_stale_fold demo_records
  show ?thesis by (simp add: streams_readable_def)
qed

text \<open>A machine's stream is taken from the first host whose governing snapshot holds a copy of it. When the
  snapshot of an earlier host carries a copy of every stream that a later host's snapshot has, the later
  one changes nothing, however much newer its copies are.\<close>

lemma earlier_host_shadows:
  assumes "list_tree a s1 = Some es1" "list_tree a s2 = Some es2"
    and "\<forall>(q, node) \<in> set es2. \<forall>m. node_is_file a node \<and> control_stream_machine q = Some m \<longrightarrow> m \<in> fst ` set (first_streams a {} es1)"
  shows "load_strict_reader_policy e a [(h1, s1 # r1), (h2, s2 # r2)] = Inr p \<longleftrightarrow>
    load_strict_reader_policy e a [(h1, s1 # r1)] = Inr p"
proof -
  have none: "\<forall>(q, node) \<in> set es. \<forall>m. node_is_file a node \<and> control_stream_machine q = Some m \<longrightarrow> m \<in> seen \<Longrightarrow>
      first_streams a seen es = []" for es seen
    by (induction es) (auto split: option.splits if_splits)
  have "first_streams a {} (es1 @ es2) = first_streams a {} es1"
    using none [OF assms(3)] by (simp add: first_streams_append)
  then show ?thesis using assms(1,2) by (simp add: strict_policy_iff streams_readable_def)
qed

text \<open>The machine's own snapshot hides the session; the copy of the other host, read first, does not.\<close>

lemma earlier_host_shadows_witness:
  "\<exists>p. load_strict_reader_policy demo_cenv3 demo_archive [(''a'', [False]), (''m'', [True])] = Inr p \<and>
     visibility p ''m'' ''s'' = Visible \<and>
     stream_records demo_cenv3 demo_archive True = Some [demo_event ''u'' ''1'' Unhide, demo_event ''h'' ''2'' Hide]"
proof -
  let ?es = "\<lambda>own. [([''stage'', META_DIR, ''m'', CONTROL_FILE], own)]"
  have "first_streams demo_archive {} (?es False) = [(''m'', False)]" by (simp add: demo_stream_machine)
  then have cover: "\<forall>(q, node) \<in> set (?es True). \<forall>m. node_is_file demo_archive node \<and> control_stream_machine q = Some m \<longrightarrow>
      m \<in> fst ` set (first_streams demo_archive {} (?es False))" by (simp add: demo_stream_machine)
  have "load_strict_reader_policy demo_cenv3 demo_archive [(''a'', [False])] = Inr \<lparr>po_state = [((''m'', ''s''), Visible)], po_events = 1\<rparr>"
    using demo_stale_fold demo_records by (simp add: strict_policy_iff streams_readable_def demo_stream_machine)
  then have "load_strict_reader_policy demo_cenv3 demo_archive [(''a'', [False]), (''m'', [True])] =
      Inr \<lparr>po_state = [((''m'', ''s''), Visible)], po_events = 1\<rparr>"
    using earlier_host_shadows [of demo_archive False "?es False" True "?es True" demo_cenv3 "''a''" "[]" "''m''" "[]"] cover by simp
  then show ?thesis using demo_records(2) by (simp add: visibility_def)
qed

section \<open>The preview of a purge\<close>

lemma scan_fold:
  "try_fold (scan_snapshot r m s) snaps iv = Inr iv' \<Longrightarrow>
     (\<forall>snap \<in> set snaps. list_tree r snap \<noteq> None) \<and> iv_scanned iv' = iv_scanned iv + length snaps \<and>
     iv_occurrences iv' = iv_occurrences iv + sum_list (map (\<lambda>snap. length (occurrences_in r m s (the (list_tree r snap)))) snaps)"
proof (induction snaps arbitrary: iv)
  case (Cons snap snaps)
  then obtain iv1 where 1: "scan_snapshot r m s snap iv = Inr iv1" "try_fold (scan_snapshot r m s) snaps iv1 = Inr iv'"
    by (auto simp: rbind_eq_Inr)
  show ?case using Cons.IH [OF 1(2)] 1(1) by (auto simp: scan_snapshot_def Let_def split: option.splits if_splits)
qed simp

lemma scan_total:
  "\<forall>snap \<in> set snaps. list_tree r snap \<noteq> None \<Longrightarrow> \<exists>iv'. try_fold (scan_snapshot r m s) snaps iv = Inr iv'"
  by (induction snaps arbitrary: iv) (auto simp: scan_snapshot_def Let_def)

lemma hosts_cover:
  assumes "set (concat (group_by_host r snaps)) = set snaps"
  shows "set (concat (map snd (snapshots_by_host_newest_first r snaps))) = set snaps"
proof -
  have item: "(\<lambda>items. case sort_key (\<lambda>s. - snap_time r s) items of [] \<Rightarrow> None | newest # rest \<Rightarrow> Some (snap_host r newest, newest # rest)) items =
      (if items = [] then None else Some (snap_host r (hd (sort_key (\<lambda>s. - snap_time r s) items)), sort_key (\<lambda>s. - snap_time r s) items))" for items
  proof (cases "sort_key (\<lambda>s. - snap_time r s) items")
    case Nil
    then have "set items = {}" by (metis list.set(1) set_sort)
    with Nil show ?thesis by simp
  next
    case (Cons x xs)
    then have "set items \<noteq> {}" by (metis list.distinct(1) set_empty set_sort)
    with Cons show ?thesis by simp
  qed
  let ?key = "\<lambda>items. sort_key (\<lambda>s. - snap_time r s) items"
  have "set (snapshots_by_host_newest_first r snaps) =
      (\<lambda>items. (snap_host r (hd (?key items)), ?key items)) ` {items \<in> set (group_by_host r snaps). items \<noteq> []}"
    unfolding snapshots_by_host_newest_first_def item List.map_filter_def set_sort by (fastforce split: if_splits)
  then have "set (concat (map snd (snapshots_by_host_newest_first r snaps))) =
      (\<Union>items \<in> {items \<in> set (group_by_host r snaps). items \<noteq> []}. set items)"
    by simp
  also have "\<dots> = set (concat (group_by_host r snaps))" by auto
  finally show ?thesis using assms by simp
qed

text \<open>A snapshot lists a file that is a shard of the session.\<close>

definition shows_session :: "('s, 'n) repo \<Rightarrow> string \<Rightarrow> string \<Rightarrow> 's \<Rightarrow> bool" where
  "shows_session r m s snap \<longleftrightarrow>
     (\<exists>es q node f. list_tree r snap = Some es \<and> (q, node) \<in> set es \<and> node_is_file r node \<and> bucket_shard_path q = Some (m, s, f))"

lemma shows_session_listed:
  "list_tree r snap = Some es \<Longrightarrow> shows_session r m s snap \<longleftrightarrow> occurrences_in r m s es \<noteq> []"
  by (fastforce simp: shows_session_def occurrences_in_def filter_empty_conv split: option.splits)

lemma scan_status:
  "preview_status_of (try_fold (scan_snapshot r m s) snaps
      \<lparr>iv_in_repo = n, iv_scanned = 0, iv_with_target = [], iv_occurrences = 0, iv_bytes = 0\<rparr>) =
   (if \<exists>snap \<in> set snaps. list_tree r snap = None then PreviewUnknown
    else if \<exists>snap \<in> set snaps. shows_session r m s snap then PreviewFound else PreviewAbsent)"
  (is "preview_status_of ?run = _")
proof (cases ?run)
  case (Inl u)
  then have "\<exists>snap \<in> set snaps. list_tree r snap = None"
    using scan_total [of snaps r m s] by (metis Inl_Inr_False)
  with Inl show ?thesis by (simp add: preview_status_of_def)
next
  case (Inr iv)
  from scan_fold [OF Inr] have listed: "\<forall>snap \<in> set snaps. list_tree r snap \<noteq> None"
    and none: "iv_occurrences iv = 0 \<longleftrightarrow> (\<forall>snap \<in> set snaps. occurrences_in r m s (the (list_tree r snap)) = [])"
    by (auto simp: sum_list_eq_0_iff)
  have "shows_session r m s snap \<longleftrightarrow> occurrences_in r m s (the (list_tree r snap)) \<noteq> []" if "snap \<in> set snaps" for snap
    using listed that shows_session_listed [of r snap "the (list_tree r snap)" m s] by auto
  with none have "iv_occurrences iv > 0 \<longleftrightarrow> (\<exists>snap \<in> set snaps. shows_session r m s snap)" by auto
  with Inr listed show ?thesis by (auto simp: preview_status_of_def)
qed

text \<open>C28: The preview's three answers, exactly, for a repository whose grouping by host keeps every snapshot and
  adds none: \<open>unknown\<close> if the snapshots cannot be enumerated or any of them does not list, whatever the others
  show; otherwise \<open>found\<close> if some snapshot lists a file that is a shard of the session, and \<open>absent\<close> if none does.
  So \<open>absent\<close> and \<open>found\<close> are answered only after every snapshot was listed.\<close>

theorem preview_absent_exact:
  assumes "\<And>snaps. set (concat (group_by_host r snaps)) = set snaps"
  shows "preview_status_of (occurrence_inventory r m s) =
    (case all_snapshots r of
       None \<Rightarrow> PreviewUnknown
     | Some snaps \<Rightarrow>
         if \<exists>snap \<in> set snaps. list_tree r snap = None then PreviewUnknown
         else if \<exists>snap \<in> set snaps. shows_session r m s snap then PreviewFound else PreviewAbsent)"
proof (cases "all_snapshots r")
  case None
  then show ?thesis by (simp add: occurrence_inventory_def preview_status_of_def)
next
  case (Some snaps)
  have "set (concat (map snd (snapshots_by_host_newest_first r snaps))) = set snaps" by (rule hosts_cover) (rule assms)
  with Some show ?thesis unfolding occurrence_inventory_def by (simp only: option.case scan_status)
qed

text \<open>A repository with two snapshots, the older one holding the session.\<close>

definition demo_repo :: "bool \<Rightarrow> (nat, unit) repo" where
  "demo_repo broken = archive.extend
     \<lparr>list_tree = (\<lambda>n. if n = 1 \<and> broken then None
        else Some (if n = 1 then [([''sessions'', ''m'', ''s'', ''000001.jsonl''], ())] else [])),
      node_is_file = (\<lambda>_. True), dump = (\<lambda>_. None)\<rparr>
     \<lparr>all_snapshots = Some [0, 1], group_by_host = (\<lambda>snaps. [snaps]), snap_time = int, snap_host = (\<lambda>_. ''m''),
      snap_id = (\<lambda>_. []), node_size = (\<lambda>_. 5)\<rparr>"

theorem preview_absent_exact_witness:
  "preview_status_of (occurrence_inventory (demo_repo False) ''m'' ''t'') = PreviewAbsent \<and>
   preview_status_of (occurrence_inventory (demo_repo False) ''m'' ''s'') = PreviewFound \<and>
   preview_status_of (occurrence_inventory (demo_repo True) ''m'' ''s'') = PreviewUnknown"
proof -
  have cover: "set (concat (group_by_host (demo_repo b) snaps)) = set snaps" for b snaps
    by (simp add: demo_repo_def archive.defs)
  have path: "bucket_shard_path [''sessions'', ''m'', ''s'', ''000001.jsonl''] = Some (''m'', ''s'', ''000001.jsonl'')"
    by code_simp
  have repo: "all_snapshots (demo_repo b) = Some [0, 1]" "list_tree (demo_repo b) 0 = Some []"
    "list_tree (demo_repo b) 1 = (if b then None else Some [([''sessions'', ''m'', ''s'', ''000001.jsonl''], ())])"
    "node_is_file (demo_repo b) ()" for b
    by (simp_all add: demo_repo_def archive.defs)
  show ?thesis
    using preview_absent_exact [OF cover, of False "''m''"] preview_absent_exact [OF cover, of True "''m''" "''s''"] path repo
    by (simp add: shows_session_def)
qed

end
