(* ===== verification/Hash_Cache.thy ===== *)
theory Hash_Cache
  imports Manifest State_Files
begin

text \<open>
  \<open>hashcache.rs\<close>: digests remembered by file identity. Source files belong to other programs, so
  what a source path holds at each tick of the clock is a parameter, and so are the modification
  time and the inode of a stage file and the zstd decoder; sizes and contents of stage files are the model's. The
  tallies for the printed report are left out.
\<close>

section \<open>Files and their identities\<close>

record file_identity =
  fi_size :: nat
  fi_mtime_ns :: "nat option"
  fi_inode :: nat

record colenv = menv +
  source_at :: "nat \<Rightarrow> path \<Rightarrow> (file_identity \<times> bytes) option"
  stage_meta :: "nat \<Rightarrow> path \<Rightarrow> nat option \<times> nat"
  zstd_decode :: "bytes \<Rightarrow> bytes option"

datatype collect_error =
    SourceFailed path
  | StageSide stage_error
  | ManifestSide manifest_error
  | SourceChanged
  | NotDecoded path
  | Overflowed
  | Panicked
  | PrefixEnded nat nat
  | CacheFailed state_error

text \<open>\<open>fs::metadata\<close> and reading a source, each at one tick.\<close>

definition stat_source :: "('x colenv_scheme) \<Rightarrow> path \<Rightarrow> (world, collect_error, file_identity) io" where
  "stat_source e p w =
     ((if fault e (clock w) then Inl (SourceFailed p)
       else case source_at e (clock w) p of None \<Rightarrow> Inl (SourceFailed p) | Some (i, c) \<Rightarrow> Inr i),
      w\<lparr>clock := Suc (clock w)\<rparr>)"

definition read_source :: "('x colenv_scheme) \<Rightarrow> path \<Rightarrow> (world, collect_error, bytes) io" where
  "read_source e p w =
     ((if fault e (clock w) then Inl (SourceFailed p)
       else case source_at e (clock w) p of None \<Rightarrow> Inl (SourceFailed p) | Some (i, c) \<Rightarrow> Inr c),
      w\<lparr>clock := Suc (clock w)\<rparr>)"

definition stat_stage :: "('x colenv_scheme) \<Rightarrow> path \<Rightarrow> (world, collect_error, file_identity) io" where
  "stat_stage e p w =
     ((if fault e (clock w) then Inl (StageSide IoError)
       else case map_of (files w) p of
           None \<Rightarrow> Inl (StageSide IoError)
         | Some c \<Rightarrow> Inr \<lparr>fi_size = length c, fi_mtime_ns = fst (stage_meta e (clock w) p), fi_inode = snd (stage_meta e (clock w) p)\<rparr>),
      w\<lparr>clock := Suc (clock w)\<rparr>)"

definition is_same_file :: "file_identity \<Rightarrow> file_identity \<Rightarrow> bool" where
  "is_same_file stored current \<longleftrightarrow>
     fi_mtime_ns stored \<noteq> None \<and> fi_size stored = fi_size current \<and>
     fi_mtime_ns stored = fi_mtime_ns current \<and> fi_inode stored = fi_inode current"

text \<open>The rule as other read paths use it, on two stats.\<close>

definition same_file_identity :: "file_identity \<Rightarrow> file_identity \<Rightarrow> bool" where
  "same_file_identity before after = is_same_file before after"

text \<open>Files are named by a digest of their absolute path.\<close>

definition path_text :: "path \<Rightarrow> string" where
  "path_text p = concat (map (\<lambda>c. CHR ''/'' # lossy c) p)"

definition path_digest :: "('x env_scheme) \<Rightarrow> path \<Rightarrow> string" where
  "path_digest e p = take 16 (hex (sha256 e (path_text p)))"

definition stage_digest :: "('x env_scheme) \<Rightarrow> path \<Rightarrow> string" where
  "stage_digest e p = path_digest e (stage_root e @ p)"

section \<open>The cache\<close>

record hash_answer =
  ha_sha256 :: string
  ha_bytes_read :: nat
  ha_from_cache :: bool
  ha_size :: nat

record shard_identity =
  si_sequence :: nat
  si_path :: string
  si_file :: file_identity

datatype cache_value =
    CacheFile file_identity string
  | CachePrefix file_identity nat string
  | CacheDir "shard_identity list" nat string

definition CACHE_FILE :: string where "CACHE_FILE = ''hash-cache-v1.json''"
definition CACHE_VERSION :: nat where "CACHE_VERSION = 1"
definition CACHE_MAX_ENTRIES :: nat where "CACHE_MAX_ENTRIES = 250000"

type_synonym cache_entries = "(string \<times> cache_value) list"

record hash_cache =
  hc_path :: "path option"
  hc_entries :: cache_entries
  hc_touched :: "string list"

definition disabled_cache :: hash_cache where
  "disabled_cache = \<lparr>hc_path = None, hc_entries = [], hc_touched = []\<rparr>"

record cache_file =
  cf_version :: nat
  cf_entries :: cache_entries

definition load_cache ::
  "('x schedule_scheme) \<Rightarrow> cache_file state_codec \<Rightarrow> path \<Rightarrow> (world, collect_error, hash_cache) io" where
  "load_cache e c dir w =
     (let p = dir @ [CACHE_FILE];
          entries = (if fault e (clock w) then []
            else case map_of (files w) p of
                None \<Rightarrow> []
              | Some raw \<Rightarrow> (case get_state c raw of
                    Some f \<Rightarrow> if cf_version f = CACHE_VERSION then cf_entries f else []
                  | None \<Rightarrow> [])) in
      (Inr \<lparr>hc_path = Some p, hc_entries = entries, hc_touched = []\<rparr>, w\<lparr>clock := Suc (clock w)\<rparr>))"

definition remember :: "string \<Rightarrow> cache_value \<Rightarrow> hash_cache \<Rightarrow> hash_cache" where
  "remember key v hc = hc\<lparr>hc_touched := List.insert key (hc_touched hc), hc_entries := bt_insert key v (hc_entries hc)\<rparr>"

definition touch_key :: "string \<Rightarrow> hash_cache \<Rightarrow> hash_cache" where
  "touch_key key hc = hc\<lparr>hc_touched := List.insert key (hc_touched hc)\<rparr>"

definition cache_hit :: "string \<Rightarrow> nat \<Rightarrow> hash_answer" where
  "cache_hit sha sz = \<lparr>ha_sha256 = sha, ha_bytes_read = 0, ha_from_cache = True, ha_size = sz\<rparr>"

text \<open>The digest remembered for a question, if its identity still holds.\<close>

definition prefix_remembered :: "hash_cache \<Rightarrow> string \<Rightarrow> nat \<Rightarrow> file_identity \<Rightarrow> string option" where
  "prefix_remembered hc key offset identity =
     (case bt_get (hc_entries hc) key of
        Some (CachePrefix file cached_offset sha) \<Rightarrow>
          if cached_offset = offset \<and> is_same_file file identity then Some sha else None
      | _ \<Rightarrow> None)"

definition file_remembered :: "hash_cache \<Rightarrow> string \<Rightarrow> file_identity \<Rightarrow> string option" where
  "file_remembered hc key identity =
     (case bt_get (hc_entries hc) key of
        Some (CacheFile file sha) \<Rightarrow> if is_same_file file identity then Some sha else None
      | _ \<Rightarrow> None)"

definition dir_remembered :: "hash_cache \<Rightarrow> string \<Rightarrow> nat \<Rightarrow> shard_identity list \<Rightarrow> string option" where
  "dir_remembered hc key covered identities =
     (case bt_get (hc_entries hc) key of
        Some (CacheDir stored cached_covered sha) \<Rightarrow>
          if cached_covered = covered \<and> stored = identities then Some sha else None
      | _ \<Rightarrow> None)"

definition prefix_sha256 ::
  "('x colenv_scheme) \<Rightarrow> path \<Rightarrow> nat \<Rightarrow> file_identity option \<Rightarrow> hash_cache \<Rightarrow> (world, collect_error, hash_answer \<times> hash_cache) io" where
  "prefix_sha256 e p offset stat hc =
     io_bind (case stat of Some i \<Rightarrow> io_return i | None \<Rightarrow> stat_source e p) (\<lambda>identity.
     let key = ''p:'' @ path_digest e p in
     case prefix_remembered hc key offset identity of
       Some sha \<Rightarrow> io_return (cache_hit sha (fi_size identity), touch_key key hc)
     | None \<Rightarrow>
         io_bind (read_source e p) (\<lambda>c.
         let piece = take offset c; sha = hex (sha256 e piece) in
         io_return (\<lparr>ha_sha256 = sha, ha_bytes_read = length piece, ha_from_cache = False, ha_size = fi_size identity\<rparr>,
           if fi_mtime_ns identity \<noteq> None \<and> length piece = offset
           then remember key (CachePrefix identity offset sha) hc else hc)))"

definition file_sha256 ::
  "('x colenv_scheme) \<Rightarrow> path \<Rightarrow> hash_cache \<Rightarrow> (world, collect_error, hash_answer \<times> hash_cache) io" where
  "file_sha256 e p hc =
     io_bind (stat_stage e p) (\<lambda>identity.
     let key = ''f:'' @ stage_digest e p in
     case file_remembered hc key identity of
       Some sha \<Rightarrow> io_return (cache_hit sha (fi_size identity), touch_key key hc)
     | None \<Rightarrow>
         io_bind (read_file e (StageSide IoError) p) (\<lambda>c.
         let sha = hex (sha256 e c) in
         io_return (\<lparr>ha_sha256 = sha, ha_bytes_read = length c, ha_from_cache = False, ha_size = fi_size identity\<rparr>,
           if fi_mtime_ns identity \<noteq> None then remember key (CacheFile identity sha) hc else hc)))"

text \<open>The bytes of the shards up to \<open>covered\<close>; no shard is opened once they are read.\<close>

fun read_covered :: "('x colenv_scheme) \<Rightarrow> nat \<Rightarrow> (nat \<times> path) list \<Rightarrow> bytes \<Rightarrow> (world, collect_error, bytes) io" where
  "read_covered e covered [] acc = io_return acc"
| "read_covered e covered ((seq, p) # es) acc =
     (if covered \<le> length acc then io_return acc
      else io_bind (read_file e (StageSide IoError) p) (\<lambda>c.
        read_covered e covered es (acc @ take (covered - length acc) c)))"

definition shard_identities_of ::
  "('x colenv_scheme) \<Rightarrow> (nat \<times> path) list \<Rightarrow> (world, collect_error, shard_identity list) io" where
  "shard_identities_of e =
     io_traverse (\<lambda>(seq, p). io_bind (stat_stage e p) (\<lambda>i.
       io_return \<lparr>si_sequence = seq, si_path = stage_digest e p, si_file = i\<rparr>))"

definition shard_concat_sha256 ::
  "('x colenv_scheme) \<Rightarrow> path \<Rightarrow> (nat \<times> path) list \<Rightarrow> nat \<Rightarrow> hash_cache \<Rightarrow> (world, collect_error, hash_answer \<times> hash_cache) io" where
  "shard_concat_sha256 e dir shards covered hc =
     io_bind (shard_identities_of e shards) (\<lambda>identities.
     let key = ''d:'' @ stage_digest e dir;
         sz = sum_list (map (fi_size \<circ> si_file) identities) in
     case dir_remembered hc key covered identities of
       Some sha \<Rightarrow> io_return (cache_hit sha sz, touch_key key hc)
     | None \<Rightarrow>
         io_bind (read_covered e covered shards []) (\<lambda>c.
         let sha = hex (sha256 e c) in
         io_return (\<lparr>ha_sha256 = sha, ha_bytes_read = length c, ha_from_cache = False, ha_size = sz\<rparr>,
           if length c = covered then remember key (CacheDir identities covered sha) hc else hc)))"

definition save_cache ::
  "('x schedule_scheme) \<Rightarrow> cache_file state_codec \<Rightarrow> hash_cache \<Rightarrow> (world, collect_error, hash_cache) io" where
  "save_cache e c hc =
     (case hc_path hc of
        None \<Rightarrow> io_return hc
      | Some p \<Rightarrow>
          if hc_touched hc = [] then io_return hc
          else
            let entries = (if CACHE_MAX_ENTRIES < length (hc_entries hc)
                  then filter (\<lambda>(k, v). k \<in> set (hc_touched hc)) (hc_entries hc) else hc_entries hc);
                tmp = butlast p @ [''.'' @ CACHE_FILE @ ''.tmp''] in
            case put_state c \<lparr>cf_version = CACHE_VERSION, cf_entries = entries\<rparr> of
              None \<Rightarrow> io_fail (CacheFailed StateSerialise)
            | Some raw \<Rightarrow>
                io_bind (write_synced e (CacheFailed StateWrite) tmp raw) (\<lambda>_.
                io_bind (rename_file e (CacheFailed StateWrite) tmp p) (\<lambda>_.
                io_return (hc\<lparr>hc_entries := entries\<rparr>))))"

end
