(* ===== verification/Debt.thy ===== *)
theory Debt
  imports Hash_Cache Verify
begin

text \<open>
  The proof of a stored read position (\<open>collect.rs\<close>): what a cursor claims it handed over, whether the
  stage still holds it, whether the retained summary or the destination's archive proves it. The
  digests go through the hash cache.
\<close>

section \<open>Records\<close>

record shard_set =
  ss_shard_count :: nat
  ss_concat_bytes :: nat
  ss_concat_sha256 :: string
  ss_shard_identities :: "shard_fingerprint list"

text \<open>The logical cursor of a database session is carried along, not interpreted.\<close>

record 'c offset_entry =
  oe_offset :: nat
  oe_prefix_len :: nat
  oe_prefix_sha256 :: string
  oe_compressed :: bool
  oe_opencode :: "'c option"
  oe_store_fingerprint :: "string option"
  oe_grok_bot_row_digests :: "string list option"
  oe_opencode_record_digests :: "string list option"
  oe_opencode_map_digest :: "string option"

record 'c debt_entry =
  de_machine :: string
  de_session_id :: string
  de_cursor :: "'c offset_entry"
  de_shards :: shard_set

type_synonym facts = "(string \<times> shard_set) list"
type_synonym archive_facts = "((string \<times> string) \<times> shard_set) list"

datatype unverifiable_word = OtherPartition | ArchiveNotConsulted | ArchiveDiffers | ArchiveLacks

datatype debt_verdict = OwedOnStage | SettledInArchive | SettledReclaimed | Unverifiable unverifiable_word

fun proves :: "debt_verdict \<Rightarrow> bool" where
  "proves (Unverifiable why) = False"
| "proves _ = True"

section \<open>Shard sets\<close>

definition valid_sha256 :: "string \<Rightarrow> bool" where
  "valid_sha256 v \<longleftrightarrow> length v = 64 \<and> list_all is_hexdigit v"

text \<open>The running total is a checked addition on \<open>u64\<close>.\<close>

fun fingerprints_total :: "nat \<Rightarrow> nat \<Rightarrow> shard_fingerprint list \<Rightarrow> nat option" where
  "fingerprints_total previous total0 [] = Some total0"
| "fingerprints_total previous total0 (s # ss) =
     (if fp_sequence s = 0 \<or> fp_sequence s \<le> previous \<or> \<not> valid_sha256 (fp_sha256 s) then None
      else if u64_max < total0 + fp_bytes s then None
      else fingerprints_total (fp_sequence s) (total0 + fp_bytes s) ss)"

definition valid_shard_fact :: "shard_set \<Rightarrow> bool" where
  "valid_shard_fact x \<longleftrightarrow>
     ss_shard_count x = length (ss_shard_identities x) \<and> valid_sha256 (ss_concat_sha256 x) \<and> ss_shard_identities x \<noteq> [] \<and>
     (case fingerprints_total 0 0 (ss_shard_identities x) of
        None \<Rightarrow> False
      | Some n \<Rightarrow> n = ss_concat_bytes x \<and>
          (ss_shard_count x \<noteq> 1 \<or> ss_concat_sha256 x = fp_sha256 (hd (ss_shard_identities x))))"

definition same_shard_payload :: "shard_set \<Rightarrow> shard_set \<Rightarrow> bool" where
  "same_shard_payload l r \<longleftrightarrow>
     ss_shard_count l = ss_shard_count r \<and> ss_concat_bytes l = ss_concat_bytes r \<and> ss_concat_sha256 l = ss_concat_sha256 r"

definition archive_contains_shards :: "shard_set \<Rightarrow> shard_set \<Rightarrow> bool" where
  "archive_contains_shards archive debt \<longleftrightarrow>
     \<not> (ss_shard_identities debt = [] \<or> ss_shard_identities archive = [] \<or>
        \<not> valid_shard_fact archive \<or> \<not> valid_shard_fact debt) \<and>
     list_all (\<lambda>expected. \<exists>observed \<in> set (ss_shard_identities archive). observed = expected) (ss_shard_identities debt)"

definition retained_summary_covers :: "shard_set \<Rightarrow> shard_set \<Rightarrow> bool" where
  "retained_summary_covers x debt \<longleftrightarrow> same_shard_payload x debt \<or> archive_contains_shards x debt"

section \<open>What the stage holds\<close>

definition empty_shard_set :: "('x env_scheme) \<Rightarrow> shard_set" where
  "empty_shard_set e = \<lparr>ss_shard_count = 0, ss_concat_bytes = 0, ss_concat_sha256 = hex (sha256 e []), ss_shard_identities = []\<rparr>"

fun fingerprint_shards ::
  "('x colenv_scheme) \<Rightarrow> (nat \<times> path) list \<Rightarrow> hash_cache \<Rightarrow> (world, collect_error, shard_fingerprint list \<times> hash_cache) io" where
  "fingerprint_shards e [] hc = io_return ([], hc)"
| "fingerprint_shards e ((seq, p) # es) hc =
     io_bind (file_sha256 e p hc) (\<lambda>(a, hc1).
     io_bind (fingerprint_shards e es hc1) (\<lambda>(fps, hc2).
     io_return (\<lparr>fp_sequence = seq, fp_bytes = ha_size a, fp_sha256 = ha_sha256 a\<rparr> # fps, hc2)))"

definition shard_fact_in_dir ::
  "('x colenv_scheme) \<Rightarrow> path \<Rightarrow> hash_cache \<Rightarrow> (world, collect_error, shard_set \<times> hash_cache) io" where
  "shard_fact_in_dir e dir hc =
     io_bind (io_map_err StageSide (sealed_shard_entries (base e) dir)) (\<lambda>es.
     let entries = sort_entries es in
     if entries = [] then io_return (empty_shard_set e, hc)
     else
       io_bind (fingerprint_shards e entries hc) (\<lambda>(fps, hc1).
       let concat_bytes = sum_list (map fp_bytes fps) in
       io_bind (shard_concat_sha256 e dir entries concat_bytes hc1) (\<lambda>(a, hc2).
       io_return (\<lparr>ss_shard_count = length entries, ss_concat_bytes = concat_bytes, ss_concat_sha256 = ha_sha256 a,
         ss_shard_identities = fps\<rparr>, hc2))))"

definition stage_shard_fact ::
  "('x colenv_scheme) \<Rightarrow> string \<Rightarrow> string \<Rightarrow> hash_cache \<Rightarrow> (world, collect_error, shard_set \<times> hash_cache) io" where
  "stage_shard_fact e machine session_id = shard_fact_in_dir e (session_shard_dir machine session_id)"

text \<open>The rows of a machine's stored summary, later rows replacing earlier ones.\<close>

definition shard_set_of_row :: "session_manifest \<Rightarrow> shard_set" where
  "shard_set_of_row r = \<lparr>ss_shard_count = sm_shard_count r, ss_concat_bytes = sm_concat_bytes r,
     ss_concat_sha256 = sm_concat_sha256 r, ss_shard_identities = sm_shard_identities r\<rparr>"

definition facts_of_rows :: "string \<Rightarrow> session_manifest list \<Rightarrow> facts" where
  "facts_of_rows machine rows =
     fold (\<lambda>r m. if sm_machine r = machine then bt_insert (sm_session_id r) (shard_set_of_row r) m else m) rows []"

definition load_local_manifest_facts :: "menv \<Rightarrow> string \<Rightarrow> (world, collect_error, facts option) io" where
  "load_local_manifest_facts e machine w =
     (case read_manifest e machine w of
        (Inl x, w1) \<Rightarrow> (Inr None, w1)
      | (Inr Missing, w1) \<Rightarrow> (Inr None, w1)
      | (Inr Empty, w1) \<Rightarrow> (Inr None, w1)
      | (Inr (Loaded rows), w1) \<Rightarrow> (Inr (Some (facts_of_rows machine rows)), w1))"

section \<open>Coverage\<close>

text \<open>The shards one by one; \<open>None\<close> leaves the question to the concatenation.\<close>

fun match_fingerprints ::
  "('x colenv_scheme) \<Rightarrow> (nat \<times> path) list \<Rightarrow> shard_fingerprint list \<Rightarrow> nat \<Rightarrow> hash_cache \<Rightarrow>
     (world, collect_error, nat option \<times> hash_cache) io" where
  "match_fingerprints e ((seq, p) # es) (f # fps) covered hc =
     (if seq \<noteq> fp_sequence f then io_return (None, hc)
      else io_bind (file_sha256 e p hc) (\<lambda>(a, hc1).
        if ha_size a \<noteq> fp_bytes f \<or> ha_sha256 a \<noteq> fp_sha256 f then io_return (None, hc1)
        else match_fingerprints e es fps (covered + fp_bytes f) hc1))"
| "match_fingerprints e es fps covered hc = io_return (Some covered, hc)"

definition dir_covers_by_fingerprints ::
  "('x colenv_scheme) \<Rightarrow> (nat \<times> path) list \<Rightarrow> shard_set \<Rightarrow> hash_cache \<Rightarrow> (world, collect_error, bool option \<times> hash_cache) io" where
  "dir_covers_by_fingerprints e entries x hc =
     (if length (ss_shard_identities x) \<noteq> ss_shard_count x then io_return (None, hc)
      else if \<not> valid_shard_fact x then io_return (None, hc)
      else io_bind (match_fingerprints e entries (ss_shard_identities x) 0 hc) (\<lambda>(covered, hc1).
        case covered of
          None \<Rightarrow> io_return (Some False, hc1)
        | Some n \<Rightarrow> if n \<noteq> ss_concat_bytes x then io_return (None, hc1) else io_return (Some True, hc1)))"

definition dir_covers_with_cache ::
  "('x colenv_scheme) \<Rightarrow> path \<Rightarrow> shard_set \<Rightarrow> hash_cache \<Rightarrow> (world, collect_error, bool \<times> hash_cache) io" where
  "dir_covers_with_cache e dir x hc =
     io_bind (io_map_err StageSide (sealed_shard_entries (base e) dir)) (\<lambda>es.
     if length es < ss_shard_count x then io_return (False, hc)
     else if ss_concat_bytes x = 0 then io_return (hex (sha256 e []) = ss_concat_sha256 x, hc)
     else
       let entries = sort_entries es in
       io_bind (dir_covers_by_fingerprints e entries x hc) (\<lambda>(answer, hc1).
       case answer of
         Some b \<Rightarrow> io_return (b, hc1)
       | None \<Rightarrow>
           io_bind (shard_concat_sha256 e dir entries (ss_concat_bytes x) hc1) (\<lambda>(a, hc2).
           io_return (\<not> (\<not> ha_from_cache a \<and> ha_bytes_read a \<noteq> ss_concat_bytes x) \<and> ha_sha256 a = ss_concat_sha256 x, hc2))))"

definition stage_covers ::
  "('x colenv_scheme) \<Rightarrow> string \<Rightarrow> string \<Rightarrow> shard_set \<Rightarrow> hash_cache \<Rightarrow> (world, collect_error, bool \<times> hash_cache) io" where
  "stage_covers e machine session_id = dir_covers_with_cache e (session_shard_dir machine session_id)"

section \<open>The verdict\<close>

definition debt_settled_locally ::
  "('x colenv_scheme) \<Rightarrow> 'c debt_entry \<Rightarrow> string \<Rightarrow> facts option \<Rightarrow> hash_cache \<Rightarrow>
     (world, collect_error, debt_verdict option \<times> hash_cache) io" where
  "debt_settled_locally e d machine manifest hc =
     (if de_machine d \<noteq> machine then io_return (Some (Unverifiable OtherPartition), hc)
      else io_bind (stage_covers e machine (de_session_id d) (de_shards d) hc) (\<lambda>(covers, hc1).
        if covers then io_return (Some OwedOnStage, hc1)
        else
          io_bind (io_map_err StageSide (sealed_shard_entries (base e) (session_shard_dir machine (de_session_id d)))) (\<lambda>es.
          if es = [] \<and> (case manifest of None \<Rightarrow> False | Some m \<Rightarrow>
               (case bt_get m (de_session_id d) of None \<Rightarrow> False | Some x \<Rightarrow> retained_summary_covers x (de_shards d)))
          then io_return (Some SettledReclaimed, hc1)
          else io_return (None, hc1))))"

definition archive_verdict :: "archive_facts option \<Rightarrow> string \<Rightarrow> 'c debt_entry \<Rightarrow> debt_verdict" where
  "archive_verdict remote machine d =
     (case remote of
        None \<Rightarrow> Unverifiable ArchiveNotConsulted
      | Some m \<Rightarrow>
          (case bt_get m (machine, de_session_id d) of
             Some observed \<Rightarrow>
               if ss_shard_identities (de_shards d) = [] \<and> same_shard_payload observed (de_shards d) then SettledInArchive
               else if archive_contains_shards observed (de_shards d) then SettledInArchive
               else Unverifiable ArchiveDiffers
           | None \<Rightarrow> Unverifiable ArchiveLacks))"

definition verify_debt ::
  "('x colenv_scheme) \<Rightarrow> 'c debt_entry \<Rightarrow> string \<Rightarrow> archive_facts option \<Rightarrow> facts option \<Rightarrow> hash_cache \<Rightarrow>
     (world, collect_error, debt_verdict \<times> hash_cache) io" where
  "verify_debt e d machine remote manifest hc =
     io_bind (debt_settled_locally e d machine manifest hc) (\<lambda>(verdict, hc1).
     case verdict of
       Some v \<Rightarrow> io_return (v, hc1)
     | None \<Rightarrow> io_return (archive_verdict remote machine d, hc1))"

end
