(* ===== verification/Prefix_Cover.thy ===== *)
theory Prefix_Cover
  imports Prelude "HOL-Library.Sublist"
begin

text \<open>
  The questions of \<open>collect.rs\<close> about bytes the stage already holds: the complete lines of a file,
  the framing of sealed shards, whether an export is the tail of the stage, and the longest
  prefix of a source that the stage holds as one run of lines, found by the Knuth-Morris-Pratt
  matcher of the code. Indexing out of range is an outcome (\<open>None\<close>), and the inner loops are
  partial functions, so that not panicking and terminating are theorems.
\<close>

section \<open>Lines and frames\<close>

definition complete_lines :: "bytes \<Rightarrow> bytes list \<times> nat" where
  "complete_lines bs =
     (if newline \<notin> set bs then ([], 0)
      else let n = length bs - length (takeWhile (\<lambda>c. c \<noteq> newline) (rev bs)) in
        (butlast (split_on (\<lambda>c. c = newline) (take n bs)), n))"

definition seal_framed :: "bytes list \<Rightarrow> bytes" where
  "seal_framed ls = concat (map (\<lambda>l. l @ [newline]) ls)"

section \<open>The tail of the stage\<close>

text \<open>The shards are walked from the last one; \<open>later\<close> are those already matched, in order.\<close>

fun tail_walk :: "bytes list \<Rightarrow> bytes list \<Rightarrow> bytes \<Rightarrow> nat \<Rightarrow> bool" where
  "tail_walk [] later frame remaining = False"
| "tail_walk (shard # earlier) later frame remaining =
     (if remaining < length shard \<or> take (length shard) (drop (remaining - length shard) frame) \<noteq> shard then False
      else if remaining = length shard
      then length later = 0 \<or>
        (Suc (length later) \<le> length earlier \<and> rev (take (Suc (length later)) earlier) = shard # later)
      else tail_walk earlier (shard # later) frame (remaining - length shard))"

definition stage_tail_is :: "bytes list \<Rightarrow> bytes \<Rightarrow> bool" where
  "stage_tail_is shards frame \<longleftrightarrow> frame \<noteq> [] \<and> tail_walk (rev shards) [] frame (length frame)"

section \<open>The matcher\<close>

definition at :: "'a list \<Rightarrow> nat \<Rightarrow> 'a option" where
  "at xs i = (if i < length xs then Some (xs ! i) else None)"

partial_function (option) fall_back :: "'a list \<Rightarrow> nat list \<Rightarrow> 'a \<Rightarrow> nat \<Rightarrow> nat option" where
  "fall_back src fails line matched =
     (if matched = 0 then Some 0
      else Option.bind (at src matched) (\<lambda>l.
        if line = l then Some matched
        else Option.bind (at fails (matched - 1)) (\<lambda>m. fall_back src fails line m)))"

declare fall_back.simps [code]

definition advance :: "'a list \<Rightarrow> nat list \<Rightarrow> 'a \<Rightarrow> nat \<Rightarrow> nat option" where
  "advance src fails line matched =
     Option.bind (fall_back src fails line matched) (\<lambda>m.
     Option.bind (at src m) (\<lambda>l. Some (if line = l then m + 1 else m)))"

fun build_prefix :: "'a list \<Rightarrow> nat list \<Rightarrow> nat list \<Rightarrow> nat list option" where
  "build_prefix src [] fails = Some fails"
| "build_prefix src (index # rest) fails =
     Option.bind (at src index) (\<lambda>line.
     Option.bind (at fails (index - 1)) (\<lambda>m0.
     Option.bind (advance src fails line m0) (\<lambda>m.
     build_prefix src rest (fails[index := m]))))"

text \<open>\<open>Some (inl)\<close> is the early return when the whole source is matched.\<close>

fun match_lines :: "'a list \<Rightarrow> nat list \<Rightarrow> 'a list \<Rightarrow> nat \<Rightarrow> nat \<Rightarrow> nat option" where
  "match_lines src fails [] matched best = Some best"
| "match_lines src fails (line # lines) matched best =
     Option.bind (fall_back src fails line matched) (\<lambda>m0.
     Option.bind (at src m0) (\<lambda>l.
       if line = l
       then let m = m0 + 1; b = max best m in
         if m = length src then Some (length src) else match_lines src fails lines m b
       else match_lines src fails lines m0 best))"

definition covered_source_prefix :: "bytes \<Rightarrow> bytes \<Rightarrow> nat option" where
  "covered_source_prefix stage source =
     (let stage_lines = fst (complete_lines stage);
          source_lines = fst (complete_lines source);
          source_complete_len = snd (complete_lines source) in
      if source_lines = [] then Some 0
      else
        Option.bind (build_prefix source_lines [1..<length source_lines] (replicate (length source_lines) 0)) (\<lambda>fails.
        Option.bind (match_lines source_lines fails stage_lines 0 0) (\<lambda>best.
        if best = length source_lines then Some source_complete_len
        else Some (min (sum_list (map (\<lambda>l. length l + 1) (take best source_lines))) source_complete_len))))"

end
