(* ===== verification/Collect.thy ===== *)
theory Collect
  imports Debt Prefix_Cover
begin

text \<open>
  \<open>collect.rs\<close> for sources that are files: the consistent read of a growing JSONL file against a
  cursor, whole files and compressed exports, the position a destination starts from, the sealing of
  what was read, and the debt that is stored afterwards. Sessions in databases have readers of
  their own; the labels and tallies of the report, the provenance sidecars and the audit sidecar
  are left out.
\<close>

section \<open>Sources\<close>

record session_record =
  sr_id :: string
  sr_absolute_path :: path
  sr_compressed :: bool
  sr_provenance :: bool
  sr_movable_root :: bool

definition path_extension :: "path \<Rightarrow> string option" where
  "path_extension p =
     (if p = [] \<or> last p = ''..'' \<or> CHR ''.'' \<notin> set (last p) then None
      else let after = rev (takeWhile (\<lambda>c. c \<noteq> CHR ''.'') (rev (last p))) in
        if Suc (length after) = length (last p) then None else Some after)"

definition ascii_lower :: "char \<Rightarrow> char" where
  "ascii_lower c = (if 65 \<le> (of_char c :: nat) \<and> (of_char c :: nat) \<le> 90 then char_of ((of_char c :: nat) + 32) else c)"

definition has_extension :: "string \<Rightarrow> path \<Rightarrow> bool" where
  "has_extension x p \<longleftrightarrow> (case path_extension p of None \<Rightarrow> False
     | Some ext \<Rightarrow> valid_utf8 ext \<and> map ascii_lower ext = map ascii_lower x)"

definition is_jsonl_path :: "path \<Rightarrow> bool" where "is_jsonl_path = has_extension ''jsonl''"
definition is_zstd_path :: "path \<Rightarrow> bool" where "is_zstd_path = has_extension ''zst''"

definition read_range :: "('x colenv_scheme) \<Rightarrow> path \<Rightarrow> nat \<Rightarrow> nat \<Rightarrow> (world, collect_error, bytes) io" where
  "read_range e p start len =
     io_bind (read_source e p) (\<lambda>c.
     if len \<noteq> 0 \<and> length c < start + len then io_fail (SourceFailed p) else io_return (take len (drop start c)))"

section \<open>The consistent read\<close>

definition READ_RETRIES :: nat where "READ_RETRIES = 3"

record read_data =
  rd_source_len :: nat
  rd_base_offset :: nat
  rd_bytes :: bytes
  rd_bytes_read :: nat
  rd_prefix_bytes_validated :: nat
  rd_reset :: bool

definition reusable_entry :: "'c offset_entry option \<Rightarrow> bool \<Rightarrow> nat \<Rightarrow> 'c offset_entry option" where
  "reusable_entry old force_reset before =
     (case old of None \<Rightarrow> None
      | Some en \<Rightarrow> if \<not> force_reset \<and> \<not> oe_compressed en \<and> oe_prefix_len en = oe_offset en \<and> oe_offset en \<le> before
                  then Some en else None)"

fun read_attempts ::
  "nat \<Rightarrow> ('x colenv_scheme) \<Rightarrow> path \<Rightarrow> 'c offset_entry option \<Rightarrow> bool \<Rightarrow> hash_cache \<Rightarrow>
     (world, collect_error, read_data \<times> hash_cache) io" where
  "read_attempts 0 e p old force_reset hc = io_fail SourceChanged"
| "read_attempts (Suc n) e p old force_reset hc =
     io_bind (stat_source e p) (\<lambda>bm.
     let before = fi_size bm;
         full = (\<lambda>hc1. io_bind (read_range e p 0 before) (\<lambda>c. io_bind (stat_source e p) (\<lambda>am.
           if fi_size am \<noteq> before then read_attempts n e p old force_reset hc1
           else io_return (\<lparr>rd_source_len = before, rd_base_offset = 0, rd_bytes = c, rd_bytes_read = before,
             rd_prefix_bytes_validated = 0, rd_reset = (old \<noteq> None)\<rparr>, hc1)))) in
     case reusable_entry old force_reset before of
       None \<Rightarrow> full hc
     | Some en \<Rightarrow>
         io_bind (prefix_sha256 e p (oe_offset en) (Some bm) hc) (\<lambda>(a, hc1).
         if ha_sha256 a \<noteq> oe_prefix_sha256 en then full hc1
         else
           io_bind (read_range e p (oe_offset en) (before - oe_offset en)) (\<lambda>delta. io_bind (stat_source e p) (\<lambda>am.
           let again = read_attempts n e p old force_reset hc1;
               ok = io_return (\<lparr>rd_source_len = before, rd_base_offset = oe_offset en, rd_bytes = delta,
                 rd_bytes_read = before - oe_offset en,
                 rd_prefix_bytes_validated = (if ha_from_cache a then 0 else ha_bytes_read a), rd_reset = False\<rparr>, hc1) in
           if fi_size am \<noteq> before then again
           else if ha_from_cache a then (if \<not> same_file_identity bm am then again else ok)
           else if ha_bytes_read a = oe_offset en then
             io_bind (read_range e p 0 (oe_offset en)) (\<lambda>prefix_after.
             if hex (sha256 e prefix_after) \<noteq> oe_prefix_sha256 en then again else ok)
           else again))))"

definition read_jsonl_delta ::
  "('x colenv_scheme) \<Rightarrow> path \<Rightarrow> 'c offset_entry option \<Rightarrow> bool \<Rightarrow> hash_cache \<Rightarrow>
     (world, collect_error, read_data \<times> hash_cache) io" where
  "read_jsonl_delta = read_attempts READ_RETRIES"

definition plain_entry :: "nat \<Rightarrow> string \<Rightarrow> bool \<Rightarrow> 'c offset_entry" where
  "plain_entry offset sha compressed = \<lparr>oe_offset = offset, oe_prefix_len = offset, oe_prefix_sha256 = sha,
     oe_compressed = compressed, oe_opencode = None, oe_store_fingerprint = None, oe_grok_bot_row_digests = None,
     oe_opencode_record_digests = None, oe_opencode_map_digest = None\<rparr>"

definition plain_state ::
  "('x colenv_scheme) \<Rightarrow> path \<Rightarrow> nat \<Rightarrow> hash_cache \<Rightarrow> (world, collect_error, 'c offset_entry \<times> hash_cache) io" where
  "plain_state e p offset hc =
     io_bind (prefix_sha256 e p offset None hc) (\<lambda>(a, hc1).
     if \<not> ha_from_cache a \<and> ha_bytes_read a \<noteq> offset then io_fail (PrefixEnded (ha_bytes_read a) offset)
     else io_return (plain_entry offset (ha_sha256 a) False, hc1))"

section \<open>Sealing\<close>

text \<open>\<open>write_sealed_shard_bytes_with_cap\<close> and its variant that allows an exact repeat (\<open>store.rs\<close>).\<close>

definition write_sealed ::
  "('x env_scheme) \<Rightarrow> bool \<Rightarrow> string \<Rightarrow> string \<Rightarrow> bytes list \<Rightarrow> nat \<Rightarrow> (world, collect_error, string) io" where
  "write_sealed e allow_exact_repeat machine session_id ls bucket_cap =
     io_bind (io_map_err StageSide (write_shard (base e) machine session_id bucket_cap
       (Store (seal_framed_lines ls) Collect allow_exact_repeat))) (\<lambda>r. io_return (write_filename r))"

definition manifest_holds_this_framed :: "('x env_scheme) \<Rightarrow> facts option \<Rightarrow> string \<Rightarrow> bytes \<Rightarrow> bool" where
  "manifest_holds_this_framed e manifest session_id framed =
     (case manifest of None \<Rightarrow> False | Some m \<Rightarrow>
        (case bt_get m session_id of None \<Rightarrow> False | Some x \<Rightarrow>
           ss_concat_bytes x = length framed \<and> ss_concat_sha256 x = hex (sha256 e framed)))"

definition byte_equality_establishes_event_identity :: "session_record \<Rightarrow> bool" where
  "byte_equality_establishes_event_identity r \<longleftrightarrow> sr_movable_root r \<or> \<not> sr_provenance r"

record collect_outcome =
  co_source_bytes :: nat
  co_bytes_read :: nat
  co_prefix_bytes_validated :: nat
  co_lines_written :: nat
  co_shard :: "string option"
  co_reset :: bool
  co_compressed :: bool

record 'c processed =
  pc_outcome :: collect_outcome
  pc_state :: "'c offset_entry"

definition unchanged_outcome :: "nat \<Rightarrow> bool \<Rightarrow> collect_outcome" where
  "unchanged_outcome source_len compressed = \<lparr>co_source_bytes = source_len, co_bytes_read = 0,
     co_prefix_bytes_validated = source_len, co_lines_written = 0, co_shard = None, co_reset = False, co_compressed = compressed\<rparr>"

definition jsonl_writer_keeps_repeats :: "session_record \<Rightarrow> 'c offset_entry option \<Rightarrow> read_data \<Rightarrow> bool" where
  "jsonl_writer_keeps_repeats r old d \<longleftrightarrow>
     \<not> rd_reset d \<and> rd_base_offset d > 0 \<or> old = None \<and> sr_provenance r \<and> \<not> sr_movable_root r"

definition process_jsonl ::
  "('x colenv_scheme) \<Rightarrow> session_record \<Rightarrow> 'c offset_entry option \<Rightarrow> bool \<Rightarrow> string \<Rightarrow> nat \<Rightarrow> facts option \<Rightarrow> hash_cache \<Rightarrow>
     (world, collect_error, 'c processed \<times> hash_cache) io" where
  "process_jsonl e r old force_reset machine bucket_cap manifest hc =
     (let p = sr_absolute_path r in
      io_bind (read_jsonl_delta e p old force_reset hc) (\<lambda>(d, hc1).
      let ls = fst (complete_lines (rd_bytes d));
          new_offset = rd_base_offset d + snd (complete_lines (rd_bytes d)) in
      if \<not> force_reset \<and> old \<noteq> None \<and> rd_base_offset d = 0 \<and> ls \<noteq> [] \<and>
         byte_equality_establishes_event_identity r \<and> manifest_holds_this_framed e manifest (sr_id r) (seal_framed ls)
      then
        io_bind (plain_state e p new_offset hc1) (\<lambda>(st, hc2).
        io_return (\<lparr>pc_outcome = \<lparr>co_source_bytes = rd_source_len d, co_bytes_read = rd_bytes_read d,
            co_prefix_bytes_validated = rd_source_len d, co_lines_written = 0, co_shard = None, co_reset = False,
            co_compressed = False\<rparr>, pc_state = st\<rparr>, hc2))
      else
        io_bind (if ls = [] \<and> \<not> rd_reset d
                 then io_return ((case old of Some en \<Rightarrow> en | None \<Rightarrow> plain_entry 0 (hex (sha256 e [])) False), hc1)
                 else plain_state e p new_offset hc1) (\<lambda>(st, hc2).
        io_bind (if ls = [] then io_return None
                 else io_bind (write_sealed e (jsonl_writer_keeps_repeats r old d) machine (sr_id r) ls bucket_cap) (\<lambda>name.
                   io_return (Some name))) (\<lambda>shard.
        io_return (\<lparr>pc_outcome = \<lparr>co_source_bytes = rd_source_len d, co_bytes_read = rd_bytes_read d,
            co_prefix_bytes_validated = rd_prefix_bytes_validated d, co_lines_written = length ls, co_shard = shard,
            co_reset = rd_reset d, co_compressed = False\<rparr>, pc_state = st\<rparr>, hc2)))))"

definition source_outcome :: "nat \<Rightarrow> nat \<Rightarrow> string option \<Rightarrow> bool \<Rightarrow> bool \<Rightarrow> collect_outcome" where
  "source_outcome source_len lines shard reset compressed = \<lparr>co_source_bytes = source_len, co_bytes_read = source_len,
     co_prefix_bytes_validated = 0, co_lines_written = lines, co_shard = shard, co_reset = reset, co_compressed = compressed\<rparr>"

text \<open>A cursor over a whole source: its length and digest.\<close>

definition names_whole :: "'c offset_entry option \<Rightarrow> bool \<Rightarrow> nat \<Rightarrow> string \<Rightarrow> bool" where
  "names_whole old compressed source_len digest \<longleftrightarrow>
     (case old of None \<Rightarrow> False | Some en \<Rightarrow> oe_compressed en = compressed \<and> oe_offset en = source_len \<and>
        oe_prefix_len en = source_len \<and> oe_prefix_sha256 en = digest)"

definition process_whole_file ::
  "('x colenv_scheme) \<Rightarrow> session_record \<Rightarrow> 'c offset_entry option \<Rightarrow> bool \<Rightarrow> string \<Rightarrow> nat \<Rightarrow> facts option \<Rightarrow>
     (world, collect_error, 'c processed) io" where
  "process_whole_file e r old force_reset machine bucket_cap manifest =
     io_bind (read_source e (sr_absolute_path r)) (\<lambda>c.
     let source_len = length c; digest = hex (sha256 e c) in
     if \<not> force_reset \<and> names_whole old False source_len digest
     then io_return \<lparr>pc_outcome = unchanged_outcome source_len False, pc_state = the old\<rparr>
     else
       let framed = seal_framed (if c = [] then [] else [c]);
           state = plain_entry source_len digest False in
       if \<not> force_reset \<and> old \<noteq> None \<and> c \<noteq> [] \<and> byte_equality_establishes_event_identity r \<and>
          manifest_holds_this_framed e manifest (sr_id r) framed
       then io_return \<lparr>pc_outcome = unchanged_outcome source_len False, pc_state = state\<rparr>
       else
         let ls = (if c = [] then [] else [c]) in
         io_bind (if ls = [] then io_return None
                  else io_bind (write_sealed e False machine (sr_id r) ls bucket_cap) (\<lambda>name. io_return (Some name))) (\<lambda>shard.
         io_return \<lparr>pc_outcome = source_outcome source_len (length ls) shard (old \<noteq> None) False, pc_state = state\<rparr>))"

section \<open>What the stage holds already\<close>

fun read_shards_of :: "('x env_scheme) \<Rightarrow> (nat \<times> path) list \<Rightarrow> (world, collect_error, bytes list) io" where
  "read_shards_of e [] = io_return []"
| "read_shards_of e ((seq, p) # es) =
     io_bind (read_file e (StageSide IoError) p) (\<lambda>c. io_bind (read_shards_of e es) (\<lambda>cs. io_return (c # cs)))"

definition stage_sealed_shards :: "('x env_scheme) \<Rightarrow> string \<Rightarrow> string \<Rightarrow> (world, collect_error, bytes list) io" where
  "stage_sealed_shards e machine session_id =
     io_bind (io_map_err StageSide (sealed_shard_entries (base e) (session_shard_dir machine session_id))) (\<lambda>es.
     read_shards_of e (sort_entries es))"

definition jsonl_prefix_entry_from_shards ::
  "('x colenv_scheme) \<Rightarrow> path \<Rightarrow> bytes \<Rightarrow> (world, collect_error, 'c offset_entry option) io" where
  "jsonl_prefix_entry_from_shards e p sealed =
     io_bind (stat_source e p) (\<lambda>m.
     io_bind (read_range e p 0 (min (fi_size m) (length sealed))) (\<lambda>source.
     case covered_source_prefix sealed source of
       None \<Rightarrow> io_fail Panicked
     | Some offset \<Rightarrow>
         if offset = 0 then io_return None
         else io_return (Some (plain_entry offset (hex (sha256 e (take offset source))) False))))"

definition retained_prefix_entry ::
  "('x colenv_scheme) \<Rightarrow> session_record \<Rightarrow> facts option \<Rightarrow> hash_cache \<Rightarrow>
     (world, collect_error, 'c offset_entry option \<times> hash_cache) io" where
  "retained_prefix_entry e r manifest hc =
     (case (case manifest of None \<Rightarrow> None | Some m \<Rightarrow> bt_get m (sr_id r)) of
        None \<Rightarrow> io_return (None, hc)
      | Some x \<Rightarrow>
          io_bind (stat_source e (sr_absolute_path r)) (\<lambda>m.
          if ss_concat_bytes x > 0 \<and> fi_size m \<ge> ss_concat_bytes x
          then
            io_bind (prefix_sha256 e (sr_absolute_path r) (ss_concat_bytes x) None hc) (\<lambda>(a, hc1).
            if ha_sha256 a = ss_concat_sha256 x
            then io_return (Some (plain_entry (ss_concat_bytes x) (ss_concat_sha256 x) False), hc1)
            else io_return (None, hc1))
          else io_return (None, hc)))"

definition stage_prefix_entry ::
  "('x colenv_scheme) \<Rightarrow> session_record \<Rightarrow> string \<Rightarrow> facts option \<Rightarrow> hash_cache \<Rightarrow>
     (world, collect_error, 'c offset_entry option \<times> hash_cache) io" where
  "stage_prefix_entry e r machine manifest hc =
     (let p = sr_absolute_path r in
      io_bind (stage_sealed_shards e machine (sr_id r)) (\<lambda>sealed.
      if sealed = [] then
        (if is_jsonl_path p then retained_prefix_entry e r manifest hc else io_return (None, hc))
      else if sr_compressed r \<or> is_zstd_path p then
        io_bind (read_source e p) (\<lambda>c.
        case zstd_decode e c of
          None \<Rightarrow> io_fail (NotDecoded p)
        | Some decoded \<Rightarrow>
            let ls = fst (complete_lines decoded) in
            if ls = [] \<or> \<not> stage_tail_is sealed (seal_framed ls) then io_return (None, hc)
            else io_return (Some (plain_entry (length c) (hex (sha256 e c)) True), hc))
      else if is_jsonl_path p then
        io_bind (jsonl_prefix_entry_from_shards e p (concat sealed)) (\<lambda>en. io_return (en, hc))
      else
        io_bind (read_source e p) (\<lambda>c.
        if c = [] \<or> \<not> stage_tail_is sealed (seal_framed [c]) then io_return (None, hc)
        else io_return (Some (plain_entry (length c) (hex (sha256 e c)) False), hc))))"

definition process_compressed ::
  "('x colenv_scheme) \<Rightarrow> session_record \<Rightarrow> 'c offset_entry option \<Rightarrow> bool \<Rightarrow> string \<Rightarrow> nat \<Rightarrow> facts option \<Rightarrow>
     (world, collect_error, 'c processed) io" where
  "process_compressed e r old force_reset machine bucket_cap manifest =
     io_bind (read_source e (sr_absolute_path r)) (\<lambda>c.
     let source_len = length c; digest = hex (sha256 e c) in
     if \<not> force_reset \<and> names_whole old True source_len digest
     then io_return \<lparr>pc_outcome = unchanged_outcome source_len True, pc_state = the old\<rparr>
     else
       let state = plain_entry source_len digest True in
       case zstd_decode e c of
         None \<Rightarrow> io_fail (NotDecoded (sr_absolute_path r))
       | Some decoded \<Rightarrow>
           let ls = fst (complete_lines decoded); framed = seal_framed ls in
           io_bind (if ls = [] \<or> force_reset then io_return False
                    else if old \<noteq> None \<and> byte_equality_establishes_event_identity r \<and>
                      manifest_holds_this_framed e manifest (sr_id r) framed then io_return True
                    else io_bind (stage_sealed_shards e machine (sr_id r)) (\<lambda>sealed.
                      io_return (sealed \<noteq> [] \<and> stage_tail_is sealed framed))) (\<lambda>already_held.
           if already_held then io_return \<lparr>pc_outcome = unchanged_outcome source_len True, pc_state = state\<rparr>
           else
             io_bind (if ls = [] then io_return None
                      else io_bind (write_sealed e False machine (sr_id r) ls bucket_cap) (\<lambda>name. io_return (Some name))) (\<lambda>shard.
             io_return \<lparr>pc_outcome = source_outcome source_len (length ls) shard (old \<noteq> None) True, pc_state = state\<rparr>)))"

section \<open>The position to read from\<close>

text \<open>The sum of the shard sizes is a checked addition on \<open>u64\<close>.\<close>

fun sum_sizes :: "('x colenv_scheme) \<Rightarrow> (nat \<times> path) list \<Rightarrow> nat \<Rightarrow> (world, collect_error, nat) io" where
  "sum_sizes e [] acc = io_return acc"
| "sum_sizes e ((seq, p) # es) acc =
     io_bind (stat_stage e p) (\<lambda>m.
     if u64_max < acc + fi_size m then io_fail Overflowed else sum_sizes e es (acc + fi_size m))"

definition session_stage_len :: "('x colenv_scheme) \<Rightarrow> string \<Rightarrow> string \<Rightarrow> (world, collect_error, nat) io" where
  "session_stage_len e machine session_id =
     io_bind (io_map_err StageSide (sealed_shard_entries (base e) (session_shard_dir machine session_id))) (\<lambda>es.
     sum_sizes e es 0)"

definition further :: "'c offset_entry \<Rightarrow> 'c offset_entry option \<Rightarrow> 'c offset_entry" where
  "further cursor covered =
     (case covered of Some en \<Rightarrow> if oe_offset en > oe_offset cursor then en else cursor | None \<Rightarrow> cursor)"

definition cursor_or_stage_covered_position ::
  "('x colenv_scheme) \<Rightarrow> session_record \<Rightarrow> 'c debt_entry \<Rightarrow> bool \<Rightarrow> string \<Rightarrow> facts option \<Rightarrow> hash_cache \<Rightarrow>
     (world, collect_error, 'c offset_entry \<times> hash_cache) io" where
  "cursor_or_stage_covered_position e r d verified machine manifest hc =
     (let p = sr_absolute_path r; cursor = de_cursor d in
      if \<not> verified then io_return (cursor, hc)
      else if sr_compressed r \<or> is_zstd_path p \<or> \<not> is_jsonl_path p then io_return (cursor, hc)
      else
        io_bind (session_stage_len e machine (sr_id r)) (\<lambda>stage_len.
        if stage_len \<le> oe_offset cursor \<and> \<not> (case (case manifest of None \<Rightarrow> None | Some m \<Rightarrow> bt_get m (sr_id r)) of
             None \<Rightarrow> False | Some x \<Rightarrow> ss_concat_bytes x > oe_offset cursor)
        then io_return (cursor, hc)
        else
          io_bind (stage_prefix_entry e r machine manifest hc) (\<lambda>(covered, hc1).
          io_return (further cursor covered, hc1))))"

section \<open>One record of a pass\<close>

definition collect_file ::
  "('x colenv_scheme) \<Rightarrow> session_record \<Rightarrow> 'c offset_entry option \<Rightarrow> bool \<Rightarrow> string \<Rightarrow> nat \<Rightarrow> facts option \<Rightarrow> hash_cache \<Rightarrow>
     (world, collect_error, 'c processed \<times> hash_cache) io" where
  "collect_file e r old force_reset machine bucket_cap manifest hc =
     (if sr_compressed r \<or> is_zstd_path (sr_absolute_path r)
      then io_bind (process_compressed e r old force_reset machine bucket_cap manifest) (\<lambda>x. io_return (x, hc))
      else if is_jsonl_path (sr_absolute_path r) then process_jsonl e r old force_reset machine bucket_cap manifest hc
      else io_bind (process_whole_file e r old force_reset machine bucket_cap manifest) (\<lambda>x. io_return (x, hc)))"

text \<open>The state a pass keeps between records; the stamp is the identity of the summary file.\<close>

record 'c pass_state =
  ps_debts :: "(string \<times> 'c debt_entry) list"
  ps_manifest :: "facts option"
  ps_stamp :: "(nat \<times> nat) option"
  ps_cache :: hash_cache
  ps_dirty :: bool

definition manifest_file_stamp :: "('x colenv_scheme) \<Rightarrow> string \<Rightarrow> (world, collect_error, (nat \<times> nat) option) io" where
  "manifest_file_stamp e machine w =
     (Inr (if fault e (clock w) then None
           else case map_of (files w) (manifest_path machine) of
               None \<Rightarrow> None
             | Some c \<Rightarrow> (case fst (stage_meta e (clock w) (manifest_path machine)) of
                 None \<Rightarrow> None | Some t \<Rightarrow> Some (length c, t))),
      w\<lparr>clock := Suc (clock w)\<rparr>)"

definition refresh_manifest_facts ::
  "('x colenv_scheme) \<Rightarrow> string \<Rightarrow> 'c pass_state \<Rightarrow> (world, collect_error, bool \<times> 'c pass_state) io" where
  "refresh_manifest_facts e machine st =
     io_bind (manifest_file_stamp e machine) (\<lambda>now.
     if now = ps_stamp st then io_return (False, st)
     else io_bind (load_local_manifest_facts (menv.truncate e) machine) (\<lambda>m.
       io_return (True, st\<lparr>ps_stamp := now, ps_manifest := m\<rparr>)))"

text \<open>A stored debt is proved, if need be once more against a summary written meanwhile.\<close>

definition prove_debt ::
  "('x colenv_scheme) \<Rightarrow> 'c debt_entry \<Rightarrow> string \<Rightarrow> archive_facts option \<Rightarrow> 'c pass_state \<Rightarrow>
     (world, collect_error, debt_verdict \<times> 'c pass_state) io" where
  "prove_debt e d machine remote st =
     io_bind (verify_debt e d machine remote (ps_manifest st) (ps_cache st)) (\<lambda>(v, hc).
     let st1 = st\<lparr>ps_cache := hc\<rparr> in
     case v of
       Unverifiable why \<Rightarrow>
         io_bind (refresh_manifest_facts e machine st1) (\<lambda>(changed, st2).
         if \<not> changed then io_return (v, st2)
         else io_bind (verify_debt e d machine remote (ps_manifest st2) (ps_cache st2)) (\<lambda>(v2, hc2).
           io_return (v2, st2\<lparr>ps_cache := hc2\<rparr>)))
     | _ \<Rightarrow> io_return (v, st1))"

definition starting_position ::
  "('x colenv_scheme) \<Rightarrow> session_record \<Rightarrow> 'c debt_entry option \<Rightarrow> bool \<Rightarrow> string \<Rightarrow> 'c pass_state \<Rightarrow>
     (world, collect_error, 'c offset_entry option \<times> 'c pass_state) io" where
  "starting_position e r stored verified machine st =
     (case stored of
        Some d \<Rightarrow>
          io_bind (cursor_or_stage_covered_position e r d verified machine (ps_manifest st) (ps_cache st)) (\<lambda>(en, hc).
          io_return (Some en, st\<lparr>ps_cache := hc\<rparr>))
      | None \<Rightarrow>
          if sr_provenance r \<and> \<not> sr_movable_root r then io_return (None, st)
          else io_bind (stage_prefix_entry e r machine None (ps_cache st)) (\<lambda>(en, hc).
            io_return (en, st\<lparr>ps_cache := hc\<rparr>)))"

definition new_debt ::
  "('x colenv_scheme) \<Rightarrow> session_record \<Rightarrow> 'c debt_entry option \<Rightarrow> bool \<Rightarrow> string \<Rightarrow> 'c processed \<Rightarrow> hash_cache \<Rightarrow>
     (world, collect_error, 'c debt_entry \<times> hash_cache) io" where
  "new_debt e r stored verified machine x hc =
     io_bind (case stored of
         Some previous \<Rightarrow>
           if co_shard (pc_outcome x) = None \<and> verified then io_return (de_shards previous, hc)
           else stage_shard_fact e machine (sr_id r) hc
       | None \<Rightarrow> stage_shard_fact e machine (sr_id r) hc) (\<lambda>(shards, hc1).
     io_return (\<lparr>de_machine = machine, de_session_id = sr_id r, de_cursor = pc_state x, de_shards = shards\<rparr>, hc1))"

definition collect_record ::
  "('x colenv_scheme) \<Rightarrow> session_record \<Rightarrow> string \<Rightarrow> string \<Rightarrow> nat \<Rightarrow> archive_facts option \<Rightarrow> 'c pass_state \<Rightarrow>
     (world, collect_error, 'c processed \<times> 'c pass_state) io" where
  "collect_record e r key machine bucket_cap remote st =
     (let stored = bt_get (ps_debts st) key in
      io_bind (case stored of None \<Rightarrow> io_return (True, st)
               | Some d \<Rightarrow> io_bind (prove_debt e d machine remote st) (\<lambda>(v, st1). io_return (proves v, st1))) (\<lambda>(verified, st1).
      io_bind (starting_position e r stored verified machine st1) (\<lambda>(old, st2).
      io_bind (collect_file e r old (\<not> verified) machine bucket_cap (ps_manifest st2) (ps_cache st2)) (\<lambda>(x, hc).
      io_bind (new_debt e r stored verified machine x hc) (\<lambda>(d, hc1).
      io_return (x, if stored = Some d then st2\<lparr>ps_cache := hc1\<rparr>
        else st2\<lparr>ps_cache := hc1, ps_debts := bt_insert key d (ps_debts st2), ps_dirty := True\<rparr>))))))"

end
