(* ===== verification/Debt_Spec.thy ===== *)
theory Debt_Spec
  imports Debt
begin

text \<open>
  The remembered digests are those a reading would give, because sealed shards never change; what
  is observed of a directory is well formed; and a claim is found covered exactly when the shards it
  names still begin the directory.
\<close>

section \<open>Caches that tell the truth\<close>

definition listed :: "path \<Rightarrow> fs \<Rightarrow> (nat \<times> path) list \<Rightarrow> bool" where
  "listed dir f es \<longleftrightarrow> (\<forall>(n, p) \<in> set es. shard_seq_of dir p = Some n \<and> present f p)"

definition bytes_of :: "fs \<Rightarrow> (nat \<times> path) list \<Rightarrow> bytes list" where
  "bytes_of f es = map (\<lambda>(n, p). the (map_of f p)) es"

definition apart :: "('x env_scheme) \<Rightarrow> path \<Rightarrow> fs \<Rightarrow> bool" where
  "apart e dir f \<longleftrightarrow> inj_on (stage_digest e) {p. shard_seq_of dir p \<noteq> None \<and> present f p}"

definition file_entries_true :: "('x env_scheme) \<Rightarrow> path \<Rightarrow> fs \<Rightarrow> cache_entries \<Rightarrow> bool" where
  "file_entries_true e dir f m \<longleftrightarrow> (\<forall>k i sha. bt_get m (''f:'' @ k) = Some (CacheFile i sha) \<longrightarrow>
     (\<exists>p c. shard_seq_of dir p \<noteq> None \<and> map_of f p = Some c \<and> stage_digest e p = k \<and> sha = hex (sha256 e c)))"

definition dir_entries_true :: "('x env_scheme) \<Rightarrow> path \<Rightarrow> fs \<Rightarrow> cache_entries \<Rightarrow> bool" where
  "dir_entries_true e dir f m \<longleftrightarrow> (\<forall>k is covered sha. bt_get m (''d:'' @ k) = Some (CacheDir is covered sha) \<longrightarrow>
     (\<exists>es. listed dir f es \<and> map si_path is = map (stage_digest e \<circ> snd) es \<and>
        covered \<le> length (concat (bytes_of f es)) \<and> sha = hex (sha256 e (take covered (concat (bytes_of f es))))))"

definition stage_true :: "('x env_scheme) \<Rightarrow> path \<Rightarrow> fs \<Rightarrow> hash_cache \<Rightarrow> bool" where
  "stage_true e dir f hc \<longleftrightarrow> bt_ok (hc_entries hc) \<and> file_entries_true e dir f (hc_entries hc) \<and>
     dir_entries_true e dir f (hc_entries hc)"

text \<open>The remembered prefixes of sources.\<close>

definition source_view :: "hash_cache \<Rightarrow> string \<Rightarrow> cache_value option" where
  "source_view hc k = bt_get (hc_entries hc) (''p:'' @ k)"

lemma stage_true_disabled: "stage_true e dir f disabled_cache"
  by (simp add: stage_true_def file_entries_true_def dir_entries_true_def disabled_cache_def)

lemma touch_key_entries [simp]: "hc_entries (touch_key k hc) = hc_entries hc"
  by (simp add: touch_key_def)

lemma stage_true_touch [simp]: "stage_true e dir f (touch_key k hc) \<longleftrightarrow> stage_true e dir f hc"
  by (simp add: stage_true_def)

lemma source_view_touch [simp]: "source_view (touch_key k hc) = source_view hc"
  by (simp add: source_view_def fun_eq_iff)

lemma listed_entries: "listed dir f (sort_entries (entries_of dir f))"
  by (auto simp: listed_def sort_entries_def entries_of_iff)

lemma apart_same:
  assumes "apart e dir f" "listed dir f es" "listed dir f fs'" "map (stage_digest e \<circ> snd) es = map (stage_digest e \<circ> snd) fs'"
  shows "map snd es = map snd fs'"
proof -
  let ?S = "{p. shard_seq_of dir p \<noteq> None \<and> present f p}"
  have "set (map snd es) \<subseteq> ?S" "set (map snd fs') \<subseteq> ?S" using assms(2,3) by (auto simp: listed_def)
  then have "inj_on (stage_digest e) (set (map snd es) \<union> set (map snd fs'))"
    using assms(1) unfolding apart_def by (meson inj_on_subset Un_least)
  moreover have "map (stage_digest e) (map snd es) = map (stage_digest e) (map snd fs')" using assms(4) by simp
  ultimately show ?thesis by (metis inj_on_map_eq_map)
qed

lemma bytes_of_paths: "map snd es = map snd fs' \<Longrightarrow> bytes_of f es = bytes_of f fs'"
proof -
  assume "map snd es = map snd fs'"
  then have "map (\<lambda>p. the (map_of f p)) (map snd es) = map (\<lambda>p. the (map_of f p)) (map snd fs')" by simp
  then show ?thesis by (simp add: bytes_of_def comp_def case_prod_unfold)
qed

text \<open>
  Weaker: an entry need only be right for what it would be asked for now. What is recorded of a file has to be
  the digest of its bytes only if the recorded identity, with a known modification time, is one the file shows at a later
  tick; what is recorded of a directory only if the whole list of identities, unknown modification times
  included, is one its shards show. Entries that are out of date and entries of other sessions may say anything.
\<close>

definition shown_at :: "('x colenv_scheme) \<Rightarrow> nat \<Rightarrow> fs \<Rightarrow> path \<Rightarrow> file_identity \<Rightarrow> bool" where
  "shown_at e n f p i \<longleftrightarrow> (\<exists>t \<ge> n. \<exists>c. map_of f p = Some c \<and>
     i = \<lparr>fi_size = length c, fi_mtime_ns = fst (stage_meta e t p), fi_inode = snd (stage_meta e t p)\<rparr>)"

definition shown_list :: "('x colenv_scheme) \<Rightarrow> nat \<Rightarrow> fs \<Rightarrow> (nat \<times> path) list \<Rightarrow> shard_identity list \<Rightarrow> bool" where
  "shown_list e n f es ids \<longleftrightarrow>
     list_all2 (\<lambda>(k, p) j. si_sequence j = k \<and> si_path j = stage_digest e p \<and> shown_at e n f p (si_file j)) es ids"

definition right_digest :: "('x env_scheme) \<Rightarrow> fs \<Rightarrow> (nat \<times> path) list \<Rightarrow> nat \<Rightarrow> string \<Rightarrow> bool" where
  "right_digest e f es covered sha \<longleftrightarrow>
     covered \<le> length (concat (bytes_of f es)) \<and> sha = hex (sha256 e (take covered (concat (bytes_of f es))))"

definition stage_honest :: "('x colenv_scheme) \<Rightarrow> nat \<Rightarrow> path \<Rightarrow> fs \<Rightarrow> hash_cache \<Rightarrow> bool" where
  "stage_honest e n dir f hc \<longleftrightarrow> bt_ok (hc_entries hc) \<and>
     (\<forall>p c i sha. shard_seq_of dir p \<noteq> None \<and> map_of f p = Some c \<and>
        bt_get (hc_entries hc) (''f:'' @ stage_digest e p) = Some (CacheFile i sha) \<and>
        fi_mtime_ns i \<noteq> None \<and> shown_at e n f p i \<longrightarrow> sha = hex (sha256 e c)) \<and>
     (\<forall>es ids covered sha. listed dir f es \<and>
        bt_get (hc_entries hc) (''d:'' @ stage_digest e dir) = Some (CacheDir ids covered sha) \<and>
        shown_list e n f es ids \<longrightarrow> right_digest e f es covered sha)"

lemma stage_honest_disabled: "stage_honest e n dir f disabled_cache"
  by (simp add: stage_honest_def disabled_cache_def)

lemma stage_honest_touch [simp]: "stage_honest e n dir f (touch_key k hc) \<longleftrightarrow> stage_honest e n dir f hc"
  unfolding stage_honest_def touch_key_entries by (rule refl)

section \<open>Operations on the stage\<close>

lemma stat_stage_result:
  "stat_stage e p w = (Inr i, w') \<Longrightarrow> files w' = files w \<and> (\<exists>c. map_of (files w) p = Some c \<and> fi_size i = length c)"
  by (auto simp: stat_stage_def split: if_splits option.splits)

lemma stat_shows:
  "stat_stage e p w = (Inr i, w') \<Longrightarrow> n \<le> clock w \<Longrightarrow> n \<le> clock w' \<and> shown_at e n (files w) p i"
  by (auto simp: stat_stage_def shown_at_def split: if_splits option.splits)

lemma read_file_result: "read_file e x p w = (Inr c, w') \<Longrightarrow> files w' = files w \<and> map_of (files w) p = Some c"
  by (auto simp: read_file_def split: if_splits option.splits)

lemma read_file_clock: "read_file e x p w = (r, w') \<Longrightarrow> clock w' = Suc (clock w)"
  by (auto simp: read_file_def)

lemma shard_identities_result:
  "shard_identities_of e es w = (Inr is, w') \<Longrightarrow> n \<le> clock w \<Longrightarrow>
     files w' = files w \<and> n \<le> clock w' \<and> shown_list e n (files w) es is \<and>
     sum_list (map (fi_size \<circ> si_file) is) = length (concat (bytes_of (files w) es))"
proof (induction es arbitrary: "is" w w')
  case Nil
  then show ?case by (simp add: shard_identities_of_def io_return_def bytes_of_def shown_list_def)
next
  case (Cons x es)
  obtain k p where x: "x = (k, p)" by (cases x)
  from Cons.prems(1) obtain i w1 js w2 where 1: "stat_stage e p w = (Inr i, w1)" "shard_identities_of e es w1 = (Inr js, w2)"
    and "is = \<lparr>si_sequence = k, si_path = stage_digest e p, si_file = i\<rparr> # js" "w' = w2"
    by (auto simp: shard_identities_of_def io_bind_Inr io_return_Inr x)
  with Cons.IH [OF 1(2)] stat_stage_result [OF 1(1)] stat_shows [OF 1(1) Cons.prems(2)] show ?case
    by (auto simp: x bytes_of_def shown_list_def)
qed

lemma read_covered_result:
  "read_covered e covered es acc w = (Inr c, w') \<Longrightarrow> length acc \<le> covered \<Longrightarrow> n \<le> clock w \<Longrightarrow>
     files w' = files w \<and> n \<le> clock w' \<and> c = acc @ take (covered - length acc) (concat (bytes_of (files w) es))"
proof (induction es arbitrary: acc w)
  case Nil
  then show ?case by (simp add: io_return_def bytes_of_def)
next
  case (Cons x es)
  obtain k p where x: "x = (k, p)" by (cases x)
  show ?case
  proof (cases "covered \<le> length acc")
    case True
    with Cons.prems show ?thesis by (simp add: x io_return_def)
  next
    case False
    with Cons.prems obtain d w1 where 1: "read_file e (StageSide IoError) p w = (Inr d, w1)"
      "read_covered e covered es (acc @ take (covered - length acc) d) w1 = (Inr c, w')"
      by (auto simp: x io_bind_Inr)
    have le: "length (acc @ take (covered - length acc) d) \<le> covered" using Cons.prems(2) by auto
    have "n \<le> clock w1" using read_file_clock [OF 1(1)] Cons.prems(3) by simp
    from Cons.IH [OF 1(2) le this] read_file_result [OF 1(1)] show ?thesis
      by (simp add: x bytes_of_def min_def)
  qed
qed

lemma sorted_entries_result:
  "io_map_err g (sealed_shard_entries e dir) w = (Inr es, w') \<Longrightarrow> files w' = files w \<and> es = entries_of dir (files w)"
  by (auto simp: io_map_err_Inr sealed_shard_entries_def io_bind_Inr dest: touch_files)

lemma sorted_entries_clock: "io_map_err g (sealed_shard_entries e dir) w = (Inr es, w') \<Longrightarrow> clock w \<le> clock w'"
  by (auto simp: io_map_err_Inr sealed_shard_entries_def io_bind_Inr touch_def fs_op_def split: if_splits)

section \<open>What a directory holds\<close>

definition shards_of :: "path \<Rightarrow> fs \<Rightarrow> (nat \<times> bytes) list" where
  "shards_of dir f = map (\<lambda>(n, p). (n, the (map_of f p))) (sort_entries (entries_of dir f))"

definition fact_of :: "('x env_scheme) \<Rightarrow> (nat \<times> bytes) list \<Rightarrow> shard_set" where
  "fact_of e cs = \<lparr>ss_shard_count = length cs, ss_concat_bytes = length (concat (map snd cs)),
     ss_concat_sha256 = hex (sha256 e (concat (map snd cs))),
     ss_shard_identities = map (\<lambda>(n, c). fingerprint e n c) cs\<rparr>"

lemma bytes_of_shards: "bytes_of f (sort_entries (entries_of dir f)) = map snd (shards_of dir f)"
  by (simp add: bytes_of_def shards_of_def case_prod_unfold comp_def)

lemma session_body_shards: "session_body dir f = concat (map snd (shards_of dir f))"
  by (simp add: session_body_def shards_of_def case_prod_unfold comp_def)

lemma length_shards: "length (shards_of dir f) = length (entries_of dir f)"
  by (simp add: shards_of_def sort_entries_def)

abbreviation fp_of :: "('x env_scheme) \<Rightarrow> nat \<times> bytes \<Rightarrow> shard_fingerprint" where
  "fp_of e \<equiv> \<lambda>(n, c). fingerprint e n c"

lemma fingerprints_total_sum: "fingerprints_total previous n ss = Some m \<Longrightarrow> m = n + sum_list (map fp_bytes ss)"
  by (induction previous n ss rule: fingerprints_total.induct) (auto split: if_splits)

lemma valid_fact_sum: "valid_shard_fact x \<Longrightarrow> sum_list (map fp_bytes (ss_shard_identities x)) = ss_concat_bytes x"
  by (auto simp: valid_shard_fact_def dest: fingerprints_total_sum split: option.splits)

lemma valid_fact_count: "valid_shard_fact x \<Longrightarrow> ss_shard_count x = length (ss_shard_identities x)"
  by (simp add: valid_shard_fact_def)

text \<open>The question the code answers, asked of the shards themselves.\<close>

definition claim_covered :: "('x env_scheme) \<Rightarrow> (nat \<times> bytes) list \<Rightarrow> shard_set \<Rightarrow> bool" where
  "claim_covered e cs x \<longleftrightarrow> ss_shard_count x \<le> length cs \<and>
     (if ss_concat_bytes x = 0 then hex (sha256 e []) = ss_concat_sha256 x
      else if valid_shard_fact x then prefix (ss_shard_identities x) (map (fp_of e) cs)
      else ss_concat_bytes x \<le> length (concat (map snd cs)) \<and>
        hex (sha256 e (take (ss_concat_bytes x) (concat (map snd cs)))) = ss_concat_sha256 x)"

lemma map_fp_entries:
  "map (\<lambda>(n, p). fingerprint e n (the (map_of f p))) (sort_entries (entries_of dir f)) = map (fp_of e) (shards_of dir f)"
  by (simp add: shards_of_def comp_def case_prod_unfold)

lemma source_view_remember [simp]:
  "bt_ok (hc_entries hc) \<Longrightarrow> source_view (remember (CHR ''f'' # k) v hc) = source_view hc"
  "bt_ok (hc_entries hc) \<Longrightarrow> source_view (remember (CHR ''d'' # k) v hc) = source_view hc"
  by (simp_all add: source_view_def remember_def fun_eq_iff bt_get_insert)

section \<open>The interface to a cache that can be relied on\<close>

text \<open>
  What the readers of a session directory rely on: a property \<open>T\<close> of caches, for one state of the files and
  from one tick on, under which an answer from the cache is the digest of the bytes that are there, and which
  remembering a digest just computed keeps.
\<close>

locale truthful_cache =
  fixes e :: "'x colenv_scheme" and n :: nat and dir :: path and f :: fs and T :: "hash_cache \<Rightarrow> bool"
  assumes entries_ok: "T hc \<Longrightarrow> bt_ok (hc_entries hc)"
    and touched: "T hc \<Longrightarrow> T (touch_key k hc)"
    and file_hit: "T hc \<Longrightarrow> shard_seq_of dir p \<noteq> None \<Longrightarrow> map_of f p = Some c \<Longrightarrow> shown_at e n f p i \<Longrightarrow>
      file_remembered hc (''f:'' @ stage_digest e p) i = Some sha \<Longrightarrow> sha = hex (sha256 e c)"
    and file_kept: "T hc \<Longrightarrow> shard_seq_of dir p \<noteq> None \<Longrightarrow> map_of f p = Some c \<Longrightarrow>
      T (remember (''f:'' @ stage_digest e p) (CacheFile i (hex (sha256 e c))) hc)"
    and dir_hit: "T hc \<Longrightarrow> listed dir f es \<Longrightarrow> shown_list e n f es ids \<Longrightarrow>
      dir_remembered hc (''d:'' @ stage_digest e dir) covered ids = Some sha \<Longrightarrow> right_digest e f es covered sha"
    and dir_kept: "T hc \<Longrightarrow> listed dir f es \<Longrightarrow> shown_list e n f es ids \<Longrightarrow> right_digest e f es covered sha \<Longrightarrow>
      T (remember (''d:'' @ stage_digest e dir) (CacheDir ids covered sha) hc)"

text \<open>A run that reads the stage leaves the files, the property of the cache and the sources' entries.\<close>

definition undisturbed :: "nat \<Rightarrow> fs \<Rightarrow> (hash_cache \<Rightarrow> bool) \<Rightarrow> hash_cache \<Rightarrow> hash_cache \<Rightarrow> world \<Rightarrow> bool" where
  "undisturbed n f T hc hc' w' \<longleftrightarrow> files w' = f \<and> n \<le> clock w' \<and> T hc' \<and> source_view hc' = source_view hc"

context truthful_cache
begin

lemma file_answer:
  assumes "file_sha256 e p hc w = (Inr (a, hc'), w')"
    and "files w = f" "n \<le> clock w" "T hc" "shard_seq_of dir p \<noteq> None"
  shows "undisturbed n f T hc hc' w' \<and> (\<exists>c. map_of f p = Some c \<and> ha_sha256 a = hex (sha256 e c) \<and> ha_size a = length c)"
proof -
  let ?key = "''f:'' @ stage_digest e p"
  from assms(1) obtain i w1 where st: "stat_stage e p w = (Inr i, w1)"
    by (auto simp: file_sha256_def io_bind_Inr)
  from stat_stage_result [OF st] obtain c where w1: "files w1 = f" and c: "map_of f p = Some c" "fi_size i = length c"
    unfolding assms(2) by blast
  have shown: "n \<le> clock w1" "shown_at e n f p i" using stat_shows [OF st assms(3)] assms(2) by simp_all
  show ?thesis
  proof (cases "file_remembered hc ?key i")
    case (Some sha)
    with assms(1) st have r: "a = cache_hit sha (fi_size i)" "hc' = touch_key ?key hc" "w' = w1"
      by (auto simp: file_sha256_def io_bind_Inr io_return_def Let_def)
    from file_hit [OF assms(4,5) c(1) shown(2) Some] have "sha = hex (sha256 e c)" .
    then show ?thesis using r w1 shown c touched [OF assms(4)] by (simp add: undisturbed_def cache_hit_def)
  next
    case None
    with assms(1) st obtain d w2 where d: "read_file e (StageSide IoError) p w1 = (Inr d, w2)"
      and ret: "a = \<lparr>ha_sha256 = hex (sha256 e d), ha_bytes_read = length d, ha_from_cache = False, ha_size = fi_size i\<rparr>" and ret':
      "hc' = (if fi_mtime_ns i \<noteq> None then remember ?key (CacheFile i (hex (sha256 e d))) hc else hc)" "w' = w2"
      by (auto simp: file_sha256_def io_bind_Inr io_return_def Let_def)
    from read_file_result [OF d] read_file_clock [OF d] w1 c shown have "d = c" "files w2 = f" "n \<le> clock w2" by auto
    then show ?thesis using ret ret' c assms(4) file_kept [OF assms(4,5) c(1)] entries_ok [OF assms(4)]
      by (simp add: undisturbed_def)
  qed
qed

lemma concat_answer:
  assumes "shard_concat_sha256 e dir es covered hc w = (Inr (a, hc'), w')"
    and "files w = f" "n \<le> clock w" "T hc" "listed dir f es"
  shows "undisturbed n f T hc hc' w' \<and>
    ha_sha256 a = hex (sha256 e (take covered (concat (bytes_of f es)))) \<and>
    (ha_from_cache a \<longrightarrow> covered \<le> length (concat (bytes_of f es))) \<and>
    (\<not> ha_from_cache a \<longrightarrow> ha_bytes_read a = min covered (length (concat (bytes_of f es))))"
proof -
  let ?key = "''d:'' @ stage_digest e dir"
  let ?c = "concat (bytes_of f es)"
  from assms(1) obtain js w1 where st: "shard_identities_of e es w = (Inr js, w1)"
    by (auto simp: shard_concat_sha256_def io_bind_Inr)
  from shard_identities_result [OF st assms(3)] assms(2)
  have ids: "files w1 = f" "n \<le> clock w1" "shown_list e n f es js" by simp_all
  show ?thesis
  proof (cases "dir_remembered hc ?key covered js")
    case (Some sha)
    with assms(1) st have r: "a = cache_hit sha (sum_list (map (fi_size \<circ> si_file) js))" "hc' = touch_key ?key hc" "w' = w1"
      by (auto simp: shard_concat_sha256_def io_bind_Inr io_return_def Let_def)
    from dir_hit [OF assms(4,5) ids(3) Some] show ?thesis
      using r ids touched [OF assms(4)] by (simp add: undisturbed_def cache_hit_def right_digest_def)
  next
    case None
    with assms(1) st obtain c w2 where d: "read_covered e covered es [] w1 = (Inr c, w2)"
      and ret: "ha_sha256 a = hex (sha256 e c)" "ha_bytes_read a = length c" "\<not> ha_from_cache a"
      "hc' = (if length c = covered then remember ?key (CacheDir js covered (hex (sha256 e c))) hc else hc)" "w' = w2"
      by (auto simp: shard_concat_sha256_def io_bind_Inr io_return_def Let_def)
    from read_covered_result [OF d _ ids(2)] ids have c: "c = take covered ?c" "files w2 = f" "n \<le> clock w2" by simp_all
    have "T (remember ?key (CacheDir js covered (hex (sha256 e c))) hc)" if "length c = covered"
      by (rule dir_kept [OF assms(4,5) ids(3)]) (use that c(1) in \<open>simp add: right_digest_def\<close>)
    then show ?thesis using ret c assms(4) entries_ok [OF assms(4)] by (auto simp: undisturbed_def min_def)
  qed
qed

lemma fingerprints_answer:
  "fingerprint_shards e es hc w = (Inr (fps, hc'), w') \<Longrightarrow> files w = f \<Longrightarrow> n \<le> clock w \<Longrightarrow> T hc \<Longrightarrow> listed dir f es \<Longrightarrow>
     undisturbed n f T hc hc' w' \<and> fps = map (\<lambda>(k, p). fingerprint e k (the (map_of f p))) es"
proof (induction es arbitrary: hc fps w)
  case Nil
  then show ?case by (simp add: io_return_def undisturbed_def)
next
  case (Cons x es)
  obtain k p where x: "x = (k, p)" by (cases x)
  from Cons.prems(1) obtain a hc1 w1 gs where 1: "file_sha256 e p hc w = (Inr (a, hc1), w1)"
    "fingerprint_shards e es hc1 w1 = (Inr (gs, hc'), w')"
    "fps = \<lparr>fp_sequence = k, fp_bytes = ha_size a, fp_sha256 = ha_sha256 a\<rparr> # gs"
    by (auto simp: x io_bind_Inr io_return_def)
  have l: "shard_seq_of dir p \<noteq> None" "listed dir f es" using Cons.prems(5) by (auto simp: x listed_def)
  from file_answer [OF 1(1) Cons.prems(2-4) l(1)] obtain c where
    r: "files w1 = f" "n \<le> clock w1" "T hc1" "source_view hc1 = source_view hc"
      "map_of f p = Some c" "ha_sha256 a = hex (sha256 e c)" "ha_size a = length c" by (auto simp: undisturbed_def)
  from Cons.IH [OF 1(2) r(1-3) l(2)] r 1(3) show ?case by (simp add: x fingerprint_def undisturbed_def)
qed

lemma fact_answer:
  assumes "shard_fact_in_dir e dir hc w = (Inr (x, hc'), w')"
    and "files w = f" "n \<le> clock w" "T hc"
  shows "undisturbed n f T hc hc' w' \<and> x = fact_of e (shards_of dir f)"
proof -
  let ?es = "sort_entries (entries_of dir f)"
  from assms(1) obtain es w1 where l: "io_map_err StageSide (sealed_shard_entries (base e) dir) w = (Inr es, w1)"
    by (auto simp: shard_fact_in_dir_def io_bind_Inr)
  from sorted_entries_result [OF l] sorted_entries_clock [OF l] assms(2,3)
  have w1: "files w1 = f" "n \<le> clock w1" and es: "es = entries_of dir f" by auto
  show ?thesis
  proof (cases "?es = []")
    case True
    then have "shards_of dir f = []" by (simp add: shards_of_def)
    moreover have "x = empty_shard_set e" "hc' = hc" "w' = w1"
      using assms(1) l True by (auto simp: shard_fact_in_dir_def io_bind_Inr io_return_def es)
    ultimately show ?thesis using w1 assms(4) by (simp add: empty_shard_set_def fact_of_def undisturbed_def)
  next
    case False
    with assms(1) l obtain fps hc1 w2 a where 2: "fingerprint_shards e ?es hc w1 = (Inr (fps, hc1), w2)"
      "shard_concat_sha256 e dir ?es (sum_list (map fp_bytes fps)) hc1 w2 = (Inr (a, hc'), w')"
      "x = \<lparr>ss_shard_count = length ?es, ss_concat_bytes = sum_list (map fp_bytes fps), ss_concat_sha256 = ha_sha256 a,
         ss_shard_identities = fps\<rparr>"
      by (auto simp: shard_fact_in_dir_def io_bind_Inr io_return_def es Let_def)
    from fingerprints_answer [OF 2(1) w1 assms(4) listed_entries]
    have g: "files w2 = f" "n \<le> clock w2" "T hc1" "source_view hc1 = source_view hc"
      "fps = map (\<lambda>(k, p). fingerprint e k (the (map_of f p))) ?es" by (simp_all add: undisturbed_def)
    have tot: "sum_list (map fp_bytes fps) = length (concat (map snd (shards_of dir f)))"
      by (simp add: g(5) shards_of_def length_concat fingerprint_def comp_def case_prod_unfold)
    from concat_answer [OF 2(2) g(1-3) listed_entries] g(4,5) 2(3) tot show ?thesis
      by (simp add: fact_of_def bytes_of_shards undisturbed_def) (simp add: shards_of_def comp_def case_prod_unfold)
  qed
qed

lemma match_answer:
  "match_fingerprints e es fps covered hc w = (Inr (ans, hc'), w') \<Longrightarrow> files w = f \<Longrightarrow> n \<le> clock w \<Longrightarrow> T hc \<Longrightarrow>
     listed dir f es \<Longrightarrow>
     undisturbed n f T hc hc' w' \<and>
     ans = (let k = min (length es) (length fps) in
       if map (\<lambda>(k, p). fingerprint e k (the (map_of f p))) (take k es) = take k fps
       then Some (covered + sum_list (map fp_bytes (take k fps))) else None)"
proof (induction es arbitrary: fps covered hc w)
  case Nil
  then show ?case by (simp add: io_return_def undisturbed_def)
next
  case (Cons x es)
  obtain k p where x: "x = (k, p)" by (cases x)
  show ?case
  proof (cases fps)
    case Nil
    with Cons.prems show ?thesis by (simp add: x io_return_def undisturbed_def)
  next
    case fps: (Cons fp fs')
    show ?thesis
    proof (cases "k = fp_sequence fp")
      case False
      with Cons.prems(1) have "ans = None" "hc' = hc" "w' = w" by (simp_all add: x fps io_return_def)
      then show ?thesis using False Cons.prems(2-4) by (auto simp: x fps fingerprint_def undisturbed_def)
    next
      case True
      with Cons.prems(1) obtain a hc1 w1 where 1: "file_sha256 e p hc w = (Inr (a, hc1), w1)"
        and rest: "(if ha_size a \<noteq> fp_bytes fp \<or> ha_sha256 a \<noteq> fp_sha256 fp then io_return (None, hc1)
          else match_fingerprints e es fs' (covered + fp_bytes fp) hc1) w1 = (Inr (ans, hc'), w')"
        by (auto simp: x fps io_bind_Inr)
      have l: "shard_seq_of dir p \<noteq> None" "listed dir f es" using Cons.prems(5) by (auto simp: x listed_def)
      from file_answer [OF 1 Cons.prems(2-4) l(1)] obtain c where
        r: "files w1 = f" "n \<le> clock w1" "T hc1" "source_view hc1 = source_view hc"
          "map_of f p = Some c" "ha_sha256 a = hex (sha256 e c)" "ha_size a = length c" by (auto simp: undisturbed_def)
      have same: "(fingerprint e k c = fp) = (\<not> (ha_size a \<noteq> fp_bytes fp \<or> ha_sha256 a \<noteq> fp_sha256 fp))"
        using True r by (cases fp) (auto simp: fingerprint_def)
      show ?thesis
      proof (cases "fingerprint e k c = fp")
        case False
        with rest same have "ans = None" "hc' = hc1" "w' = w1" by (simp_all add: io_return_def)
        then show ?thesis using False r by (simp add: x fps undisturbed_def)
      next
        case eq: True
        with rest same have 2: "match_fingerprints e es fs' (covered + fp_bytes fp) hc1 w1 = (Inr (ans, hc'), w')" by simp
        from Cons.IH [OF 2 r(1-3) l(2)] eq r show ?thesis by (simp add: x fps Let_def add.assoc undisturbed_def)
      qed
    qed
  qed
qed

lemma by_fingerprints_answer:
  assumes "dir_covers_by_fingerprints e (sort_entries (entries_of dir f)) x hc w = (Inr (ans, hc'), w')"
    and "files w = f" "n \<le> clock w" "T hc" "ss_shard_count x \<le> length (shards_of dir f)"
  shows "undisturbed n f T hc hc' w' \<and>
    ans = (if valid_shard_fact x then Some (prefix (ss_shard_identities x) (map (fp_of e) (shards_of dir f))) else None)"
proof (cases "valid_shard_fact x")
  case False
  with assms show ?thesis by (auto simp: dir_covers_by_fingerprints_def io_return_def undisturbed_def split: if_splits)
next
  case True
  let ?es = "sort_entries (entries_of dir f)" and ?ids = "ss_shard_identities x"
  from True assms(1) obtain c hc1 w1 where
    m: "match_fingerprints e ?es ?ids 0 hc w = (Inr (c, hc1), w1)" and
    rest: "(case c of None \<Rightarrow> io_return (Some False, hc1)
        | Some n \<Rightarrow> if n \<noteq> ss_concat_bytes x then io_return (None, hc1) else io_return (Some True, hc1)) w1 = (Inr (ans, hc') :: collect_error + _, w')"
    by (auto simp: dir_covers_by_fingerprints_def io_bind_Inr valid_fact_count)
  have k: "min (length ?es) (length ?ids) = length ?ids"
    using assms(5) valid_fact_count [OF True] by (simp add: shards_of_def)
  have pre: "(map (\<lambda>(k, p). fingerprint e k (the (map_of f p))) (take (length ?ids) ?es) = ?ids) =
    prefix ?ids (map (fp_of e) (shards_of dir f))"
    unfolding map_fp_entries [symmetric] take_map [symmetric] by (metis append_eq_conv_conj prefix_def take_is_prefix)
  have r: "undisturbed n f T hc hc1 w1 \<and>
     c = (if prefix ?ids (map (fp_of e) (shards_of dir f)) then Some (ss_concat_bytes x) else None)"
    using match_answer [OF m assms(2-4) listed_entries]
    by (simp add: k pre Let_def valid_fact_sum [OF True])
  show ?thesis using r rest True by (auto simp: io_return_def split: if_splits)
qed

lemma covers_answer:
  assumes "dir_covers_with_cache e dir x hc w = (Inr (b, hc'), w')"
    and "files w = f" "n \<le> clock w" "T hc"
  shows "undisturbed n f T hc hc' w' \<and> b = claim_covered e (shards_of dir f) x"
proof -
  let ?cs = "shards_of dir f" and ?es = "sort_entries (entries_of dir f)"
  from assms(1) obtain es w1 where l: "io_map_err StageSide (sealed_shard_entries (base e) dir) w = (Inr es, w1)"
    by (auto simp: dir_covers_with_cache_def io_bind_Inr)
  from sorted_entries_result [OF l] sorted_entries_clock [OF l] assms(2,3)
  have w1: "files w1 = f" "n \<le> clock w1" and es: "es = entries_of dir f" by auto
  consider (few) "length es < ss_shard_count x" | (zero) "ss_shard_count x \<le> length es" "ss_concat_bytes x = 0"
    | (some) "ss_shard_count x \<le> length es" "ss_concat_bytes x \<noteq> 0" by linarith
  then show ?thesis
  proof cases
    case few
    with assms l show ?thesis using w1
      by (auto simp: dir_covers_with_cache_def io_bind_Inr io_return_def claim_covered_def es length_shards undisturbed_def)
  next
    case zero
    with assms l show ?thesis using w1
      by (auto simp: dir_covers_with_cache_def io_bind_Inr io_return_def claim_covered_def es length_shards undisturbed_def)
  next
    case some
    with assms(1) l obtain ans hc1 w2 where
      g: "dir_covers_by_fingerprints e ?es x hc w1 = (Inr (ans, hc1), w2)" and
      rest: "(case ans of Some b \<Rightarrow> io_return (b, hc1) | None \<Rightarrow>
           io_bind (shard_concat_sha256 e dir ?es (ss_concat_bytes x) hc1) (\<lambda>(a, hc2).
           io_return (\<not> (\<not> ha_from_cache a \<and> ha_bytes_read a \<noteq> ss_concat_bytes x) \<and> ha_sha256 a = ss_concat_sha256 x, hc2))) w2
         = (Inr (b, hc'), w')"
      by (auto simp: dir_covers_with_cache_def io_bind_Inr es Let_def)
    have le: "ss_shard_count x \<le> length ?cs" using some by (simp add: length_shards es)
    from by_fingerprints_answer [OF g w1 assms(4) le] have r: "files w2 = f" "n \<le> clock w2" "T hc1" "source_view hc1 = source_view hc"
      "ans = (if valid_shard_fact x then Some (prefix (ss_shard_identities x) (map (fp_of e) ?cs)) else None)"
      by (simp_all add: undisturbed_def)
    show ?thesis
    proof (cases "valid_shard_fact x")
      case True
      with r rest some le show ?thesis by (auto simp: io_return_def claim_covered_def undisturbed_def)
    next
      case False
      with r rest obtain a hc2 where c: "shard_concat_sha256 e dir ?es (ss_concat_bytes x) hc1 w2 = (Inr (a, hc2), w')"
        and b: "b = (\<not> (\<not> ha_from_cache a \<and> ha_bytes_read a \<noteq> ss_concat_bytes x) \<and> ha_sha256 a = ss_concat_sha256 x)"
        "hc' = hc2" by (auto simp: io_bind_Inr io_return_def)
      from concat_answer [OF c r(1-3) listed_entries] r b some le False show ?thesis
        by (auto simp: claim_covered_def bytes_of_shards min_def undisturbed_def split: if_splits)
    qed
  qed
qed

lemma locally_answer:
  assumes "debt_settled_locally e d machine manifest hc w = (Inr (v, hc'), w')"
    and "de_machine d = machine" "dir = session_shard_dir machine (de_session_id d)"
    and "files w = f" "n \<le> clock w" "T hc"
  shows "undisturbed n f T hc hc' w' \<and>
    v = (if claim_covered e (shards_of dir f) (de_shards d) then Some OwedOnStage
         else if shards_of dir f = [] \<and> (case manifest of None \<Rightarrow> False | Some m \<Rightarrow>
               (case bt_get m (de_session_id d) of None \<Rightarrow> False | Some x \<Rightarrow> retained_summary_covers x (de_shards d)))
         then Some SettledReclaimed else None)"
proof -
  from assms(1,2,3) obtain b hc1 w1 where c: "dir_covers_with_cache e dir (de_shards d) hc w = (Inr (b, hc1), w1)"
    by (auto simp: debt_settled_locally_def stage_covers_def io_bind_Inr)
  note r = covers_answer [OF c assms(4-6)]
  show ?thesis
  proof (cases b)
    case True
    with r c assms(1,2,3) show ?thesis
      by (auto simp: debt_settled_locally_def stage_covers_def io_bind_def io_return_def)
  next
    case False
    with c assms(1,2,3) obtain es w2 where l: "io_map_err StageSide (sealed_shard_entries (base e) dir) w1 = (Inr es, w2)"
      and rest: "(if es = [] \<and> (case manifest of None \<Rightarrow> False | Some m \<Rightarrow>
               (case bt_get m (de_session_id d) of None \<Rightarrow> False | Some x \<Rightarrow> retained_summary_covers x (de_shards d)))
          then io_return (Some SettledReclaimed, hc1) else io_return (None, hc1)) w2 = (Inr (v, hc') :: collect_error + _, w')"
      by (auto simp: debt_settled_locally_def stage_covers_def io_bind_Inr)
    have e: "files w2 = f" "n \<le> clock w2" "es = [] \<longleftrightarrow> shards_of dir f = []"
      using sorted_entries_result [OF l] sorted_entries_clock [OF l] r length_shards [of dir f] by (auto simp: undisturbed_def)
    from rest e r False show ?thesis by (auto simp: io_return_def undisturbed_def split: if_splits)
  qed
qed

end

section \<open>Two kinds of cache\<close>

lemma shown_paths: "shown_list e n f es ids \<Longrightarrow> map si_path ids = map (stage_digest e \<circ> snd) es"
  unfolding shown_list_def by (induction rule: list_all2_induct) auto

lemma shown_once:
  assumes "apart e dir f" "listed dir f es" "listed dir f es'" "shown_list e n f es ids" "shown_list e n' f es' ids"
  shows "bytes_of f es = bytes_of f es'"
  by (rule bytes_of_paths, rule apart_same [OF assms(1-3)]) (use shown_paths [OF assms(4)] shown_paths [OF assms(5)] in metis)

lemma digest_names_shard:
  "apart e dir f \<Longrightarrow> shard_seq_of dir p \<noteq> None \<Longrightarrow> map_of f p = Some c \<Longrightarrow> shard_seq_of dir q \<noteq> None \<Longrightarrow> map_of f q = Some d \<Longrightarrow>
     stage_digest e p = stage_digest e q \<Longrightarrow> p = q"
  unfolding apart_def by (rule inj_onD, assumption, assumption) (auto simp: present_def)

text \<open>A cache all of whose entries are true: what a run keeps that starts without one.\<close>

interpretation true_cache: truthful_cache e n dir f "\<lambda>hc. stage_true e dir f hc \<and> apart e dir f" for e n dir f
proof unfold_locales
  fix hc :: hash_cache and k
  assume T: "stage_true e dir f hc \<and> apart e dir f"
  then show ok: "bt_ok (hc_entries hc)" by (simp add: stage_true_def)
  from T show "stage_true e dir f (touch_key k hc) \<and> apart e dir f" by simp
  fix p c i sha
  assume p: "shard_seq_of dir p \<noteq> None" "map_of f p = Some c"
  show "stage_true e dir f (remember (''f:'' @ stage_digest e p) (CacheFile i (hex (sha256 e c))) hc) \<and> apart e dir f"
    using T p unfolding stage_true_def file_entries_true_def dir_entries_true_def remember_def by (auto simp: bt_get_insert)
  show "sha = hex (sha256 e c)" if "file_remembered hc (''f:'' @ stage_digest e p) i = Some sha"
  proof -
    from that obtain j where "bt_get (hc_entries hc) (''f:'' @ stage_digest e p) = Some (CacheFile j sha)"
      by (auto simp: file_remembered_def split: option.splits cache_value.splits if_splits)
    with T obtain q d where q: "shard_seq_of dir q \<noteq> None" "map_of f q = Some d"
      "stage_digest e q = stage_digest e p" "sha = hex (sha256 e d)"
      unfolding stage_true_def file_entries_true_def by blast
    then show ?thesis using digest_names_shard [of e dir f q d p c] T p by auto
  qed
next
  fix hc :: hash_cache and es ids covered sha
  assume T: "stage_true e dir f hc \<and> apart e dir f" and es: "listed dir f es" "shown_list e n f es ids"
  show "right_digest e f es covered sha" if "dir_remembered hc (''d:'' @ stage_digest e dir) covered ids = Some sha"
  proof -
    from that have "bt_get (hc_entries hc) (''d:'' @ stage_digest e dir) = Some (CacheDir ids covered sha)"
      by (auto simp: dir_remembered_def split: option.splits cache_value.splits if_splits)
    with T obtain es' where es': "listed dir f es'" "map si_path ids = map (stage_digest e \<circ> snd) es'"
      "covered \<le> length (concat (bytes_of f es'))" "sha = hex (sha256 e (take covered (concat (bytes_of f es'))))"
      unfolding stage_true_def dir_entries_true_def by blast
    have "bytes_of f es' = bytes_of f es"
      by (rule bytes_of_paths, rule apart_same [OF conjunct2 [OF T] es'(1) es(1)]) (use es'(2) shown_paths [OF es(2)] in metis)
    then show ?thesis using es'(3,4) by (simp add: right_digest_def)
  qed
  assume "right_digest e f es covered sha"
  then have "\<exists>es'. listed dir f es' \<and> map si_path ids = map (stage_digest e \<circ> snd) es' \<and>
      covered \<le> length (concat (bytes_of f es')) \<and> sha = hex (sha256 e (take covered (concat (bytes_of f es'))))"
    using es(1) shown_paths [OF es(2)] unfolding right_digest_def by blast
  then show "stage_true e dir f (remember (''d:'' @ stage_digest e dir) (CacheDir ids covered sha) hc) \<and> apart e dir f"
    using T unfolding stage_true_def file_entries_true_def dir_entries_true_def remember_def by (auto simp: bt_get_insert)
qed

text \<open>A cache that is honest about what the files show now: any cache file may have been loaded.\<close>

interpretation honest_cache: truthful_cache e n dir f "\<lambda>hc. stage_honest e n dir f hc \<and> apart e dir f" for e n dir f
proof unfold_locales
  fix hc :: hash_cache and k
  assume T: "stage_honest e n dir f hc \<and> apart e dir f"
  then show ok: "bt_ok (hc_entries hc)" by (simp add: stage_honest_def)
  from T show "stage_honest e n dir f (touch_key k hc) \<and> apart e dir f" by simp
  fix p c i sha
  assume p: "shard_seq_of dir p \<noteq> None" "map_of f p = Some c"
  show "stage_honest e n dir f (remember (''f:'' @ stage_digest e p) (CacheFile i (hex (sha256 e c))) hc) \<and> apart e dir f"
  proof -
    have "q = p" if "shard_seq_of dir q = Some k" "map_of f q = Some d" "stage_digest e q = stage_digest e p" for q k d
      using digest_names_shard [OF conjunct2 [OF T] _ that(2) p that(3)] that(1) by simp
    then have same: "d = c" if "shard_seq_of dir q = Some k" "map_of f q = Some d" "stage_digest e q = stage_digest e p" for q k d
      using that p(2) by (metis option.inject)
    show ?thesis using T unfolding stage_honest_def remember_def by (auto simp: bt_get_insert dest: same)
  qed
  show "sha = hex (sha256 e c)"
    if "shown_at e n f p i" "file_remembered hc (''f:'' @ stage_digest e p) i = Some sha"
  proof -
    from that(2) obtain j where j: "bt_get (hc_entries hc) (''f:'' @ stage_digest e p) = Some (CacheFile j sha)" "is_same_file j i"
      by (auto simp: file_remembered_def split: option.splits cache_value.splits if_splits)
    then have "j = i" "fi_mtime_ns i \<noteq> None" by (cases j; cases i; auto simp: is_same_file_def)+
    with j T p that(1) show ?thesis unfolding stage_honest_def by blast
  qed
next
  fix hc :: hash_cache and es ids covered sha
  assume T: "stage_honest e n dir f hc \<and> apart e dir f" and es: "listed dir f es" "shown_list e n f es ids"
  show "right_digest e f es covered sha" if "dir_remembered hc (''d:'' @ stage_digest e dir) covered ids = Some sha"
  proof -
    from that have "bt_get (hc_entries hc) (''d:'' @ stage_digest e dir) = Some (CacheDir ids covered sha)"
      by (auto simp: dir_remembered_def split: option.splits cache_value.splits if_splits)
    with T es show ?thesis unfolding stage_honest_def by blast
  qed
  assume r: "right_digest e f es covered sha"
  have "right_digest e f es' covered sha" if "listed dir f es'" "shown_list e n f es' ids" for es'
    using shown_once [OF _ es(1) that(1) es(2) that(2)] T r by (simp add: right_digest_def)
  then show "stage_honest e n dir f (remember (''d:'' @ stage_digest e dir) (CacheDir ids covered sha) hc) \<and> apart e dir f"
    using T unfolding stage_honest_def remember_def by (auto simp: bt_get_insert)
qed

lemma shown_at_later: "n \<le> n' \<Longrightarrow> shown_at e n' f p i \<Longrightarrow> shown_at e n f p i"
  unfolding shown_at_def by (elim exE conjE) (blast intro: order_trans)

lemma shown_list_later: "n \<le> n' \<Longrightarrow> shown_list e n' f es ids \<Longrightarrow> shown_list e n f es ids"
  unfolding shown_list_def by (erule list_all2_mono) (auto intro: shown_at_later)

lemma stage_honest_later: "n \<le> n' \<Longrightarrow> stage_honest e n dir f hc \<Longrightarrow> stage_honest e n' dir f hc"
  unfolding stage_honest_def using shown_at_later [of n n' e f] shown_list_later [of n n' e f] by blast

text \<open>The readers with a true cache.\<close>

lemma shard_fact_result:
  assumes "shard_fact_in_dir e dir hc w = (Inr (x, hc'), w')"
    and "stage_true e dir (files w) hc" "apart e dir (files w)"
  shows "files w' = files w \<and> stage_true e dir (files w) hc' \<and> source_view hc' = source_view hc \<and>
    x = fact_of e (shards_of dir (files w))"
  using true_cache.fact_answer [OF assms(1) refl order_refl] assms(2,3) by (simp add: undisturbed_def)

lemma dir_covers_result:
  assumes "dir_covers_with_cache e dir x hc w = (Inr (b, hc'), w')"
    and "stage_true e dir (files w) hc" "apart e dir (files w)"
  shows "files w' = files w \<and> stage_true e dir (files w) hc' \<and> source_view hc' = source_view hc \<and>
    b = claim_covered e (shards_of dir (files w)) x"
  using true_cache.covers_answer [OF assms(1) refl order_refl] assms(2,3) by (simp add: undisturbed_def)

lemma debt_locally_result:
  assumes "debt_settled_locally e d machine manifest hc w = (Inr (v, hc'), w')"
    and "de_machine d = machine" "dir = session_shard_dir machine (de_session_id d)"
    and "stage_true e dir (files w) hc" "apart e dir (files w)"
  shows "files w' = files w \<and> stage_true e dir (files w) hc' \<and> source_view hc' = source_view hc \<and>
    v = (if claim_covered e (shards_of dir (files w)) (de_shards d) then Some OwedOnStage
         else if shards_of dir (files w) = [] \<and> (case manifest of None \<Rightarrow> False | Some m \<Rightarrow>
               (case bt_get m (de_session_id d) of None \<Rightarrow> False | Some x \<Rightarrow> retained_summary_covers x (de_shards d)))
         then Some SettledReclaimed else None)"
  using true_cache.locally_answer [OF assms(1-3) refl order_refl] assms(4,5) by (simp add: undisturbed_def)

section \<open>Claims taken from the stage\<close>

lemma shards_extend:
  assumes "keeps dir raw moved f0 f" "unique_numbers dir f0" "distinct (map fst f0)" "distinct (map fst f)"
  shows "prefix (shards_of dir f0) (shards_of dir f)"
proof -
  let ?g = "\<lambda>(n, p). (n, the (map_of f p))"
  have old: "map ?g (sort_entries (entries_of dir f0)) = shards_of dir f0"
    unfolding shards_of_def using entries_kept [OF assms(1)]
    by (intro map_cong) (auto simp: sort_entries_def)
  obtain ys where "sort_entries (entries_of dir f) = sort_entries (entries_of dir f0) @ ys"
    using entries_extend [OF assms] by auto
  then have "shards_of dir f = shards_of dir f0 @ map ?g ys"
    unfolding shards_of_def [of dir f] by (simp only: map_append old)
  then show ?thesis by simp
qed

lemma list_all_hex: "list_all is_hexdigit (hex bs)"
proof -
  have "is_hexdigit (hex_digit k)" if "k < 16" for k :: nat
    using that by (auto simp: is_hexdigit_def hex_digit_def digit_char_def Let_def)
  moreover have "(of_char c :: nat) div 16 < 16" "(of_char c :: nat) mod 16 < 16" for c :: char
    by (rule less_mult_imp_div_less) simp_all
  ultimately show ?thesis by (simp add: hex_def list_all_iff)
qed

lemma valid_sha256_hex: "length c = 32 \<Longrightarrow> valid_sha256 (hex c)"
  by (simp add: valid_sha256_def list_all_hex)

lemma fingerprints_total_of:
  assumes "\<And>c. length (sha256 e c) = 32"
  shows "sorted (map fst cs) \<Longrightarrow> distinct (map fst cs) \<Longrightarrow> (\<And>n c. (n, c) \<in> set cs \<Longrightarrow> previous < n) \<Longrightarrow>
    k + length (concat (map snd cs)) \<le> u64_max \<Longrightarrow>
    fingerprints_total previous k (map (fp_of e) cs) = Some (k + length (concat (map snd cs)))"
proof (induction cs arbitrary: previous k)
  case (Cons x cs)
  obtain n c where x: "x = (n, c)" by (cases x)
  have n: "previous < n" by (rule Cons.prems(3) [of n c]) (simp add: x)
  have v: "valid_sha256 (hex (sha256 e c))" by (rule valid_sha256_hex) (rule assms)
  have "fingerprints_total n (k + length c) (map (fp_of e) cs) = Some (k + length c + length (concat (map snd cs)))"
  proof (rule Cons.IH)
    show "sorted (map fst cs)" "distinct (map fst cs)" using Cons.prems by simp_all
    show "n < m" if "(m, d) \<in> set cs" for m d
      using that Cons.prems(1,2) by (force simp: x order.order_iff_strict)
    show "k + length c + length (concat (map snd cs)) \<le> u64_max" using Cons.prems(4) by (simp add: x)
  qed
  moreover have "k + length c \<le> u64_max" using Cons.prems(4) by (simp add: x)
  ultimately show ?case using n v by (simp add: x fingerprint_def)
qed simp

lemma valid_fact_of:
  assumes "\<And>c. length (sha256 e c) = 32" "sorted (map fst cs)" "distinct (map fst cs)" "cs \<noteq> []"
    and "\<And>n c. (n, c) \<in> set cs \<Longrightarrow> 0 < n" "length (concat (map snd cs)) \<le> u64_max"
  shows "valid_shard_fact (fact_of e cs)"
proof -
  have "fingerprints_total 0 0 (map (fp_of e) cs) = Some (length (concat (map snd cs)))"
    using fingerprints_total_of [of e cs 0 0] assms by simp
  moreover have "valid_sha256 (hex (sha256 e (concat (map snd cs))))" by (rule valid_sha256_hex) (rule assms)
  moreover have "hex (sha256 e (concat (map snd cs))) = fp_sha256 (hd (map (fp_of e) cs))" if "length cs = 1"
    using that by (cases cs) (auto simp: fingerprint_def)
  ultimately show ?thesis using assms(4) by (simp add: valid_shard_fact_def fact_of_def)
qed

lemma shards_sorted:
  assumes "distinct (map fst f)" "unique_numbers dir f"
  shows "sorted (map fst (shards_of dir f)) \<and> distinct (map fst (shards_of dir f))"
proof -
  have "map fst (shards_of dir f) = map fst (sort_entries (entries_of dir f))"
    by (simp add: shards_of_def comp_def case_prod_unfold)
  moreover have "distinct (map fst (sort_entries (entries_of dir f)))"
    using entries_distinct [OF assms] by (simp add: sort_entries_def distinct_map)
  ultimately show ?thesis by (simp add: sort_entries_def)
qed

lemma inj_on_fp: "inj_on (sha256 e) (snd ` S) \<Longrightarrow> inj_on (fp_of e) S"
  by (auto simp: inj_on_def fingerprint_def hex_inj)

lemma covered_fact_of:
  assumes "valid_shard_fact (fact_of e cs0)" "concat (map snd cs0) \<noteq> []"
    and "inj_on (sha256 e) (snd ` (set cs0 \<union> set cs))"
  shows "claim_covered e cs (fact_of e cs0) \<longleftrightarrow> prefix cs0 cs"
proof -
  have i: "inj_on (fp_of e) (set cs0 \<union> set cs)" by (rule inj_on_fp) (rule assms(3))
  have "prefix (map (fp_of e) cs0) (map (fp_of e) cs) \<longleftrightarrow> prefix cs0 cs"
  proof
    assume "prefix (map (fp_of e) cs0) (map (fp_of e) cs)"
    then have "take (length cs0) (map (fp_of e) cs) = map (fp_of e) cs0"
      by (metis append_eq_conv_conj length_map prefix_def)
    then have "map (fp_of e) cs0 = map (fp_of e) (take (length cs0) cs)" by (simp add: take_map)
    moreover have "inj_on (fp_of e) (set cs0 \<union> set (take (length cs0) cs))"
      by (rule inj_on_subset [OF i]) (auto dest: in_set_takeD)
    ultimately have "cs0 = take (length cs0) cs" by (metis inj_on_map_eq_map)
    then show "prefix cs0 cs" by (metis take_is_prefix)
  qed (auto simp: prefix_def)
  moreover have "length cs0 \<le> length cs" if "prefix cs0 cs" using that by (rule prefix_length_le)
  moreover have "\<exists>c \<in> snd ` set cs0. c \<noteq> []" using assms(2) by auto
  ultimately show ?thesis using assms(1,2)
    by (auto simp: claim_covered_def fact_of_def)
qed

lemma covered_later: "prefix cs0 cs \<Longrightarrow> claim_covered e cs (fact_of e cs0)"
proof -
  assume "prefix cs0 cs"
  then obtain zs where "cs = cs0 @ zs" by (auto simp: prefix_def)
  moreover obtain B where B: "concat (map snd cs0) = B" by blast
  ultimately have "concat (map snd cs) = B @ concat (map snd zs)" "length cs0 \<le> length cs"
    "prefix (map (fp_of e) cs0) (map (fp_of e) cs)" by simp_all
  then show ?thesis unfolding claim_covered_def fact_of_def by (simp add: B)
qed

section \<open>Without faults\<close>

text \<open>An operation that returns and leaves the files alone.\<close>

definition answers :: "(world, 'e, 'a) io \<Rightarrow> world \<Rightarrow> bool" where
  "answers m w \<longleftrightarrow> (\<exists>a w'. m w = (Inr a, w') \<and> files w' = files w)"

lemma answers_return [simp]: "answers (io_return a) w"
  by (simp add: answers_def io_return_def)

lemma answers_bind:
  "answers m w \<Longrightarrow> (\<And>a w1. m w = (Inr a, w1) \<Longrightarrow> files w1 = files w \<Longrightarrow> answers (k a) w1) \<Longrightarrow> answers (io_bind m k) w"
  by (fastforce simp: answers_def io_bind_def)

lemma answers_stat: "(\<And>n. \<not> fault e n) \<Longrightarrow> present (files w) p \<Longrightarrow> answers (stat_stage e p) w"
  by (auto simp: answers_def stat_stage_def present_def)

lemma answers_read: "(\<And>n. \<not> fault e n) \<Longrightarrow> present (files w) p \<Longrightarrow> answers (read_file e x p) w"
  by (auto simp: answers_def read_file_def present_def)

lemma answers_list: "(\<And>n. \<not> fault e n) \<Longrightarrow> answers (io_map_err g (sealed_shard_entries (base e) dir)) w"
  by (simp add: answers_def io_map_err_def sealed_shard_entries_def io_bind_def touch_def fs_op_def env.defs)

lemma answers_file:
  assumes "\<And>n. \<not> fault e n" "present (files w) p"
  shows "answers (file_sha256 e p hc) w"
  unfolding file_sha256_def Let_def
  by (intro answers_bind answers_stat assms) (auto intro!: answers_bind answers_read assms split: option.split)

lemma answers_identities: "(\<And>n. \<not> fault e n) \<Longrightarrow> listed dir (files w) es \<Longrightarrow> answers (shard_identities_of e es) w"
proof (induction es arbitrary: w)
  case (Cons x es)
  obtain n p where x: "x = (n, p)" by (cases x)
  have l: "present (files w) p" "listed dir (files w) es" using Cons.prems(2) by (auto simp: x listed_def)
  show ?case unfolding shard_identities_of_def io_traverse.simps x prod.case
    by (intro answers_bind answers_stat Cons.prems(1) l answers_return)
      (use Cons.IH [unfolded shard_identities_of_def] Cons.prems(1) l(2) in \<open>auto simp: io_bind_Inr io_return_def dest: stat_stage_result\<close>)
qed (simp add: shard_identities_of_def)

lemma answers_covered: "(\<And>n. \<not> fault e n) \<Longrightarrow> listed dir (files w) es \<Longrightarrow> answers (read_covered e covered es acc) w"
proof (induction es arbitrary: w acc)
  case (Cons x es)
  obtain n p where x: "x = (n, p)" by (cases x)
  have l: "present (files w) p" "listed dir (files w) es" using Cons.prems(2) by (auto simp: x listed_def)
  show ?case
    by (auto simp: x intro!: answers_bind answers_read Cons.prems(1) l Cons.IH)
qed simp

lemma answers_concat:
  "(\<And>n. \<not> fault e n) \<Longrightarrow> listed dir (files w) es \<Longrightarrow> answers (shard_concat_sha256 e dir' es covered hc) w"
  unfolding shard_concat_sha256_def Let_def
  by (intro answers_bind) (auto intro!: answers_identities answers_covered answers_bind split: option.split)

lemma answers_fingerprints: "(\<And>n. \<not> fault e n) \<Longrightarrow> listed dir (files w) es \<Longrightarrow> answers (fingerprint_shards e es hc) w"
proof (induction es arbitrary: w hc)
  case (Cons x es)
  obtain n p where x: "x = (n, p)" by (cases x)
  have l: "present (files w) p" "listed dir (files w) es" using Cons.prems(2) by (auto simp: x listed_def)
  show ?case
    by (auto simp: x intro!: answers_bind answers_file Cons.prems(1) l Cons.IH)
qed simp

lemma answers_match:
  "(\<And>n. \<not> fault e n) \<Longrightarrow> listed dir (files w) es \<Longrightarrow> answers (match_fingerprints e es fps covered hc) w"
proof (induction es arbitrary: w fps covered hc)
  case (Cons x es)
  obtain n p where x: "x = (n, p)" by (cases x)
  have l: "present (files w) p" "listed dir (files w) es" using Cons.prems(2) by (auto simp: x listed_def)
  show ?case
    by (cases fps) (auto simp: x intro!: answers_bind answers_file Cons.prems(1) l Cons.IH)
qed simp

lemma answers_fact: "(\<And>n. \<not> fault e n) \<Longrightarrow> answers (shard_fact_in_dir e dir hc) w"
  unfolding shard_fact_in_dir_def Let_def
  by (intro answers_bind answers_list)
    (auto dest!: sorted_entries_result intro!: answers_bind answers_fingerprints [where dir = dir] answers_concat [where dir = dir]
      simp: listed_entries)

lemma answers_covers: "(\<And>n. \<not> fault e n) \<Longrightarrow> answers (dir_covers_with_cache e dir x hc) w"
  unfolding dir_covers_with_cache_def dir_covers_by_fingerprints_def Let_def
  by (intro answers_bind answers_list)
    (auto dest!: sorted_entries_result intro!: answers_bind answers_match [where dir = dir] answers_concat [where dir = dir]
      simp: listed_entries split: option.split)

end
