(* ===== verification/Prefix_Cover_Spec.thy ===== *)
theory Prefix_Cover_Spec
  imports Prefix_Cover
begin

text \<open>
  The matcher against its specification: it returns, stays within its tables, and finds the
  longest prefix of the source lines that occurs as a run of stage lines.
\<close>

section \<open>Matched prefixes\<close>

text \<open>\<open>ends src ys k\<close>: the first \<open>k\<close> lines of the source end what was read.\<close>

definition ends :: "'a list \<Rightarrow> 'a list \<Rightarrow> nat \<Rightarrow> bool" where
  "ends src ys k \<longleftrightarrow> k \<le> length src \<and> suffix (take k src) ys"

definition longest :: "'a list \<Rightarrow> 'a list \<Rightarrow> nat \<Rightarrow> bool" where
  "longest src ys m \<longleftrightarrow> ends src ys m \<and> (\<forall>k. ends src ys k \<longrightarrow> k \<le> m)"

lemma ends_0 [simp]: "ends src ys 0"
  by (simp add: ends_def)

lemma ends_Nil [simp]: "ends src [] k \<longleftrightarrow> k = 0 \<or> src = [] \<and> k = 0"
  by (auto simp: ends_def)

lemma longest_Nil [simp]: "longest src [] 0"
  by (simp add: longest_def)

lemma longest_unique: "longest src ys m \<Longrightarrow> longest src ys n \<Longrightarrow> m = n"
  by (meson antisym longest_def)

lemma ends_length: "ends src ys k \<Longrightarrow> k \<le> length ys"
  unfolding ends_def by (metis length_take min.absorb2 suffix_length_le)

lemma ends_snoc: "ends src (ys @ [c]) (Suc k) \<longleftrightarrow> k < length src \<and> src ! k = c \<and> ends src ys k"
  by (auto simp: ends_def take_Suc_conv_app_nth Suc_le_eq)

text \<open>A shorter match is an end of a longer one.\<close>

lemma ends_nested:
  assumes "ends src ys m" "ends src ys k" "k \<le> m"
  shows "ends src (take m src) k"
proof -
  from assms have "suffix (take k src) ys" "suffix (take m src) ys" "length (take k src) \<le> length (take m src)"
    by (auto simp: ends_def)
  then have "suffix (take k src) (take m src)" using suffix_length_suffix by blast
  with assms show ?thesis by (simp add: ends_def)
qed

lemma ends_trans: "ends src ys m \<Longrightarrow> ends src (take m src) k \<Longrightarrow> ends src ys k"
  by (auto simp: ends_def intro: suffix_order.trans)

text \<open>Proper ends of a prefix are the ends of the prefix without its first line.\<close>

lemma ends_tl: "xs \<noteq> [] \<Longrightarrow> k < length xs \<Longrightarrow> ends src (tl xs) k \<longleftrightarrow> ends src xs k"
proof (cases xs)
  case (Cons x ys)
  assume "k < length xs"
  then have "k \<le> length src \<Longrightarrow> take k src \<noteq> x # ys" using Cons by (metis length_take min.absorb2 nat_neq_iff)
  with Cons show ?thesis by (auto simp: ends_def suffix_Cons)
qed simp

definition table_ok :: "'a list \<Rightarrow> nat list \<Rightarrow> nat \<Rightarrow> bool" where
  "table_ok src fails n \<longleftrightarrow> n \<le> length fails \<and> length fails = length src \<and>
     (\<forall>j < n. longest src (tl (take (Suc j) src)) (fails ! j))"

section \<open>Falling back\<close>

lemma fall_back_result:
  assumes "table_ok src fails n" "m \<le> n" "m < length src" "ends src ys m"
  shows "\<exists>r. fall_back src fails c m = Some r \<and> r \<le> m \<and> ends src ys r \<and> (r \<noteq> 0 \<longrightarrow> src ! r = c) \<and>
    (\<forall>k \<le> m. ends src ys k \<and> src ! k = c \<longrightarrow> k \<le> r)"
  using assms(2-)
proof (induction m rule: less_induct)
  case (less m)
  show ?case
  proof (cases "m = 0")
    case True
    then show ?thesis by (simp add: fall_back.simps)
  next
    case pos: False
    have at_m: "at src m = Some (src ! m)" using less.prems by (simp add: at_def)
    show ?thesis
    proof (cases "c = src ! m")
      case True
      then show ?thesis using pos less.prems at_m by (subst fall_back.simps) auto
    next
      case no: False
      let ?b = "fails ! (m - 1)"
      have long: "longest src (tl (take m src)) ?b" and at_b: "at fails (m - 1) = Some ?b"
        using assms(1) less.prems pos by (auto simp: table_ok_def at_def dest: spec [where x = "m - 1"])
      have ne: "take m src \<noteq> []" "length (take m src) = m" using pos less.prems by auto
      have b: "?b < m"
        using long pos ends_length [of src "tl (take m src)" ?b] ne by (auto simp: longest_def)
      have "ends src (take m src) ?b"
        using long ends_tl [OF ne(1), of ?b src] b ne(2) by (simp add: longest_def)
      then have ends_b: "ends src ys ?b" using ends_trans less.prems(3) by blast
      have step: "fall_back src fails c m = fall_back src fails c ?b"
        using pos at_m no at_b by (subst fall_back.simps) simp
      from less.IH [OF b _ _ ends_b] less.prems b obtain r where
        r: "fall_back src fails c ?b = Some r" "r \<le> ?b" "ends src ys r" "r \<noteq> 0 \<longrightarrow> src ! r = c"
        "\<forall>k \<le> ?b. ends src ys k \<and> src ! k = c \<longrightarrow> k \<le> r" by auto
      have "k \<le> r" if k: "k \<le> m" "ends src ys k" "src ! k = c" for k
      proof -
        have "k < m" using k no by (cases "k = m") auto
        moreover have "ends src (take m src) k" using ends_nested [OF less.prems(3) k(2,1)] .
        ultimately have "ends src (tl (take m src)) k" using ends_tl [OF ne(1), of k src] ne(2) by simp
        then have "k \<le> ?b" using long by (simp add: longest_def)
        with r(5) k show ?thesis by blast
      qed
      then show ?thesis using step r b by auto
    qed
  qed
qed

text \<open>One step of the matcher: the longest match of one more line.\<close>

lemma step_result:
  assumes "table_ok src fails n" "m \<le> n" "m < length src" "longest src ys m"
  shows "\<exists>r. fall_back src fails c m = Some r \<and> r < length src \<and>
    longest src (ys @ [c]) (if c = src ! r then Suc r else r)"
proof -
  have "ends src ys m" using assms(4) by (simp add: longest_def)
  from fall_back_result [OF assms(1-3) this] obtain r where
    r: "fall_back src fails c m = Some r" "r \<le> m" "ends src ys r" "r \<noteq> 0 \<longrightarrow> src ! r = c"
    "\<forall>k \<le> m. ends src ys k \<and> src ! k = c \<longrightarrow> k \<le> r" by blast
  let ?s = "if c = src ! r then Suc r else r"
  have lt: "r < length src" using r(2) assms(3) by simp
  have "ends src (ys @ [c]) ?s" using r(3,4) lt by (auto simp: ends_snoc)
  moreover have "k \<le> ?s" if "ends src (ys @ [c]) k" for k
  proof (cases k)
    case (Suc j)
    with that have j: "ends src ys j" "src ! j = c" by (simp_all add: ends_snoc)
    then have "j \<le> m" using assms(4) by (simp add: longest_def)
    with r(5) j have jr: "j \<le> r" by blast
    then show ?thesis
      using Suc r(4) j by (cases "r = 0") auto
  qed simp
  ultimately show ?thesis using r(1) lt by (auto simp: longest_def)
qed

section \<open>The table\<close>

lemma table_start: "src \<noteq> [] \<Longrightarrow> table_ok src (replicate (length src) 0) 1"
  by (cases src) (auto simp: table_ok_def)

lemma tl_take_Suc: "0 < i \<Longrightarrow> i < length src \<Longrightarrow> tl (take (Suc i) src) = tl (take i src) @ [src ! i]"
proof -
  assume "0 < i" "i < length src"
  then have "take i src \<noteq> []" "take (Suc i) src = take i src @ [src ! i]" by (auto simp: take_Suc_conv_app_nth)
  then show ?thesis by simp
qed

lemma table_step:
  assumes "table_ok src fails i" "0 < i" "i < length src"
  shows "\<exists>m. advance src fails (src ! i) (fails ! (i - 1)) = Some m \<and> table_ok src (fails[i := m]) (Suc i)"
proof -
  let ?ys = "tl (take i src)" and ?m = "fails ! (i - 1)"
  have long: "longest src ?ys ?m" using assms by (auto simp: table_ok_def dest: spec [where x = "i - 1"])
  then have "?m \<le> length ?ys" using ends_length [of src ?ys ?m] by (simp add: longest_def)
  then have "?m \<le> i" "?m < length src" using assms by auto
  from step_result [OF assms(1) this long, of "src ! i"] obtain r where
    r: "fall_back src fails (src ! i) ?m = Some r" "r < length src"
    "longest src (?ys @ [src ! i]) (if src ! i = src ! r then Suc r else r)" by blast
  have "advance src fails (src ! i) ?m = Some (if src ! i = src ! r then Suc r else r)"
    using r(1,2) by (simp add: advance_def at_def)
  moreover have "table_ok src (fails[i := (if src ! i = src ! r then Suc r else r)]) (Suc i)"
    using assms r(3) tl_take_Suc [OF assms(2,3)] by (auto simp: table_ok_def nth_list_update less_Suc_eq)
  ultimately show ?thesis by blast
qed

lemma build_prefix_result:
  assumes "table_ok src fails i" "0 < i" "i \<le> length src"
  shows "\<exists>t. build_prefix src [i..<length src] fails = Some t \<and> table_ok src t (length src)"
  using assms
proof (induction "length src - i" arbitrary: i fails)
  case 0
  then have "i = length src" by simp
  with 0 show ?case by simp
next
  case (Suc d)
  then have lt: "i < length src" by simp
  from table_step [OF Suc.prems(1,2) lt] obtain m where
    m: "advance src fails (src ! i) (fails ! (i - 1)) = Some m" "table_ok src (fails[i := m]) (Suc i)" by blast
  have ats: "at src i = Some (src ! i)" "at fails (i - 1) = Some (fails ! (i - 1))"
    using lt Suc.prems by (auto simp: at_def table_ok_def)
  have "d = length src - Suc i" using Suc.hyps(2) by simp
  from Suc.hyps(1) [OF this m(2)] lt obtain t where
    "build_prefix src [Suc i..<length src] (fails[i := m]) = Some t" "table_ok src t (length src)" by auto
  with m(1) ats lt show ?case by (simp add: upt_conv_Cons)
qed

section \<open>The longest run\<close>

definition covers :: "'a list \<Rightarrow> 'a list \<Rightarrow> nat \<Rightarrow> bool" where
  "covers src ys k \<longleftrightarrow> k \<le> length src \<and> sublist (take k src) ys"

definition best_cover :: "'a list \<Rightarrow> 'a list \<Rightarrow> nat \<Rightarrow> bool" where
  "best_cover src ys b \<longleftrightarrow> covers src ys b \<and> (\<forall>k. covers src ys k \<longrightarrow> k \<le> b)"

lemma sublist_snoc: "sublist xs (ys @ [c]) \<longleftrightarrow> suffix xs (ys @ [c]) \<or> sublist xs ys"
proof -
  have "sublist xs (ys @ [c]) \<longleftrightarrow> sublist (rev xs) (c # rev ys)" by (metis rev_append rev_singleton_conv sublist_rev append_Cons append_Nil)
  also have "\<dots> \<longleftrightarrow> suffix xs (ys @ [c]) \<or> sublist xs ys" by (simp add: sublist_Cons_right suffix_to_prefix)
  finally show ?thesis .
qed

lemma covers_snoc: "covers src (ys @ [c]) k \<longleftrightarrow> ends src (ys @ [c]) k \<or> covers src ys k"
  by (auto simp: covers_def ends_def sublist_snoc)

lemma covers_append: "covers src ys k \<Longrightarrow> covers src (ys @ zs) k"
  by (auto simp: covers_def intro: sublist_appendI sublist_order.order.trans)

lemma ends_covers: "ends src ys k \<Longrightarrow> covers src ys k"
  by (auto simp: covers_def ends_def)

lemma match_lines_result:
  assumes "table_ok src fails (length src)" "m < length src" "longest src xs m" "best_cover src xs b"
  shows "\<exists>r. match_lines src fails ls m b = Some r \<and> best_cover src (xs @ ls) r"
  using assms(2-)
proof (induction ls arbitrary: xs m b)
  case (Cons c ls)
  from step_result [OF assms(1) _ Cons.prems(1,2), of c] Cons.prems(1) obtain r where
    r: "fall_back src fails c m = Some r" "r < length src"
    "longest src (xs @ [c]) (if c = src ! r then Suc r else r)" by auto
  have at_r: "at src r = Some (src ! r)" using r(2) by (simp add: at_def)
  show ?case
  proof (cases "c = src ! r")
    case True
    have long: "longest src (xs @ [c]) (Suc r)" using r(3) True by simp
    have best: "best_cover src (xs @ [c]) (max b (Suc r))"
      using Cons.prems(3) long by (auto simp: best_cover_def covers_snoc longest_def max_def)
    show ?thesis
    proof (cases "Suc r = length src")
      case full: True
      have "covers src (xs @ [c]) (length src)" using long full ends_covers by (metis longest_def)
      then have "covers src ((xs @ [c]) @ ls) (length src)" by (rule covers_append)
      then have "best_cover src (xs @ c # ls) (length src)" by (simp add: best_cover_def covers_def)
      then show ?thesis using r(1) at_r True full by (simp add: Let_def)
    next
      case False
      then have "Suc r < length src" using r(2) by simp
      from Cons.IH [OF this long best] False r(1) at_r True show ?thesis by (simp add: Let_def)
    qed
  next
    case False
    then have long: "longest src (xs @ [c]) r" using r(3) by simp
    have "r = 0 \<or> ends src (xs @ [c]) r" using long by (simp add: longest_def)
    have zero: "r = 0"
    proof (cases r)
      case (Suc j)
      have "ends src xs m" "m \<le> length src" using Cons.prems by (auto simp: longest_def)
      from fall_back_result [OF assms(1) this(2) Cons.prems(1) this(1), of c] r(1) False Suc show ?thesis by auto
    qed simp
    have best: "best_cover src (xs @ [c]) b"
      using Cons.prems(3) long zero by (auto simp: best_cover_def covers_snoc longest_def)
    from Cons.IH [OF r(2) long best] False r(1) at_r show ?thesis by simp
  qed
qed simp

section \<open>Complete lines\<close>

abbreviation clean :: "bytes list \<Rightarrow> bool" where
  "clean ls \<equiv> \<forall>l \<in> set ls. newline \<notin> set l"

lemma seal_framed_simps [simp]: "seal_framed [] = []" "seal_framed (l # ls) = l @ newline # seal_framed ls"
  "seal_framed (ls @ ms) = seal_framed ls @ seal_framed ms"
  by (simp_all add: seal_framed_def)

lemma length_seal_framed: "length (seal_framed ls) = sum_list (map (\<lambda>l. length l + 1) ls)"
  by (induction ls) auto

lemma split_framed: "clean ls \<Longrightarrow> split_on (\<lambda>c. c = newline) (seal_framed ls) = ls @ [[]]"
proof (induction ls)
  case (Cons l ls)
  then have "split_on (\<lambda>c. c = newline) (l @ newline # seal_framed ls) = l # split_on (\<lambda>c. c = newline) (seal_framed ls)"
    by (intro split_on_piece) auto
  with Cons show ?case by simp
qed simp

lemma framed_last: "ls \<noteq> [] \<Longrightarrow> \<exists>xs. seal_framed ls = xs @ [newline]"
  by (induction ls rule: rev_induct) auto

lemma complete_lines_framed:
  assumes "clean ls" "newline \<notin> set rest"
  shows "complete_lines (seal_framed ls @ rest) = (ls, length (seal_framed ls))"
proof (cases "ls = []")
  case False
  then obtain xs where xs: "seal_framed ls = xs @ [newline]" using framed_last by blast
  have "takeWhile (\<lambda>c. c \<noteq> newline) (rev rest @ newline # rev xs) = rev rest"
    using assms(2) by (subst takeWhile_append2) auto
  then show ?thesis
    using xs split_framed [OF assms(1)] by (simp add: complete_lines_def Let_def)
qed (use assms(2) in \<open>simp add: complete_lines_def\<close>)

lemma framed_exists: "\<exists>ls rest. bs = seal_framed ls @ rest \<and> clean ls \<and> newline \<notin> set rest"
proof (induction bs)
  case Nil
  have "[] = seal_framed [] @ [] \<and> clean [] \<and> newline \<notin> set []" by simp
  then show ?case by blast
next
  case (Cons c bs)
  then obtain ls rest where 1: "bs = seal_framed ls @ rest" "clean ls" "newline \<notin> set rest" by blast
  show ?case
  proof (cases "c = newline")
    case True
    then have "c # bs = seal_framed ([] # ls) @ rest" "clean ([] # ls)" using 1 by simp_all
    with 1(3) show ?thesis by blast
  next
    case False
    show ?thesis
    proof (cases ls)
      case Nil
      then have "c # bs = seal_framed [] @ c # rest" "clean []" "newline \<notin> set (c # rest)" using 1 False by simp_all
      then show ?thesis by blast
    next
      case (Cons l ms)
      then have "c # bs = seal_framed ((c # l) # ms) @ rest" "clean ((c # l) # ms)" using 1 False by auto
      with 1(3) show ?thesis by blast
    qed
  qed
qed

lemma complete_lines_result:
  "complete_lines bs = (ls, n) \<longleftrightarrow> clean ls \<and> n = length (seal_framed ls) \<and> take n bs = seal_framed ls \<and> newline \<notin> set (drop n bs)"
proof
  assume l: "complete_lines bs = (ls, n)"
  obtain ls' rest where 1: "bs = seal_framed ls' @ rest" "clean ls'" "newline \<notin> set rest" using framed_exists by blast
  with complete_lines_framed [OF this(2,3)] l have "ls' = ls" "n = length (seal_framed ls)" by auto
  with 1 show "clean ls \<and> n = length (seal_framed ls) \<and> take n bs = seal_framed ls \<and> newline \<notin> set (drop n bs)" by simp
next
  assume r: "clean ls \<and> n = length (seal_framed ls) \<and> take n bs = seal_framed ls \<and> newline \<notin> set (drop n bs)"
  then have "bs = seal_framed ls @ drop n bs" by (metis append_take_drop_id)
  with r complete_lines_framed [of ls "drop n bs"] show "complete_lines bs = (ls, n)" by metis
qed

section \<open>The covered prefix\<close>

lemma covered_result:
  "\<exists>b. covered_source_prefix stage source = Some (length (seal_framed (take b (fst (complete_lines source))))) \<and>
     best_cover (fst (complete_lines source)) (fst (complete_lines stage)) b"
proof -
  obtain ss n where l: "complete_lines source = (ss, n)" by (cases "complete_lines source")
  then have n: "n = length (seal_framed ss)" by (simp add: complete_lines_result)
  show ?thesis
  proof (cases "ss = []")
    case True
    then have "best_cover ss (fst (complete_lines stage)) 0" by (simp add: best_cover_def covers_def)
    with True l show ?thesis by (auto simp: covered_source_prefix_def)
  next
    case False
    from build_prefix_result [OF table_start [OF False]] False obtain t where
      t: "build_prefix ss [1..<length ss] (replicate (length ss) 0) = Some t" "table_ok ss t (length ss)" by (auto simp: Suc_le_eq)
    have "best_cover ss [] 0" by (auto simp: best_cover_def covers_def)
    from match_lines_result [OF t(2) _ longest_Nil this, of "fst (complete_lines stage)"] False obtain b where
      b: "match_lines ss t (fst (complete_lines stage)) 0 0 = Some b" "best_cover ss (fst (complete_lines stage)) b" by auto
    have "length (seal_framed (take b ss)) \<le> n"
      unfolding n by (metis append_take_drop_id length_append le_add1 seal_framed_simps(3))
    then have "covered_source_prefix stage source = Some (length (seal_framed (take b ss)))"
      using False t(1) b(1) l n by (simp add: covered_source_prefix_def length_seal_framed Let_def min_def)
    with b(2) l show ?thesis by auto
  qed
qed

text \<open>C25: The search for the covered prefix returns for every stage and every source: its inner loops end, none of
  its indices leaves the fallback table or the source lines, and the position it gives lies inside the
  source, at its start or right after a line.\<close>

theorem covered_prefix_returns:
  "\<exists>n. covered_source_prefix stage source = Some n \<and> n \<le> length source \<and> (n = 0 \<or> source ! (n - 1) = newline)"
proof -
  obtain ss n where l: "complete_lines source = (ss, n)" by (cases "complete_lines source")
  from covered_result [of stage source] l obtain b where
    b: "covered_source_prefix stage source = Some (length (seal_framed (take b ss)))" by auto
  let ?k = "length (seal_framed (take b ss))"
  have src: "source = seal_framed (take b ss) @ seal_framed (drop b ss) @ drop n source"
    using l by (metis append_assoc append_take_drop_id complete_lines_result seal_framed_simps(3))
  have "?k \<le> length source" by (subst src) simp
  moreover have "?k = 0 \<or> source ! (?k - 1) = newline"
  proof (cases "take b ss = []")
    case False
    then obtain xs where xs: "seal_framed (take b ss) = xs @ [newline]" using framed_last by blast
    then show ?thesis by (subst src) (simp add: nth_append)
  next
    case True
    then show ?thesis by (metis list.size(3) seal_framed_simps(1))
  qed
  ultimately show ?thesis using b by blast
qed

text \<open>C24: The matcher computes the longest prefix of the source's complete lines that the stage holds as one
  uninterrupted run of lines, and nothing longer: reordered lines, a missing repetition or a match that
  starts inside a record do not count.\<close>

theorem covered_prefix_exact:
  "\<exists>b. covered_source_prefix stage source = Some (length (seal_framed (take b (fst (complete_lines source))))) \<and>
     b \<le> length (fst (complete_lines source)) \<and>
     sublist (take b (fst (complete_lines source))) (fst (complete_lines stage)) \<and>
     (\<forall>k \<le> length (fst (complete_lines source)). sublist (take k (fst (complete_lines source))) (fst (complete_lines stage)) \<longrightarrow> k \<le> b)"
  using covered_result [of stage source] by (auto simp: best_cover_def covers_def)

theorem covered_prefix_exact_witness:
  "covered_source_prefix ''b\<newline>a\<newline>a\<newline>b\<newline>'' ''a\<newline>b\<newline>c\<newline>'' = Some 4"
proof -
  let ?ss = "[''a'', ''b'', ''c'']" and ?st = "[''b'', ''a'', ''a'', ''b'']"
  have lines: "fst (complete_lines ''b\<newline>a\<newline>a\<newline>b\<newline>'') = ?st" "fst (complete_lines ''a\<newline>b\<newline>c\<newline>'') = ?ss" by code_simp+
  from covered_prefix_exact [of "''b\<newline>a\<newline>a\<newline>b\<newline>''" "''a\<newline>b\<newline>c\<newline>''", unfolded lines] obtain b where
    b: "covered_source_prefix ''b\<newline>a\<newline>a\<newline>b\<newline>'' ''a\<newline>b\<newline>c\<newline>'' = Some (length (seal_framed (take b ?ss)))"
    "b \<le> length ?ss" "sublist (take b ?ss) ?st" "\<forall>k \<le> length ?ss. sublist (take k ?ss) ?st \<longrightarrow> k \<le> b" by blast
  have "sublist (take 2 ?ss) ?st" "\<not> sublist (take 3 ?ss) ?st" by (simp_all add: sublist_Cons_right)
  moreover have "2 \<le> length ?ss" by simp
  ultimately have "2 \<le> b" "b \<noteq> 3" using b(3,4) by blast+
  moreover have "b \<le> 3" using b(2) by simp
  ultimately have "b = 2" by linarith
  with b(1) show ?thesis by simp
qed

section \<open>The tail of the stage\<close>

lemma tail_walk_result:
  assumes "0 < n" "n \<le> length frame" "\<forall>s \<in> set shards. s \<noteq> []"
  shows "tail_walk (rev shards) later frame n \<longleftrightarrow>
    (\<exists>earlier tail. shards = earlier @ tail \<and> concat tail = take n frame \<and>
       (length (tail @ later) = 1 \<or> suffix (tail @ later) earlier))"
  using assms
proof (induction shards arbitrary: later n rule: rev_induct)
  case (snoc x sh)
  have split: "(\<exists>earlier tail. sh @ [x] = earlier @ tail \<and> concat tail = take n frame \<and> P earlier tail) \<longleftrightarrow>
      (\<exists>earlier tail. sh = earlier @ tail \<and> concat tail @ x = take n frame \<and> P earlier (tail @ [x]))" for P
  proof
    assume "\<exists>earlier tail. sh @ [x] = earlier @ tail \<and> concat tail = take n frame \<and> P earlier tail"
    then obtain earlier tail where 1: "sh @ [x] = earlier @ tail" "concat tail = take n frame" "P earlier tail" by blast
    have "tail \<noteq> []" using 1(2) snoc.prems by auto
    then obtain t y where "tail = t @ [y]" by (metis append_butlast_last_id)
    with 1 show "\<exists>earlier tail. sh = earlier @ tail \<and> concat tail @ x = take n frame \<and> P earlier (tail @ [x])" by auto
  next
    assume "\<exists>earlier tail. sh = earlier @ tail \<and> concat tail @ x = take n frame \<and> P earlier (tail @ [x])"
    then obtain earlier tail where "sh = earlier @ tail" "concat tail @ x = take n frame" "P earlier (tail @ [x])" by blast
    then show "\<exists>earlier tail. sh @ [x] = earlier @ tail \<and> concat tail = take n frame \<and> P earlier tail"
      by (intro exI [of _ earlier] exI [of _ "tail @ [x]"]) simp
  qed
  have fits: "t @ x = take n frame \<longleftrightarrow>
      length x \<le> n \<and> take (length x) (drop (n - length x) frame) = x \<and> t = take (n - length x) frame" for t
  proof (cases "length x \<le> n")
    case True
    have "take n frame = take (n - length x) frame @ take (length x) (drop (n - length x) frame)"
      using take_add [of "n - length x" "length x" frame] True by simp
    moreover have "length (take (length x) (drop (n - length x) frame)) = length x" using True snoc.prems(2) by simp
    ultimately show ?thesis using True by (metis append_eq_append_conv)
  next
    case False
    have "t @ x \<noteq> take n frame" using False by (auto dest: arg_cong [where f = length])
    with False show ?thesis by simp
  qed
  have x: "x \<noteq> []" using snoc.prems(3) by simp
  show ?case
  proof (cases "n < length x \<or> take (length x) (drop (n - length x) frame) \<noteq> x")
    case True
    then show ?thesis unfolding split fits by auto
  next
    case False
    show ?thesis
    proof (cases "n = length x")
      case True
      have "(\<exists>earlier tail. sh = earlier @ tail \<and> concat tail = [] \<and> Q earlier tail) \<longleftrightarrow> Q sh []" for Q
      proof -
        have "sh = earlier @ tail \<Longrightarrow> concat tail = [] \<Longrightarrow> tail = []" for earlier tail
          using snoc.prems(3) by (cases tail) auto
        then show ?thesis by (metis append_Nil2 concat.simps(1))
      qed
      moreover have "suffix (x # later) sh \<longleftrightarrow> Suc (length later) \<le> length sh \<and> rev (take (Suc (length later)) (rev sh)) = x # later"
        by (auto simp: suffix_def rev_take take_rev) (metis append_take_drop_id length_append length_Cons add_diff_cancel_right')
      ultimately show ?thesis unfolding split fits using False True by simp
    next
      case neq: False
      have "0 < n - length x" "n - length x \<le> length frame" "\<forall>s \<in> set sh. s \<noteq> []" using False neq snoc.prems by auto
      from snoc.IH [OF this, of "x # later"] False neq x show ?thesis unfolding split fits by simp
    qed
  qed
qed auto

lemma stage_tail_result:
  assumes "\<forall>s \<in> set shards. s \<noteq> []"
  shows "stage_tail_is shards frame \<longleftrightarrow> frame \<noteq> [] \<and>
    (\<exists>earlier tail. shards = earlier @ tail \<and> concat tail = frame \<and> (length tail = 1 \<or> suffix tail earlier))"
  using tail_walk_result [of "length frame" frame shards "[]"] assms by (cases "frame = []") (auto simp: stage_tail_is_def)

text \<open>An export counts as held by the stage exactly when it is the bytes of the last shard, or of a run of
  last shards that directly repeats the run before it: earlier snapshots that only happen to join up to
  the export's bytes are not mistaken for it.\<close>

theorem stage_tail_exact:
  assumes "\<forall>s \<in> set shards. s \<noteq> []"
  shows "stage_tail_is shards frame \<longleftrightarrow> frame \<noteq> [] \<and>
    (\<exists>earlier tail. shards = earlier @ tail \<and> concat tail = frame \<and> (length tail = 1 \<or> suffix tail earlier))"
  by (rule stage_tail_result) (rule assms)

theorem stage_tail_exact_witness:
  "stage_tail_is [''A\<newline>'', ''B\<newline>'', ''A\<newline>'', ''B\<newline>''] ''A\<newline>B\<newline>'' \<and> \<not> stage_tail_is [''A\<newline>'', ''B\<newline>''] ''A\<newline>B\<newline>''"
proof -
  let ?sh = "[''A\<newline>'', ''B\<newline>'', ''A\<newline>'', ''B\<newline>'']"
  have "\<exists>earlier tail. ?sh = earlier @ tail \<and> concat tail = ''A\<newline>B\<newline>'' \<and> (length tail = 1 \<or> suffix tail earlier)"
    by (intro exI [of _ "[''A\<newline>'', ''B\<newline>'']"]) simp
  then have 1: "stage_tail_is ?sh ''A\<newline>B\<newline>''"
    using stage_tail_exact [of ?sh "''A\<newline>B\<newline>''"] by simp
  have "\<not> (\<exists>earlier tail. [''A\<newline>'', ''B\<newline>''] = earlier @ tail \<and> concat tail = ''A\<newline>B\<newline>'' \<and> (length tail = 1 \<or> suffix tail earlier))"
  proof safe
    fix earlier tail
    assume a: "[''A\<newline>'', ''B\<newline>''] = earlier @ tail" "concat tail = ''A\<newline>B\<newline>''"
    from a(1) consider "tail = [''A\<newline>'', ''B\<newline>'']" "earlier = []" | "tail = [''B\<newline>'']" | "tail = []"
      by (auto simp: Cons_eq_append_conv)
    note cases = this
    show False if "length tail = 1" using cases that a(2) by cases auto
    show False if "suffix tail earlier" using cases that a(2) by cases auto
  qed
  then show ?thesis using 1 stage_tail_exact [of "[''A\<newline>'', ''B\<newline>'']" "''A\<newline>B\<newline>''"] by simp
qed

end
