(* ===== verification/Collect_Spec.thy ===== *)
theory Collect_Spec
  imports Collect Debt_Spec Prefix_Cover_Spec Reclaim_Frame
begin

text \<open>
  Collecting a JSONL source that only grows: what its reads return, however it grows meanwhile, and the
  invariant between the source, the stage and the stored position that every pass keeps, whether it
  ends well or fails.
\<close>

section \<open>Operations that only read\<close>

lemma readonly_clock: "(\<And>w. files (snd (m w)) = files w) \<Longrightarrow> readonly m"
  by (simp add: readonly_def)

lemma readonly_stats [reads]: "readonly (stat_source e p)" "readonly (read_source e p)" "readonly (stat_stage e p)"
    "readonly (manifest_file_stamp e machine)"
  by (simp_all add: readonly_def stat_source_def read_source_def stat_stage_def manifest_file_stamp_def)

lemma readonly_prefix [reads]: "readonly (prefix_sha256 e p offset stat hc)"
  unfolding prefix_sha256_def Let_def
  by (intro readonly_bind) (auto split: option.split intro!: reads)

lemma readonly_file [reads]: "readonly (file_sha256 e p hc)"
  unfolding file_sha256_def Let_def
  by (intro readonly_bind reads) (auto split: option.split intro!: reads)

lemma readonly_covered [reads]: "readonly (read_covered e covered es acc)"
  by (induction es arbitrary: acc) (auto intro!: reads)

lemma readonly_identities [reads]: "readonly (shard_identities_of e es)"
  unfolding shard_identities_of_def by (auto intro!: reads)

lemma readonly_concat [reads]: "readonly (shard_concat_sha256 e dir es covered hc)"
  unfolding shard_concat_sha256_def Let_def
  by (intro readonly_bind reads) (auto split: option.split intro!: reads)

lemma readonly_fingerprints [reads]: "readonly (fingerprint_shards e es hc)"
  by (induction es arbitrary: hc) (auto intro!: reads)

lemma readonly_fact [reads]: "readonly (shard_fact_in_dir e dir hc)"
  unfolding shard_fact_in_dir_def Let_def by (auto intro!: reads)

lemma readonly_match [reads]: "readonly (match_fingerprints e es fps covered hc)"
  by (induction e es fps covered hc rule: match_fingerprints.induct) (auto intro!: reads)

lemma readonly_covers [reads]: "readonly (dir_covers_with_cache e dir x hc)"
  unfolding dir_covers_with_cache_def dir_covers_by_fingerprints_def Let_def
  by (auto intro!: reads split: option.split)

lemma readonly_debt [reads]: "readonly (verify_debt e d machine remote manifest hc)"
  unfolding verify_debt_def debt_settled_locally_def stage_covers_def
  by (auto intro!: reads split: option.split)

lemma readonly_range [reads]: "readonly (read_range e p start len)"
  unfolding read_range_def by (auto intro!: reads)

lemma readonly_attempts [reads]: "readonly (read_attempts n e p old force_reset hc)"
  by (induction n arbitrary: hc) (auto simp: Let_def intro!: reads split: option.split)

lemma readonly_plain [reads]: "readonly (plain_state e p offset hc)"
  unfolding plain_state_def by (auto intro!: reads)

lemma readonly_shards [reads]: "readonly (read_shards_of e es)"
  by (induction es) (auto intro!: reads)

lemma readonly_sum [reads]: "readonly (sum_sizes e es acc)"
  by (induction es arbitrary: acc) (auto intro!: reads)

lemma readonly_stage_prefix [reads]: "readonly (stage_prefix_entry e r machine manifest hc)"
  unfolding stage_prefix_entry_def retained_prefix_entry_def jsonl_prefix_entry_from_shards_def stage_sealed_shards_def Let_def
  by (auto intro!: reads split: option.split)

lemma readonly_position [reads]: "readonly (starting_position e r stored verified machine st)"
  unfolding starting_position_def cursor_or_stage_covered_position_def session_stage_len_def Let_def
  by (auto intro!: reads split: option.split)

lemma readonly_prove [reads]: "readonly (prove_debt e d machine remote st)"
proof -
  have "readonly (load_local_manifest_facts e' machine)" for e'
    using readonly_stores(2) [of e' machine]
    by (auto simp: readonly_def load_local_manifest_facts_def split: prod.split sum.split manifest_state.split)
      (metis snd_conv)+
  then show ?thesis
    unfolding prove_debt_def refresh_manifest_facts_def Let_def
    by (auto intro!: reads split: debt_verdict.split)
qed

lemma readonly_new_debt [reads]: "readonly (new_debt e r stored verified machine x hc)"
  unfolding new_debt_def stage_shard_fact_def by (auto intro!: reads split: option.split)

section \<open>A source that only grows\<close>

text \<open>
  While it is read, the source is some prefix of \<open>C\<close>, at least \<open>lo\<close> bytes long, whatever else happens;
  and what the cache remembers of it is true of \<open>C\<close>.
\<close>

definition appending :: "('x colenv_scheme) \<Rightarrow> path \<Rightarrow> nat \<Rightarrow> bytes \<Rightarrow> bool" where
  "appending e p lo C \<longleftrightarrow> (\<forall>t i c. source_at e t p = Some (i, c) \<longrightarrow> prefix c C \<and> fi_size i = length c \<and> lo \<le> length c)"

definition source_true :: "('x colenv_scheme) \<Rightarrow> path \<Rightarrow> bytes \<Rightarrow> hash_cache \<Rightarrow> bool" where
  "source_true e p C hc \<longleftrightarrow> (\<forall>i k sha. source_view hc (path_digest e p) = Some (CachePrefix i k sha) \<longrightarrow>
     k \<le> length C \<and> sha = hex (sha256 e (take k C)))"

definition cache_true :: "('x colenv_scheme) \<Rightarrow> path \<Rightarrow> bytes \<Rightarrow> path \<Rightarrow> fs \<Rightarrow> hash_cache \<Rightarrow> bool" where
  "cache_true e p C dir f hc \<longleftrightarrow> stage_true e dir f hc \<and> source_true e p C hc"

lemma cache_true_touch [simp]: "cache_true e p C dir f (touch_key k hc) \<longleftrightarrow> cache_true e p C dir f hc"
  by (simp add: cache_true_def source_true_def)

lemma cache_true_prefix:
  assumes "cache_true e p C dir f hc" "k \<le> length C"
  shows "cache_true e p C dir f (remember (''p:'' @ path_digest e p) (CachePrefix i k (hex (sha256 e (take k C)))) hc)"
proof -
  have "bt_ok (hc_entries hc)" using assms(1) by (simp add: cache_true_def stage_true_def)
  then show ?thesis using assms
    by (auto simp: cache_true_def stage_true_def file_entries_true_def dir_entries_true_def source_true_def source_view_def
        remember_def bt_get_insert)
qed

lemma stat_source_result:
  "stat_source e p w = (Inr i, w') \<Longrightarrow> appending e p lo C \<Longrightarrow> files w' = files w \<and> lo \<le> fi_size i \<and> fi_size i \<le> length C"
  by (fastforce simp: stat_source_def appending_def dest: prefix_length_le split: if_splits option.splits)

lemma read_source_result:
  "read_source e p w = (Inr c, w') \<Longrightarrow> appending e p lo C \<Longrightarrow> files w' = files w \<and> prefix c C \<and> lo \<le> length c"
  by (auto simp: read_source_def appending_def split: if_splits option.splits)

lemma prefix_take: "prefix c C \<Longrightarrow> take k c = take (min k (length c)) C"
  by (auto simp: prefix_def min_def)

lemma read_range_result:
  assumes "read_range e p start len w = (Inr c, w')" "appending e p lo C"
  shows "files w' = files w \<and> c = take len (drop start C) \<and> (len = 0 \<or> start + len \<le> length C)"
proof -
  from assms(1) obtain d where d: "read_source e p w = (Inr d, w')" "c = take len (drop start d)" "len = 0 \<or> start + len \<le> length d"
    by (auto simp: read_range_def io_bind_Inr io_return_def io_fail_def split: if_splits)
  from read_source_result [OF d(1) assms(2)] have "files w' = files w" "prefix d C" by auto
  with d(2,3) show ?thesis by (auto simp: prefix_def)
qed

lemma prefix_result:
  assumes "prefix_sha256 e p k stat hc w = (Inr (a, hc'), w')" "appending e p lo C" "cache_true e p C dir f hc"
  shows "files w' = files w \<and> cache_true e p C dir f hc' \<and>
    (if ha_from_cache a then k \<le> length C \<and> ha_sha256 a = hex (sha256 e (take k C))
     else ha_bytes_read a \<le> k \<and> ha_bytes_read a \<le> length C \<and> ha_sha256 a = hex (sha256 e (take (ha_bytes_read a) C)) \<and>
       (k \<le> lo \<longrightarrow> ha_bytes_read a = k))"
proof -
  let ?key = "''p:'' @ path_digest e p"
  from assms(1) obtain i w1 where st: "(case stat of Some i \<Rightarrow> io_return i | None \<Rightarrow> stat_source e p) w = (Inr i, w1)"
    by (auto simp: prefix_sha256_def io_bind_Inr)
  then have w1: "files w1 = files w"
    using stat_source_result [OF _ assms(2)] by (cases stat) (auto simp: io_return_def)
  show ?thesis
  proof (cases "prefix_remembered hc ?key k i")
    case (Some sha)
    with assms(1) st have r: "a = cache_hit sha (fi_size i)" "hc' = touch_key ?key hc" "w' = w1"
      by (auto simp: prefix_sha256_def io_bind_Inr io_return_def Let_def)
    from Some obtain j where "bt_get (hc_entries hc) ?key = Some (CachePrefix j k sha)"
      by (auto simp: prefix_remembered_def split: option.splits cache_value.splits if_splits)
    then have "k \<le> length C" "sha = hex (sha256 e (take k C))"
      using assms(3) by (auto simp: cache_true_def source_true_def source_view_def)
    with r w1 assms(3) show ?thesis by (simp add: cache_hit_def)
  next
    case None
    with assms(1) st obtain c w2 where c: "read_source e p w1 = (Inr c, w2)"
      and a: "a = \<lparr>ha_sha256 = hex (sha256 e (take k c)), ha_bytes_read = length (take k c), ha_from_cache = False, ha_size = fi_size i\<rparr>"
      and hc': "hc' = (if fi_mtime_ns i \<noteq> None \<and> length (take k c) = k
           then remember ?key (CachePrefix i k (hex (sha256 e (take k c)))) hc else hc)" "w' = w2"
      by (auto simp: prefix_sha256_def io_bind_Inr io_return_def Let_def)
    from read_source_result [OF c assms(2)] have s: "files w2 = files w1" "prefix c C" "lo \<le> length c" by auto
    have le: "length c \<le> length C" using s(2) by (rule prefix_length_le)
    have t: "take k c = take (min k (length c)) C" using s(2) by (rule prefix_take)
    have "cache_true e p C dir f hc'"
    proof (cases "fi_mtime_ns i \<noteq> None \<and> length (take k c) = k")
      case True
      then have "k \<le> length c" by (simp add: min_def split: if_splits)
      with t le have "take k c = take k C" "k \<le> length C" by (simp_all add: min_def)
      with cache_true_prefix [OF assms(3), of k i] True hc'(1) show ?thesis by simp
    qed (use hc'(1) assms(3) in auto)
    then show ?thesis using a hc'(2) w1 s le t by (auto simp: min_def)
  qed
qed

section \<open>The consistent read\<close>

definition entry_at :: "('x colenv_scheme) \<Rightarrow> bytes \<Rightarrow> nat \<Rightarrow> 'c offset_entry" where
  "entry_at e C k = plain_entry k (hex (sha256 e (take k C))) False"

definition old_at :: "('x colenv_scheme) \<Rightarrow> bytes \<Rightarrow> nat \<Rightarrow> 'c offset_entry option \<Rightarrow> bool" where
  "old_at e C k old \<longleftrightarrow> old = None \<and> k = 0 \<or> old = Some (entry_at e C k)"

lemma read_attempts_result:
  "read_attempts n e p old False hc w = (Inr (d, hc'), w') \<Longrightarrow> appending e p lo C \<Longrightarrow> cache_true e p C dir f hc \<Longrightarrow>
     old_at e C k old \<Longrightarrow> k \<le> lo \<Longrightarrow>
     files w' = files w \<and> cache_true e p C dir f hc' \<and> \<not> rd_reset d \<and> rd_base_offset d = k \<and>
     (\<exists>m. lo \<le> m \<and> m \<le> length C \<and> rd_bytes d = drop k (take m C) \<and> rd_source_len d = m)"
proof (induction n arbitrary: hc w)
  case 0
  then show ?case by (simp add: io_fail_def)
next
  case (Suc n)
  from Suc.prems(1) obtain bm w1 where bm: "stat_source e p w = (Inr bm, w1)"
    by (auto simp: io_bind_Inr)
  note s = stat_source_result [OF bm Suc.prems(2)]
  show ?case
  proof (cases old)
    case None
    with Suc.prems(1,4) bm obtain c w2 am w3 where r: "read_range e p 0 (fi_size bm) w1 = (Inr c, w2)" "stat_source e p w2 = (Inr am, w3)"
      and rest: "fi_size am \<noteq> fi_size bm \<and> read_attempts n e p old False hc w3 = (Inr (d, hc'), w') \<or>
        fi_size am = fi_size bm \<and> d = \<lparr>rd_source_len = fi_size bm, rd_base_offset = 0, rd_bytes = c,
          rd_bytes_read = fi_size bm, rd_prefix_bytes_validated = 0, rd_reset = False\<rparr> \<and> hc' = hc \<and> w' = w3"
      by (auto simp: io_bind_Inr reusable_entry_def Let_def io_return_def split: if_splits)
    note rr = read_range_result [OF r(1) Suc.prems(2)] stat_source_result [OF r(2) Suc.prems(2)]
    have k: "k = 0" using Suc.prems(4) None by (simp add: old_at_def)
    show ?thesis
    proof (cases "fi_size am = fi_size bm")
      case True
      with rest have "d = \<lparr>rd_source_len = fi_size bm, rd_base_offset = 0, rd_bytes = c, rd_bytes_read = fi_size bm,
             rd_prefix_bytes_validated = 0, rd_reset = False\<rparr>" "hc' = hc" "w' = w3" by simp_all
      then show ?thesis using rr s Suc.prems(3) k by (auto intro!: exI [of _ "fi_size bm"])
    next
      case False
      with rest have "read_attempts n e p old False hc w3 = (Inr (d, hc'), w')" by simp
      from Suc.IH [OF this Suc.prems(2-5)] rr s show ?thesis by simp
    qed
  next
    case (Some en)
    with Suc.prems(4) have en: "en = entry_at e C k" by (simp add: old_at_def)
    have reuse: "reusable_entry old False (fi_size bm) = Some en"
      using s Suc.prems(5) by (simp add: reusable_entry_def Some en entry_at_def plain_entry_def)
    have off: "oe_offset en = k" "oe_prefix_sha256 en = hex (sha256 e (take k C))"
      by (simp_all add: en entry_at_def plain_entry_def)
    from Suc.prems(1) bm reuse obtain a hc1 w2 where a: "prefix_sha256 e p k (Some bm) hc w1 = (Inr (a, hc1), w2)"
      by (auto simp: io_bind_Inr Let_def off)
    have pr: "files w2 = files w1" "cache_true e p C dir f hc1" "ha_sha256 a = hex (sha256 e (take k C))"
      using prefix_result [OF a Suc.prems(2,3)] Suc.prems(5) by (auto split: if_splits)
    let ?ok = "\<lparr>rd_source_len = fi_size bm, rd_base_offset = k, rd_bytes = drop k (take (fi_size bm) C),
                 rd_bytes_read = fi_size bm - k,
                 rd_prefix_bytes_validated = (if ha_from_cache a then 0 else ha_bytes_read a), rd_reset = False\<rparr>"
    from Suc.prems(1) bm reuse a pr(3) obtain c w3 am w4 where r: "read_range e p k (fi_size bm - k) w2 = (Inr c, w3)"
        "stat_source e p w3 = (Inr am, w4)"
      by (auto simp: io_bind_Inr Let_def off)
    note rr = read_range_result [OF r(1) Suc.prems(2)] stat_source_result [OF r(2) Suc.prems(2)]
    have c: "c = drop k (take (fi_size bm) C)" using rr by (simp add: drop_take)
    from Suc.prems(1) bm reuse a pr(3) r have
      "read_attempts n e p old False hc1 w4 = (Inr (d, hc'), w') \<or> (d = ?ok \<and> hc' = hc1 \<and> w' = w4) \<or>
       (\<exists>x w5. read_range e p 0 k w4 = (Inr x, w5) \<and> (read_attempts n e p old False hc1 w5 = (Inr (d, hc'), w') \<or> d = ?ok \<and> hc' = hc1 \<and> w' = w5))"
      by (auto simp: io_bind_Inr Let_def off c io_return_def split: if_splits)
    then consider (again) v where "files v = files w" "read_attempts n e p old False hc1 v = (Inr (d, hc'), w')"
      | (ok) "d = ?ok" "hc' = hc1" "files w' = files w"
    proof (elim disjE exE conjE)
      fix x w5 assume "read_range e p 0 k w4 = (Inr x, w5)" 
      from read_range_result [OF this Suc.prems(2)] rr pr s have "files w5 = files w" by simp
      then show "read_attempts n e p old False hc1 w5 = (Inr (d, hc'), w') \<Longrightarrow> thesis" "d = ?ok \<Longrightarrow> hc' = hc1 \<Longrightarrow> w' = w5 \<Longrightarrow> thesis"
        using that by blast+
    qed (use that rr pr s in auto)
    then show ?thesis
    proof cases
      case again
      from Suc.IH [OF again(2) Suc.prems(2) pr(2) Suc.prems(4,5)] again(1) show ?thesis by simp
    next
      case ok
      with pr s show ?thesis by (auto intro!: exI [of _ "fi_size bm"])
    qed
  qed
qed

lemma plain_state_result:
  assumes "plain_state e p k hc w = (Inr (st, hc'), w')" "appending e p lo C" "cache_true e p C dir f hc"
  shows "files w' = files w \<and> cache_true e p C dir f hc' \<and> st = entry_at e C k"
proof -
  from assms(1) obtain a where a: "prefix_sha256 e p k None hc w = (Inr (a, hc'), w')" "ha_from_cache a \<or> ha_bytes_read a = k"
    "st = plain_entry k (ha_sha256 a) False"
    by (auto simp: plain_state_def io_bind_Inr io_return_def io_fail_def split: if_splits)
  from prefix_result [OF a(1) assms(2,3)] a(2,3) show ?thesis by (auto simp: entry_at_def split: if_splits)
qed

section \<open>One read, one shard\<close>

text \<open>A position just behind a complete line.\<close>

definition line_end :: "bytes \<Rightarrow> nat \<Rightarrow> bool" where
  "line_end C k \<longleftrightarrow> k \<le> length C \<and> (k = 0 \<or> C ! (k - 1) = newline)"

lemma complete_of_rest:
  assumes "complete_lines (drop k (take m C)) = (ls, n)" "line_end C k" "k \<le> m" "m \<le> length C"
  shows "line_end C (k + n) \<and> seal_framed ls = drop k (take (k + n) C) \<and> k + n \<le> m \<and> (ls = [] \<longleftrightarrow> n = 0)"
proof -
  from assms(1) have l: "n = length (seal_framed ls)" "take n (drop k (take m C)) = seal_framed ls"
    unfolding complete_lines_result by auto
  have "length (take n (drop k (take m C))) = n" using l by simp
  then have n: "k + n \<le> m" using assms(3,4) by (simp add: min_def split: if_splits)
  have framed: "seal_framed ls = drop k (take (k + n) C)"
    using l(2) n by (simp add: take_drop min_absorb1 add.commute)
  moreover have "line_end C (k + n)"
  proof (cases "ls = []")
    case True
    then show ?thesis using l(1) assms(2) by simp
  next
    case False
    from framed_last [OF this] obtain xs where xs: "seal_framed ls = xs @ [newline]" by blast
    then have "n = Suc (length xs)" using l(1) by simp
    moreover have "drop k (take (k + n) C) ! length xs = newline" using xs framed by (metis nth_append_length)
    ultimately show ?thesis using n assms(4) by (simp add: line_end_def)
  qed
  moreover have "ls = [] \<longleftrightarrow> n = 0" using l(1) by (cases ls) auto
  ultimately show ?thesis using n by blast
qed

lemma seal_framed_lines_eq: "seal_framed_lines = seal_framed"
  by (simp add: fun_eq_iff seal_framed_lines_def seal_framed_def)

lemma write_sealed_result:
  assumes "write_sealed e keep machine s ls cap w = (r, w')" "dir = session_shard_dir machine s"
    and "dir_ok dir (files w)" "counter_room dir (files w)" "keep \<or> shards_of dir (files w) = []"
  shows "settled dir (seal_framed ls) None (files w) (files w') \<and>
    (\<forall>name. r = Inr name \<longrightarrow> (\<exists>n. installed dir (seal_framed ls) None (files w) (shard_path_in_dir dir n cap) n (files w')))"
proof -
  let ?src = "Store (seal_framed ls) Stage_Shards.Collect keep"
  obtain q v where q: "write_shard_in_dir (base e) dir cap ?src [s] w = (q, v)" by fastforce
  have w': "w' = v" "(\<exists>x. q = Inl x \<and> r = Inl (StageSide x)) \<or> (\<exists>a. q = Inr a \<and> r = Inr (write_filename a))"
    using assms(1) q
    by (auto simp: write_sealed_def write_shard_def io_bind_def io_map_err_def io_return_def seal_framed_lines_eq assms(2) [symmetric]
        split: sum.splits prod.splits)
  have settled: "settled dir (seal_framed ls) None (files w) (files v)"
    using write_shard_settled [OF assms(3,4), of ?src "base e" cap "[s]"] q by simp
  moreover have "\<exists>n. installed dir (seal_framed ls) None (files w) (shard_path_in_dir dir n cap) n (files v)" if "q = Inr a" for a
  proof (cases a)
    case (Existing name)
    from write_shard_hit [of "base e" dir cap ?src "[s]" w name v] q that Existing obtain n c where
      hit: "(n, c) \<in> bodies dir (files w)" by auto
    then obtain q where "(n, q) \<in> set (entries_of dir (files w))"
      by (auto simp: bodies_def entries_of_iff present_def)
    then have "entries_of dir (files w) \<noteq> []" by auto
    then have "shards_of dir (files w) \<noteq> []" by (metis length_0_conv length_shards)
    then have keep using assms(5) by simp
    with q that Existing have "\<exists>w1 x. allocate_and_install (base e) dir cap ?src w1 = (Inr (Existing name), x)"
      by (auto simp: write_shard_in_dir_def io_bind_Inr io_return_def)
    then show ?thesis by (auto dest: allocate_returns)
  next
    case (Allocated n)
    from allocated_installed [OF assms(3,4), of ?src "base e" cap "[s]" n v] q that Allocated show ?thesis by auto
  qed
  ultimately show ?thesis using w' by auto
qed

lemma io_bind_left: "m w = (Inl x, w') \<Longrightarrow> io_bind m k w = (Inl x, w')"
  by (simp add: io_bind_def)

lemma io_bind_right: "m w = (Inr a, w') \<Longrightarrow> io_bind m k w = k a w'"
  by (simp add: io_bind_def)

section \<open>What is kept when a shard is added\<close>

lemma keeps_present: "keeps dir raw moved f0 f \<Longrightarrow> shard_seq_of dir p \<noteq> None \<Longrightarrow> map_of f0 p = Some c \<Longrightarrow> map_of f p = Some c"
  using keeps_old by (fastforce simp: shard_seq_of_numbered)

lemma stage_true_grows:
  assumes "stage_true e dir f0 hc" "keeps dir raw moved f0 f"
  shows "stage_true e dir f hc"
proof -
  have old: "map_of f p = Some c" if "shard_seq_of dir p \<noteq> None" "map_of f0 p = Some c" for p c
    using keeps_present [OF assms(2) that] .
  have "listed dir f es \<and> bytes_of f es = bytes_of f0 es" if "listed dir f0 es" for es
    using that old by (fastforce simp: listed_def bytes_of_def present_def)
  then have l: "listed dir f es" "bytes_of f es = bytes_of f0 es" if "listed dir f0 es" for es
    using that by simp_all
  have "file_entries_true e dir f (hc_entries hc)"
    using assms(1) old unfolding stage_true_def file_entries_true_def by meson
  moreover have "dir_entries_true e dir f (hc_entries hc)"
    unfolding dir_entries_true_def
  proof (intro allI impI)
    fix k i covered sha assume "bt_get (hc_entries hc) (''d:'' @ k) = Some (CacheDir i covered sha)"
    with assms(1) obtain es where es: "listed dir f0 es" "map si_path i = map (stage_digest e \<circ> snd) es"
      "covered \<le> length (concat (bytes_of f0 es))" "sha = hex (sha256 e (take covered (concat (bytes_of f0 es))))"
      unfolding stage_true_def dir_entries_true_def by blast
    with l [OF es(1)] show "\<exists>es. listed dir f es \<and> map si_path i = map (stage_digest e \<circ> snd) es \<and>
        covered \<le> length (concat (bytes_of f es)) \<and> sha = hex (sha256 e (take covered (concat (bytes_of f es))))"
      by (intro exI [of _ es]) simp
  qed
  ultimately show ?thesis using assms(1) by (simp add: stage_true_def)
qed

lemma apart_before: "apart e dir f \<Longrightarrow> keeps dir raw moved f0 f \<Longrightarrow> apart e dir f0"
  unfolding apart_def by (rule inj_on_subset) (auto simp: present_def dest: keeps_present)

lemma settled_keeps: "settled dir raw moved f0 f \<Longrightarrow> keeps dir raw moved f0 f"
  by (simp add: settled_def)

section \<open>Processing a JSONL source\<close>

text \<open>Everything complete in the first \<open>lo\<close> bytes lies before \<open>k\<close>.\<close>

definition read_up_to :: "bytes \<Rightarrow> nat \<Rightarrow> nat \<Rightarrow> bool" where
  "read_up_to C lo k \<longleftrightarrow> (\<exists>m. lo \<le> m \<and> m \<le> length C \<and> k \<le> m \<and> newline \<notin> set (drop k (take m C)))"

lemma jsonl_read_result:
  assumes "read_jsonl_delta e p old False hc w = (Inr (d, hc1), w1)" "complete_lines (rd_bytes d) = (ls, n)"
    and "appending e p lo C" "cache_true e p C dir f hc" "old_at e C b old" "b \<le> lo" "line_end C b"
  shows "files w1 = files w \<and> cache_true e p C dir f hc1 \<and> \<not> rd_reset d \<and> rd_base_offset d = b \<and>
    line_end C (b + n) \<and> seal_framed ls = drop b (take (b + n) C) \<and> (ls = [] \<longleftrightarrow> n = 0) \<and>
    read_up_to C lo (b + n)"
proof -
  from read_attempts_result [OF assms(1) [unfolded read_jsonl_delta_def] assms(3-6)] obtain m where
    r: "files w1 = files w" "cache_true e p C dir f hc1" "\<not> rd_reset d" "rd_base_offset d = b"
      "lo \<le> m" "m \<le> length C" "rd_bytes d = drop b (take m C)" "rd_source_len d = m" by blast
  have cl: "complete_lines (drop b (take m C)) = (ls, n)" using assms(2) r(7) by simp
  then have "newline \<notin> set (drop n (drop b (take m C)))" unfolding complete_lines_result by blast
  then have "newline \<notin> set (drop (b + n) (take m C))" by (metis add.commute drop_drop)
  moreover from complete_of_rest [OF cl assms(7) _ r(6)] assms(6) r(5) have
    "line_end C (b + n) \<and> seal_framed ls = drop b (take (b + n) C) \<and> b + n \<le> m \<and> (ls = [] \<longleftrightarrow> n = 0)" by simp
  ultimately show ?thesis using r unfolding read_up_to_def by blast
qed

lemma process_jsonl_result:
  assumes "process_jsonl e r old False machine cap manifest hc w = (res, w')" "p = sr_absolute_path r"
    and "dir = session_shard_dir machine (sr_id r)"
    and src: "appending e p lo C" "cache_true e p C dir (files w) hc" "old_at e C b old" "b \<le> lo" "line_end C b"
    and none: "(case manifest of None \<Rightarrow> True | Some m \<Rightarrow> bt_get m (sr_id r) = None)"
    and dir: "dir_ok dir (files w)" "counter_room dir (files w)" "b = 0 \<longrightarrow> shards_of dir (files w) = []"
  shows "\<exists>b' raw. b \<le> b' \<and> line_end C b' \<and> raw = drop b (take b' C) \<and>
    (files w' = files w \<or> raw \<noteq> [] \<and> settled dir raw None (files w) (files w')) \<and>
    (\<forall>x hc'. res = Inr (x, hc') \<longrightarrow> cache_true e p C dir (files w) hc' \<and> pc_state x = entry_at e C b' \<and> read_up_to C lo b' \<and>
       (if co_shard (pc_outcome x) = None then b' = b \<and> files w' = files w
        else raw \<noteq> [] \<and> (\<exists>n. installed dir raw None (files w) (shard_path_in_dir dir n cap) n (files w'))))"
proof (cases "read_jsonl_delta e p old False hc w")
  case (Pair res1 w1)
  have f1: "files w1 = files w"
    using obeysD [OF readonly_attempts Pair [unfolded read_jsonl_delta_def]] .
  have quiet: "\<exists>b' raw. b \<le> b' \<and> line_end C b' \<and> raw = drop b (take b' C) \<and> (files v = files w \<or> raw \<noteq> [] \<and> settled dir raw None (files w) (files v)) \<and>
    (\<forall>x hc'. Inl er = Inr (x, hc') \<longrightarrow> P x hc' b' raw)" if "files v = files w" for v er P
    using that src(5) by (intro exI [of _ b]) simp
  note run0 = assms(1) [unfolded process_jsonl_def Let_def, folded assms(2)]
  show ?thesis
  proof (cases res1)
    case (Inl er)
    have "res = Inl er \<and> w' = w1" using run0 unfolding io_bind_left [of "read_jsonl_delta e p old False hc", OF Pair [unfolded Inl]] by simp
    with f1 quiet [of w' er] show ?thesis by simp
  next
    case (Inr y)
    obtain d hc1 where y: "y = (d, hc1)" by (cases y)
    obtain ls n where cl: "complete_lines (rd_bytes d) = (ls, n)" by (cases "complete_lines (rd_bytes d)")
    note rd = jsonl_read_result [OF Pair [unfolded Inr y] cl src]
    have nm: "\<not> manifest_holds_this_framed e manifest (sr_id r) fr" for fr
      using none by (auto simp: manifest_holds_this_framed_def split: option.splits)
    have rdb: "rd_base_offset d = b" "rd_reset d = False" using rd by simp_all
    let ?state = "if ls = [] then io_return ((case old of Some en \<Rightarrow> en | None \<Rightarrow> plain_entry 0 (hex (sha256 e [])) False), hc1)
                 else plain_state e p (b + n) hc1"
    let ?rest = "\<lambda>(st, hc2). io_bind (if ls = [] then io_return None
                 else io_bind (write_sealed e (jsonl_writer_keeps_repeats r old d) machine (sr_id r) ls cap) (\<lambda>name.
                   io_return (Some name))) (\<lambda>shard.
        io_return (\<lparr>pc_outcome = \<lparr>co_source_bytes = rd_source_len d, co_bytes_read = rd_bytes_read d,
            co_prefix_bytes_validated = rd_prefix_bytes_validated d, co_lines_written = length ls, co_shard = shard,
            co_reset = False, co_compressed = False\<rparr>, pc_state = st\<rparr>, hc2))"
    have run: "io_bind ?state ?rest w1 = (res, w')"
      using run0 unfolding io_bind_right [of "read_jsonl_delta e p old False hc", OF Pair [unfolded Inr y]]
      by (simp only: prod.case cl fst_conv snd_conv rdb nm simp_thms if_False)
    have keep: "jsonl_writer_keeps_repeats r old d \<or> shards_of dir (files w) = []"
      using dir(3) rd by (auto simp: jsonl_writer_keeps_repeats_def)
    show ?thesis
    proof (cases "ls = []")
      case True
      with run rd have res: "res = Inr (\<lparr>pc_outcome = \<lparr>co_source_bytes = rd_source_len d, co_bytes_read = rd_bytes_read d,
            co_prefix_bytes_validated = rd_prefix_bytes_validated d, co_lines_written = 0, co_shard = None,
            co_reset = rd_reset d, co_compressed = False\<rparr>,
            pc_state = (case old of Some en \<Rightarrow> en | None \<Rightarrow> plain_entry 0 (hex (sha256 e [])) False)\<rparr>, hc1)" "w' = w1"
        by (simp_all add: io_return_def)
      have st: "(case old of Some en \<Rightarrow> en | None \<Rightarrow> plain_entry 0 (hex (sha256 e [])) False) = entry_at e C b"
        using src(3) by (auto simp: old_at_def entry_at_def)
      have "b = b + n" using True rd by simp
      then show ?thesis using res rd st src(5)
        by (intro exI [of _ b] exI [of _ "drop b (take b C)"]) auto
    next
      case False
      show ?thesis
      proof (cases "?state w1")
        case ps0: (Pair res2 w2)
        then have ps: "plain_state e p (b + n) hc1 w1 = (res2, w2)" using False by simp
        have f2: "files w2 = files w"
          using obeysD [OF readonly_plain ps] f1 by simp
        show ?thesis
        proof (cases res2)
          case (Inl er)
          with run ps False have "res = Inl er" "w' = w2" by (simp_all add: io_bind_def)
          with f2 quiet [of w' er] show ?thesis by simp
        next
          case stv: (Inr z)
          obtain st hc2 where z: "z = (st, hc2)" by (cases z)
          note psr = plain_state_result [OF ps [unfolded stv z] src(1) rd [THEN conjunct2, THEN conjunct1]]
          obtain res3 w3 where wr: "write_sealed e (jsonl_writer_keeps_repeats r old d) machine (sr_id r) ls cap w2 = (res3, w3)"
            by fastforce
          note wres = write_sealed_result [OF wr assms(3), unfolded f2, OF dir(1,2) keep]
          let ?raw = "drop b (take (b + n) C)"
          have raw: "seal_framed ls = ?raw" "?raw \<noteq> []" using rd False by (auto simp: neq_Nil_conv)
          have run2: "?rest (st, hc2) w2 = (res, w')"
            using run unfolding io_bind_right [of ?state, OF ps0 [unfolded stv z]] .
          have out0: "w' = w3 \<and> ((\<exists>x. res3 = Inl x \<and> res = Inl x) \<or> (\<exists>name x. res3 = Inr name \<and> res = Inr (x, hc2) \<and>
              co_shard (pc_outcome x) = Some name \<and> pc_state x = st))"
            using run2 wr False by (cases res3) (auto simp: io_bind_def io_return_def)
          note out = out0 [THEN conjunct1] out0 [THEN conjunct2]
          have "\<forall>x hc'. res = Inr (x, hc') \<longrightarrow> cache_true e p C dir (files w) hc' \<and> pc_state x = entry_at e C (b + n) \<and> read_up_to C lo (b + n) \<and>
            (if co_shard (pc_outcome x) = None then b + n = b \<and> files w' = files w
             else ?raw \<noteq> [] \<and> (\<exists>n. installed dir ?raw None (files w) (shard_path_in_dir dir n cap) n (files w')))"
          proof (intro allI impI)
            fix x hc' assume "res = Inr (x, hc')"
            with out(2) obtain name where x: "res3 = Inr name" "hc' = hc2" "co_shard (pc_outcome x) = Some name" "pc_state x = st"
              by auto
            from wres x(1) have "\<exists>n. installed dir ?raw None (files w) (shard_path_in_dir dir n cap) n (files w3)"
              unfolding raw(1) by blast
            with x psr raw(2) out(1) rd show "cache_true e p C dir (files w) hc' \<and> pc_state x = entry_at e C (b + n) \<and> read_up_to C lo (b + n) \<and>
              (if co_shard (pc_outcome x) = None then b + n = b \<and> files w' = files w
               else ?raw \<noteq> [] \<and> (\<exists>n. installed dir ?raw None (files w) (shard_path_in_dir dir n cap) n (files w')))"
              by (simp del: drop_eq_Nil)
          qed
          moreover have "?raw \<noteq> [] \<and> settled dir ?raw None (files w) (files w')"
            using wres raw(2) unfolding raw(1) out(1) by blast
          moreover have "b \<le> b + n" "line_end C (b + n)" using rd by simp_all
          ultimately show ?thesis by blast
        qed
      qed
    qed
  qed
qed

section \<open>The position a pass starts from\<close>

lemma sum_sizes_result:
  "sum_sizes e es acc w = (Inr n, w') \<Longrightarrow> files w' = files w \<and> n = acc + sum_list (map length (bytes_of (files w) es))"
proof (induction es arbitrary: acc w)
  case Nil
  then show ?case by (simp add: io_return_def bytes_of_def)
next
  case (Cons x es)
  obtain q p where x: "x = (q, p)" by (cases x)
  from Cons.prems obtain m w1 where 1: "stat_stage e p w = (Inr m, w1)" "sum_sizes e es (acc + fi_size m) w1 = (Inr n, w')"
    by (auto simp: x io_bind_Inr io_fail_def split: if_splits)
  from Cons.IH [OF 1(2)] stat_stage_result [OF 1(1)] show ?case by (auto simp: x bytes_of_def)
qed

lemma sum_bytes_entries:
  "sum_list (map length (bytes_of f (entries_of dir f))) = length (session_body dir f)"
proof -
  let ?g = "\<lambda>(n, p). length (the (map_of f p))"
  have "sum_list (map ?g (entries_of dir f)) = sum_list (map ?g (sort_entries (entries_of dir f)))"
    unfolding sum_mset_sum_list [symmetric] mset_map by (simp add: sort_entries_def)
  then show ?thesis
    by (simp add: bytes_of_def session_body_def length_concat comp_def case_prod_unfold)
qed

lemma stage_len_result:
  "session_stage_len e machine s w = (Inr n, w') \<Longrightarrow> dir = session_shard_dir machine s \<Longrightarrow>
     files w' = files w \<and> n = length (session_body dir (files w))"
  by (auto simp: session_stage_len_def io_bind_Inr sum_bytes_entries dest!: sorted_entries_result sum_sizes_result)

lemma read_shards_result: "read_shards_of e es w = (Inr cs, w') \<Longrightarrow> files w' = files w \<and> cs = bytes_of (files w) es"
proof (induction es arbitrary: cs w)
  case Nil
  then show ?case by (simp add: io_return_def bytes_of_def)
next
  case (Cons x es)
  obtain q p where x: "x = (q, p)" by (cases x)
  from Cons.prems obtain c w1 ds where 1: "read_file e (StageSide IoError) p w = (Inr c, w1)" "read_shards_of e es w1 = (Inr ds, w')"
    "cs = c # ds" by (auto simp: x io_bind_Inr io_return_def)
  from Cons.IH [OF 1(2)] read_file_result [OF 1(1)] 1(3) show ?case by (auto simp: x bytes_of_def)
qed

lemma sealed_shards_result:
  "stage_sealed_shards e machine s w = (Inr cs, w') \<Longrightarrow> dir = session_shard_dir machine s \<Longrightarrow>
     files w' = files w \<and> cs = map snd (shards_of dir (files w))"
  by (auto simp: stage_sealed_shards_def io_bind_Inr bytes_of_shards [symmetric] dest!: sorted_entries_result read_shards_result)

lemma covered_whole:
  assumes "line_end C b"
  shows "covered_source_prefix (take b C) (take b C) = Some b"
proof -
  obtain ls rest where l: "take b C = seal_framed ls @ rest" "clean ls" "newline \<notin> set rest" using framed_exists by blast
  have "rest = []"
  proof (rule ccontr)
    assume "rest \<noteq> []"
    then have "last (take b C) = last rest" "take b C \<noteq> []" using l(1) by simp_all
    moreover have "last (take b C) = newline" if "take b C \<noteq> []"
      using that assms by (simp add: line_end_def last_conv_nth min_absorb2)
    ultimately show False using l(3) \<open>rest \<noteq> []\<close> last_in_set by metis
  qed
  with complete_lines_framed [OF l(2), of "[]"] l(1) have cl: "complete_lines (take b C) = (ls, b)"
    using assms by (simp add: line_end_def min_absorb2) (metis length_take min_absorb2)
  from covered_result [of "take b C" "take b C"] obtain k where
    k: "covered_source_prefix (take b C) (take b C) = Some (length (seal_framed (take k ls)))" "best_cover ls ls k"
    unfolding cl by auto
  have "length ls \<le> k" using k(2) by (simp add: best_cover_def covers_def)
  with k(1) l(1) \<open>rest = []\<close> have "covered_source_prefix (take b C) (take b C) = Some (length (take b C))" by simp
  with assms show ?thesis by (simp add: line_end_def min_absorb2)
qed

text \<open>No summary row of the session is known.\<close>

definition no_row :: "facts option \<Rightarrow> string \<Rightarrow> bool" where
  "no_row manifest s \<longleftrightarrow> (case manifest of None \<Rightarrow> True | Some m \<Rightarrow> bt_get m s = None)"

definition jsonl_record :: "session_record \<Rightarrow> bool" where
  "jsonl_record r \<longleftrightarrow> \<not> sr_compressed r \<and> \<not> is_zstd_path (sr_absolute_path r) \<and> is_jsonl_path (sr_absolute_path r)"

lemma stage_prefix_result:
  assumes "stage_prefix_entry e r machine manifest hc w = (Inr (old, hc'), w')" "dir = session_shard_dir machine (sr_id r)"
    and "jsonl_record r" "no_row manifest (sr_id r)" "appending e (sr_absolute_path r) lo C" "b \<le> lo"
    and "session_body dir (files w) = take b C" "line_end C b" "\<forall>(n, c) \<in> set (shards_of dir (files w)). c \<noteq> []"
  shows "files w' = files w \<and> hc' = hc \<and> old = (if b = 0 then None else Some (entry_at e C b))"
proof -
  let ?p = "sr_absolute_path r"
  from assms(1) obtain sealed w1 where s: "stage_sealed_shards e machine (sr_id r) w = (Inr sealed, w1)"
    by (auto simp: stage_prefix_entry_def io_bind_Inr Let_def)
  from sealed_shards_result [OF s assms(2)] have w1: "files w1 = files w" and sealed: "sealed = map snd (shards_of dir (files w))" by auto
  have all: "concat sealed = take b C" using assms(7) by (simp add: sealed session_body_shards)
  have len: "length (take b C) = b" using assms(8) by (simp add: line_end_def)
  have nil: "sealed = [] \<longleftrightarrow> b = 0"
  proof
    assume "b = 0"
    with all have "\<forall>c \<in> set sealed. c = []" by simp
    with assms(9) show "sealed = []" unfolding sealed by (cases "shards_of dir (files w)") auto
  qed (use all len in auto)
  show ?thesis
  proof (cases "sealed = []")
    case True
    with assms(1,3,4) s nil w1 show ?thesis
      by (auto simp: stage_prefix_entry_def io_bind_Inr Let_def jsonl_record_def retained_prefix_entry_def no_row_def io_return_def
          split: option.splits)
  next
    case False
    with assms(1,3) s obtain w2 where j: "jsonl_prefix_entry_from_shards e ?p (take b C) w1 = (Inr old, w2)" "hc' = hc" "w' = w2"
      by (auto simp: stage_prefix_entry_def io_bind_Inr Let_def jsonl_record_def io_return_def all)
    from j(1) obtain m v src v2 where st: "stat_source e ?p w1 = (Inr m, v)" "read_range e ?p 0 (min (fi_size m) b) v = (Inr src, v2)"
      and rest: "(case covered_source_prefix (take b C) src of None \<Rightarrow> io_fail Panicked
        | Some offset \<Rightarrow> if offset = 0 then io_return None
           else io_return (Some (plain_entry offset (hex (sha256 e (take offset src))) False))) v2 = (Inr old, w2)"
      using len by (auto simp: jsonl_prefix_entry_from_shards_def io_bind_Inr)
    note sr = stat_source_result [OF st(1) assms(5)] read_range_result [OF st(2) assms(5)]
    have "min (fi_size m) b = b" using sr assms(6) by simp
    then have src: "src = take b C" using sr by simp
    with rest covered_whole [OF assms(8)] nil False have "old = Some (entry_at e C b)" "w2 = v2"
      by (auto simp: io_return_def entry_at_def)
    with j nil False sr w1 show ?thesis by simp
  qed
qed

end
