(* ===== verification/Collect_Pass.thy ===== *)
theory Collect_Pass
  imports Collect_Spec
begin

text \<open>
  The invariant between a JSONL source that only grows, the stage and the stored position, and its
  preservation by whole passes, whether they end well or fail at any operation.
\<close>

section \<open>The invariant\<close>

text \<open>
  The stage holds exactly the first \<open>b\<close> bytes of the source, up to the end of a line; a stored position is
  at or before \<open>b\<close> and its claim is of the first shards of the session.
\<close>

definition debt_tracks :: "('x colenv_scheme) \<Rightarrow> session_record \<Rightarrow> string \<Rightarrow> bytes \<Rightarrow> nat \<Rightarrow> (nat \<times> bytes) list \<Rightarrow> 'c debt_entry \<Rightarrow> bool" where
  "debt_tracks e r machine C b cs d \<longleftrightarrow> de_machine d = machine \<and> de_session_id d = sr_id r \<and>
     (\<exists>k \<le> b. de_cursor d = entry_at e C k) \<and> (\<exists>claimed. prefix claimed cs \<and> de_shards d = fact_of e claimed)"

definition stored_tracks :: "('x colenv_scheme) \<Rightarrow> session_record \<Rightarrow> string \<Rightarrow> bytes \<Rightarrow> nat \<Rightarrow> (nat \<times> bytes) list \<Rightarrow> 'c debt_entry option \<Rightarrow> bool" where
  "stored_tracks e r machine C b cs stored \<longleftrightarrow> (\<forall>d. stored = Some d \<longrightarrow> debt_tracks e r machine C b cs d)"

definition stage_tracks :: "session_record \<Rightarrow> string \<Rightarrow> bytes \<Rightarrow> nat \<Rightarrow> fs \<Rightarrow> bool" where
  "stage_tracks r machine C b f \<longleftrightarrow> (let dir = session_shard_dir machine (sr_id r) in
     dir_ok dir f \<and> unique_numbers dir f \<and> session_body dir f = take b C \<and> line_end C b \<and>
     (\<forall>(n, c) \<in> set (shards_of dir f). c \<noteq> []))"

definition tracks :: "('x colenv_scheme) \<Rightarrow> session_record \<Rightarrow> string \<Rightarrow> string \<Rightarrow> bytes \<Rightarrow> nat \<Rightarrow> 'c pass_state \<Rightarrow> fs \<Rightarrow> bool" where
  "tracks e r key machine C b st f \<longleftrightarrow> (let dir = session_shard_dir machine (sr_id r) in
     stage_tracks r machine C b f \<and> cache_true e (sr_absolute_path r) C dir f (ps_cache st) \<and>
     bt_ok (ps_debts st) \<and> no_row (ps_manifest st) (sr_id r) \<and>
     stored_tracks e r machine C b (shards_of dir f) (bt_get (ps_debts st) key))"

text \<open>Fewer than a million shards were ever numbered.\<close>

definition below_million :: "path \<Rightarrow> fs \<Rightarrow> bool" where
  "below_million dir f \<longleftrightarrow> (\<forall>c. counter_value dir f = Some c \<longrightarrow> c < 1000000)"

lemma below_million_room: "below_million dir f \<Longrightarrow> counter_room dir f"
  by (fastforce simp: below_million_def counter_room_def counter_value_def u64_max_def split: option.splits)

lemma debt_tracks_grows:
  "debt_tracks e r machine C b cs d \<Longrightarrow> b \<le> b' \<Longrightarrow> prefix cs cs' \<Longrightarrow> debt_tracks e r machine C b' cs' d"
  unfolding debt_tracks_def by (meson le_trans prefix_order.trans)

lemma line_end_length: "line_end C b \<Longrightarrow> length (take b C) = b"
  by (simp add: line_end_def)

text \<open>What a writer of the next lines leaves is again a state of the invariant, with or without them.\<close>

lemma shards_step:
  assumes "keeps dir raw None f0 f" "unique_numbers dir f0" "distinct (map fst f0)" "distinct (map fst f)"
  shows "set (entries_of dir f) = set (entries_of dir f0) \<and> shards_of dir f = shards_of dir f0 \<or>
    set (entries_of dir f) \<noteq> set (entries_of dir f0) \<and> (\<exists>n. shards_of dir f = shards_of dir f0 @ [(n, raw)])"
proof -
  let ?g = "\<lambda>(n, p). (n, the (map_of f p))"
  have old: "map ?g (sort_entries (entries_of dir f0)) = shards_of dir f0"
    unfolding shards_of_def using entries_kept [OF assms(1)]
    by (intro map_cong) (auto simp: sort_entries_def)
  from entries_extend [OF assms] consider
    (same) "set (entries_of dir f) = set (entries_of dir f0)" "sort_entries (entries_of dir f) = sort_entries (entries_of dir f0)"
    | (more) n p where "set (entries_of dir f) \<noteq> set (entries_of dir f0)" "map_of f p = Some raw"
      "sort_entries (entries_of dir f) = sort_entries (entries_of dir f0) @ [(n, p)]" by blast
  then show ?thesis
  proof cases
    case same
    then have "shards_of dir f = shards_of dir f0" unfolding shards_of_def [of dir f] by (simp only: old)
    with same show ?thesis by simp
  next
    case more
    then have "shards_of dir f = shards_of dir f0 @ [(n, raw)]"
      unfolding shards_of_def [of dir f] by (simp only: map_append old) simp
    with more show ?thesis by blast
  qed
qed

lemma stage_tracks_settled:
  assumes "stage_tracks r machine C b f0" "dir = session_shard_dir machine (sr_id r)"
    and "settled dir raw None f0 f" "raw = drop b (take b' C)" "raw \<noteq> []" "b \<le> b'" "line_end C b'"
  shows "\<exists>k. (k = b \<or> k = b') \<and> stage_tracks r machine C k f \<and> prefix (shards_of dir f0) (shards_of dir f) \<and>
    (set (entries_of dir f) \<noteq> set (entries_of dir f0) \<longrightarrow> k = b')"
proof -
  have t: "dir_ok dir f0" "unique_numbers dir f0" "session_body dir f0 = take b C" "line_end C b"
    "\<forall>(n, c) \<in> set (shards_of dir f0). c \<noteq> []" using assms(1,2) by (auto simp: stage_tracks_def Let_def)
  have k: "keeps dir raw None f0 f" "dir_ok dir f" using assms(3) by (auto simp: settled_def dir_ok_def)
  have d: "distinct (map fst f0)" "distinct (map fst f)" using t(1) k(2) by (auto simp: dir_ok_def)
  have u: "unique_numbers dir f" by (rule keeps_unique [OF k(1) t(2)])
  have join: "take b C @ raw = take b' C" using assms(4,6) by (metis append_take_drop_id min_absorb1 take_take)
  from shards_step [OF k(1) t(2) d] show ?thesis
  proof (elim disjE conjE exE)
    assume "set (entries_of dir f) = set (entries_of dir f0)" "shards_of dir f = shards_of dir f0"
    with t k(2) u show ?thesis unfolding stage_tracks_def Let_def assms(2) [symmetric]
      by (intro exI [of _ b]) (simp add: session_body_shards)
  next
    fix n assume "shards_of dir f = shards_of dir f0 @ [(n, raw)]"
    with t k(2) u join assms(5,7) show ?thesis unfolding stage_tracks_def Let_def assms(2) [symmetric]
      by (intro exI [of _ b']) (simp add: session_body_shards)
  qed
qed

lemma installed_listed:
  assumes "installed dir raw None f0 (shard_path_in_dir dir n cap) n f" "below_million dir f"
  shows "set (entries_of dir f) \<noteq> set (entries_of dir f0)"
proof -
  let ?p = "shard_path_in_dir dir n cap"
  have i: "map_of f ?p = Some raw" "map_of f0 ?p = None" "n \<le> u64_max" "map_of f (ctr dir) = Some (dec n)"
    using assms(1) by (simp_all add: installed_def)
  have "counter_value dir f = Some n" using i(3,4) by (simp add: counter_value_def classify_dec)
  then have "n < 1000000" using assms(2) by (simp add: below_million_def)
  then have "(n, ?p) \<in> set (entries_of dir f)" "(n, ?p) \<notin> set (entries_of dir f0)"
    using i(1,2) by (auto simp: entries_of_iff present_def shard_seq_of_numbered)
  then show ?thesis by blast
qed

section \<open>The steps of a pass\<close>

lemma io_bind_cases:
  assumes "io_bind m k w = (res, w')"
  obtains (left) x where "m w = (Inl x, w')" "res = Inl x" | (right) a w1 where "m w = (Inr a, w1)" "k a w1 = (res, w')"
  using assms by (cases "m w"; cases "fst (m w)") (auto simp: io_bind_def)

lemma cache_true_stage:
  "cache_true e p C dir f hc \<Longrightarrow> stage_true e dir f hc' \<Longrightarrow> source_view hc' = source_view hc \<Longrightarrow> cache_true e p C dir f hc'"
  by (simp add: cache_true_def source_true_def)

lemma prove_result:
  assumes "prove_debt e d machine remote st w = (Inr (v, st1), w')" "dir = session_shard_dir machine (sr_id r)"
    and "debt_tracks e r machine C b (shards_of dir (files w)) d" "cache_true e p C dir (files w) (ps_cache st)" "apart e dir (files w)"
  shows "files w' = files w \<and> v = OwedOnStage \<and> (\<exists>hc. st1 = st\<lparr>ps_cache := hc\<rparr> \<and> cache_true e p C dir (files w) hc)"
proof -
  from assms(1) obtain u hc w1 where u: "verify_debt e d machine remote (ps_manifest st) (ps_cache st) w = (Inr (u, hc), w1)"
    by (auto simp: prove_debt_def io_bind_Inr)
  from u obtain q hc1 w2 where l: "debt_settled_locally e d machine (ps_manifest st) (ps_cache st) w = (Inr (q, hc1), w2)"
    and q: "(case q of Some v \<Rightarrow> io_return (v, hc1) | None \<Rightarrow> io_return (archive_verdict remote machine d, hc1)) w2 =
      (Inr (u, hc) :: collect_error + _, w1)"
    by (auto simp: verify_debt_def io_bind_Inr)
  have d: "de_machine d = machine" "dir = session_shard_dir machine (de_session_id d)"
    "claim_covered e (shards_of dir (files w)) (de_shards d)"
    using assms(2,3) covered_later by (auto simp: debt_tracks_def)
  have st: "stage_true e dir (files w) (ps_cache st)" using assms(4) by (simp add: cache_true_def)
  note r = debt_locally_result [OF l d(1,2) st assms(5)]
  then have "q = Some OwedOnStage" using d(3) by simp
  with q r have "u = OwedOnStage" "hc = hc1" "w1 = w2" by (simp_all add: io_return_def)
  then have u': "verify_debt e d machine remote (ps_manifest st) (ps_cache st) w = (Inr (OwedOnStage, hc1), w2)" using u by simp
  have "v = OwedOnStage \<and> st1 = st\<lparr>ps_cache := hc1\<rparr> \<and> w' = w2"
    using assms(1) unfolding prove_debt_def io_bind_right [of "verify_debt e d machine remote (ps_manifest st) (ps_cache st)", OF u']
    by (simp add: io_return_def)
  then show ?thesis using r cache_true_stage [OF assms(4)] by blast
qed

lemma start_result:
  assumes "starting_position e r stored True machine st w = (Inr (old, st1), w')" "dir = session_shard_dir machine (sr_id r)"
    and "jsonl_record r" "byte_equality_establishes_event_identity r" "appending e (sr_absolute_path r) lo C"
    and "stage_tracks r machine C b (files w)" "no_row (ps_manifest st) (sr_id r)"
    and "stored_tracks e r machine C b (shards_of dir (files w)) stored"
    and le: "b \<le> lo"
  shows "files w' = files w \<and> st1 = st \<and> old_at e C b old"
proof -
  have t: "session_body dir (files w) = take b C" "line_end C b" "\<forall>(n, c) \<in> set (shards_of dir (files w)). c \<noteq> []"
    using assms(2,6) by (auto simp: stage_tracks_def Let_def)
  note sp = stage_prefix_result [OF _ assms(2,3) _ assms(5) le t]
  show ?thesis
  proof (cases stored)
    case None
    have free: "\<not> (sr_provenance r \<and> \<not> sr_movable_root r)"
      using assms(4) by (auto simp: byte_equality_establishes_event_identity_def)
    have "starting_position e r None True machine st =
      io_bind (stage_prefix_entry e r machine None (ps_cache st)) (\<lambda>(en, hc). io_return (en, st\<lparr>ps_cache := hc\<rparr>))"
      using free unfolding starting_position_def by (simp only: if_False option.case)
    with assms(1) None obtain hc where "stage_prefix_entry e r machine None (ps_cache st) w = (Inr (old, hc), w')" "st1 = st\<lparr>ps_cache := hc\<rparr>"
      by (auto simp only: io_bind_Inr io_return_Inr prod.inject split_paired_Ex prod.case)
    note hc = this
    have "files w' = files w \<and> hc = ps_cache st \<and> old = (if b = 0 then None else Some (entry_at e C b))"
      by (rule sp [OF hc(1)]) (simp add: no_row_def)
    then show ?thesis using hc(2) by (cases "b = 0") (simp_all add: old_at_def)
  next
    case (Some d)
    with assms(8) obtain k where d: "k \<le> b" "de_cursor d = entry_at e C k" by (auto simp: debt_tracks_def stored_tracks_def)
    from assms(1) Some obtain en hc where c: "cursor_or_stage_covered_position e r d True machine (ps_manifest st) (ps_cache st) w = (Inr (en, hc), w')"
      and out: "old = Some en" "st1 = st\<lparr>ps_cache := hc\<rparr>"
      by (auto simp: starting_position_def io_bind_Inr io_return_def)
    from c assms(3) obtain n w1 where n: "session_stage_len e machine (sr_id r) w = (Inr n, w1)"
      by (auto simp: cursor_or_stage_covered_position_def io_bind_Inr jsonl_record_def Let_def)
    from stage_len_result [OF n assms(2)] have w1: "files w1 = files w" "n = b"
      using t line_end_length [OF t(2)] by auto
    show ?thesis
    proof (cases "b \<le> k")
      case True
      then have "k = b" using d(1) by simp
      with c n w1 assms(3,7) d(2) have "en = entry_at e C b" "hc = ps_cache st" "w' = w1"
        by (auto simp: cursor_or_stage_covered_position_def io_bind_Inr jsonl_record_def Let_def no_row_def io_return_def
            entry_at_def plain_entry_def split: option.splits if_splits)
      with out w1 show ?thesis by (simp add: old_at_def)
    next
      case False
      with c n w1 assms(3,7) d(2) obtain cov hc1 where cv: "stage_prefix_entry e r machine (ps_manifest st) (ps_cache st) w1 = (Inr (cov, hc1), w')"
        "en = further (de_cursor d) cov" "hc = hc1"
        by (auto simp: cursor_or_stage_covered_position_def io_bind_Inr jsonl_record_def Let_def io_return_def
            entry_at_def plain_entry_def split: if_splits)
      have "files w' = files w1 \<and> hc1 = ps_cache st \<and> cov = (if b = 0 then None else Some (entry_at e C b))"
        by (rule stage_prefix_result [OF cv(1) assms(2,3) assms(7) assms(5) le]) (use t w1 in simp_all)
      with False cv d(2) have "en = entry_at e C b" "hc = ps_cache st" "files w' = files w1"
        by (auto simp: further_def entry_at_def plain_entry_def)
      with out w1 show ?thesis by (simp add: old_at_def)
    qed
  qed
qed

lemma new_debt_result:
  assumes "new_debt e r stored True machine x hc w = (Inr (d, hc'), w')" "dir = session_shard_dir machine (sr_id r)"
    and "pc_state x = entry_at e C b" "cache_true e p C dir (files w) hc" "apart e dir (files w)"
    and "stored_tracks e r machine C b (shards_of dir (files w)) stored"
  shows "files w' = files w \<and> cache_true e p C dir (files w) hc' \<and> debt_tracks e r machine C b (shards_of dir (files w)) d \<and>
    de_cursor d = entry_at e C b \<and>
    de_shards d = (if stored \<noteq> None \<and> co_shard (pc_outcome x) = None then de_shards (the stored) else fact_of e (shards_of dir (files w)))"
proof -
  let ?keep = "stored \<noteq> None \<and> co_shard (pc_outcome x) = None"
  from assms(1) obtain s w1 where s: "(if ?keep then io_return (de_shards (the stored), hc) else stage_shard_fact e machine (sr_id r) hc) w = (Inr (s, hc'), w')"
    and d: "d = \<lparr>de_machine = machine, de_session_id = sr_id r, de_cursor = pc_state x, de_shards = s\<rparr>"
    by (cases stored) (auto simp: new_debt_def io_bind_Inr io_return_def split: if_splits)
  show ?thesis
  proof (cases ?keep)
    case True
    with s d assms(3,4,6) show ?thesis by (auto simp: io_return_def debt_tracks_def stored_tracks_def)
  next
    case False
    with s have f: "shard_fact_in_dir e dir hc w = (Inr (s, hc'), w')" by (auto simp: stage_shard_fact_def assms(2))
    have "stage_true e dir (files w) hc" using assms(4) by (simp add: cache_true_def)
    from shard_fact_result [OF f this assms(5)] cache_true_stage [OF assms(4)] False d assms(3) show ?thesis
      by (auto simp: debt_tracks_def)
  qed
qed

section \<open>A whole pass\<close>

lemma tracks_grows:
  assumes "tracks e r key machine C b st f0" "dir = session_shard_dir machine (sr_id r)"
    and "settled dir raw None f0 f" "raw = drop b (take b' C)" "raw \<noteq> []" "b \<le> b'" "line_end C b'"
  shows "\<exists>k. b \<le> k \<and> tracks e r key machine C k st f \<and> (set (entries_of dir f) \<noteq> set (entries_of dir f0) \<longrightarrow> k = b')"
proof -
  have t: "stage_tracks r machine C b f0" "cache_true e (sr_absolute_path r) C dir f0 (ps_cache st)" "bt_ok (ps_debts st)"
    "no_row (ps_manifest st) (sr_id r)"
    "stored_tracks e r machine C b (shards_of dir f0) (bt_get (ps_debts st) key)"
    using assms(1,2) by (simp_all add: tracks_def Let_def)
  from stage_tracks_settled [OF t(1) assms(2-7)] obtain k where
    k: "k = b \<or> k = b'" "stage_tracks r machine C k f" "prefix (shards_of dir f0) (shards_of dir f)"
      "set (entries_of dir f) \<noteq> set (entries_of dir f0) \<longrightarrow> k = b'" by blast
  have ge: "b \<le> k" using k(1) assms(6) by auto
  have "cache_true e (sr_absolute_path r) C dir f (ps_cache st)"
    using t(2) stage_true_grows [of e dir f0 "ps_cache st", OF _ settled_keeps [OF assms(3)]]
    by (auto simp: cache_true_def)
  moreover have "stored_tracks e r machine C k (shards_of dir f) (bt_get (ps_debts st) key)"
    using t(5) debt_tracks_grows [OF _ ge k(3)] by (auto simp: stored_tracks_def)
  ultimately have "tracks e r key machine C k st f"
    using t k(2) by (simp add: tracks_def Let_def assms(2))
  with ge k(4) show ?thesis by blast
qed

text \<open>How a pass ends: where the stage got to, and the state that is stored.\<close>

definition pass_ends :: "('x colenv_scheme) \<Rightarrow> session_record \<Rightarrow> string \<Rightarrow> string \<Rightarrow> bytes \<Rightarrow> nat \<Rightarrow> nat \<Rightarrow> 'c pass_state \<Rightarrow>
    fs \<Rightarrow> collect_error + 'c processed \<times> 'c pass_state \<Rightarrow> fs \<Rightarrow> bool" where
  "pass_ends e r key machine C lo b st f0 res f \<longleftrightarrow>
     (case res of
        Inl x \<Rightarrow> \<exists>k. b \<le> k \<and> tracks e r key machine C k st f
      | Inr (x, st') \<Rightarrow> \<exists>k d. b \<le> k \<and> tracks e r key machine C k st' f \<and> bt_get (ps_debts st') key = Some d \<and>
          de_cursor d = entry_at e C k \<and> pc_state x = entry_at e C k \<and> read_up_to C lo k \<and>
          (if co_shard (pc_outcome x) = None
           then k = b \<and> f = f0 \<and> (\<forall>d0. bt_get (ps_debts st) key = Some d0 \<longrightarrow> de_shards d = de_shards d0)
           else b < k \<and> de_shards d = fact_of e (shards_of (session_shard_dir machine (sr_id r)) f)))"

lemma stage_tracks_empty:
  assumes "stage_tracks r machine C b f" "dir = session_shard_dir machine (sr_id r)" "b = 0"
  shows "shards_of dir f = []"
proof -
  have "session_body dir f = []" "\<forall>(n, c) \<in> set (shards_of dir f). c \<noteq> []"
    using assms by (simp_all add: stage_tracks_def Let_def)
  then show ?thesis by (cases "shards_of dir f") (auto simp: session_body_shards)
qed

lemma finish_result:
  assumes run: "io_bind (collect_file e r old (\<not> True) machine cap (ps_manifest st2) (ps_cache st2)) (\<lambda>(x, hc).
          io_bind (new_debt e r (bt_get (ps_debts st) key) True machine x hc) (\<lambda>(d, hc1).
          io_return (x, if bt_get (ps_debts st) key = Some d then st2\<lparr>ps_cache := hc1\<rparr>
            else st2\<lparr>ps_cache := hc1, ps_debts := bt_insert key d (ps_debts st2), ps_dirty := True\<rparr>))) w = (res, w')"
    and st2: "st2 = st\<lparr>ps_cache := hc1\<rparr>" and d: "dir = session_shard_dir machine (sr_id r)" and jsonl: "jsonl_record r"
    and tr: "tracks e r key machine C b st (files w)" and src: "appending e (sr_absolute_path r) lo C" "b \<le> lo" and old: "old_at e C b old"
    and cache: "cache_true e (sr_absolute_path r) C dir (files w) hc1"
    and below: "below_million dir (files w)" "apart e dir (files w')" "below_million dir (files w')"
  shows "pass_ends e r key machine C lo b st (files w) res (files w')"
proof -
  let ?p = "sr_absolute_path r" and ?stored = "bt_get (ps_debts st) key"
  have t: "stage_tracks r machine C b (files w)" "bt_ok (ps_debts st)" "no_row (ps_manifest st) (sr_id r)"
    "stored_tracks e r machine C b (shards_of dir (files w)) ?stored"
    using d tr by (simp_all add: tracks_def Let_def)
  have dir: "dir_ok dir (files w)" "line_end C b" and body: "session_body dir (files w) = take b C"
    "\<forall>(n, c) \<in> set (shards_of dir (files w)). c \<noteq> []"
    using t(1) by (simp_all add: stage_tracks_def Let_def d)
  have empty: "b = 0 \<longrightarrow> shards_of dir (files w) = []" using stage_tracks_empty [OF t(1) d] by simp
  have whole: "collect_file e r old (\<not> True) machine cap (ps_manifest st2) (ps_cache st2) =
    process_jsonl e r old False machine cap (ps_manifest st) hc1"
    using jsonl by (simp add: collect_file_def jsonl_record_def st2)
  have none: "case ps_manifest st of None \<Rightarrow> True | Some m \<Rightarrow> bt_get m (sr_id r) = None" using t(3) by (simp add: no_row_def)
  note pj = process_jsonl_result [OF _ refl d src(1) cache old src(2) dir(2) none dir(1) below_million_room [OF below(1)] empty]
  show ?thesis
  proof (rule io_bind_cases [OF run [unfolded whole]])
    fix x assume er: "process_jsonl e r old False machine cap (ps_manifest st) hc1 w = (Inl x, w')" "res = Inl x"
    from pj [OF er(1)] obtain b' raw where k: "b \<le> b'" "line_end C b'" "raw = drop b (take b' C)"
      "files w' = files w \<or> raw \<noteq> [] \<and> settled dir raw None (files w) (files w')" by blast
    have "\<exists>k. b \<le> k \<and> tracks e r key machine C k st (files w')"
      using k(4) tracks_grows [OF tr d _ k(3) _ k(1,2)] tr by (metis order.refl)
    then show ?thesis by (simp add: pass_ends_def er(2))
  next
    fix y w1 assume pr: "process_jsonl e r old False machine cap (ps_manifest st) hc1 w = (Inr y, w1)"
      and rest: "(\<lambda>(x, hc). io_bind (new_debt e r ?stored True machine x hc) (\<lambda>(d, hc1).
          io_return (x, if ?stored = Some d then st2\<lparr>ps_cache := hc1\<rparr>
            else st2\<lparr>ps_cache := hc1, ps_debts := bt_insert key d (ps_debts st2), ps_dirty := True\<rparr>))) y w1 = (res, w')"
    obtain x hc where y: "y = (x, hc)" by (cases y)
    from pj [OF pr [unfolded y]] obtain b' raw where k: "b \<le> b'" "line_end C b'" "raw = drop b (take b' C)"
      "files w1 = files w \<or> raw \<noteq> [] \<and> settled dir raw None (files w) (files w1)"
      and x: "cache_true e ?p C dir (files w) hc" "pc_state x = entry_at e C b'" "read_up_to C lo b'"
      "if co_shard (pc_outcome x) = None then b' = b \<and> files w1 = files w
       else raw \<noteq> [] \<and> (\<exists>n. installed dir raw None (files w) (shard_path_in_dir dir n cap) n (files w1))" by blast
    let ?new = "new_debt e r ?stored True machine x hc"
    have f': "files w' = files w1"
    proof (rule io_bind_cases [OF rest [unfolded y prod.case]])
      fix z assume "?new w1 = (Inl z, w')"
      from obeysD [OF readonly_new_debt this] show ?thesis .
    next
      fix z w2 assume z: "?new w1 = (Inr z, w2)" "(\<lambda>(d, hc1).
          io_return (x, if ?stored = Some d then st2\<lparr>ps_cache := hc1\<rparr>
            else st2\<lparr>ps_cache := hc1, ps_debts := bt_insert key d (ps_debts st2), ps_dirty := True\<rparr>)) z w2 = (res, w')"
      then have "w' = w2" by (cases z) (simp add: io_return_def)
      with obeysD [OF readonly_new_debt z(1)] show ?thesis by simp
    qed
    have at: "tracks e r key machine C b' st (files w') \<and> cache_true e ?p C dir (files w') hc"
    proof (cases "co_shard (pc_outcome x) = None")
      case True
      with x tr f' show ?thesis by simp
    next
      case False
      then obtain n where n: "raw \<noteq> []" "installed dir raw None (files w) (shard_path_in_dir dir n cap) n (files w')"
        using x(4) f' by auto
      then have s: "settled dir raw None (files w) (files w')" by (simp add: installed_def)
      from tracks_grows [OF tr d s k(3) n(1) k(1,2)] installed_listed [OF n(2) below(3)]
      have "tracks e r key machine C b' st (files w')" by auto
      moreover have "cache_true e ?p C dir (files w') hc"
        using x(1) stage_true_grows [of e dir "files w" hc, OF _ settled_keeps [OF s]] by (auto simp: cache_true_def)
      ultimately show ?thesis by simp
    qed
    have t': "bt_ok (ps_debts st)" "stored_tracks e r machine C b' (shards_of dir (files w')) ?stored"
      using at d by (simp_all add: tracks_def Let_def)
    show ?thesis
    proof (rule io_bind_cases [OF rest [unfolded y prod.case]])
      fix z assume "res = Inl z"
      with at k(1) show ?thesis by (auto simp: pass_ends_def)
    next
      fix z w2 assume nd: "?new w1 = (Inr z, w2)" and out: "(\<lambda>(d, hc1).
          io_return (x, if ?stored = Some d then st2\<lparr>ps_cache := hc1\<rparr>
            else st2\<lparr>ps_cache := hc1, ps_debts := bt_insert key d (ps_debts st2), ps_dirty := True\<rparr>)) z w2 = (res, w')"
      obtain en hc2 where z: "z = (en, hc2)" by (cases z)
      let ?st' = "if ?stored = Some en then st2\<lparr>ps_cache := hc2\<rparr>
            else st2\<lparr>ps_cache := hc2, ps_debts := bt_insert key en (ps_debts st2), ps_dirty := True\<rparr>"
      have res: "res = Inr (x, ?st')" using out by (simp add: z io_return_def)
      have nr: "cache_true e ?p C dir (files w') hc2" "debt_tracks e r machine C b' (shards_of dir (files w')) en"
        "de_cursor en = entry_at e C b'"
        "de_shards en = (if ?stored \<noteq> None \<and> co_shard (pc_outcome x) = None then de_shards (the ?stored) else fact_of e (shards_of dir (files w')))"
        using new_debt_result [OF nd [unfolded z] d x(2)] at t'(2) below(2) f' by auto
      have get: "bt_get (ps_debts ?st') key = Some en" "bt_ok (ps_debts ?st')" "ps_cache ?st' = hc2" "ps_manifest ?st' = ps_manifest st"
        using t'(1) by (auto simp: st2 bt_get_insert)
      have "tracks e r key machine C b' ?st' (files w')"
        using at nr(1,2) get unfolding tracks_def Let_def d [symmetric] by (simp add: stored_tracks_def)
      moreover have "if co_shard (pc_outcome x) = None
        then b' = b \<and> files w' = files w \<and> (\<forall>d0. ?stored = Some d0 \<longrightarrow> de_shards en = de_shards d0)
        else b < b' \<and> de_shards en = fact_of e (shards_of dir (files w'))"
        using nr(4) x(4) f' k(3) by (cases "co_shard (pc_outcome x) = None") auto
      ultimately show ?thesis unfolding res pass_ends_def sum.case prod.case d [symmetric]
        using k(1) get(1) nr(3) x(2,3) by blast
    qed
  qed
qed

lemma pass_result:
  assumes "collect_record e r key machine cap remote st w = (res, w')" "dir = session_shard_dir machine (sr_id r)"
    and "jsonl_record r" "byte_equality_establishes_event_identity r"
    and "tracks e r key machine C b st (files w)" "appending e (sr_absolute_path r) lo C" "b \<le> lo"
    and "apart e dir (files w)" "below_million dir (files w)" "apart e dir (files w')" "below_million dir (files w')"
  shows "pass_ends e r key machine C lo b st (files w) res (files w')"
proof -
  let ?p = "sr_absolute_path r" and ?stored = "bt_get (ps_debts st) key"
  have t: "stage_tracks r machine C b (files w)" "cache_true e ?p C dir (files w) (ps_cache st)" "bt_ok (ps_debts st)"
    "no_row (ps_manifest st) (sr_id r)"
    "stored_tracks e r machine C b (shards_of dir (files w)) ?stored"
    using assms(5,2) by (simp_all add: tracks_def Let_def)
  have failed: "pass_ends e r key machine C lo b st (files w) (Inl x) (files v)" if "files v = files w" for x v
    using that assms(5) by (auto simp: pass_ends_def)
  let ?prove = "case ?stored of None \<Rightarrow> io_return (True, st)
     | Some d \<Rightarrow> io_bind (prove_debt e d machine remote st) (\<lambda>(v, st1). io_return (proves v, st1))"
  have ro: "readonly ?prove" by (auto intro!: reads split: option.split)
  show ?thesis
  proof (rule io_bind_cases [OF assms(1) [unfolded collect_record_def Let_def]])
    fix x assume er: "?prove w = (Inl x, w')" "res = Inl x"
    have "files w' = files w" using obeysD [OF ro er(1)] .
    with failed [of w' x] er(2) show ?thesis by simp
  next
    fix y w1 assume pv: "?prove w = (Inr y, w1)"
      and run1: "(\<lambda>(verified, st1). io_bind (starting_position e r ?stored verified machine st1) (\<lambda>(old, st2).
      io_bind (collect_file e r old (\<not> verified) machine cap (ps_manifest st2) (ps_cache st2)) (\<lambda>(x, hc).
      io_bind (new_debt e r ?stored verified machine x hc) (\<lambda>(d, hc1).
      io_return (x, if ?stored = Some d then st2\<lparr>ps_cache := hc1\<rparr>
        else st2\<lparr>ps_cache := hc1, ps_debts := bt_insert key d (ps_debts st2), ps_dirty := True\<rparr>))))) y w1 = (res, w')"
    have f1: "files w1 = files w" using obeysD [OF ro pv] .
    have "\<exists>hc. y = (True, st\<lparr>ps_cache := hc\<rparr>) \<and> cache_true e ?p C dir (files w) hc"
    proof (cases ?stored)
      case None
      with pv t(2) show ?thesis by (intro exI [of _ "ps_cache st"]) (simp add: io_return_def)
    next
      case (Some d)
      with pv obtain v st1 where pr: "prove_debt e d machine remote st w = (Inr (v, st1), w1)" "y = (proves v, st1)"
        by (auto simp: io_bind_Inr io_return_def)
      have "debt_tracks e r machine C b (shards_of dir (files w)) d" using t(5) Some by (simp add: stored_tracks_def)
      from prove_result [OF pr(1) assms(2) this t(2) assms(8)] pr(2) show ?thesis by auto
    qed
    then obtain hc1 where y: "y = (True, st\<lparr>ps_cache := hc1\<rparr>)" and c1: "cache_true e ?p C dir (files w) hc1" by blast
    let ?st1 = "st\<lparr>ps_cache := hc1\<rparr>"
    let ?start = "starting_position e r ?stored True machine ?st1"
    note run1' = run1 [unfolded y prod.case]
    show ?thesis
    proof (rule io_bind_cases [OF run1'])
      fix x assume er: "?start w1 = (Inl x, w')" "res = Inl x"
      have "files w' = files w" using obeysD [OF readonly_position er(1)] f1 by simp
      with failed [of w' x] er(2) show ?thesis by simp
    next
      fix z w2 assume sp: "?start w1 = (Inr z, w2)"
        and run2: "(\<lambda>(old, st2). io_bind (collect_file e r old (\<not> True) machine cap (ps_manifest st2) (ps_cache st2)) (\<lambda>(x, hc).
          io_bind (new_debt e r ?stored True machine x hc) (\<lambda>(d, hc1).
          io_return (x, if ?stored = Some d then st2\<lparr>ps_cache := hc1\<rparr>
            else st2\<lparr>ps_cache := hc1, ps_debts := bt_insert key d (ps_debts st2), ps_dirty := True\<rparr>)))) z w2 = (res, w')"
      obtain old st2 where z: "z = (old, st2)" by (cases z)
      have s2: "files w2 = files w" "st2 = ?st1" "old_at e C b old"
        using start_result [OF sp [unfolded z] assms(2,3,4,6)] f1 t assms(7) by simp_all
      note run2' = run2 [unfolded z prod.case s2(2)]
      have tr: "tracks e r key machine C b st (files w2)" and c2: "cache_true e ?p C dir (files w2) hc1"
        and below: "below_million dir (files w2)" using assms(5,9) c1 s2(1) by simp_all
      from finish_result [OF run2' refl assms(2,3) tr assms(6,7) s2(3) c2 below assms(10,11)] show ?thesis by (simp only: s2(1))
    qed
  qed
qed

end
