(* ===== verification/Collect_Progress.thy ===== *)
theory Collect_Progress
  imports Collect_Pass
begin

text \<open>
  Without faults, over a source that is left alone during the pass, a pass succeeds.
\<close>

section \<open>A source left alone\<close>

definition quiet :: "('x colenv_scheme) \<Rightarrow> path \<Rightarrow> file_identity \<Rightarrow> bytes \<Rightarrow> bool" where
  "quiet e p i C \<longleftrightarrow> fault e = (\<lambda>_. False) \<and> (\<forall>t. source_at e t p = Some (i, C)) \<and> fi_size i = length C"

lemma quiet_nofault: "quiet e p i C \<Longrightarrow> \<not> fault e n"
  by (simp add: quiet_def)

lemma quiet_appending: "quiet e p i C \<Longrightarrow> appending e p (length C) C"
  by (simp add: quiet_def appending_def)

lemma quiet_stat: "quiet e p i C \<Longrightarrow> stat_source e p w = (Inr i, w\<lparr>clock := Suc (clock w)\<rparr>)"
  by (simp add: quiet_def stat_source_def)

lemma quiet_read: "quiet e p i C \<Longrightarrow> read_source e p w = (Inr C, w\<lparr>clock := Suc (clock w)\<rparr>)"
  by (simp add: quiet_def read_source_def)

lemma quiet_range:
  "quiet e p i C \<Longrightarrow> len = 0 \<or> start + len \<le> length C \<Longrightarrow>
     read_range e p start len w = (Inr (take len (drop start C)), w\<lparr>clock := Suc (clock w)\<rparr>)"
  by (auto simp: read_range_def io_bind_def quiet_read io_return_def)

lemma quiet_prefix:
  assumes "quiet e p i C" "stat = None \<or> stat = Some i"
  shows "\<exists>a hc' w'. prefix_sha256 e p k stat hc w = (Inr (a, hc'), w') \<and> files w' = files w \<and>
    (ha_from_cache a \<longrightarrow> fi_mtime_ns i \<noteq> None)"
proof -
  obtain w1 where st: "(case stat of Some i \<Rightarrow> io_return i | None \<Rightarrow> stat_source e p) w = (Inr i, w1)" "files w1 = files w"
    using assms by (auto simp: quiet_stat io_return_def)
  show ?thesis
  proof (cases "prefix_remembered hc (''p:'' @ path_digest e p) k i")
    case None
    with st assms(1) show ?thesis by (auto simp: prefix_sha256_def io_bind_def quiet_read io_return_def Let_def)
  next
    case (Some sha)
    then obtain j where "is_same_file j i"
      by (auto simp: prefix_remembered_def split: option.splits cache_value.splits if_splits)
    then have "fi_mtime_ns i \<noteq> None" unfolding is_same_file_def by metis
    with st Some show ?thesis by (auto simp: prefix_sha256_def io_bind_def io_return_def cache_hit_def Let_def)
  qed
qed

lemma answersI: "m w = (Inr a, w') \<Longrightarrow> files w' = files w \<Longrightarrow> answers m w"
  by (auto simp: answers_def)

lemma answers_attempts:
  assumes "quiet e p i C" "cache_true e p C dir f hc" "old_at e C b old" "b \<le> length C"
  shows "answers (read_attempts (Suc n) e p old False hc) w"
proof (cases old)
  case None
  then show ?thesis using assms(1)
    by (auto simp: answers_def io_bind_def quiet_stat quiet_range reusable_entry_def io_return_def Let_def quiet_def)
next
  case (Some en)
  with assms(3) have en: "en = entry_at e C b" by (simp add: old_at_def)
  have sz: "fi_size i = length C" using assms(1) by (simp add: quiet_def)
  have reuse: "reusable_entry old False (fi_size i) = Some en"
    using assms(4) sz by (simp add: reusable_entry_def Some en entry_at_def plain_entry_def)
  have off: "oe_offset en = b" "oe_prefix_sha256 en = hex (sha256 e (take b C))"
    by (simp_all add: en entry_at_def plain_entry_def)
  have range: "answers (read_range e p start len) v" if "len = 0 \<or> start + len \<le> length C" for start len v
    using quiet_range [OF assms(1) that] by (rule answersI) simp
  have stat: "answers (stat_source e p) v" for v
    using quiet_stat [OF assms(1)] by (rule answersI) simp
  show ?thesis unfolding read_attempts.simps Let_def
  proof (rule answers_bind [OF stat])
    fix bm w1 assume "stat_source e p w = (Inr bm, w1)"
    then have bm: "bm = i" by (simp add: quiet_stat [OF assms(1)])
    show "answers (case reusable_entry old False (fi_size bm) of
       None \<Rightarrow> io_bind (read_range e p 0 (fi_size bm)) (\<lambda>c. io_bind (stat_source e p) (\<lambda>am.
           if fi_size am \<noteq> fi_size bm then read_attempts n e p old False hc
           else io_return (\<lparr>rd_source_len = fi_size bm, rd_base_offset = 0, rd_bytes = c, rd_bytes_read = fi_size bm,
             rd_prefix_bytes_validated = 0, rd_reset = (old \<noteq> None)\<rparr>, hc)))
     | Some en \<Rightarrow>
         io_bind (prefix_sha256 e p (oe_offset en) (Some bm) hc) (\<lambda>(a, hc1).
         if ha_sha256 a \<noteq> oe_prefix_sha256 en
         then io_bind (read_range e p 0 (fi_size bm)) (\<lambda>c. io_bind (stat_source e p) (\<lambda>am.
           if fi_size am \<noteq> fi_size bm then read_attempts n e p old False hc1
           else io_return (\<lparr>rd_source_len = fi_size bm, rd_base_offset = 0, rd_bytes = c, rd_bytes_read = fi_size bm,
             rd_prefix_bytes_validated = 0, rd_reset = (old \<noteq> None)\<rparr>, hc1)))
         else
           io_bind (read_range e p (oe_offset en) (fi_size bm - oe_offset en)) (\<lambda>delta. io_bind (stat_source e p) (\<lambda>am.
           if fi_size am \<noteq> fi_size bm then read_attempts n e p old False hc1
           else if ha_from_cache a then (if \<not> same_file_identity bm am then read_attempts n e p old False hc1
             else io_return (\<lparr>rd_source_len = fi_size bm, rd_base_offset = oe_offset en, rd_bytes = delta,
                 rd_bytes_read = fi_size bm - oe_offset en,
                 rd_prefix_bytes_validated = (if ha_from_cache a then 0 else ha_bytes_read a), rd_reset = False\<rparr>, hc1))
           else if ha_bytes_read a = oe_offset en then
             io_bind (read_range e p 0 (oe_offset en)) (\<lambda>prefix_after.
             if hex (sha256 e prefix_after) \<noteq> oe_prefix_sha256 en then read_attempts n e p old False hc1
             else io_return (\<lparr>rd_source_len = fi_size bm, rd_base_offset = oe_offset en, rd_bytes = delta,
                 rd_bytes_read = fi_size bm - oe_offset en,
                 rd_prefix_bytes_validated = (if ha_from_cache a then 0 else ha_bytes_read a), rd_reset = False\<rparr>, hc1))
           else read_attempts n e p old False hc1)))) w1"
      unfolding bm reuse option.case off
    proof (rule answers_bind)
      show "answers (prefix_sha256 e p b (Some i) hc) w1"
        using quiet_prefix [OF assms(1), of "Some i" b hc w1] by (auto simp: answers_def)
      fix y w2 assume y: "prefix_sha256 e p b (Some i) hc w1 = (Inr y, w2)"
      obtain a hc1 where y': "y = (a, hc1)" by (cases y)
      note py = y [unfolded y']
      have sha: "ha_sha256 a = hex (sha256 e (take b C))" "\<not> ha_from_cache a \<longrightarrow> ha_bytes_read a = b"
        using prefix_result [OF py quiet_appending [OF assms(1)] assms(2)] assms(4) by (auto split: if_splits)
      have same: "ha_from_cache a \<longrightarrow> same_file_identity i i"
        using quiet_prefix [OF assms(1), of "Some i" b hc w1] py by (auto simp: same_file_identity_def is_same_file_def)
      show "answers (case y of (a, hc1) \<Rightarrow> if ha_sha256 a \<noteq> hex (sha256 e (take b C))
         then io_bind (read_range e p 0 (fi_size i)) (\<lambda>c. io_bind (stat_source e p) (\<lambda>am.
           if fi_size am \<noteq> fi_size i then read_attempts n e p old False hc1
           else io_return (\<lparr>rd_source_len = fi_size i, rd_base_offset = 0, rd_bytes = c, rd_bytes_read = fi_size i,
             rd_prefix_bytes_validated = 0, rd_reset = (old \<noteq> None)\<rparr>, hc1)))
         else
           io_bind (read_range e p b (fi_size i - b)) (\<lambda>delta. io_bind (stat_source e p) (\<lambda>am.
           if fi_size am \<noteq> fi_size i then read_attempts n e p old False hc1
           else if ha_from_cache a then (if \<not> same_file_identity i am then read_attempts n e p old False hc1
             else io_return (\<lparr>rd_source_len = fi_size i, rd_base_offset = b, rd_bytes = delta,
                 rd_bytes_read = fi_size i - b,
                 rd_prefix_bytes_validated = (if ha_from_cache a then 0 else ha_bytes_read a), rd_reset = False\<rparr>, hc1))
           else if ha_bytes_read a = b then
             io_bind (read_range e p 0 b) (\<lambda>prefix_after.
             if hex (sha256 e prefix_after) \<noteq> hex (sha256 e (take b C)) then read_attempts n e p old False hc1
             else io_return (\<lparr>rd_source_len = fi_size i, rd_base_offset = b, rd_bytes = delta,
                 rd_bytes_read = fi_size i - b,
                 rd_prefix_bytes_validated = (if ha_from_cache a then 0 else ha_bytes_read a), rd_reset = False\<rparr>, hc1))
           else read_attempts n e p old False hc1))) w2"
        using sha same assms(4) unfolding y'
        by (auto simp: sz quiet_stat [OF assms(1)] quiet_range [OF assms(1)] intro!: answers_bind range stat)
    qed
  qed
qed

lemma answers_plain:
  assumes "quiet e p i C" "cache_true e p C dir f hc" "k \<le> length C"
  shows "answers (plain_state e p k hc) w"
proof -
  obtain a hc1 w1 where a: "prefix_sha256 e p k None hc w = (Inr (a, hc1), w1)" "files w1 = files w"
    using quiet_prefix [OF assms(1)] by blast
  have "\<not> ha_from_cache a \<longrightarrow> ha_bytes_read a = k"
    using prefix_result [OF a(1) quiet_appending [OF assms(1)] assms(2)] assms(3) by (auto split: if_splits)
  with a show ?thesis by (auto simp: answers_def plain_state_def io_bind_def io_return_def)
qed

lemma answers_shards: "(\<And>n. \<not> fault e n) \<Longrightarrow> listed dir (files w) es \<Longrightarrow> answers (read_shards_of e es) w"
proof (induction es arbitrary: w)
  case (Cons x es)
  obtain n p where x: "x = (n, p)" by (cases x)
  have l: "present (files w) p" "listed dir (files w) es" using Cons.prems(2) by (auto simp: x listed_def)
  show ?case by (auto simp: x intro!: answers_bind answers_read Cons.prems(1) l Cons.IH)
qed simp

lemma answers_sizes:
  "(\<And>n. \<not> fault e n) \<Longrightarrow> listed dir (files w) es \<Longrightarrow> acc + sum_list (map length (bytes_of (files w) es)) \<le> u64_max \<Longrightarrow>
     answers (sum_sizes e es acc) w"
proof (induction es arbitrary: w acc)
  case (Cons x es)
  obtain n p where x: "x = (n, p)" by (cases x)
  have l: "present (files w) p" "listed dir (files w) es" using Cons.prems(2) by (auto simp: x listed_def)
  show ?case unfolding x sum_sizes.simps
  proof (intro answers_bind answers_stat Cons.prems(1) l)
    fix m w1 assume m: "stat_stage e p w = (Inr m, w1)" "files w1 = files w"
    then have sz: "acc + fi_size m + sum_list (map length (bytes_of (files w) es)) \<le> u64_max"
      using stat_stage_result [OF m(1)] Cons.prems(3) by (auto simp: x bytes_of_def)
    then have "\<not> u64_max < acc + fi_size m" by simp
    moreover have "answers (sum_sizes e es (acc + fi_size m)) w1"
      by (rule Cons.IH) (use Cons.prems(1) l sz m(2) in simp_all)
    ultimately show "answers (if u64_max < acc + fi_size m then io_fail Overflowed else sum_sizes e es (acc + fi_size m)) w1"
      by simp
  qed
qed simp

section \<open>The steps of a pass succeed\<close>

lemma answers_debt_locally:
  assumes "\<And>n. \<not> fault e n" "de_machine d = machine"
  shows "answers (debt_settled_locally e d machine manifest hc) w"
  unfolding debt_settled_locally_def stage_covers_def
  by (auto simp: assms(2) intro!: answers_bind answers_covers answers_list assms(1) split: option.split)

lemma prove_succeeds:
  assumes "\<And>n. \<not> fault e n" "dir = session_shard_dir machine (sr_id r)"
    and "debt_tracks e r machine C b (shards_of dir (files w)) d" "cache_true e p C dir (files w) (ps_cache st)" "apart e dir (files w)"
  shows "answers (prove_debt e d machine remote st) w"
proof -
  have d: "de_machine d = machine" "dir = session_shard_dir machine (de_session_id d)"
    "claim_covered e (shards_of dir (files w)) (de_shards d)"
    using assms(2,3) covered_later by (auto simp: debt_tracks_def)
  obtain q hc1 w1 where l: "debt_settled_locally e d machine (ps_manifest st) (ps_cache st) w = (Inr (q, hc1), w1)"
    using answers_debt_locally [OF assms(1) d(1), of "ps_manifest st" "ps_cache st" w] by (auto simp: answers_def)
  have "stage_true e dir (files w) (ps_cache st)" using assms(4) by (simp add: cache_true_def)
  from debt_locally_result [OF l d(1,2) this assms(5)] d(3) have q: "q = Some OwedOnStage" "files w1 = files w" by auto
  have "verify_debt e d machine remote (ps_manifest st) (ps_cache st) w = (Inr (OwedOnStage, hc1), w1)"
    using l q(1) by (simp add: verify_debt_def io_bind_def io_return_def)
  then show ?thesis using q(2) by (simp add: answers_def prove_debt_def io_bind_def io_return_def Let_def)
qed

lemma stage_prefix_succeeds:
  assumes "quiet e (sr_absolute_path r) i C" "jsonl_record r" "no_row manifest (sr_id r)"
  shows "answers (stage_prefix_entry e r machine manifest hc) w"
proof -
  let ?p = "sr_absolute_path r"
  have nf: "\<And>n. \<not> fault e n" using assms(1) by (simp add: quiet_def)
  have sealed: "answers (stage_sealed_shards e machine (sr_id r)) w"
    unfolding stage_sealed_shards_def
    by (intro answers_bind answers_list nf) (auto dest!: sorted_entries_result intro!: answers_shards nf listed_entries)
  have retained: "answers (retained_prefix_entry e r manifest hc) v" for v
    using assms(3) by (auto simp: retained_prefix_entry_def no_row_def split: option.split)
  have cover: "\<exists>k. covered_source_prefix a b = Some k" for a b using covered_result by blast
  have part: "answers (jsonl_prefix_entry_from_shards e ?p c) v" for c v
  proof -
    let ?src = "take (min (length C) (length c)) C"
    obtain k where "covered_source_prefix c ?src = Some k" using cover by blast
    moreover have "fi_size i = length C" using assms(1) by (simp add: quiet_def)
    ultimately show ?thesis using quiet_range [OF assms(1), of "min (length C) (length c)" 0]
      by (auto simp: answers_def jsonl_prefix_entry_from_shards_def io_bind_def quiet_stat [OF assms(1)] io_return_def)
  qed
  show ?thesis using assms(2) unfolding stage_prefix_entry_def jsonl_record_def Let_def
    by (auto intro!: answers_bind sealed retained part)
qed

lemma start_succeeds:
  assumes "quiet e (sr_absolute_path r) i C" "jsonl_record r" "no_row (ps_manifest st) (sr_id r)"
    and "length (session_body (session_shard_dir machine (sr_id r)) (files w)) \<le> u64_max"
  shows "answers (starting_position e r stored True machine st) w"
proof -
  have nf: "\<And>n. \<not> fault e n" using assms(1) by (simp add: quiet_def)
  have len: "answers (session_stage_len e machine (sr_id r)) w"
    unfolding session_stage_len_def
  proof (intro answers_bind answers_list nf)
    fix es w1 assume "io_map_err StageSide (sealed_shard_entries (base e) (session_shard_dir machine (sr_id r))) w = (Inr es, w1)"
    then have es: "es = entries_of (session_shard_dir machine (sr_id r)) (files w1)" "files w1 = files w" by (auto dest: sorted_entries_result)
    have "listed (session_shard_dir machine (sr_id r)) (files w1) es" by (auto simp: es(1) listed_def entries_of_iff)
    then show "answers (sum_sizes e es 0) w1"
      by (rule answers_sizes [OF nf]) (use assms(4) es sum_bytes_entries in simp)
  qed
  show ?thesis
    unfolding starting_position_def cursor_or_stage_covered_position_def Let_def
    using stage_prefix_succeeds [OF assms(1,2) assms(3)] stage_prefix_succeeds [OF assms(1,2), of None]
    by (auto simp: no_row_def [of None] intro!: answers_bind len split: option.split)
qed

text \<open>Nothing was written, or the shard after the high-water mark.\<close>

definition added :: "path \<Rightarrow> nat \<Rightarrow> nat \<Rightarrow> fs \<Rightarrow> fs \<Rightarrow> bool" where
  "added dir cap h f0 f \<longleftrightarrow> f = f0 \<or> (\<exists>raw. installed dir raw None f0 (shard_path_in_dir dir (Suc h) cap) (Suc h) f)"

lemma write_succeeds:
  assumes "fault e = (\<lambda>_. False)" "dir = session_shard_dir machine s" "dir_ok dir (files w)"
    and "high_water (base e) dir (files w) = Some h" "h < u64_max" "keep \<or> shards_of dir (files w) = []"
  shows "\<exists>name w'. write_sealed e keep machine s ls cap w = (Inr name, w') \<and>
    installed dir (seal_framed ls) None (files w) (shard_path_in_dir dir (Suc h) cap) (Suc h) (files w')"
proof -
  have "duplicate_of (base e) (seal_framed ls) dir (files w) = None" if "\<not> keep"
    using that assms(6) by (simp add: duplicate_of_def shards_of_def)
  then have dup: "dedups (Store (seal_framed ls) Stage_Shards.Collect keep) \<longrightarrow> duplicate_of (base e) (seal_framed ls) dir (files w) = None"
    by (cases keep) simp_all
  have nf: "nofault (base e)" using assms(1) by (simp add: env.defs)
  obtain w' where w': "write_shard_in_dir (base e) dir cap (Store (seal_framed ls) Stage_Shards.Collect keep) [s] w = (Inr (Allocated (Suc h)), w')"
    using write_store_run [OF nf assms(3,4,5) dup] by blast
  from allocated_installed [OF assms(3) high_water_room [OF assms(4,5)] _ w'] w' show ?thesis
    by (simp add: write_sealed_def write_shard_def io_bind_def io_map_err_def io_return_def seal_framed_lines_eq assms(2) [symmetric])
qed

lemma jsonl_succeeds:
  fixes old :: "'c offset_entry option"
  assumes q: "quiet e p i C" and p: "p = sr_absolute_path r" and d: "dir = session_shard_dir machine (sr_id r)"
    and src: "cache_true e p C dir (files w) hc" "old_at e C b old" "line_end C b"
    and none: "no_row manifest (sr_id r)"
    and dir: "dir_ok dir (files w)" "high_water (base e) dir (files w) = Some h" "h < u64_max" "b = 0 \<longrightarrow> shards_of dir (files w) = []"
  shows "\<exists>x hc' w'. process_jsonl e r old False machine cap manifest hc w = (Inr (x, hc'), w') \<and>
    added dir cap h (files w) (files w')"
proof -
  have le: "b \<le> length C" using src(3) by (simp add: line_end_def)
  obtain d1 hc1 w1 where rd0: "read_jsonl_delta e p old False hc w = (Inr (d1, hc1), w1)"
    using answers_attempts [OF q src(1,2) le, of 2 w] by (auto simp: answers_def read_jsonl_delta_def READ_RETRIES_def numeral_eq_Suc)
  obtain ls n where cl: "complete_lines (rd_bytes d1) = (ls, n)" by (cases "complete_lines (rd_bytes d1)")
  note rd = jsonl_read_result [OF rd0 cl quiet_appending [OF q] src(1,2) le src(3)]
  have nm: "\<not> manifest_holds_this_framed e manifest (sr_id r) fr" for fr
    using none by (auto simp: manifest_holds_this_framed_def no_row_def split: option.splits)
  have rdb: "rd_base_offset d1 = b" "rd_reset d1 = False" using rd by simp_all
  have end_le: "b + n \<le> length C" using rd by (simp add: line_end_def)
  have keep: "jsonl_writer_keeps_repeats r old d1 \<or> shards_of dir (files w) = []"
    using dir(4) rd by (auto simp: jsonl_writer_keeps_repeats_def)
  let ?state = "if ls = [] then io_return ((case old of Some en \<Rightarrow> en | None \<Rightarrow> plain_entry 0 (hex (sha256 e [])) False), hc1)
                 else plain_state e p (b + n) hc1"
  let ?rest = "\<lambda>(st, hc2). io_bind (if ls = [] then io_return None
                 else io_bind (write_sealed e (jsonl_writer_keeps_repeats r old d1) machine (sr_id r) ls cap) (\<lambda>name.
                   io_return (Some name))) (\<lambda>shard.
        io_return (\<lparr>pc_outcome = \<lparr>co_source_bytes = rd_source_len d1, co_bytes_read = rd_bytes_read d1,
            co_prefix_bytes_validated = rd_prefix_bytes_validated d1, co_lines_written = length ls, co_shard = shard,
            co_reset = False, co_compressed = False\<rparr>, pc_state = st\<rparr>, hc2))"
  have run: "process_jsonl e r old False machine cap manifest hc w = io_bind ?state ?rest w1"
    unfolding process_jsonl_def Let_def p [symmetric] io_bind_right [of "read_jsonl_delta e p old False hc", OF rd0]
    by (simp only: prod.case cl fst_conv snd_conv rdb nm simp_thms if_False)
  show ?thesis
  proof (cases "ls = []")
    case True
    then show ?thesis unfolding run using rd by (simp add: io_return_def added_def)
  next
    case False
    obtain st :: "'c offset_entry" and hc2 w2 where ps: "plain_state e p (b + n) hc1 w1 = (Inr (st, hc2), w2)" "files w2 = files w"
      using answers_plain [OF q _ end_le, of dir "files w" hc1 w1] rd by (auto simp: answers_def)
    obtain name w3 where wr: "write_sealed e (jsonl_writer_keeps_repeats r old d1) machine (sr_id r) ls cap w2 = (Inr name, w3)" "added dir cap h (files w) (files w3)"
      using write_succeeds [of e dir machine "sr_id r" w2 h "jsonl_writer_keeps_repeats r old d1" ls cap, OF _ d _ _ dir(3)]
        q dir(1,2) keep ps(2) by (auto simp: quiet_def added_def)
    show ?thesis unfolding run using False ps(1) wr by (simp add: io_bind_def io_return_def)
  qed
qed

section \<open>A pass succeeds\<close>

lemma answers_new_debt: "(\<And>n. \<not> fault e n) \<Longrightarrow> answers (new_debt e r stored verified machine x hc) w"
  unfolding new_debt_def stage_shard_fact_def
  by (auto intro!: answers_bind answers_fact split: option.split)

lemma pass_succeeds:
  fixes st :: "'c pass_state"
  assumes q: "quiet e (sr_absolute_path r) i C" and d: "dir = session_shard_dir machine (sr_id r)"
    and jsonl: "jsonl_record r" and byte: "byte_equality_establishes_event_identity r"
    and tr: "tracks e r key machine C b st (files w)" and ap: "apart e dir (files w)"
    and hw: "high_water (base e) dir (files w) = Some h" "h < u64_max" and len: "length C \<le> u64_max"
  shows "\<exists>x st' w'. collect_record e r key machine cap remote st w = (Inr (x, st'), w') \<and> added dir cap h (files w) (files w')"
proof -
  let ?p = "sr_absolute_path r" and ?stored = "bt_get (ps_debts st) key"
  have nf: "\<And>n. \<not> fault e n" using q by (simp add: quiet_def)
  have t: "stage_tracks r machine C b (files w)" "cache_true e ?p C dir (files w) (ps_cache st)"
    "no_row (ps_manifest st) (sr_id r)" "stored_tracks e r machine C b (shards_of dir (files w)) ?stored"
    using tr d by (simp_all add: tracks_def Let_def)
  have dir: "dir_ok dir (files w)" "line_end C b" "session_body dir (files w) = take b C"
    using t(1) by (simp_all add: stage_tracks_def Let_def d)
  have empty: "b = 0 \<longrightarrow> shards_of dir (files w) = []" using stage_tracks_empty [OF t(1) d] by simp
  have le: "b \<le> length C" using dir(2) by (simp add: line_end_def)
  let ?prove = "case ?stored of None \<Rightarrow> io_return (True, st)
     | Some d \<Rightarrow> io_bind (prove_debt e d machine remote st) (\<lambda>(v, st1). io_return (proves v, st1))"
  have "\<exists>hc w1. ?prove w = (Inr (True, st\<lparr>ps_cache := hc\<rparr>), w1) \<and> files w1 = files w \<and> cache_true e ?p C dir (files w) hc"
  proof (cases ?stored)
    case None
    with t(2) show ?thesis by (intro exI [of _ "ps_cache st"] exI [of _ w]) (simp add: io_return_def)
  next
    case (Some en)
    then have dt: "debt_tracks e r machine C b (shards_of dir (files w)) en" using t(4) by (simp add: stored_tracks_def)
    obtain v st1 w1 where pv: "prove_debt e en machine remote st w = (Inr (v, st1), w1)"
      using prove_succeeds [OF nf d dt t(2) ap, of remote] by (auto simp: answers_def)
    from prove_result [OF pv d dt t(2) ap] pv Some show ?thesis by (auto simp: io_bind_def io_return_def)
  qed
  then obtain hc1 w1 where pv: "?prove w = (Inr (True, st\<lparr>ps_cache := hc1\<rparr>), w1)" "files w1 = files w"
    "cache_true e ?p C dir (files w) hc1" by blast
  let ?st1 = "st\<lparr>ps_cache := hc1\<rparr>"
  have t1: "stage_tracks r machine C b (files w1)" "no_row (ps_manifest ?st1) (sr_id r)"
    "stored_tracks e r machine C b (shards_of dir (files w1)) ?stored" using t pv(2) by simp_all
  have u: "length (session_body (session_shard_dir machine (sr_id r)) (files w1)) \<le> u64_max"
    using dir(3) pv(2) d len le by simp
  obtain old st2 w2 where sp: "starting_position e r ?stored True machine ?st1 w1 = (Inr (old, st2), w2)"
    using start_succeeds [OF q jsonl t1(2) u, of ?stored] by (auto simp: answers_def)
  note sr = start_result [OF sp d jsonl byte quiet_appending [OF q] t1 le]
  have c2: "cache_true e ?p C dir (files w2) hc1" using sr pv by simp
  have "dir_ok dir (files w2)" "high_water (base e) dir (files w2) = Some h" "b = 0 \<longrightarrow> shards_of dir (files w2) = []"
    using sr pv(2) dir(1) hw(1) empty by simp_all
  from jsonl_succeeds [OF q refl d c2 _ dir(2) t(3) this(1,2) hw(2) this(3), of old cap] sr
  obtain x hc w3 where pj: "process_jsonl e r old False machine cap (ps_manifest st) hc1 w2 = (Inr (x, hc), w3)"
    "added dir cap h (files w2) (files w3)" by blast
  have whole: "collect_file e r old (\<not> True) machine cap (ps_manifest st2) (ps_cache st2) w2 = (Inr (x, hc), w3)"
    using pj(1) jsonl sr by (simp add: collect_file_def jsonl_record_def)
  obtain en hc2 w4 where nd: "new_debt e r ?stored True machine x hc w3 = (Inr (en, hc2), w4)"
    using answers_new_debt [OF nf, of r ?stored True machine x hc w3] by (auto simp: answers_def)
  have add: "added dir cap h (files w) (files w4)"
    using pj(2) sr pv(2) obeysD [OF readonly_new_debt nd] by simp
  show ?thesis unfolding collect_record_def Let_def io_bind_right [of ?prove, OF pv(1)] prod.case
      io_bind_right [of "starting_position e r ?stored True machine ?st1", OF sp]
      io_bind_right [of "collect_file e r old (\<not> True) machine cap (ps_manifest st2) (ps_cache st2)", OF whole]
      io_bind_right [of "new_debt e r ?stored True machine x hc", OF nd]
    using add by (simp add: io_return_def)
qed

end
