(* ===== verification/Debt_Props.thy ===== *)
theory Debt_Props
  imports Debt_Spec Stage_Props
begin

text \<open>
  The properties of the proof of stored read positions: facts and coverage answers are those of a
  full reading whatever the cache remembers, claims stay covered while the stage only grows, and a
  proved debt names bytes that somebody holds.
\<close>

section \<open>A concrete stage with one shard\<close>

definition pad_sha :: "bytes \<Rightarrow> bytes" where
  "pad_sha c = take 32 (c @ replicate 32 (CHR 0x00))"

definition demo_colenv :: colenv where
  "demo_colenv = \<lparr>fault = (\<lambda>_. False), torn = (\<lambda>_. 0), sha256 = pad_sha, enc_fact = (\<lambda>_. Some ''{}''),
     dec_fact = (\<lambda>_. None), temp_dir = [''tmp''], stage_root = [''stage''], ancestors = (\<lambda>_. []),
     enc_row = (\<lambda>_. ''{}''), dec_row = (\<lambda>_. None), enc_start = (\<lambda>_. None), dec_start = (\<lambda>_. None), now_unix = Some 0,
     source_at = (\<lambda>_ _. None), stage_meta = (\<lambda>_ _. (Some 7, 1)), zstd_decode = (\<lambda>_. None)\<rparr>"

lemma length_pad [simp]: "length (sha256 demo_colenv c) = 32"
  by (simp add: demo_colenv_def pad_sha_def)

lemma demo_shards [simp]: "shards_of demo_dir (files demo_world) = [(1, ''x'')]"
  by (simp add: shards_of_def demo_entries sort_entries_def) (simp add: demo_world_def)

lemma demo_apart [simp]: "apart e demo_dir (files demo_world)"
  using demo_names by (auto simp: apart_def inj_on_def demo_world_def present_def shard_seq_of_numbered split: if_splits)

lemma demo_fault [simp]: "\<not> fault demo_colenv n" "\<not> fault (base demo_colenv) n"
  by (simp_all add: demo_colenv_def env.defs)

lemma demo_claim_valid [simp]: "valid_shard_fact (fact_of demo_colenv [(1, ''x'')])"
  by (rule valid_fact_of) (auto simp: u64_max_def)

lemma demo_fact_run: "\<exists>x hc' w'. shard_fact_in_dir demo_colenv dir hc w = (Inr (x, hc'), w')"
  using answers_fact [of demo_colenv dir hc w] by (auto simp: answers_def)

lemma demo_covers_run: "\<exists>b hc' w'. dir_covers_with_cache demo_colenv dir x hc w = (Inr (b, hc'), w')"
  using answers_covers [of demo_colenv dir x hc w] by (auto simp: answers_def)

text \<open>A cache file with an entry for the shard that is out of date and wrong, and one of another session.\<close>

definition demo_cache :: hash_cache where
  "demo_cache = \<lparr>hc_path = None,
     hc_entries =
       bt_insert (''f:'' @ stage_digest demo_colenv demo_shard) (CacheFile \<lparr>fi_size = 1, fi_mtime_ns = Some 6, fi_inode = 1\<rparr> ''stale'')
         (bt_insert ''d:elsewhere'' (CacheDir [] 0 ''other'') []),
     hc_touched = []\<rparr>"

lemma demo_honest: "stage_honest demo_colenv n demo_dir f demo_cache"
proof -
  have "\<not> shown_at demo_colenv n f p \<lparr>fi_size = 1, fi_mtime_ns = Some 6, fi_inode = 1\<rparr>" for p
    by (simp add: shown_at_def demo_colenv_def)
  moreover have "''d:'' @ stage_digest demo_colenv demo_dir \<noteq> ''d:elsewhere''"
  proof
    assume "''d:'' @ stage_digest demo_colenv demo_dir = ''d:elsewhere''"
    then have "stage_digest demo_colenv demo_dir = ''elsewhere''" by simp
    moreover have "length (stage_digest demo_colenv demo_dir) = 16"
      by (simp add: stage_digest_def path_digest_def)
    ultimately show False by simp
  qed
  moreover have "bt_ok (bt_insert k v (bt_insert k' v' []))" for k k' :: string and v v' :: cache_value by (auto simp: bt_ok_def)
  ultimately show ?thesis by (simp add: stage_honest_def demo_cache_def bt_get_insert del: bt_insert.simps)
qed

section \<open>Facts\<close>

text \<open>C35: What is observed of a session directory through the hash cache is what a full reading of its shards
  gives. The digests of the shards' paths must differ, and the cache must be honest: an entry recorded for a shard
  under the size, inode and known modification time which the shard shows at some later tick has the digest of
  its bytes, and an entry recorded for the directory under the very list of identities, unknown modification
  times included, which its shards show has the digest of the bytes it covers. Nothing is assumed of entries whose
  identities are out of date or of entries of other sessions. The cache that results is honest in the same
  sense, and no file is changed.\<close>

theorem shard_fact_exact:
  assumes "stage_honest e (clock w) dir (files w) hc" and "apart e dir (files w)"
    and "shard_fact_in_dir e dir hc w = (Inr (x, hc'), w')"
  shows "x = fact_of e (shards_of dir (files w)) \<and> stage_honest e (clock w') dir (files w') hc' \<and> files w' = files w"
  using honest_cache.fact_answer [OF assms(3) refl order_refl] assms(1,2)
  by (auto simp: undisturbed_def intro: stage_honest_later)

theorem shard_fact_exact_witness:
  "\<exists>hc' w'. shard_fact_in_dir demo_colenv demo_dir demo_cache demo_world = (Inr (fact_of demo_colenv [(1, ''x'')], hc'), w') \<and>
    stage_honest demo_colenv (clock w') demo_dir (files w') hc'"
proof -
  obtain x hc' w' where r: "shard_fact_in_dir demo_colenv demo_dir demo_cache demo_world = (Inr (x, hc'), w')"
    using demo_fact_run by blast
  from shard_fact_exact [OF demo_honest demo_apart r] r show ?thesis by auto
qed

text \<open>Every fact observed of a session whose shards are numbered from 1 without repetition, and whose bytes fit in
  \<open>u64\<close>, is a well-formed one: at least one shard, as many fingerprints as shards, numbers strictly increasing,
  digests of 64 hexadecimal digits, sizes that add up to the length of the concatenation.\<close>

lemma shard_fact_wellformed:
  assumes "stage_true e dir (files w) hc" and "apart e dir (files w)"
    and "distinct (map fst (files w))" and "unique_numbers dir (files w)"
    and "\<And>c. length (sha256 e c) = 32" and "entries_of dir (files w) \<noteq> []"
    and "\<And>n p. (n, p) \<in> set (entries_of dir (files w)) \<Longrightarrow> 0 < n" and "length (session_body dir (files w)) \<le> u64_max"
    and "shard_fact_in_dir e dir hc w = (Inr (x, hc'), w')"
  shows "valid_shard_fact x"
proof -
  have "x = fact_of e (shards_of dir (files w))" using shard_fact_result [OF assms(9,1,2)] by simp
  moreover have "valid_shard_fact (fact_of e (shards_of dir (files w)))"
  proof (rule valid_fact_of [OF assms(5)])
    show "sorted (map fst (shards_of dir (files w)))" "distinct (map fst (shards_of dir (files w)))"
      using shards_sorted [OF assms(3,4)] by simp_all
    show "shards_of dir (files w) \<noteq> []" using assms(6) length_shards [of dir "files w"] by (metis length_0_conv)
    show "0 < n" if "(n, c) \<in> set (shards_of dir (files w))" for n c
      using that assms(7) by (auto simp: shards_of_def sort_entries_def)
    show "length (concat (map snd (shards_of dir (files w)))) \<le> u64_max"
      using assms(8) by (simp add: session_body_shards)
  qed
  ultimately show ?thesis by simp
qed

lemma shard_fact_wellformed_witness:
  "\<exists>x hc' w'. shard_fact_in_dir demo_colenv demo_dir disabled_cache demo_world = (Inr (x, hc'), w') \<and> valid_shard_fact x"
proof -
  obtain x hc' w' where r: "shard_fact_in_dir demo_colenv demo_dir disabled_cache demo_world = (Inr (x, hc'), w')"
    using demo_fact_run by blast
  have "valid_shard_fact x"
    by (rule shard_fact_wellformed [OF stage_true_disabled demo_apart _ _ _ _ _ _ r])
      (use demo_ok in \<open>auto simp: dir_ok_def demo_entries session_body_shards u64_max_def\<close>)
  with r show ?thesis by blast
qed

section \<open>Coverage\<close>

text \<open>C34: The stage is found to cover a claim exactly when the shards the claim was made of, with their numbers, are
  still the first shards of the directory. The claim is a well-formed one that carries its shards'
  fingerprints and is not of empty bytes; no two of the shards compared share a SHA-256; the
  digests of the shards' paths differ; and the cache is honest about what the shards show from now on, an entry
  with the identities they show having the right digest (\<open>stage_honest\<close>), while entries that are out of date or
  belong to other sessions may say anything.\<close>

theorem coverage_exact:
  assumes "stage_honest e (clock w) dir (files w) hc" and "apart e dir (files w)"
    and "valid_shard_fact (fact_of e claimed)" and "concat (map snd claimed) \<noteq> []"
    and "inj_on (sha256 e) (snd ` (set claimed \<union> set (shards_of dir (files w))))"
    and "dir_covers_with_cache e dir (fact_of e claimed) hc w = (Inr (b, hc'), w')"
  shows "b \<longleftrightarrow> prefix claimed (shards_of dir (files w))"
  using honest_cache.covers_answer [OF assms(6) refl order_refl] assms(1,2) covered_fact_of [OF assms(3-5)] by simp

theorem coverage_exact_witness:
  "\<exists>hc' w'. dir_covers_with_cache demo_colenv demo_dir (fact_of demo_colenv [(1, ''x'')]) demo_cache demo_world =
    (Inr (True, hc'), w')"
proof -
  obtain b hc' w' where r: "dir_covers_with_cache demo_colenv demo_dir (fact_of demo_colenv [(1, ''x'')]) demo_cache demo_world =
    (Inr (b, hc'), w')" using demo_covers_run by blast
  have "b \<longleftrightarrow> prefix [(1, ''x'')] (shards_of demo_dir (files demo_world))"
    by (rule coverage_exact [OF demo_honest demo_apart demo_claim_valid _ _ r]) simp_all
  with r show ?thesis by simp
qed

text \<open>Once a claim has been taken of a session, it stays covered whatever a writer then does and
  whichever of its operations fail.\<close>

theorem claim_survives_writes:
  assumes "dir_ok dir (files w)" and "unique_numbers dir (files w)" and "counter_room dir (files w)"
    and "source_ready dir source (files w)"
    and "write_shard_in_dir e0 dir cap source ids w = (r, w1)"
    and "stage_true e dir (files w1) hc" and "apart e dir (files w1)"
    and "dir_covers_with_cache e dir (fact_of e (shards_of dir (files w))) hc w1 = (Inr (b, hc'), w2)"
  shows "b"
proof -
  have "settled dir (source_raw source) (moved_by source) (files w) (files w1)"
    using write_shard_settled [OF assms(1,3,4), of e0 cap ids] assms(5) by simp
  then have "prefix (shards_of dir (files w)) (shards_of dir (files w1))"
    by (intro shards_extend) (use assms(1,2) in \<open>auto simp: settled_def dir_ok_def\<close>)
  with dir_covers_result [OF assms(8,6,7)] show ?thesis
    by (simp add: covered_later)
qed

theorem claim_survives_writes_witness:
  "\<exists>r w1 hc' w2. write_shard_in_dir demo_env demo_dir 20 (Store ''x'' Collect False) [] demo_world = (r, w1) \<and>
     dir_covers_with_cache demo_colenv demo_dir (fact_of demo_colenv [(1, ''x'')]) disabled_cache w1 = (Inr (True, hc'), w2)"
proof -
  have "duplicate_of demo_env ''x'' demo_dir (files demo_world) = Some (1, demo_shard)"
    unfolding duplicate_of_def demo_entries by (simp add: sort_entries_def demo_env_def demo_world_def)
  then obtain r k where wr: "write_shard_in_dir demo_env demo_dir 20 (Store ''x'' Collect False) [] demo_world =
      (r, demo_world\<lparr>clock := k\<rparr>)"
    using write_store_replay [OF demo_nofault, of "''x''" Collect False demo_dir demo_world 1 demo_shard 20 "[]"] by auto
  obtain b hc' w2 where r: "dir_covers_with_cache demo_colenv demo_dir (fact_of demo_colenv (shards_of demo_dir (files demo_world)))
      disabled_cache (demo_world\<lparr>clock := k\<rparr>) = (Inr (b, hc'), w2)" using demo_covers_run by blast
  have b
    by (rule claim_survives_writes [OF _ _ _ _ wr _ _ r])
      (use demo_claim_valid in \<open>simp_all add: stage_true_disabled session_body_shards\<close>)
  with wr r show ?thesis by simp
qed

section \<open>Verdicts\<close>

text \<open>Shards hold what a claim is made of: all of its bytes in order, or every one of its shards.\<close>

definition holds_claim :: "(nat \<times> bytes) list \<Rightarrow> (nat \<times> bytes) list \<Rightarrow> bool" where
  "holds_claim cs claimed \<longleftrightarrow> concat (map snd cs) = concat (map snd claimed) \<or> set claimed \<subseteq> set cs"

definition compared :: "(nat \<times> bytes) list list \<Rightarrow> bytes set" where
  "compared css = (\<Union>cs \<in> set css. insert (concat (map snd cs)) (snd ` set cs))"

lemma same_payload_holds:
  assumes "same_shard_payload (fact_of e cs) (fact_of e claimed)" "inj_on (sha256 e) (compared [cs, claimed])"
  shows "concat (map snd cs) = concat (map snd claimed)"
proof -
  have "sha256 e (concat (map snd cs)) = sha256 e (concat (map snd claimed))"
    using assms(1) by (simp add: same_shard_payload_def fact_of_def hex_inj)
  then show ?thesis by (rule inj_onD [OF assms(2)]) (simp_all add: compared_def)
qed

lemma archive_contains_holds:
  assumes "inj_on (sha256 e) (compared [cs, claimed])"
  shows "archive_contains_shards (fact_of e cs) (fact_of e claimed) \<longleftrightarrow>
    valid_shard_fact (fact_of e cs) \<and> valid_shard_fact (fact_of e claimed) \<and> set claimed \<subseteq> set cs"
proof -
  have "inj_on (sha256 e) (snd ` (set cs \<union> set claimed))"
    by (rule inj_on_subset [OF assms]) (auto simp: compared_def)
  then have i: "inj_on (fp_of e) (set cs \<union> set claimed)" by (rule inj_on_fp)
  have "fp_of e ` set claimed \<subseteq> fp_of e ` set cs \<longleftrightarrow> set claimed \<subseteq> set cs"
    using i by (auto simp: inj_on_def) blast
  moreover have "archive_contains_shards (fact_of e cs) (fact_of e claimed) \<longleftrightarrow>
    valid_shard_fact (fact_of e cs) \<and> valid_shard_fact (fact_of e claimed) \<and> fp_of e ` set claimed \<subseteq> fp_of e ` set cs"
    by (auto simp: archive_contains_shards_def list_all_iff valid_shard_fact_def fact_of_def)
  ultimately show ?thesis by simp
qed

lemma covers_compared:
  assumes "inj_on (sha256 e) (compared css)" "cs \<in> set css" "claimed \<in> set css"
    and "valid_shard_fact (fact_of e claimed)" "concat (map snd claimed) \<noteq> []"
  shows "claim_covered e cs (fact_of e claimed) \<longleftrightarrow> prefix claimed cs"
proof (rule covered_fact_of [OF assms(4,5)])
  show "inj_on (sha256 e) (snd ` (set claimed \<union> set cs))"
    by (rule inj_on_subset [OF assms(1)]) (use assms(2,3) in \<open>auto simp: compared_def\<close>)
qed

text \<open>Facts read back from summaries or from the archive, as facts of the shards they were taken of.\<close>

definition facts_true :: "('x env_scheme) \<Rightarrow> ('k \<Rightarrow> (nat \<times> bytes) list) \<Rightarrow> ('k \<times> shard_set) list option \<Rightarrow> 'k \<Rightarrow> bool" where
  "facts_true e held m k \<longleftrightarrow>
     (case m of None \<Rightarrow> True | Some xs \<Rightarrow> (case map_of xs k of None \<Rightarrow> True | Some x \<Rightarrow> x = fact_of e (held k)))"

text \<open>C8: A debt that is proved, in any of the three ways, names bytes that somebody holds: its shards
  begin the session's directory on the stage; or the stage keeps no shard of the session and the shards the
  retained summary was taken of hold the claim, all of its bytes in order or every one of its shards; or the shards
  the archive's fact was taken of hold it. This is of a debt of the machine itself whose claim is well formed, of bytes
  that are not empty, and carries its shards' fingerprints, so not of a claim from before fingerprints were
  recorded; the facts of the summary and of the archive are those of some list of shards; no two of the bytes
  compared, shards and concatenations, share a SHA-256; the digests of the shards' paths differ; and the
  cache is honest about what the shards show from now on (\<open>stage_honest\<close>), whatever its other entries say.\<close>

theorem proved_debt_is_held:
  assumes "de_machine d = machine" and "dir = session_shard_dir machine (de_session_id d)"
    and "stage_honest e (clock w) dir (files w) hc" and "apart e dir (files w)"
    and "de_shards d = fact_of e claimed" and "valid_shard_fact (de_shards d)" and "concat (map snd claimed) \<noteq> []"
    and "facts_true e summarised manifest (de_session_id d)" and "facts_true e archived remote (machine, de_session_id d)"
    and "inj_on (sha256 e) (compared [claimed, shards_of dir (files w), summarised (de_session_id d), archived (machine, de_session_id d)])"
    and "verify_debt e d machine remote manifest hc w = (Inr (v, hc'), w')" and "proves v"
  shows "prefix claimed (shards_of dir (files w)) \<or>
    shards_of dir (files w) = [] \<and> holds_claim (summarised (de_session_id d)) claimed \<or>
    holds_claim (archived (machine, de_session_id d)) claimed"
proof -
  let ?cs = "shards_of dir (files w)" and ?s = "de_session_id d"
  have sub: "inj_on (sha256 e) (compared [summarised ?s, claimed])" "inj_on (sha256 e) (compared [archived (machine, ?s), claimed])"
    by (rule inj_on_subset [OF assms(10)], force simp: compared_def)+
  from assms(11) obtain u hc1 w1 where l: "debt_settled_locally e d machine manifest hc w = (Inr (u, hc1), w1)"
    and rest: "(case u of Some v \<Rightarrow> io_return (v, hc1) | None \<Rightarrow> io_return (archive_verdict remote machine d, hc1)) w1 =
      (Inr (v, hc') :: collect_error + _, w')"
    by (auto simp: verify_debt_def io_bind_Inr)
  note r = honest_cache.locally_answer [OF l assms(1,2) refl order_refl conjI, OF assms(3,4)]
  have cov: "claim_covered e ?cs (de_shards d) \<longleftrightarrow> prefix claimed ?cs" unfolding assms(5)
    by (rule covers_compared [OF assms(10)]) (use assms(5,6,7) in simp_all)
  consider (stage) "claim_covered e ?cs (de_shards d)"
    | (summary) m x where "?cs = []" "manifest = Some m" "map_of m ?s = Some x" "retained_summary_covers x (de_shards d)"
    | (archive) "v = archive_verdict remote machine d"
    using r rest by (auto simp: io_return_def split: if_splits option.splits)
  then show ?thesis
  proof cases
    case stage
    with cov show ?thesis by simp
  next
    case summary
    with assms(8) have x: "x = fact_of e (summarised ?s)" by (simp add: facts_true_def)
    have "holds_claim (summarised ?s) claimed"
      using summary(4) same_payload_holds [OF _ sub(1)] archive_contains_holds [OF sub(1)]
      unfolding x assms(5) retained_summary_covers_def holds_claim_def by blast
    with summary(1) show ?thesis by simp
  next
    case archive
    with assms(12) obtain m x where m: "remote = Some m" "map_of m (machine, ?s) = Some x"
      "same_shard_payload x (de_shards d) \<or> archive_contains_shards x (de_shards d)"
      by (auto simp: archive_verdict_def split: option.splits if_splits)
    with assms(9) have x: "x = fact_of e (archived (machine, ?s))" by (simp add: facts_true_def)
    have "holds_claim (archived (machine, ?s)) claimed"
      using m(3) same_payload_holds [OF _ sub(2)] archive_contains_holds [OF sub(2)]
      unfolding x assms(5) holds_claim_def by blast
    then show ?thesis by simp
  qed
qed

definition demo_debt :: "nat debt_entry" where
  "demo_debt = \<lparr>de_machine = ''m'', de_session_id = ''s'',
     de_cursor = \<lparr>oe_offset = 1, oe_prefix_len = 1, oe_prefix_sha256 = hex (pad_sha ''x''), oe_compressed = False,
       oe_opencode = None, oe_store_fingerprint = None, oe_grok_bot_row_digests = None, oe_opencode_record_digests = None,
       oe_opencode_map_digest = None\<rparr>,
     de_shards = fact_of demo_colenv [(1, ''x'')]\<rparr>"

lemma demo_debt_simps [simp]: "de_machine demo_debt = ''m''" "session_shard_dir ''m'' (de_session_id demo_debt) = demo_dir"
    "de_shards demo_debt = fact_of demo_colenv [(1, ''x'')]"
  by (simp_all add: demo_debt_def demo_dir_def)

lemma demo_inj: "inj_on (sha256 demo_colenv) {[], ''x''}"
  by (simp add: demo_colenv_def pad_sha_def numeral_eq_Suc)

theorem proved_debt_is_held_witness:
  "\<exists>v hc' w'. verify_debt demo_colenv demo_debt ''m'' None None demo_cache demo_world = (Inr (v, hc'), w') \<and>
    proves v \<and> prefix [(1, ''x'')] (shards_of demo_dir (files demo_world))"
proof -
  obtain b hc1 w1 where c: "dir_covers_with_cache demo_colenv demo_dir (fact_of demo_colenv [(1, ''x'')]) demo_cache demo_world =
    (Inr (b, hc1), w1)" using demo_covers_run by blast
  have b using honest_cache.covers_answer [OF c refl order_refl conjI, OF demo_honest demo_apart] covered_later [of "[(1, ''x'')]" "[(1, ''x'')]"] by simp
  then have r: "verify_debt demo_colenv demo_debt ''m'' None None demo_cache demo_world = (Inr (OwedOnStage, hc1), w1)"
    using c by (simp add: verify_debt_def debt_settled_locally_def stage_covers_def io_bind_def io_return_def)
  have "prefix [(1, ''x'')] (shards_of demo_dir (files demo_world)) \<or>
    shards_of demo_dir (files demo_world) = [] \<and> holds_claim [] [(1, ''x'')] \<or> holds_claim [] [(1, ''x'')]"
    by (rule proved_debt_is_held [OF _ _ demo_honest demo_apart _ _ _ _ _ _ r, where summarised = "\<lambda>_. []" and archived = "\<lambda>_. []"])
      (use demo_claim_valid demo_inj in \<open>simp_all add: facts_true_def compared_def insert_commute\<close>)
  with r show ?thesis by auto
qed

text \<open>Without faults every stored debt gets a verdict, and the archive is asked only when neither the
  stage nor the retained summary settles it.\<close>

theorem every_debt_is_judged:
  assumes "nofault e" and "de_machine d = machine" and "dir = session_shard_dir machine (de_session_id d)"
    and "stage_true e dir (files w) hc" and "apart e dir (files w)"
  shows "\<exists>hc' w'. verify_debt e d machine remote manifest hc w = (Inr (
      (if claim_covered e (shards_of dir (files w)) (de_shards d) then OwedOnStage
       else if shards_of dir (files w) = [] \<and> (case manifest of None \<Rightarrow> False | Some m \<Rightarrow>
               (case bt_get m (de_session_id d) of None \<Rightarrow> False | Some x \<Rightarrow> retained_summary_covers x (de_shards d)))
         then SettledReclaimed
       else archive_verdict remote machine d), hc'), w') \<and> files w' = files w"
proof -
  have nf: "\<And>n. \<not> fault e n" using assms(1) by simp
  have "answers (debt_settled_locally e d machine manifest hc) w"
    unfolding debt_settled_locally_def stage_covers_def
    by (auto simp: assms(2) intro!: answers_bind answers_covers answers_list nf split: option.split)
  then obtain u hc1 w1 where l: "debt_settled_locally e d machine manifest hc w = (Inr (u, hc1), w1)"
    by (auto simp: answers_def)
  from debt_locally_result [OF l assms(2-5)] l show ?thesis
    by (auto simp: verify_debt_def io_bind_def io_return_def)
qed

theorem every_debt_is_judged_witness:
  "\<exists>hc' w'. verify_debt demo_colenv demo_debt ''m'' None None disabled_cache demo_world = (Inr (OwedOnStage, hc'), w')"
proof -
  have "claim_covered demo_colenv (shards_of demo_dir (files demo_world)) (de_shards demo_debt)"
    using covered_later [of "[(1, ''x'')]" "[(1, ''x'')]"] by simp
  moreover have "nofault demo_colenv" by (simp add: demo_colenv_def)
  moreover have "de_machine demo_debt = ''m''" "demo_dir = session_shard_dir ''m'' (de_session_id demo_debt)"
    by simp_all
  ultimately show ?thesis
    using every_debt_is_judged [OF _ _ _ stage_true_disabled demo_apart, of demo_colenv demo_debt "''m''" None None] by auto
qed

section \<open>Unknown modification times\<close>

lemma unknown_mtime_never_hits:
  "fi_mtime_ns i = None \<Longrightarrow> file_remembered hc key i = None \<and> prefix_remembered hc key offset i = None"
  by (auto simp: file_remembered_def prefix_remembered_def is_same_file_def split: option.split cache_value.split)

lemma identities_single:
  "nofault e \<Longrightarrow> map_of (files w) p = Some c \<Longrightarrow> (\<And>t. stage_meta e t p = (m, i)) \<Longrightarrow>
     shard_identities_of e [(n, p)] w = (Inr [\<lparr>si_sequence = n, si_path = stage_digest e p,
       si_file = \<lparr>fi_size = length c, fi_mtime_ns = m, fi_inode = i\<rparr>\<rparr>], w\<lparr>clock := Suc (clock w)\<rparr>)"
  by (simp add: shard_identities_of_def io_bind_def stat_stage_def io_return_def)

text \<open>The digests of single files are never remembered or answered without a modification time, but
  the digest of a directory is: after a rewrite of the same size the digest of the old bytes is
  answered.\<close>

theorem directory_digest_ignores_unknown_mtime:
  assumes "nofault e" and "\<And>t. stage_meta e t p = (None, i)" and "hc = disabled_cache"
    and "map_of (files w) p = Some c" and "map_of (files w2) p = Some c'" and "length c' = length c" and "c \<noteq> []"
  shows "\<exists>a hc1 w1 a' hc2 w3.
    shard_concat_sha256 e dir [(n, p)] (length c) hc w = (Inr (a, hc1), w1) \<and>
    shard_concat_sha256 e dir [(n, p)] (length c) hc1 w2 = (Inr (a', hc2), w3) \<and>
    ha_from_cache a' \<and> ha_sha256 a' = hex (sha256 e c)"
proof -
  let ?ids = "[\<lparr>si_sequence = n, si_path = stage_digest e p, si_file = \<lparr>fi_size = length c, fi_mtime_ns = None, fi_inode = i\<rparr>\<rparr>]"
  let ?key = "''d:'' @ stage_digest e dir"
  let ?hc1 = "remember ?key (CacheDir ?ids (length c) (hex (sha256 e c))) hc"
  have r0: "dir_remembered hc ?key (length c) ?ids = None" by (simp add: dir_remembered_def assms(3) disabled_cache_def)
  have r1: "dir_remembered ?hc1 ?key (length c) ?ids = Some (hex (sha256 e c))"
    by (simp add: dir_remembered_def remember_def assms(3) disabled_cache_def)
  have 1: "shard_concat_sha256 e dir [(n, p)] (length c) hc w =
    (Inr (\<lparr>ha_sha256 = hex (sha256 e c), ha_bytes_read = length c, ha_from_cache = False, ha_size = length c\<rparr>, ?hc1),
     w\<lparr>clock := Suc (Suc (clock w))\<rparr>)"
    using identities_single [OF assms(1,4,2), of n] r0 assms(1,4,7)
    by (simp add: shard_concat_sha256_def io_bind_def io_return_def Let_def read_file_def)
  have 2: "shard_concat_sha256 e dir [(n, p)] (length c) ?hc1 w2 =
    (Inr (cache_hit (hex (sha256 e c)) (length c), touch_key ?key ?hc1), w2\<lparr>clock := Suc (clock w2)\<rparr>)"
    using identities_single [OF assms(1,5,2), of n] r1 assms(6)
    by (simp add: shard_concat_sha256_def io_bind_def io_return_def Let_def)
  have "ha_from_cache (cache_hit (hex (sha256 e c)) (length c))" "ha_sha256 (cache_hit (hex (sha256 e c)) (length c)) = hex (sha256 e c)"
    by (simp_all add: cache_hit_def)
  with 1 2 show ?thesis by blast
qed

theorem directory_digest_ignores_unknown_mtime_witness:
  "\<exists>a a' hc1 w1 hc2 w3. let e = demo_colenv\<lparr>stage_meta := (\<lambda>_ _. (None, 1))\<rparr>; f = (\<lambda>c. \<lparr>files = [(demo_shard, c)], clock = 0\<rparr>) in
    shard_concat_sha256 e demo_dir [(1, demo_shard)] 1 disabled_cache (f ''x'') = (Inr (a, hc1), w1) \<and>
    shard_concat_sha256 e demo_dir [(1, demo_shard)] 1 hc1 (f ''y'') = (Inr (a', hc2), w3) \<and>
    ha_sha256 a' = hex (pad_sha ''x'')"
  using directory_digest_ignores_unknown_mtime [of "demo_colenv\<lparr>stage_meta := (\<lambda>_ _. (None, 1))\<rparr>" demo_shard 1 disabled_cache
    "\<lparr>files = [(demo_shard, ''x'')], clock = 0\<rparr>" "''x''" "\<lparr>files = [(demo_shard, ''y'')], clock = 0\<rparr>" "''y''" demo_dir 1]
  by (simp add: demo_colenv_def Let_def) blast

end
