(* ===== verification/Collect_Props.thy ===== *)
theory Collect_Props
  imports Collect_Progress Debt_Props
begin

text \<open>
  What collecting a growing JSONL source adds up to over any history of passes, successful or failing:
  the stage holds the complete lines of the source, each once and in order; and where a stored
  position gets ahead of the claim stored beside it.
\<close>

section \<open>Complete lines\<close>

lemma lines_up_to:
  assumes "line_end C b"
  shows "\<exists>k \<le> length (fst (complete_lines C)). take b C = seal_framed (take k (fst (complete_lines C)))"
proof -
  have b: "b \<le> length C" using assms by (simp add: line_end_def)
  obtain ls rest where l: "take b C = seal_framed ls @ rest" "clean ls" "newline \<notin> set rest" using framed_exists by blast
  obtain ms tail where m: "drop b C = seal_framed ms @ tail" "clean ms" "newline \<notin> set tail" using framed_exists by blast
  have "rest = []"
  proof (rule ccontr)
    assume r: "rest \<noteq> []"
    then have "last (take b C) = last rest" "take b C \<noteq> []" using l(1) by simp_all
    moreover have "last (take b C) = newline" if "take b C \<noteq> []"
      using that assms by (simp add: line_end_def last_conv_nth min_absorb2)
    ultimately show False using l(3) r last_in_set by metis
  qed
  then have "C = seal_framed (ls @ ms) @ tail" using l(1) m(1) append_take_drop_id [of b C] by simp
  moreover have "clean (ls @ ms)" using l(2) m(2) by auto
  ultimately have "fst (complete_lines C) = ls @ ms" using complete_lines_framed m(3) by (metis fst_conv)
  with l(1) \<open>rest = []\<close> show ?thesis by (intro exI [of _ "length ls"]) simp
qed

lemma in_drop: "b \<le> n \<Longrightarrow> n < length C \<Longrightarrow> C ! n \<in> set (drop b C)"
  using nth_mem [of "n - b" "drop b C"] by simp

lemma all_lines:
  assumes "line_end C b" "read_up_to C (length C) b"
  shows "take b C = seal_framed (fst (complete_lines C))"
proof -
  obtain ls n where cl: "complete_lines C = (ls, n)" by (cases "complete_lines C")
  then have n: "take n C = seal_framed ls" "n = length (seal_framed ls)" "newline \<notin> set (drop n C)"
    unfolding complete_lines_result by blast+
  have "newline \<notin> set (drop b C)" using assms(2) by (auto simp: read_up_to_def)
  have "length (take n C) = n" using arg_cong [OF n(1), of length] n(2) by (rule trans [OF _ sym])
  then have "n \<le> length C" by simp
  have "\<not> b < n"
  proof
    assume lt: "b < n"
    then have "n \<noteq> 0" by simp
    then have "ls \<noteq> []" using n(2) by auto
    from framed_last [OF this] obtain xs where xs: "take n C = xs @ [newline]" using n(1) by auto
    then have "length (take n C) = Suc (length xs)" by simp
    then have "length xs = n - 1" using \<open>n \<le> length C\<close> by simp
    then have "take n C ! (n - 1) = newline" using xs by (metis nth_append_length)
    then have "C ! (n - 1) = newline" using \<open>n \<noteq> 0\<close> by simp
    moreover have "C ! (n - 1) \<in> set (drop b C)" using lt \<open>n \<le> length C\<close> by (intro in_drop) simp_all
    ultimately show False using \<open>newline \<notin> set (drop b C)\<close> by simp
  qed
  moreover have "\<not> n < b"
  proof
    assume lt: "n < b"
    then have "C ! (b - 1) = newline" "b \<le> length C" using assms(1) by (auto simp: line_end_def)
    moreover have "C ! (b - 1) \<in> set (drop n C)" using lt \<open>b \<le> length C\<close> by (intro in_drop) simp_all
    ultimately show False using n(3) by simp
  qed
  ultimately have "b = n" by simp
  with n(1) cl show ?thesis by simp
qed

section \<open>Histories of passes\<close>

text \<open>The state stored after a pass: a failing pass stores nothing.\<close>

definition stored_after :: "'c pass_state \<Rightarrow> collect_error + 'c processed \<times> 'c pass_state \<Rightarrow> 'c pass_state" where
  "stored_after st res = (case res of Inl x \<Rightarrow> st | Inr (x, st') \<Rightarrow> st')"

definition sound_names :: "('x colenv_scheme) \<Rightarrow> path \<Rightarrow> fs \<Rightarrow> bool" where
  "sound_names e dir f \<longleftrightarrow> apart e dir f \<and> below_million dir f"

inductive history ::
  "('x colenv_scheme) \<Rightarrow> session_record \<Rightarrow> string \<Rightarrow> string \<Rightarrow> bytes \<Rightarrow> 'c pass_state \<Rightarrow> world \<Rightarrow> 'c pass_state \<Rightarrow> world \<Rightarrow> bool"
  for e0 :: "'x colenv_scheme" and r key machine C and st0 :: "'c pass_state" and w0 where
  start: "history e0 r key machine C st0 w0 st0 w0"
| pass: "history e0 r key machine C st0 w0 st w \<Longrightarrow> sha256 (e :: 'x colenv_scheme) = sha256 e0 \<Longrightarrow> stage_root e = stage_root e0 \<Longrightarrow>
     appending e (sr_absolute_path r) (length (session_body (session_shard_dir machine (sr_id r)) (files w))) C \<Longrightarrow>
     collect_record e r key machine cap remote st w = (res, w') \<Longrightarrow>
     sound_names e0 (session_shard_dir machine (sr_id r)) (files w') \<Longrightarrow>
     history e0 r key machine C st0 w0 (stored_after st res) w'"

lemma tracks_env:
  assumes "sha256 e = sha256 e0" "stage_root e = stage_root e0"
  shows "tracks e r key machine C b st f = tracks e0 r key machine C b st f" "apart e dir f = apart e0 dir f"
proof -
  have p: "path_digest e = path_digest e0" "stage_digest e = stage_digest e0"
    using assms by (simp_all add: fun_eq_iff path_digest_def stage_digest_def)
  have f: "fact_of e = fact_of e0" "entry_at e C = entry_at e0 C" using assms
    by (simp_all add: fun_eq_iff fact_of_def fingerprint_def entry_at_def)
  show "apart e dir f = apart e0 dir f" by (simp add: apart_def p)
  show "tracks e r key machine C b st f = tracks e0 r key machine C b st f"
    using assms by (simp add: tracks_def cache_true_def stage_true_def file_entries_true_def dir_entries_true_def source_true_def
        stored_tracks_def debt_tracks_def p f)
qed

definition starts_fresh :: "session_record \<Rightarrow> string \<Rightarrow> string \<Rightarrow> 'c pass_state \<Rightarrow> fs \<Rightarrow> bool" where
  "starts_fresh r key machine st f \<longleftrightarrow> (let dir = session_shard_dir machine (sr_id r) in
     dir_ok dir f \<and> unique_numbers dir f \<and> entries_of dir f = [] \<and> bt_ok (ps_debts st) \<and> bt_get (ps_debts st) key = None \<and>
     ps_cache st = disabled_cache \<and> no_row (ps_manifest st) (sr_id r))"

lemma fresh_tracks: "starts_fresh r key machine st f \<Longrightarrow> tracks e r key machine C 0 st f"
proof -
  let ?dir = "session_shard_dir machine (sr_id r)"
  assume s: "starts_fresh r key machine st f"
  then have e: "entries_of ?dir f = []" by (simp add: starts_fresh_def Let_def)
  then have "shards_of ?dir f = []" by (simp add: shards_of_def sort_entries_def)
  then show ?thesis using s stage_true_disabled
    by (simp add: tracks_def stage_tracks_def starts_fresh_def Let_def session_body_shards line_end_def cache_true_def
        source_true_def source_view_def stored_tracks_def disabled_cache_def [THEN arg_cong [where f = hc_entries]])
qed

lemma history_tracks:
  assumes "history e0 r key machine C st0 w0 st w" "dir = session_shard_dir machine (sr_id r)"
    and "jsonl_record r" "byte_equality_establishes_event_identity r"
    and "tracks e0 r key machine C b0 st0 (files w0)" "sound_names e0 dir (files w0)"
  shows "(\<exists>b \<ge> b0. tracks e0 r key machine C b st (files w)) \<and> sound_names e0 dir (files w)"
  using assms(1)
proof (induction rule: history.induct)
  case start
  then show ?case using assms(5,6) by blast
next
  case (pass st w e cap remote res w')
  then obtain b where b: "b0 \<le> b" "tracks e0 r key machine C b st (files w)" and n: "sound_names e0 dir (files w)" by blast
  note env = tracks_env [OF pass.hyps(2,3)]
  have "length (session_body dir (files w)) = b"
    using b(2) line_end_length by (auto simp: tracks_def stage_tracks_def Let_def assms(2))
  then have src: "appending e (sr_absolute_path r) b C" using pass.hyps(4) assms(2) by simp
  have "pass_ends e r key machine C b b st (files w) res (files w')"
    by (rule pass_result [OF pass.hyps(5) assms(2,3,4) _ src order.refl])
      (use b(2) n pass.hyps(6) assms(2) in \<open>simp_all add: sound_names_def env\<close>)
  then obtain k where "b \<le> k" "tracks e r key machine C k (stored_after st res) (files w')"
    by (cases res) (auto simp: pass_ends_def stored_after_def)
  with b(1) pass.hyps(6) env(1) assms(2) show ?case by (metis le_trans)
qed

text \<open>C1: Take a plain JSONL source for which equal bytes establish the identity of an event, one that is
  movable or carries no provenance, of a session that was never collected: its directory is empty and in order,
  no position is stored for it, the summary has no row of it, and the hash cache is empty. Over any history of passes
  over it, each under its own faults and with its own failures, bucket cap and archive facts, in which nothing else writes
  to the session's directory, the source during a pass shows some beginning of one byte string that is at least as long as
  what the stage held before the pass, SHA-256 and the stage root stay the same, and at the start and after every pass the
  shard counter is below a million and the digests of the shards' paths differ: what the stage holds of
  the session is the first complete lines of that byte string, each of them once and in order, and the position
  stored for it, where a pass that fails stores none, is never past what the stage holds. A source with provenance that is
  not movable is outside the claim: a pass over it that fails once it has sealed starts again from the beginning.\<close>

theorem lines_collected_once:
  assumes "history e0 r key machine C st0 w0 st w" and "jsonl_record r" and "byte_equality_establishes_event_identity r"
    and "starts_fresh r key machine st0 (files w0)" and "sound_names e0 (session_shard_dir machine (sr_id r)) (files w0)"
  shows "\<exists>k \<le> length (fst (complete_lines C)).
      session_body (session_shard_dir machine (sr_id r)) (files w) = seal_framed (take k (fst (complete_lines C))) \<and>
      (\<forall>d. bt_get (ps_debts st) key = Some d \<longrightarrow>
        oe_offset (de_cursor d) \<le> length (session_body (session_shard_dir machine (sr_id r)) (files w)))"
proof -
  obtain b where b: "tracks e0 r key machine C b st (files w)"
    using history_tracks [OF assms(1) refl assms(2,3) fresh_tracks [OF assms(4)] assms(5)] by blast
  then have t: "session_body (session_shard_dir machine (sr_id r)) (files w) = take b C" "line_end C b"
    by (auto simp: tracks_def stage_tracks_def Let_def)
  have "oe_offset (de_cursor d) \<le> b" if "bt_get (ps_debts st) key = Some d" for d
    using b that by (auto simp: tracks_def stored_tracks_def debt_tracks_def entry_at_def plain_entry_def Let_def)
  with lines_up_to [OF t(2)] t line_end_length [OF t(2)] show ?thesis by auto
qed

text \<open>C22: Take a session with a plain JSONL source for which equal bytes establish the identity of an event, which was never
  collected (an empty directory in order, no stored position, no row in the summary, so not one whose body was
  reclaimed, an empty hash cache), and any history of passes over it (\<open>history\<close>), each under its own faults, in
  which nothing else writes to its directory, the source only grows towards \<open>C\<close> and is never shorter than what the stage holds, SHA-256
  and the stage root stay the same, and the shard counter stays below a million and the digests of the shards' paths distinct.
  A further pass that ends well, under any faults and with sound names after it, over a source that holds \<open>C\<close> at every moment of the
  pass at which it can be read, leaves every complete line of \<open>C\<close> on the stage, once and in
  order and nothing else, and stores a position at their end.\<close>

theorem pass_catches_up:
  assumes "history e0 r key machine C st0 w0 st w" and "jsonl_record r" and "byte_equality_establishes_event_identity r"
    and "starts_fresh r key machine st0 (files w0)" and "sound_names e0 (session_shard_dir machine (sr_id r)) (files w0)"
    and "sha256 e = sha256 e0" "stage_root e = stage_root e0" and "appending e (sr_absolute_path r) (length C) C"
    and "collect_record e r key machine cap remote st w = (Inr (x, st'), w')"
    and "sound_names e0 (session_shard_dir machine (sr_id r)) (files w')"
  shows "session_body (session_shard_dir machine (sr_id r)) (files w') = seal_framed (fst (complete_lines C)) \<and>
    (\<exists>d. bt_get (ps_debts st') key = Some d \<and>
      de_cursor d = entry_at e0 C (length (seal_framed (fst (complete_lines C)))))"
proof -
  let ?dir = "session_shard_dir machine (sr_id r)"
  obtain b where b: "tracks e0 r key machine C b st (files w)" and n: "sound_names e0 ?dir (files w)"
    using history_tracks [OF assms(1) refl assms(2,3) fresh_tracks [OF assms(4)] assms(5)] by blast
  note env = tracks_env [OF assms(6,7)]
  have "b \<le> length C" using b by (auto simp: tracks_def stage_tracks_def line_end_def Let_def)
  have "pass_ends e r key machine C (length C) b st (files w) (Inr (x, st')) (files w')"
    by (rule pass_result [OF assms(9) refl assms(2,3) _ assms(8) \<open>b \<le> length C\<close>])
      (use b n assms(10) in \<open>simp_all add: sound_names_def env\<close>)
  then obtain k d where k: "tracks e r key machine C k st' (files w')" "bt_get (ps_debts st') key = Some d"
    "de_cursor d = entry_at e C k" "read_up_to C (length C) k" by (auto simp: pass_ends_def)
  have t: "session_body ?dir (files w') = take k C" "line_end C k"
    using k(1) by (auto simp: tracks_def stage_tracks_def Let_def)
  note all = all_lines [OF t(2) k(4)]
  have "entry_at e C = (entry_at e0 C :: nat \<Rightarrow> 'b offset_entry)" using assms(6) by (simp add: fun_eq_iff entry_at_def)
  with t all k(2,3) line_end_length [OF t(2)] show ?thesis by metis
qed

section \<open>Success\<close>

definition next_names :: "('x colenv_scheme) \<Rightarrow> path \<Rightarrow> nat \<Rightarrow> nat \<Rightarrow> fs \<Rightarrow> bool" where
  "next_names e dir cap h f \<longleftrightarrow> Suc h < 1000000 \<and>
     inj_on (stage_digest e) (insert (shard_path_in_dir dir (Suc h) cap) {p. shard_seq_of dir p \<noteq> None \<and> present f p})"

lemma added_sound:
  assumes "added dir cap h f0 f" "sound_names e dir f0" "next_names e dir cap h f0"
  shows "sound_names e dir f"
proof (cases "f = f0")
  case False
  with assms(1) obtain raw where i: "installed dir raw None f0 (shard_path_in_dir dir (Suc h) cap) (Suc h) f"
    by (auto simp: added_def)
  let ?q = "shard_path_in_dir dir (Suc h) cap"
  have q: "map_of f ?q \<noteq> None" "map_of f0 ?q = None" "map_of f (ctr dir) = Some (dec (Suc h))" "Suc h \<le> u64_max"
    and k: "keeps dir raw None f0 f" using i by (simp_all add: installed_def settled_def)
  have low: "below_million dir f"
    using q(3,4) assms(3) by (simp add: below_million_def counter_value_def classify_dec next_names_def)
  have only: "p = ?q \<or> present f0 p" if "shard_seq_of dir p \<noteq> None" "present f p" for p
  proof (cases "map_of f0 p = None")
    case True
    from that(1) obtain n where n: "numbered dir p n" by (auto simp: shard_seq_of_numbered)
    have "map_of f p \<noteq> None" using that(2) by (simp add: present_def)
    from keeps_new(3) [OF k n this True numbered_shard_path q(1,2)] show ?thesis by simp
  qed (simp add: present_def)
  have sub: "{p. shard_seq_of dir p \<noteq> None \<and> present f p} \<subseteq> insert ?q {p. shard_seq_of dir p \<noteq> None \<and> present f0 p}" using only by blast
  have "inj_on (stage_digest e) (insert ?q {p. shard_seq_of dir p \<noteq> None \<and> present f0 p})"
    using assms(3) by (simp only: next_names_def)
  from inj_on_subset [OF this sub] have "apart e dir f" unfolding apart_def .
  with low show ?thesis by (simp add: sound_names_def)
qed (use assms(2) in simp)

lemma quiet_pass_result:
  assumes "history e0 r key machine C st0 w0 st w" and "jsonl_record r" and "byte_equality_establishes_event_identity r"
    and "dir = session_shard_dir machine (sr_id r)"
    and "starts_fresh r key machine st0 (files w0)" and "sound_names e0 dir (files w0)"
    and "sha256 e = sha256 e0" "stage_root e = stage_root e0" and "quiet e (sr_absolute_path r) i C"
    and "high_water (base e) dir (files w) = Some h" and "next_names e0 dir cap h (files w)" and "length C \<le> u64_max"
  shows "\<exists>x st' w'. collect_record e r key machine cap remote st w = (Inr (x, st'), w') \<and>
    session_body dir (files w') = seal_framed (fst (complete_lines C)) \<and> sound_names e0 dir (files w')"
proof -
  obtain b where b: "tracks e0 r key machine C b st (files w)" and n: "sound_names e0 dir (files w)"
    using history_tracks [OF assms(1,4,2,3) fresh_tracks [OF assms(5)] assms(6)] by blast
  note env = tracks_env [OF assms(7,8)]
  have hw: "h < u64_max" using assms(11) by (simp add: next_names_def u64_max_def)
  have tr: "tracks e r key machine C b st (files w)" "apart e dir (files w)" using b n by (simp_all add: env sound_names_def)
  obtain x st' w' where run: "collect_record e r key machine cap remote st w = (Inr (x, st'), w')" "added dir cap h (files w) (files w')"
    using pass_succeeds [OF assms(9,4,2,3) tr assms(10) hw assms(12)] by blast
  have s: "sound_names e0 dir (files w')" by (rule added_sound [OF run(2) n assms(11)])
  have le: "b \<le> length C" using b by (auto simp: tracks_def stage_tracks_def line_end_def Let_def)
  have "pass_ends e r key machine C (length C) b st (files w) (Inr (x, st')) (files w')"
    by (rule pass_result [OF run(1) assms(4,2,3) tr(1) quiet_appending [OF assms(9)] le])
      (use n s in \<open>simp_all add: sound_names_def env\<close>)
  then obtain k where k: "tracks e r key machine C k st' (files w')" "read_up_to C (length C) k" by (auto simp: pass_ends_def)
  have "session_body dir (files w') = take k C" "line_end C k"
    using k(1) assms(4) by (auto simp: tracks_def stage_tracks_def Let_def)
  with all_lines k(2) run(1) s show ?thesis by metis
qed

text \<open>C23: After any such history of passes (\<open>history\<close>: a plain JSONL source for which equal bytes establish the identity of an
  event, a session that was never collected before and has no row in the summary, nothing else writing to its
  directory, the source growing towards \<open>C\<close>, counter below a million and names with distinct digests throughout), a pass in which no operation
  fails, over a source that holds \<open>C\<close> throughout the pass and can be read at every moment, does succeed, and the stage then
  holds exactly the complete lines of \<open>C\<close>, each once and in order, with names as sound as before. This is of a session whose highest
  number in use can be told, because its counter reads as a number or its absence is confirmed, whose next number is below a million,
  with a path whose digest differs from those of the shards that are there, and of a \<open>C\<close> whose length
  fits in \<open>u64\<close>; a damaged counter is an error of the pass and outside this claim.\<close>

theorem quiet_pass_collects_all:
  assumes "history e0 r key machine C st0 w0 st w" and "jsonl_record r" and "byte_equality_establishes_event_identity r"
    and "dir = session_shard_dir machine (sr_id r)"
    and "starts_fresh r key machine st0 (files w0)" and "sound_names e0 dir (files w0)"
    and "sha256 e = sha256 e0" "stage_root e = stage_root e0" and "quiet e (sr_absolute_path r) i C"
    and "high_water (base e) dir (files w) = Some h" and "next_names e0 dir cap h (files w)" and "length C \<le> u64_max"
  shows "\<exists>x st' w'. collect_record e r key machine cap remote st w = (Inr (x, st'), w') \<and>
    session_body dir (files w') = seal_framed (fst (complete_lines C)) \<and> sound_names e0 dir (files w')"
  by (rule quiet_pass_result [OF assms])

section \<open>A position ahead of its claim\<close>

text \<open>C36: when the stage was found further along than the stored position and no new line was there, the
  pass stores the further position beside the old claim: a stage that lost the shards in between still
  proves it.\<close>

theorem caught_up_position_keeps_old_claim:
  assumes "tracks e r key machine C b st (files w)" and "dir = session_shard_dir machine (sr_id r)"
    and "jsonl_record r" and "byte_equality_establishes_event_identity r"
    and "appending e (sr_absolute_path r) b C" and "sound_names e dir (files w)" and "sound_names e dir (files w')"
    and "bt_get (ps_debts st) key = Some d0" and "de_shards d0 = fact_of e claimed"
    and "collect_record e r key machine cap remote st w = (Inr (x, st'), w')" and "co_shard (pc_outcome x) = None"
  shows "\<exists>d. bt_get (ps_debts st') key = Some d \<and> oe_offset (de_cursor d) = b \<and> claim_covered e claimed (de_shards d)"
proof -
  have "pass_ends e r key machine C b b st (files w) (Inr (x, st')) (files w')"
    by (rule pass_result [OF assms(10,2,3,4,1,5) order.refl]) (use assms(6,7) in \<open>simp_all add: sound_names_def\<close>)
  then obtain d where "bt_get (ps_debts st') key = Some d" "de_cursor d = entry_at e C b" "de_shards d = de_shards d0"
    using assms(8,11) by (auto simp: pass_ends_def)
  then show ?thesis using assms(9) covered_later [of claimed claimed e] by (simp add: entry_at_def plain_entry_def)
qed

section \<open>A source whose events are not told apart by their bytes\<close>

lemma prefix_answers:
  assumes "quiet e p i C" "k \<le> length C"
  shows "answers (plain_state e p k hc) w"
proof -
  have p: "prefix_sha256 e p k None hc w = (let w1 = w\<lparr>clock := Suc (clock w)\<rparr> in
      case prefix_remembered hc (''p:'' @ path_digest e p) k i of
        Some sha \<Rightarrow> (Inr (cache_hit sha (fi_size i), touch_key (''p:'' @ path_digest e p) hc), w1)
      | None \<Rightarrow> (Inr (\<lparr>ha_sha256 = hex (sha256 e (take k C)), ha_bytes_read = length (take k C), ha_from_cache = False, ha_size = fi_size i\<rparr>,
           if fi_mtime_ns i \<noteq> None \<and> length (take k C) = k
           then remember (''p:'' @ path_digest e p) (CachePrefix i k (hex (sha256 e (take k C)))) hc else hc), w1\<lparr>clock := Suc (clock w1)\<rparr>))"
    using assms(1) by (simp add: prefix_sha256_def io_bind_def quiet_stat quiet_read io_return_def Let_def split: option.split)
  show ?thesis
    using assms(2) by (auto simp: answers_def plain_state_def io_bind_def p io_return_def Let_def cache_hit_def split: option.split)
qed

lemma installed_body:
  assumes "installed dir raw None f0 (shard_path_in_dir dir (Suc h) cap) (Suc h) f" and "dir_ok dir f0" "unique_numbers dir f0" "Suc h < 1000000"
  shows "session_body dir f = session_body dir f0 @ raw"
proof -
  have q: "map_of f (ctr dir) = Some (dec (Suc h))" "Suc h \<le> u64_max" "keeps dir raw None f0 f" "dir_ok dir f"
    using assms(1) by (auto simp: installed_def settled_def dir_ok_def)
  then have "below_million dir f" using assms(4) by (simp add: below_million_def counter_value_def classify_dec)
  from installed_listed [OF assms(1) this] shards_step [OF q(3) assms(3)] assms(2) q(4)
  obtain n where "shards_of dir f = shards_of dir f0 @ [(n, raw)]" by (auto simp: dir_ok_def)
  then show ?thesis by (simp add: session_body_shards)
qed

text \<open>C40: For a plain JSONL source with provenance that is not movable, equal bytes are not taken as the same event: a pass
  for which no position is stored reads the source from the beginning and adds every complete line of it to what the
  stage holds, whatever that is. So after a pass that failed once it had sealed, and so stored no position,
  the same lines are sealed a second time. This is of a pass in which no operation fails, over a source that holds \<open>C\<close>
  throughout and has a complete line, with a session directory in order, a highest number in use that can be told and a next
  number below a million; the position stored then is the end of the lines.\<close>

theorem unidentified_source_sealed_again:
  fixes st :: "'c pass_state"
  assumes q: "quiet e (sr_absolute_path r) i C" and jsonl: "jsonl_record r" and ev: "\<not> byte_equality_establishes_event_identity r"
    and d: "dir = session_shard_dir machine (sr_id r)" and st: "bt_get (ps_debts st) key = None" "bt_ok (ps_debts st)"
    and ls: "fst (complete_lines C) \<noteq> []"
    and dir: "dir_ok dir (files w)" "unique_numbers dir (files w)" "high_water (base e) dir (files w) = Some h" "Suc h < 1000000"
  shows "\<exists>x st' w' d. collect_record e r key machine cap remote st w = (Inr (x, st'), w') \<and>
    session_body dir (files w') = session_body dir (files w) @ seal_framed (fst (complete_lines C)) \<and>
    bt_get (ps_debts st') key = Some d \<and> oe_offset (de_cursor d) = length (seal_framed (fst (complete_lines C)))"
proof -
  let ?p = "sr_absolute_path r" and ?ls = "fst (complete_lines C)" and ?hc = "ps_cache st"
  let ?d = "\<lparr>rd_source_len = length C, rd_base_offset = 0, rd_bytes = C, rd_bytes_read = length C, rd_prefix_bytes_validated = 0, rd_reset = False\<rparr>"
  have nf: "\<And>n. \<not> fault e n" and sz: "fi_size i = length C" using q by (simp_all add: quiet_def)
  obtain n where cl: "complete_lines C = (?ls, n)" by (cases "complete_lines C") simp
  then have l: "take n C = seal_framed ?ls" and n1: "n = length (seal_framed ?ls)"
    using complete_lines_result [of C ?ls n] by blast+
  have "length (take n C) = n" using arg_cong [OF l, of length] n1 by (rule trans [OF _ sym])
  then have n: "n = length (seal_framed ?ls)" "n \<le> length C" using n1 by simp_all
  have read: "read_jsonl_delta e ?p (None :: 'c offset_entry option) False ?hc w = (Inr (?d, ?hc), w\<lparr>clock := clock w + 3\<rparr>)"
    using quiet_range [OF q, of "length C" 0] sz
    by (simp add: read_jsonl_delta_def READ_RETRIES_def numeral_eq_Suc io_bind_def quiet_stat [OF q] reusable_entry_def io_return_def Let_def)
  let ?w1 = "w\<lparr>clock := clock w + 3\<rparr>"
  obtain s hc2 w2 where ps: "plain_state e ?p n ?hc ?w1 = (Inr (s :: 'c offset_entry, hc2), w2)" "files w2 = files w"
    using prefix_answers [OF q n(2), of ?hc ?w1] by (auto simp: answers_def)
  have off: "oe_offset s = n" using ps(1)
    by (auto simp: plain_state_def io_bind_Inr io_return_Inr io_fail_def plain_entry_def split: if_splits prod.splits)
  have keep: "jsonl_writer_keeps_repeats r (None :: 'c offset_entry option) ?d"
    using ev by (simp add: jsonl_writer_keeps_repeats_def byte_equality_establishes_event_identity_def)
  have h: "h < u64_max" using dir(4) by (simp add: u64_max_def)
  obtain name w3 where wr: "write_sealed e True machine (sr_id r) ?ls cap w2 = (Inr name, w3)"
    "installed dir (seal_framed ?ls) None (files w) (shard_path_in_dir dir (Suc h) cap) (Suc h) (files w3)"
    using write_succeeds [of e dir machine "sr_id r" w2 h True ?ls cap] q d dir ps(2) h by (auto simp: quiet_def)
  have start: "starting_position e r None True machine st w = (Inr (None, st), w)"
    using ev by (simp add: starting_position_def byte_equality_establishes_event_identity_def io_return_def)
  obtain x where whole: "collect_file e r None False machine cap (ps_manifest st) ?hc w = (Inr (x, hc2), w3)" and x: "pc_state x = s"
    using jsonl read ps(1) wr(1) keep ls arg_cong [OF cl, of snd]
    by (simp add: collect_file_def jsonl_record_def process_jsonl_def io_bind_def io_return_def Let_def)
  obtain en hc3 w4 where nd: "new_debt e r None True machine x hc2 w3 = (Inr (en, hc3), w4)"
    using answers_new_debt [OF nf, of r None True machine x hc2 w3] by (auto simp: answers_def)
  have f4: "files w4 = files w3" using obeysD [OF readonly_new_debt nd] by simp
  have cur: "de_cursor en = s" using nd x by (auto simp: new_debt_def io_bind_Inr io_return_Inr split: prod.splits)
  have run: "collect_record e r key machine cap remote st w =
      (Inr (x, st\<lparr>ps_cache := hc3, ps_debts := bt_insert key en (ps_debts st), ps_dirty := True\<rparr>), w4)"
    using start whole nd st by (simp add: collect_record_def io_bind_def io_return_def Let_def)
  have "session_body dir (files w4) = session_body dir (files w) @ seal_framed ?ls"
    using installed_body [OF wr(2) dir(1,2,4)] f4 by simp
  with run cur off n(1) st(2) show ?thesis by (simp add: bt_get_insert)
qed

section \<open>A concrete source\<close>

definition demo_record :: session_record where
  "demo_record = \<lparr>sr_id = ''s'', sr_absolute_path = [''a.jsonl''], sr_compressed = False, sr_provenance = False, sr_movable_root = False\<rparr>"

definition demo_text :: bytes where
  "demo_text = [CHR ''x'', newline, CHR ''y'']"

definition demo_source :: "bytes \<Rightarrow> colenv" where
  "demo_source C = demo_colenv\<lparr>source_at := (\<lambda>_ _. Some (\<lparr>fi_size = length C, fi_mtime_ns = Some 5, fi_inode = 2\<rparr>, C))\<rparr>"

definition demo_start :: "nat pass_state" where
  "demo_start = \<lparr>ps_debts = [], ps_manifest = None, ps_stamp = None, ps_cache = disabled_cache, ps_dirty = False\<rparr>"

definition counted_world :: world where
  "counted_world = \<lparr>files = [(ctr demo_dir, ''1'')], clock = 0\<rparr>"

lemma demo_jsonl: "jsonl_record demo_record" "byte_equality_establishes_event_identity demo_record"
  by code_simp+

lemma demo_record_dir: "session_shard_dir ''m'' (sr_id demo_record) = demo_dir"
  by (simp add: demo_record_def demo_dir_def)

lemma demo_quiet: "quiet (demo_source C) p \<lparr>fi_size = length C, fi_mtime_ns = Some 5, fi_inode = 2\<rparr> C"
  by (simp add: quiet_def demo_source_def demo_colenv_def)

lemma demo_counted: "entries_of demo_dir (files counted_world) = []" "dir_ok demo_dir (files counted_world)"
    "unique_numbers demo_dir (files counted_world)" "below_million demo_dir (files counted_world)"
    "high_water (base (demo_source C)) demo_dir (files counted_world) = Some 1"
proof -
  have none: "shard_seq_of demo_dir p = None" if "present (files counted_world) p" for p
    using that ctr_not_numbered [of demo_dir] shard_seq_of_numbered [of demo_dir p]
    by (cases "shard_seq_of demo_dir p") (auto simp: counted_world_def present_def split: if_splits)
  show "entries_of demo_dir (files counted_world) = []"
    using none [of "ctr demo_dir"] by (simp add: counted_world_def present_def entries_of_Cons) (simp add: entries_of_def)
  show "dir_ok demo_dir (files counted_world)" "unique_numbers demo_dir (files counted_world)"
    using ctr_not_numbered [of demo_dir]
    by (auto simp: counted_world_def dir_ok_def counter_inv_def unique_numbers_def present_def split: if_splits)
  show "below_million demo_dir (files counted_world)" "high_water (base (demo_source C)) demo_dir (files counted_world) = Some 1"
    by (simp_all add: below_million_def high_water_def counted_world_def counter_value_def demo_counter)
qed

lemma demo_fresh: "starts_fresh demo_record key ''m'' demo_start (files counted_world)"
  using demo_counted by (simp add: starts_fresh_def demo_record_dir Let_def demo_start_def no_row_def)

lemma demo_sound: "sound_names e demo_dir (files counted_world)" "next_names e demo_dir cap 1 (files counted_world)"
proof -
  have e: "{p. shard_seq_of demo_dir p \<noteq> None \<and> present (files counted_world) p} = {}"
    using demo_counted(1) by (auto simp: entries_of_iff [where dir = demo_dir] set_eq_iff) (metis empty_iff empty_set entries_of_iff)
  then show "sound_names e demo_dir (files counted_world)" "next_names e demo_dir cap 1 (files counted_world)"
    using demo_counted(4) by (simp_all only: sound_names_def apart_def next_names_def) simp_all
qed

lemma demo_lines: "fst (complete_lines demo_text) = [''x'']"
  by code_simp

lemma demo_pass: "\<exists>x st' w'. collect_record (demo_source demo_text) demo_record key ''m'' 20 None demo_start counted_world = (Inr (x, st'), w') \<and>
    session_body demo_dir (files w') = [CHR ''x'', newline] \<and> sound_names (demo_source demo_text) demo_dir (files w')"
proof -
  have "length demo_text \<le> u64_max" by (simp add: demo_text_def u64_max_def)
  from quiet_pass_result [OF history.start demo_jsonl demo_record_dir [symmetric] demo_fresh demo_sound(1) refl refl demo_quiet
    demo_counted(5) demo_sound(2) this]
  show ?thesis by (simp add: demo_lines)
qed

theorem lines_collected_once_witness:
  "\<exists>st w k. history (demo_source demo_text) demo_record ''k'' ''m'' demo_text demo_start counted_world st w \<and>
     session_body demo_dir (files w) = [CHR ''x'', newline] \<and> k \<le> 1 \<and>
     session_body demo_dir (files w) = seal_framed (take k [''x''])"
proof -
  obtain x st' w' where r: "collect_record (demo_source demo_text) demo_record ''k'' ''m'' 20 None demo_start counted_world = (Inr (x, st'), w')"
    "session_body demo_dir (files w') = [CHR ''x'', newline]" "sound_names (demo_source demo_text) demo_dir (files w')"
    using demo_pass by blast
  have "appending (demo_source demo_text) p 0 demo_text" for p
    using quiet_appending [OF demo_quiet, of demo_text p] by (simp add: appending_def)
  moreover have "session_body demo_dir (files counted_world) = []" by (simp add: session_body_def demo_counted(1) sort_entries_def)
  ultimately have h: "history (demo_source demo_text) demo_record ''k'' ''m'' demo_text demo_start counted_world st' w'"
    using history.pass [OF history.start refl refl _ r(1), of demo_text] r(3) by (simp add: demo_record_dir stored_after_def)
  obtain k where "k \<le> length [''x'']" "session_body demo_dir (files w') = seal_framed (take k [''x''])"
    using lines_collected_once [OF h demo_jsonl demo_fresh, unfolded demo_record_dir, OF demo_sound(1)] unfolding demo_lines by blast
  with h r(2) show ?thesis by (intro exI [of _ st'] exI [of _ w'] exI [of _ k]) simp
qed

theorem pass_catches_up_witness:
  "\<exists>x st' w' d. collect_record (demo_source demo_text) demo_record ''k'' ''m'' 20 None demo_start counted_world = (Inr (x, st'), w') \<and>
     session_body demo_dir (files w') = [CHR ''x'', newline] \<and> bt_get (ps_debts st') ''k'' = Some d \<and> oe_offset (de_cursor d) = 2"
proof -
  obtain x st' w' where r: "collect_record (demo_source demo_text) demo_record ''k'' ''m'' 20 None demo_start counted_world = (Inr (x, st'), w')"
    "sound_names (demo_source demo_text) demo_dir (files w')"
    using demo_pass by blast
  have "session_body demo_dir (files w') = seal_framed [''x''] \<and>
    (\<exists>d. bt_get (ps_debts st') ''k'' = Some d \<and> de_cursor d = entry_at (demo_source demo_text) demo_text (length (seal_framed [''x''])))"
    using pass_catches_up [OF history.start demo_jsonl demo_fresh, unfolded demo_record_dir, OF demo_sound(1) refl refl
      quiet_appending [OF demo_quiet] r] by (simp only: demo_lines)
  then obtain d where "session_body demo_dir (files w') = seal_framed [''x'']" "bt_get (ps_debts st') ''k'' = Some d"
    "de_cursor d = entry_at (demo_source demo_text) demo_text (length (seal_framed [''x'']))" by blast
  with r(1) show ?thesis by (auto simp: entry_at_def plain_entry_def)
qed

theorem quiet_pass_collects_all_witness:
  "\<exists>x st' w'. collect_record (demo_source demo_text) demo_record ''k'' ''m'' 20 None demo_start counted_world = (Inr (x, st'), w') \<and>
    session_body demo_dir (files w') = [CHR ''x'', newline]"
proof -
  have "length demo_text \<le> u64_max" by (simp add: demo_text_def u64_max_def)
  from quiet_pass_collects_all [OF history.start demo_jsonl demo_record_dir [symmetric] demo_fresh demo_sound(1) refl refl demo_quiet
    demo_counted(5) demo_sound(2) this]
  show ?thesis by (simp add: demo_lines) blast
qed

subsection \<open>A stage ahead of the stored position\<close>

definition line_text :: bytes where
  "line_text = [CHR ''x'', newline]"

definition line_world :: world where
  "line_world = \<lparr>files = [(demo_shard, line_text), (ctr demo_dir, ''1'')], clock = 0\<rparr>"

text \<open>A digest that tells the names of the first two shards apart.\<close>

definition line_source :: colenv where
  "line_source = demo_source line_text\<lparr>sha256 := (\<lambda>c. replicate 32 (if c = path_text (''stage'' # demo_shard) then CHR ''a'' else CHR ''b''))\<rparr>"

lemma line_quiet: "quiet line_source p \<lparr>fi_size = length line_text, fi_mtime_ns = Some 5, fi_inode = 2\<rparr> line_text"
  using demo_quiet [of line_text] by (simp add: quiet_def line_source_def)

lemma second_name: "path_text (''stage'' # shard_path_in_dir demo_dir 2 20) \<noteq> path_text (''stage'' # demo_shard)"
    "take 16 (hex (replicate 32 (CHR ''b''))) \<noteq> take 16 (hex (replicate 32 (CHR ''a'')))"
  by code_simp+

definition behind :: "nat debt_entry" where
  "behind = \<lparr>de_machine = ''m'', de_session_id = ''s'', de_cursor = entry_at line_source line_text 0,
     de_shards = fact_of line_source []\<rparr>"

definition behind_state :: "nat pass_state" where
  "behind_state = \<lparr>ps_debts = [(''k'', behind)], ps_manifest = None, ps_stamp = None, ps_cache = disabled_cache, ps_dirty = False\<rparr>"

lemma line_shards: "shards_of demo_dir (files line_world) = [(1, line_text)]"
proof -
  have "entries_of demo_dir (files line_world) = entries_of demo_dir (files demo_world)"
    by (simp add: line_world_def demo_world_def entries_of_def present_def)
  then show ?thesis by (simp add: shards_of_def demo_entries sort_entries_def) (simp add: line_world_def)
qed

lemma line_ok: "dir_ok demo_dir (files line_world)" "unique_numbers demo_dir (files line_world)"
    "sound_names e demo_dir (files line_world)" "high_water (base e) demo_dir (files line_world) = Some 1"
proof -
  show "dir_ok demo_dir (files line_world)" "unique_numbers demo_dir (files line_world)"
    using demo_names by (auto simp: line_world_def dir_ok_def counter_inv_def unique_numbers_def present_def demo_counter split: if_splits)
  have "apart e demo_dir (files line_world)"
    using demo_names by (auto simp: apart_def inj_on_def line_world_def present_def shard_seq_of_numbered split: if_splits)
  then show "sound_names e demo_dir (files line_world)" using demo_names(1)
    by (simp add: sound_names_def below_million_def line_world_def counter_value_def demo_counter)
  show "high_water (base e) demo_dir (files line_world) = Some 1"
    using demo_names(1) by (simp add: high_water_def line_world_def counter_value_def demo_counter)
qed

lemma line_tracks: "tracks line_source demo_record ''k'' ''m'' line_text 2 behind_state (files line_world)"
proof -
  have "debt_tracks line_source demo_record ''m'' line_text 2 [(1, line_text)] behind"
    unfolding debt_tracks_def by (intro conjI exI [of _ 0] exI [of _ "[]"]) (simp_all add: behind_def demo_record_def)
  then show ?thesis using line_ok(1,2) stage_true_disabled
    by (simp add: tracks_def stage_tracks_def demo_record_dir line_shards session_body_shards behind_state_def no_row_def bt_ok_def
        stored_tracks_def cache_true_def source_true_def source_view_def disabled_cache_def [THEN arg_cong [where f = hc_entries]])
      (simp add: line_end_def line_text_def)
qed

theorem caught_up_position_keeps_old_claim_witness:
  "\<exists>x st' w' d. collect_record line_source demo_record ''k'' ''m'' 20 None behind_state line_world = (Inr (x, st'), w') \<and>
     bt_get (ps_debts st') ''k'' = Some d \<and> oe_offset (de_cursor d) = 2 \<and> claim_covered line_source [] (de_shards d)"
proof -
  let ?e = line_source
  have app: "appending ?e (sr_absolute_path demo_record) 2 line_text"
    using quiet_appending [OF line_quiet [of "sr_absolute_path demo_record"]] by (simp add: line_text_def numeral_2_eq_2)
  have "length line_text \<le> u64_max" "(1::nat) < u64_max" by (simp_all add: line_text_def u64_max_def)
  then obtain x st' w' where run: "collect_record ?e demo_record ''k'' ''m'' 20 None behind_state line_world = (Inr (x, st'), w')"
    and add: "added demo_dir 20 1 (files line_world) (files w')"
    using pass_succeeds [OF line_quiet demo_record_dir [symmetric] demo_jsonl line_tracks _ line_ok(4)] line_ok(3)
    by (simp add: sound_names_def) blast
  have names: "next_names ?e demo_dir 20 1 (files line_world)"
  proof -
    have "{p. shard_seq_of demo_dir p \<noteq> None \<and> present (files line_world) p} = {demo_shard}"
      using demo_names by (auto simp: line_world_def present_def shard_seq_of_numbered split: if_splits)
    moreover have "inj_on (stage_digest line_source) {shard_path_in_dir demo_dir 2 20, demo_shard}"
      using second_name not_sym [OF second_name(2)] by (simp add: inj_on_def stage_digest_def path_digest_def line_source_def demo_source_def demo_colenv_def)
    ultimately show ?thesis by (simp add: next_names_def numeral_2_eq_2)
  qed
  have s: "sound_names ?e demo_dir (files w')" by (rule added_sound [OF add line_ok(3) names])
  have "pass_ends ?e demo_record ''k'' ''m'' line_text 2 2 behind_state (files line_world) (Inr (x, st')) (files w')"
    by (rule pass_result [OF run demo_record_dir [symmetric] demo_jsonl line_tracks app order.refl])
      (use line_ok(3) [of line_source] s in \<open>simp_all add: sound_names_def\<close>)
  then have "co_shard (pc_outcome x) = None"
    by (auto simp: pass_ends_def tracks_def stage_tracks_def line_end_def line_text_def Let_def split: if_splits)
  moreover have "bt_get (ps_debts behind_state) ''k'' = Some behind" "de_shards behind = fact_of ?e []"
    by (simp_all add: behind_state_def behind_def)
  ultimately show ?thesis
    using caught_up_position_keeps_old_claim [OF line_tracks demo_record_dir [symmetric] demo_jsonl app line_ok(3) s _ _ run] run by blast
qed

text \<open>The stage holds the line from a pass that failed; it is sealed again.\<close>

theorem unidentified_source_sealed_again_witness:
  "\<exists>x st' w'. collect_record line_source (demo_record\<lparr>sr_provenance := True\<rparr>) ''k'' ''m'' 20 None demo_start line_world = (Inr (x, st'), w') \<and>
     session_body demo_dir (files w') = line_text @ line_text"
proof -
  let ?r = "demo_record\<lparr>sr_provenance := True\<rparr>"
  have r: "jsonl_record ?r" "\<not> byte_equality_establishes_event_identity ?r" "demo_dir = session_shard_dir ''m'' (sr_id ?r)"
    using demo_jsonl demo_record_dir by (simp_all add: jsonl_record_def byte_equality_establishes_event_identity_def demo_record_def)
  have "bt_get (ps_debts demo_start) ''k'' = None" "bt_ok (ps_debts demo_start)" using demo_fresh by (simp_all add: starts_fresh_def Let_def)
  moreover have "fst (complete_lines line_text) = [''x'']" by code_simp
  moreover have "seal_framed [''x''] = line_text" by code_simp
  moreover have "session_body demo_dir (files line_world) = line_text" by (simp add: session_body_shards line_shards)
  ultimately show ?thesis
    using unidentified_source_sealed_again [OF line_quiet r, of demo_start "''k''" line_world 1 20 None] line_ok(1,2,4) by auto
qed

end
