(* ===== verification/Packcheck.thy ===== *)
theory Packcheck
  imports Stage_Shards
begin

text \<open>
  \<open>packcheck.rs\<close> and \<open>debris.rs\<close>: whether the bytes of a pack can be read as a pack, the check of every
  blob its header declares, and the one classification of the leftovers of an interrupted push. A pack
  is the ciphertexts of its blobs, the ciphertext of its header, and four bytes with the length of
  the latter. Reading a range of a stored pack, the AEAD cipher under the repository's key and zstd are
  parameters; the reasons that the code attaches to its refusals are left out.
\<close>

section \<open>The environment\<close>

record packenv = env +
  pack_read :: "nat \<Rightarrow> string \<Rightarrow> nat \<Rightarrow> nat \<Rightarrow> bytes option"
  aead_open :: "bytes \<Rightarrow> bytes \<Rightarrow> bytes option"
  zstd_all :: "bytes \<Rightarrow> bytes option"

definition LENGTH_LEN :: nat where "LENGTH_LEN = 4"
definition COMP_OVERHEAD :: nat where "COMP_OVERHEAD = 32"
definition VERIFY_CHUNK :: nat where "VERIFY_CHUNK = 8 * 1024 * 1024"
definition u32_bound :: nat where "u32_bound = 2 ^ 32"

datatype pack_error = UnreadableHeader | Unusable

datatype blob_type = DataBlob | TreeBlob

record pack_blob =
  pb_id :: bytes
  pb_type :: blob_type
  pb_offset :: nat
  pb_len :: nat
  pb_uncompressed :: "nat option"

record index_pack =
  ip_id :: string
  ip_blobs :: "pack_blob list"
  ip_size :: nat

section \<open>Reading a header\<close>

definition byte_val :: "char \<Rightarrow> nat" where
  "byte_val c = of_char c"

definition le32 :: "bytes \<Rightarrow> nat" where
  "le32 bs = (case bs of
     [a, b, c, d] \<Rightarrow> byte_val a + 256 * byte_val b + 65536 * byte_val c + 16777216 * byte_val d
   | _ \<Rightarrow> 0)"

definition header_length_fits :: "nat \<Rightarrow> bytes \<Rightarrow> pack_error + nat" where
  "header_length_fits listed tail =
     (let header_len = le32 (take 4 tail) in
      if header_len < COMP_OVERHEAD \<or> listed < header_len + LENGTH_LEN then Inl UnreadableHeader else Inr header_len)"

definition decrypt :: "('x packenv_scheme) \<Rightarrow> bytes \<Rightarrow> bytes option" where
  "decrypt e c = (if length c < 16 then None else aead_open e (take 16 c) (drop 16 c))"

definition probe_header_bytes :: "('x packenv_scheme) \<Rightarrow> bytes \<Rightarrow> pack_error + unit" where
  "probe_header_bytes e bs =
     (let len = length bs in
      if len < COMP_OVERHEAD + LENGTH_LEN then Inl UnreadableHeader
      else rbind (header_length_fits len (drop (len - LENGTH_LEN) bs)) (\<lambda>header_len.
        let header = take header_len (drop (len - LENGTH_LEN - header_len) bs) in
        case decrypt e header of None \<Rightarrow> Inl UnreadableHeader | Some p \<Rightarrow> Inr ()))"

text \<open>An exact range of the stored bytes; offsets are 32-bit on the interface.\<close>

definition read_part ::
  "('x packenv_scheme) \<Rightarrow> string \<Rightarrow> nat \<Rightarrow> nat \<Rightarrow> (world, pack_error, bytes) io" where
  "read_part e pack offset len w =
     (if u32_bound \<le> offset then (Inl Unusable, w)
      else ((case pack_read e (clock w) pack offset len of
               None \<Rightarrow> Inl Unusable
             | Some c \<Rightarrow> if length c \<noteq> len then Inl Unusable else Inr c),
            w\<lparr>clock := Suc (clock w)\<rparr>))"

definition valid_id :: "string \<Rightarrow> bool" where
  "valid_id name \<longleftrightarrow> length name = 64 \<and> list_all is_hexdigit name"

definition read_header ::
  "('x packenv_scheme) \<Rightarrow> string \<Rightarrow> nat \<Rightarrow> (world, pack_error, bytes \<times> bytes \<times> bytes) io" where
  "read_header e pack listed =
     (if \<not> valid_id pack then io_fail Unusable
      else if listed < COMP_OVERHEAD + LENGTH_LEN then io_fail UnreadableHeader
      else
        io_bind (read_part e pack (listed - LENGTH_LEN) LENGTH_LEN) (\<lambda>tail.
        io_bind (io_lift (header_length_fits listed tail)) (\<lambda>header_len.
        io_bind (read_part e pack (listed - LENGTH_LEN - header_len) header_len) (\<lambda>header.
        case decrypt e header of
          None \<Rightarrow> io_fail UnreadableHeader
        | Some plain \<Rightarrow> io_return (tail, header, plain)))))"

definition probe_header :: "('x packenv_scheme) \<Rightarrow> string \<Rightarrow> nat \<Rightarrow> (world, pack_error, unit) io" where
  "probe_header e pack listed = io_bind (read_header e pack listed) (\<lambda>_. io_return ())"

section \<open>The entries of a header\<close>

text \<open>
  An entry is a tag, a length, for compressed blobs the plain length, and the id; what is left over is
  refused. The second result is the number of bytes of the entries.
\<close>

definition ENTRY_LEN :: nat where "ENTRY_LEN = 37"
definition ENTRY_LEN_COMPRESSED :: nat where "ENTRY_LEN_COMPRESSED = 41"

definition nonzero :: "nat \<Rightarrow> nat option" where
  "nonzero n = (if n = 0 then None else Some n)"

function parse_entries :: "nat \<Rightarrow> bytes \<Rightarrow> pack_error + pack_blob list \<times> nat" where
  "parse_entries offset [] = Inr ([], 0)"
| "parse_entries offset (tag # r) =
     (let kind = byte_val tag; compressed = (2 \<le> kind); fixed = (if compressed then 40 else 36) in
      if 3 < kind \<or> length r < fixed then Inl Unusable
      else
        let len = le32 (take 4 r);
            plain = (if compressed then nonzero (le32 (take 4 (drop 4 r))) else None);
            ident = take 32 (drop (fixed - 32) r) in
        if u64_max < offset + len then Inl Unusable
        else rbind (parse_entries (offset + len) (drop fixed r)) (\<lambda>(blobs, n).
          Inr (\<lparr>pb_id = ident, pb_type = (if kind = 0 \<or> kind = 2 then DataBlob else TreeBlob), pb_offset = offset,
                 pb_len = len, pb_uncompressed = plain\<rparr> # blobs,
               (if compressed then ENTRY_LEN_COMPRESSED else ENTRY_LEN) + n)))"
  by pat_completeness auto
termination by (relation "measure (length \<circ> snd)") auto

definition parse_header :: "bytes \<Rightarrow> pack_error + pack_blob list \<times> nat" where
  "parse_header = parse_entries 0"

section \<open>Verifying a pack\<close>

text \<open>One blob is read in chunks; the chunks of a blob end with the blob.\<close>

function read_chunks ::
  "('x packenv_scheme) \<Rightarrow> string \<Rightarrow> nat \<Rightarrow> nat \<Rightarrow> bytes \<Rightarrow> (world, pack_error, bytes) io" where
  "read_chunks e pack at_offset want_len buffer =
     (if want_len \<le> length buffer then io_return buffer
      else
        io_bind (read_part e pack at_offset (min VERIFY_CHUNK (want_len - length buffer))) (\<lambda>chunk.
        if length chunk = min VERIFY_CHUNK (want_len - length buffer)
        then read_chunks e pack (at_offset + length chunk) want_len (buffer @ chunk)
        else io_fail Unusable))"
  by pat_completeness auto
termination by (relation "measure (\<lambda>(e, pack, at_offset, want_len, buffer). want_len - length buffer)")
    (auto simp: VERIFY_CHUNK_def)

declare read_chunks.simps [simp del]

definition check_blob :: "('x packenv_scheme) \<Rightarrow> pack_blob \<Rightarrow> bytes \<Rightarrow> pack_error + unit" where
  "check_blob e b ciphertext =
     (case decrypt e ciphertext of
        None \<Rightarrow> Inl Unusable
      | Some bs \<Rightarrow>
          rbind (case pb_uncompressed b of
              None \<Rightarrow> Inr bs
            | Some n \<Rightarrow> (case zstd_all e bs of None \<Rightarrow> Inl Unusable
                | Some plain \<Rightarrow> if length plain \<noteq> n then Inl Unusable else Inr plain)) (\<lambda>plain.
          if sha256 e plain \<noteq> pb_id b then Inl Unusable else Inr ()))"

fun verify_blobs ::
  "('x packenv_scheme) \<Rightarrow> string \<Rightarrow> nat \<Rightarrow> pack_blob list \<Rightarrow> bytes \<Rightarrow> (world, pack_error, bytes) io" where
  "verify_blobs e pack pos [] hashed = io_return hashed"
| "verify_blobs e pack pos (b # bs) hashed =
     io_bind (read_chunks e pack pos (pb_len b) []) (\<lambda>ciphertext.
     if pb_offset b \<noteq> pos then io_fail Unusable
     else io_bind (io_lift (check_blob e b ciphertext)) (\<lambda>_.
       verify_blobs e pack (pos + pb_len b) bs (hashed @ ciphertext)))"

definition verify_pack :: "('x packenv_scheme) \<Rightarrow> string \<Rightarrow> nat \<Rightarrow> (world, pack_error, index_pack) io" where
  "verify_pack e pack listed =
     io_bind (read_header e pack listed) (\<lambda>(tail, header, plain).
     io_bind (io_lift (parse_header plain)) (\<lambda>(blobs, header_bytes).
     if header_bytes + COMP_OVERHEAD \<noteq> length header then io_fail Unusable
     else if sum_list (map pb_len blobs) + length header + LENGTH_LEN \<noteq> listed then io_fail Unusable
     else io_bind (verify_blobs e pack 0 blobs []) (\<lambda>hashed.
       if hex (sha256 e (hashed @ header @ tail)) \<noteq> pack then io_fail Unusable
       else if list_all (\<lambda>b. pb_offset b < u32_bound \<and> pb_len b < u32_bound) blobs \<and> listed < u32_bound
       then io_return \<lparr>ip_id = pack, ip_blobs = blobs, ip_size = listed\<rparr>
       else io_fail Unusable)))"

section \<open>Debris\<close>

datatype pack_class = TornPack | StrandedPack | CorruptPack | FailClosed

definition classify_pack :: "bool option \<Rightarrow> pack_error + unit \<Rightarrow> pack_class" where
  "classify_pack named_by_index check =
     (case check of
        Inr u \<Rightarrow> (case named_by_index of Some False \<Rightarrow> StrandedPack | Some True \<Rightarrow> FailClosed | None \<Rightarrow> FailClosed)
      | Inl failure \<Rightarrow>
          (case named_by_index of
             None \<Rightarrow> FailClosed
           | Some True \<Rightarrow> CorruptPack
           | Some False \<Rightarrow> (case failure of UnreadableHeader \<Rightarrow> TornPack | Unusable \<Rightarrow> FailClosed)))"

lemma classify_torn: "classify_pack n c = TornPack \<longleftrightarrow> n = Some False \<and> c = Inl UnreadableHeader"
  by (auto simp: classify_pack_def split: sum.splits option.splits bool.splits pack_error.splits)

end
