(* ===== verification/Packcheck_Spec.thy ===== *)
theory Packcheck_Spec
  imports Packcheck
begin

text \<open>
  What the checks of \<open>Packcheck\<close> say about the bytes of a pack that is stored unchanged: the verification
  equals a plain description of a pack, and every reader reaches the same verdict on debris.
\<close>

section \<open>A pack that is stored unchanged\<close>

definition serves :: "('x packenv_scheme) \<Rightarrow> string \<Rightarrow> bytes \<Rightarrow> bool" where
  "serves e pack C \<longleftrightarrow> length C < u32_bound \<and>
     (\<forall>t offset n. offset + n \<le> length C \<longrightarrow> pack_read e t pack offset n = Some (take n (drop offset C)))"

text \<open>Reads in sequence leave nothing but a later clock.\<close>

definition yields :: "(world, 'e, 'a) io \<Rightarrow> 'e + 'a \<Rightarrow> bool" where
  "yields m r \<longleftrightarrow> (\<forall>w. fst (m w) = r)"

lemma yields_return [simp]: "yields (io_return a) r \<longleftrightarrow> r = Inr a"
  and yields_fail [simp]: "yields (io_fail x) r \<longleftrightarrow> r = Inl x"
  and yields_lift [simp]: "yields (io_lift y) r \<longleftrightarrow> r = y"
  by (auto simp: yields_def io_return_def io_fail_def io_lift_def)

lemma yields_bind:
  assumes "yields m r" "\<And>a. r = Inr a \<Longrightarrow> yields (k a) (q a)"
  shows "yields (io_bind m k) (rbind r q)"
proof -
  have "fst (io_bind m k w) = rbind r q" for w
  proof (cases "m w")
    case (Pair x w1)
    then have x: "x = r" using assms(1) by (metis yields_def fst_conv)
    show ?thesis
    proof (cases r)
      case (Inr a)
      then have "fst (k a w1) = q a" using assms(2) by (simp add: yields_def)
      with Inr Pair x show ?thesis by (simp add: io_bind_def rbind_def)
    qed (use Pair x in \<open>simp add: io_bind_def rbind_def\<close>)
  qed
  then show ?thesis by (simp add: yields_def)
qed

lemma yields_unique: "yields m r \<Longrightarrow> yields m q \<Longrightarrow> r = q"
  by (auto simp: yields_def)

lemma yields_read:
  "serves e pack C \<Longrightarrow> offset + n \<le> length C \<Longrightarrow> yields (read_part e pack offset n) (Inr (take n (drop offset C)))"
  by (auto simp: yields_def serves_def read_part_def)

section \<open>The header\<close>

definition header_of :: "('x packenv_scheme) \<Rightarrow> bytes \<Rightarrow> pack_error + bytes \<times> bytes \<times> bytes" where
  "header_of e C =
     (let n = length C; tail = drop (n - LENGTH_LEN) C in
      if n < COMP_OVERHEAD + LENGTH_LEN then Inl UnreadableHeader
      else rbind (header_length_fits n tail) (\<lambda>header_len.
        let header = take header_len (drop (n - LENGTH_LEN - header_len) C) in
        case decrypt e header of None \<Rightarrow> Inl UnreadableHeader | Some plain \<Rightarrow> Inr (tail, header, plain)))"

lemma header_fits: "header_length_fits n tail = Inr k \<Longrightarrow> COMP_OVERHEAD \<le> k \<and> k + LENGTH_LEN \<le> n"
  by (auto simp: header_length_fits_def Let_def split: if_splits)

lemma header_of_error: "header_of e C = Inl x \<Longrightarrow> x = UnreadableHeader"
  by (auto simp: header_of_def Let_def rbind_def header_length_fits_def split: if_splits sum.splits option.splits)

lemma header_of_probe: "probe_header_bytes e C = rbind (header_of e C) (\<lambda>_. Inr ())"
  by (simp add: probe_header_bytes_def header_of_def Let_def rbind_def split: sum.splits option.splits)

lemma header_of_ok:
  assumes "header_of e C = Inr (tail, header, plain)"
  shows "C = take (length C - LENGTH_LEN - length header) C @ header @ tail \<and> length tail = LENGTH_LEN \<and>
    length header + LENGTH_LEN \<le> length C \<and> COMP_OVERHEAD \<le> length header \<and> le32 tail = length header \<and>
    decrypt e header = Some plain"
proof -
  obtain k where k: "header_length_fits (length C) tail = Inr k" "tail = drop (length C - LENGTH_LEN) C"
    "header = take k (drop (length C - LENGTH_LEN - k) C)" "decrypt e header = Some plain" "COMP_OVERHEAD + LENGTH_LEN \<le> length C"
    using assms by (auto simp: header_of_def Let_def rbind_def split: if_splits sum.splits option.splits)
  have fit: "COMP_OVERHEAD \<le> k" "k + LENGTH_LEN \<le> length C" using header_fits [OF k(1)] by simp_all
  then have len: "length header = k" "length tail = LENGTH_LEN" using k(2,3) by simp_all
  have "le32 tail = k" using k(1) len(2)
    by (auto simp: header_length_fits_def Let_def LENGTH_LEN_def split: if_splits)
  moreover have "header @ tail = drop (length C - LENGTH_LEN - k) C"
  proof -
    have "tail = drop k (drop (length C - LENGTH_LEN - k) C)" using k(2) fit(2) by (simp add: drop_drop)
    then show ?thesis using k(3) append_take_drop_id by metis
  qed
  then have "C = take (length C - LENGTH_LEN - k) C @ header @ tail" by simp
  ultimately show ?thesis using len fit k(4) by simp
qed

lemma yields_header:
  assumes s: "serves e pack C" and "valid_id pack"
  shows "yields (read_header e pack (length C)) (header_of e C)"
proof (cases "length C < COMP_OVERHEAD + LENGTH_LEN")
  case True
  then show ?thesis using assms(2) by (simp add: read_header_def header_of_def)
next
  case False
  let ?n = "length C" and ?tail = "drop (length C - LENGTH_LEN) C"
  have tail: "yields (read_part e pack (?n - LENGTH_LEN) LENGTH_LEN) (Inr ?tail)"
    using yields_read [OF s, of "?n - LENGTH_LEN" LENGTH_LEN] False by simp
  have header: "yields (read_part e pack (?n - LENGTH_LEN - k) k) (Inr (take k (drop (?n - LENGTH_LEN - k) C)))"
    if "header_length_fits ?n ?tail = Inr k" for k
    using header_fits [OF that] by (intro yields_read [OF s]) simp
  let ?rest = "\<lambda>header. case decrypt e header of None \<Rightarrow> Inl UnreadableHeader | Some plain \<Rightarrow> Inr (?tail, header, plain)"
  have "yields (read_header e pack ?n) (rbind (Inr ?tail) (\<lambda>t. rbind (header_length_fits ?n t) (\<lambda>k.
      rbind (Inr (take k (drop (?n - LENGTH_LEN - k) C))) ?rest)))"
    unfolding read_header_def using False assms(2)
    by (simp only: if_False not_True_eq_False refl if_cancel)
      (intro yields_bind [OF tail] yields_bind [OF yields_lift [THEN iffD2, OF refl]] yields_bind [OF header];
        simp split: option.split)
  then show ?thesis using False by (simp add: header_of_def Let_def)
qed

section \<open>The blobs\<close>

lemma yields_chunks:
  assumes s: "serves e pack C" and "pos + (want - length buffer) \<le> length C" "length buffer \<le> want"
  shows "yields (read_chunks e pack pos want buffer) (Inr (buffer @ take (want - length buffer) (drop pos C)))"
  using assms(2,3)
proof (induction "want - length buffer" arbitrary: pos buffer rule: less_induct)
  case less
  show ?case
  proof (cases "want \<le> length buffer")
    case False
    let ?n = "min VERIFY_CHUNK (want - length buffer)"
    let ?c = "take ?n (drop pos C)"
    have len: "length ?c = ?n" using less.prems by simp
    have n: "0 < ?n" "?n \<le> want - length buffer" using False by (simp_all add: VERIFY_CHUNK_def)
    have r: "yields (read_part e pack pos ?n) (Inr ?c)" using less.prems by (intro yields_read [OF s]) simp
    have more: "yields (read_chunks e pack (pos + length ?c) want (buffer @ ?c))
        (Inr ((buffer @ ?c) @ take (want - length (buffer @ ?c)) (drop (pos + length ?c) C)))"
      by (rule less.hyps) (use len n less.prems False in simp_all)
    have "take (want - length buffer) (drop pos C) = ?c @ take (want - length buffer - ?n) (drop (pos + ?n) C)"
    proof -
      have "?n + (want - length buffer - ?n) = want - length buffer" using n(2) by (rule le_add_diff_inverse)
      then show ?thesis using take_add [of ?n "want - length buffer - ?n" "drop pos C"]
        by (simp only: drop_drop add.commute [of pos])
    qed
    then have same: "(buffer @ ?c) @ take (want - length (buffer @ ?c)) (drop (pos + length ?c) C) =
        buffer @ take (want - length buffer) (drop pos C)" using len by simp
    have "yields (read_chunks e pack pos want buffer)
        (rbind (Inr ?c) (\<lambda>c. Inr (buffer @ take (want - length buffer) (drop pos C))))"
      unfolding read_chunks.simps [of e pack pos want buffer]
      using False by (simp only: if_False) (rule yields_bind [OF r], use more len same in simp)
    then show ?thesis by simp
  qed (simp add: read_chunks.simps)
qed

fun tiles :: "nat \<Rightarrow> pack_blob list \<Rightarrow> bool" where
  "tiles pos [] \<longleftrightarrow> True"
| "tiles pos (b # bs) \<longleftrightarrow> pb_offset b = pos \<and> tiles (pos + pb_len b) bs"

lemma parse_tiles: "parse_entries pos bs = Inr (blobs, n) \<Longrightarrow> tiles pos blobs"
  by (induction pos bs arbitrary: blobs n rule: parse_entries.induct)
    (auto simp: Let_def rbind_eq_Inr split: if_splits)

lemma tiles_bound:
  "tiles pos blobs \<Longrightarrow> b \<in> set blobs \<Longrightarrow> pos \<le> pb_offset b \<and> pb_offset b + pb_len b \<le> pos + sum_list (map pb_len blobs)"
  by (induction pos blobs rule: tiles.induct) fastforce+

definition blob_holds :: "('x packenv_scheme) \<Rightarrow> bytes \<Rightarrow> pack_blob \<Rightarrow> bool" where
  "blob_holds e C b \<longleftrightarrow> check_blob e b (take (pb_len b) (drop (pb_offset b) C)) = Inr ()"

lemma check_blob_error: "check_blob e b c = Inl x \<Longrightarrow> x = Unusable"
  by (auto simp: check_blob_def rbind_def split: option.splits sum.splits if_splits)

lemma yields_blobs:
  assumes "serves e pack C" "tiles pos blobs" "pos + sum_list (map pb_len blobs) \<le> length C"
  shows "yields (verify_blobs e pack pos blobs hashed)
    (if list_all (blob_holds e C) blobs then Inr (hashed @ take (sum_list (map pb_len blobs)) (drop pos C)) else Inl Unusable)"
  using assms(2,3)
proof (induction blobs arbitrary: pos hashed)
  case (Cons b bs)
  let ?c = "take (pb_len b) (drop pos C)"
  have r: "yields (read_chunks e pack pos (pb_len b) []) (Inr ?c)"
    using yields_chunks [OF assms(1), of pos "pb_len b" "[]"] Cons.prems(2) by simp
  have c: "check_blob e b ?c = (if blob_holds e C b then Inr () else Inl Unusable)"
    using Cons.prems(1) check_blob_error by (cases "check_blob e b ?c") (auto simp: blob_holds_def)
  have t: "take (sum_list (map pb_len (b # bs))) (drop pos C) = ?c @ take (sum_list (map pb_len bs)) (drop (pos + pb_len b) C)"
    using take_add [of "pb_len b" "sum_list (map pb_len bs)" "drop pos C"] by (simp add: add.commute)
  have rest: "yields (verify_blobs e pack (pos + pb_len b) bs (hashed @ ?c))
      (if list_all (blob_holds e C) bs then Inr ((hashed @ ?c) @ take (sum_list (map pb_len bs)) (drop (pos + pb_len b) C))
       else Inl Unusable)"
    using Cons.prems by (intro Cons.IH) simp_all
  have "yields (verify_blobs e pack pos (b # bs) hashed) (rbind (Inr ?c) (\<lambda>c. rbind (check_blob e b ?c) (\<lambda>_.
      if list_all (blob_holds e C) bs then Inr ((hashed @ ?c) @ take (sum_list (map pb_len bs)) (drop (pos + pb_len b) C))
       else Inl Unusable)))"
    unfolding verify_blobs.simps
  proof (rule yields_bind [OF r], clarify)
    have "yields (io_bind (io_lift (check_blob e b ?c)) (\<lambda>_. verify_blobs e pack (pos + pb_len b) bs (hashed @ ?c)))
       (rbind (check_blob e b ?c) (\<lambda>_.
         if list_all (blob_holds e C) bs then Inr ((hashed @ ?c) @ take (sum_list (map pb_len bs)) (drop (pos + pb_len b) C))
         else Inl Unusable))"
      by (intro yields_bind [OF yields_lift [THEN iffD2, OF refl]] rest)
    with Cons.prems(1) show "yields
        (if pb_offset b \<noteq> pos then io_fail Unusable
         else io_bind (io_lift (check_blob e b ?c)) (\<lambda>_. verify_blobs e pack (pos + pb_len b) bs (hashed @ ?c)))
        (rbind (check_blob e b ?c) (\<lambda>_.
         if list_all (blob_holds e C) bs then Inr ((hashed @ ?c) @ take (sum_list (map pb_len bs)) (drop (pos + pb_len b) C))
         else Inl Unusable))" by simp
  qed
  moreover have "rbind (Inr ?c) (\<lambda>c. rbind (check_blob e b ?c) (\<lambda>_.
      if list_all (blob_holds e C) bs then Inr ((hashed @ ?c) @ take (sum_list (map pb_len bs)) (drop (pos + pb_len b) C))
       else Inl Unusable)) =
     (if list_all (blob_holds e C) (b # bs) then Inr (hashed @ take (sum_list (map pb_len (b # bs))) (drop pos C)) else Inl Unusable)"
    unfolding t c by (simp add: rbind_def)
  ultimately show ?case by (simp only:)
qed simp

section \<open>The verification\<close>

definition describes :: "('x packenv_scheme) \<Rightarrow> string \<Rightarrow> bytes \<Rightarrow> index_pack \<Rightarrow> bool" where
  "describes e pack C ip \<longleftrightarrow>
     (\<exists>tail header plain n. header_of e C = Inr (tail, header, plain) \<and> parse_header plain = Inr (ip_blobs ip, n) \<and>
        n + COMP_OVERHEAD = length header \<and> sum_list (map pb_len (ip_blobs ip)) + length header + LENGTH_LEN = length C) \<and>
     (list_all (blob_holds e C) (ip_blobs ip)) \<and>
     hex (sha256 e C) = pack \<and> ip_id ip = pack \<and> ip_size ip = length C"

definition verdict_of :: "('x packenv_scheme) \<Rightarrow> string \<Rightarrow> bytes \<Rightarrow> pack_error + index_pack" where
  "verdict_of e pack C =
     rbind (header_of e C) (\<lambda>(tail, header, plain).
     rbind (parse_header plain) (\<lambda>(blobs, n).
     if n + COMP_OVERHEAD = length header \<and> sum_list (map pb_len blobs) + length header + LENGTH_LEN = length C \<and>
        (list_all (blob_holds e C) blobs) \<and> hex (sha256 e C) = pack
     then Inr \<lparr>ip_id = pack, ip_blobs = blobs, ip_size = length C\<rparr> else Inl Unusable))"

lemma yields_verify:
  assumes s: "serves e pack C" and v: "valid_id pack"
  shows "yields (verify_pack e pack (length C)) (verdict_of e pack C)"
  unfolding verify_pack_def verdict_of_def
proof (rule yields_bind [OF yields_header [OF s v]], clarify)
  fix tail header plain
  assume h: "header_of e C = Inr (tail, header, plain)"
  show "yields
        (io_bind (io_lift (parse_header plain)) (\<lambda>(blobs, header_bytes).
           if header_bytes + COMP_OVERHEAD \<noteq> length header then io_fail Unusable
           else if sum_list (map pb_len blobs) + length header + LENGTH_LEN \<noteq> length C then io_fail Unusable
           else io_bind (verify_blobs e pack 0 blobs []) (\<lambda>hashed.
             if hex (sha256 e (hashed @ header @ tail)) \<noteq> pack then io_fail Unusable
             else if list_all (\<lambda>b. pb_offset b < u32_bound \<and> pb_len b < u32_bound) blobs \<and> length C < u32_bound
             then io_return \<lparr>ip_id = pack, ip_blobs = blobs, ip_size = length C\<rparr>
             else io_fail Unusable)))
        (rbind (parse_header plain) (\<lambda>(blobs, n).
           if n + COMP_OVERHEAD = length header \<and> sum_list (map pb_len blobs) + length header + LENGTH_LEN = length C \<and>
              (list_all (blob_holds e C) blobs) \<and> hex (sha256 e C) = pack
           then Inr \<lparr>ip_id = pack, ip_blobs = blobs, ip_size = length C\<rparr> else Inl Unusable))"
  proof (rule yields_bind [OF yields_lift [THEN iffD2, OF refl]], clarify)
    fix blobs n
    assume p: "parse_header plain = Inr (blobs, n)"
    then have t: "tiles 0 blobs" using parse_tiles by (simp add: parse_header_def)
    have C: "C = take (length C - LENGTH_LEN - length header) C @ header @ tail" using header_of_ok [OF h] by blast
    let ?k = "sum_list (map pb_len blobs)"
    let ?rest = "\<lambda>hashed. if hex (sha256 e (hashed @ header @ tail)) \<noteq> pack then io_fail Unusable
             else if list_all (\<lambda>b. pb_offset b < u32_bound \<and> pb_len b < u32_bound) blobs \<and> length C < u32_bound
             then io_return \<lparr>ip_id = pack, ip_blobs = blobs, ip_size = length C\<rparr>
             else io_fail Unusable"
    have all: "yields (io_bind (verify_blobs e pack 0 blobs []) ?rest)
        (if (list_all (blob_holds e C) blobs) \<and> hex (sha256 e C) = pack
         then Inr \<lparr>ip_id = pack, ip_blobs = blobs, ip_size = length C\<rparr> else Inl Unusable)"
      if sz: "?k + length header + LENGTH_LEN = length C"
    proof -
      have b: "yields (verify_blobs e pack 0 blobs []) (if list_all (blob_holds e C) blobs then Inr (take ?k C) else Inl Unusable)"
        using yields_blobs [OF s t, of "[]"] sz by (cases "list_all (blob_holds e C) blobs") simp_all
      have "take ?k C @ header @ tail = C" using C sz by (metis add_diff_cancel_right')
      moreover have "length C < u32_bound" using s by (simp add: serves_def)
      moreover have "list_all (\<lambda>b. pb_offset b < u32_bound \<and> pb_len b < u32_bound) blobs"
        using tiles_bound [OF t] sz \<open>length C < u32_bound\<close> by (fastforce simp: list_all_iff)
      ultimately have "yields (io_bind (verify_blobs e pack 0 blobs []) ?rest)
          (rbind (if list_all (blob_holds e C) blobs then Inr (take ?k C) else Inl Unusable)
            (\<lambda>_. if hex (sha256 e C) = pack then Inr \<lparr>ip_id = pack, ip_blobs = blobs, ip_size = length C\<rparr> else Inl Unusable))"
        by (intro yields_bind [OF b]) (auto split: if_splits)
      moreover have "rbind (if list_all (blob_holds e C) blobs then Inr (take ?k C) else Inl Unusable)
            (\<lambda>_. if hex (sha256 e C) = pack then Inr \<lparr>ip_id = pack, ip_blobs = blobs, ip_size = length C\<rparr> else Inl Unusable) =
          (if list_all (blob_holds e C) blobs \<and> hex (sha256 e C) = pack
           then Inr \<lparr>ip_id = pack, ip_blobs = blobs, ip_size = length C\<rparr> else Inl Unusable)" by (simp add: rbind_def)
      ultimately show ?thesis by (simp only:)
    qed
    show "yields (if n + COMP_OVERHEAD \<noteq> length header then io_fail Unusable
           else if ?k + length header + LENGTH_LEN \<noteq> length C then io_fail Unusable
           else io_bind (verify_blobs e pack 0 blobs []) ?rest)
        (if n + COMP_OVERHEAD = length header \<and> ?k + length header + LENGTH_LEN = length C \<and>
            (list_all (blob_holds e C) blobs) \<and> hex (sha256 e C) = pack
         then Inr \<lparr>ip_id = pack, ip_blobs = blobs, ip_size = length C\<rparr> else Inl Unusable)"
    proof (cases "n + COMP_OVERHEAD = length header \<and> ?k + length header + LENGTH_LEN = length C")
      case True
      then have a: "(n + COMP_OVERHEAD = length header) = True" and b: "(?k + length header + LENGTH_LEN = length C) = True" by simp_all
      show ?thesis unfolding a b simp_thms if_False by (rule all) (use True in simp)
    qed auto
  qed
qed

lemma verdict_describes: "verdict_of e pack C = Inr ip \<longleftrightarrow> describes e pack C ip"
proof
  assume "verdict_of e pack C = Inr ip"
  then show "describes e pack C ip"
    by (fastforce simp: verdict_of_def describes_def rbind_eq_Inr split: if_splits)
next
  assume "describes e pack C ip"
  then show "verdict_of e pack C = Inr ip"
    by (auto simp: verdict_of_def describes_def rbind_def)
qed

section \<open>A pack, described without its reader\<close>

text \<open>
  A sealed text is a nonce of 16 bytes and what the cipher opens under it. An entry of a header is a tag,
  the length of the blob's ciphertext, for a compressed blob its plain length, and its id; lengths are
  four bytes, the lowest first. A compressed blob whose plain length is given as zero
  counts as one that is not compressed.
\<close>

definition opens_to :: "('x packenv_scheme) \<Rightarrow> bytes \<Rightarrow> bytes \<Rightarrow> bool" where
  "opens_to e c plain \<longleftrightarrow> (\<exists>nonce body. c = nonce @ body \<and> length nonce = 16 \<and> aead_open e nonce body = Some plain)"

definition le4 :: "nat \<Rightarrow> bytes" where
  "le4 n = [char_of n, char_of (n div 256), char_of (n div 65536), char_of (n div 16777216)]"

definition entry_of :: "pack_blob \<Rightarrow> bytes \<Rightarrow> bool" where
  "entry_of b bs \<longleftrightarrow> length (pb_id b) = 32 \<and> pb_len b < 2 ^ 32 \<and>
     (let plain_tag = (if pb_type b = DataBlob then CHR 0x00 else CHR 0x01);
          packed_tag = (if pb_type b = DataBlob then CHR 0x02 else CHR 0x03) in
      case pb_uncompressed b of
        Some n \<Rightarrow> 0 < n \<and> n < 2 ^ 32 \<and> bs = packed_tag # le4 (pb_len b) @ le4 n @ pb_id b
      | None \<Rightarrow> bs = plain_tag # le4 (pb_len b) @ pb_id b \<or> bs = packed_tag # le4 (pb_len b) @ le4 0 @ pb_id b)"

definition body_of :: "('x packenv_scheme) \<Rightarrow> pack_blob \<Rightarrow> bytes \<Rightarrow> bool" where
  "body_of e b c \<longleftrightarrow> length c = pb_len b \<and>
     (\<exists>p. opens_to e c p \<and>
        (case pb_uncompressed b of
           None \<Rightarrow> sha256 e p = pb_id b
         | Some n \<Rightarrow> \<exists>q. zstd_all e p = Some q \<and> length q = n \<and> sha256 e q = pb_id b))"

definition is_pack :: "('x packenv_scheme) \<Rightarrow> string \<Rightarrow> bytes \<Rightarrow> index_pack \<Rightarrow> bool" where
  "is_pack e name C ip \<longleftrightarrow>
     (\<exists>bodies header entries.
        C = concat bodies @ header @ le4 (length header) \<and>
        opens_to e header (concat entries) \<and> length header = length (concat entries) + 32 \<and>
        list_all2 entry_of (ip_blobs ip) entries \<and>
        list_all2 (body_of e) (ip_blobs ip) bodies \<and> tiles 0 (ip_blobs ip)) \<and>
     hex (sha256 e C) = name \<and> ip_id ip = name \<and> ip_size ip = length C"

lemma decrypt_opens: "decrypt e c = Some p \<longleftrightarrow> opens_to e c p"
proof
  assume "decrypt e c = Some p"
  then show "opens_to e c p"
    unfolding opens_to_def decrypt_def by (intro exI [of _ "take 16 c"] exI [of _ "drop 16 c"]) (auto split: if_splits)
qed (auto simp: opens_to_def decrypt_def)

lemma length_le4 [simp]: "length (le4 n) = 4"
  by (simp add: le4_def)

text \<open>Four digits to the base 256.\<close>

lemma digits_of_number:
  assumes "a < 256" "b < 256" "c < 256" "d < (256 :: nat)" and "n = a + 256 * (b + 256 * (c + 256 * d))"
  shows "n mod 256 = a" "n div 256 mod 256 = b" "n div 65536 mod 256 = c" "n div 16777216 mod 256 = d" "n < 2 ^ 32"
proof -
  have one: "n div 256 = b + 256 * (c + 256 * d)" using assms(1,5) by simp
  have two: "n div 65536 = c + 256 * d" using one assms(2) div_mult2_eq [of n 256 256] by simp
  have three: "n div 16777216 = d" using two assms(3) div_mult2_eq [of n 65536 256] by simp
  show "n mod 256 = a" unfolding assms(5) mod_mult_self2 using assms(1) by simp
  show "n div 256 mod 256 = b" unfolding one mod_mult_self2 using assms(2) by simp
  show "n div 65536 mod 256 = c" unfolding two mod_mult_self2 using assms(3) by simp
  show "n div 16777216 mod 256 = d" using three assms(4) by simp
  show "n < 2 ^ 32" using three assms(4) div_less_iff_less_mult [of 16777216 n 256] by simp
qed

lemma number_of_digits:
  assumes "n < 2 ^ 32"
  shows "n mod 256 + 256 * (n div 256 mod 256) + 65536 * (n div 65536 mod 256) + 16777216 * (n div 16777216 mod 256) = (n :: nat)"
proof -
  have step: "r0 + 256 * q1 = m \<Longrightarrow> r1 + 256 * q2 = q1 \<Longrightarrow> r2 + 256 * q3 = q2 \<Longrightarrow>
      r0 + 256 * r1 + 65536 * r2 + 16777216 * q3 = m" for r0 r1 r2 q1 q2 q3 m :: nat by linarith
  have two: "n div 65536 = n div 256 div 256" and three: "n div 16777216 = n div 65536 div 256"
    using div_mult2_eq [of n 256 256] div_mult2_eq [of n 65536 256] by simp_all
  have "n div 16777216 < 256" using assms by (simp add: less_mult_imp_div_less)
  then have last: "n div 16777216 mod 256 = n div 16777216" by simp
  have split: "k mod 256 + 256 * (k div 256) = k" for k :: nat by simp
  show ?thesis
    unfolding last using split [of n] split [of "n div 256", folded two] split [of "n div 65536", folded three]
    by (rule step)
qed

lemma le32_le4: "n < 2 ^ 32 \<Longrightarrow> le32 (le4 n) = n"
  using number_of_digits [of n] by (simp add: le32_def le4_def byte_val_def)

lemma four_bytes:
  assumes "length bs = 4"
  shows "le32 bs < 2 ^ 32" and "le4 (le32 bs) = bs"
proof -
  obtain a b c d where bs: "bs = [a, b, c, d]" using assms by (auto simp: eval_nat_numeral length_Suc_conv)
  have n: "le32 bs = of_char a + 256 * (of_char b + 256 * (of_char c + 256 * of_char d))"
    by (simp add: bs le32_def byte_val_def)
  have lt: "(of_char x :: nat) < 256" for x by simp
  note dig = digits_of_number [OF lt [of a] lt [of b] lt [of c] lt [of d] n]
  show "le32 bs < 2 ^ 32" by (rule dig(5))
  have char: "char_of k = x" if "k mod 256 = of_char x" for x and k :: nat
    using that by (metis char_of_char char_of_mod_256)
  show "le4 (le32 bs) = bs"
    using char [OF dig(1)] char [OF dig(2)] char [OF dig(3)] char [OF dig(4)]
    unfolding le4_def by (simp only: bs)
qed

lemma le32_less: "le32 bs < 4294967296"
  using four_bytes(1) [of bs] by (cases "length bs = 4") (auto simp: le32_def split: list.splits)

text \<open>The reader of entries reads exactly what the description lists.\<close>

lemma tags: "byte_val (CHR 0x00) = 0" "byte_val (CHR 0x01) = 1" "byte_val (CHR 0x02) = 2" "byte_val (CHR 0x03) = 3"
  by (simp_all add: byte_val_def)

lemma tag_cases:
  assumes "\<not> 3 < byte_val tag"
  shows "tag = CHR 0x00 \<or> tag = CHR 0x01 \<or> tag = CHR 0x02 \<or> tag = CHR 0x03"
proof -
  have same: "byte_val x = byte_val y \<Longrightarrow> x = y" for x y by (simp add: byte_val_def)
  have "byte_val tag = 0 \<or> byte_val tag = 1 \<or> byte_val tag = 2 \<or> byte_val tag = 3" using assms by auto
  then show ?thesis unfolding tags [symmetric] using same by blast
qed

lemma parse_entry:
  assumes "entry_of b es" "pb_offset b = off" "off + pb_len b \<le> u64_max"
  shows "parse_entries off (es @ rest) = rbind (parse_entries (off + pb_len b) rest) (\<lambda>(bs, n). Inr (b # bs, length es + n))"
proof -
  have len: "length (pb_id b) = 32" "pb_len b < 2 ^ 32" using assms(1) by (simp_all add: entry_of_def)
  show ?thesis
  proof (cases "pb_uncompressed b")
    case None
    with assms(1) len le32_le4 [OF len(2)] le32_le4 [of 0] assms(2,3) show ?thesis
      by (cases "pb_type b")
        (auto simp: entry_of_def Let_def tags nonzero_def ENTRY_LEN_def ENTRY_LEN_COMPRESSED_def intro!: arg_cong2 [where f = rbind] ext)
  next
    case (Some n)
    with assms(1) len le32_le4 [OF len(2)] le32_le4 [of n] assms(2,3) show ?thesis
      by (cases "pb_type b")
        (auto simp: entry_of_def Let_def tags nonzero_def ENTRY_LEN_def ENTRY_LEN_COMPRESSED_def intro!: arg_cong2 [where f = rbind] ext)
  qed
qed

lemma entry_ne: "entry_of b es \<Longrightarrow> es \<noteq> []"
  by (auto simp: entry_of_def Let_def split: option.splits)

lemma entries_parse:
  assumes "list_all2 entry_of blobs entries" "tiles off blobs" "off + sum_list (map pb_len blobs) \<le> u64_max"
  shows "parse_entries off (concat entries) = Inr (blobs, length (concat entries))"
  using assms
proof (induction blobs entries arbitrary: off rule: list_all2_induct)
  case (Cons b bs es ess)
  then show ?case using parse_entry [of b es off "concat ess"] by (simp add: rbind_def)
qed simp

lemma take_4_drop: "4 \<le> length r \<Longrightarrow> r = le4 (le32 (take 4 r)) @ drop 4 r"
  using four_bytes(2) [of "take 4 r"] by simp

lemma parse_step_entry:
  assumes "parse_entries off (tag # r) = Inr (blobs, n)"
  shows "\<exists>b es rest bs m. tag # r = es @ rest \<and> entry_of b es \<and> blobs = b # bs \<and>
    parse_entries (off + pb_len b) rest = Inr (bs, m) \<and> n = length es + m"
proof -
  let ?packed = "2 \<le> byte_val tag"
  let ?fixed = "if ?packed then 40 else 36 :: nat"
  let ?len = "le32 (take 4 r)" and ?id = "take 32 (drop (?fixed - 32) r)"
  let ?plain = "if ?packed then nonzero (le32 (take 4 (drop 4 r))) else None"
  let ?b = "\<lparr>pb_id = ?id, pb_type = (if byte_val tag = 0 \<or> byte_val tag = 2 then DataBlob else TreeBlob), pb_offset = off,
      pb_len = ?len, pb_uncompressed = ?plain\<rparr>"
  from assms obtain bs m where small: "\<not> 3 < byte_val tag" "?fixed \<le> length r"
    and rest: "parse_entries (off + ?len) (drop ?fixed r) = Inr (bs, m)"
    and blobs: "blobs = ?b # bs" and n: "n = (if ?packed then ENTRY_LEN_COMPRESSED else ENTRY_LEN) + m"
    by (auto simp: Let_def rbind_eq_Inr split: if_splits)
  have r4: "r = le4 ?len @ drop 4 r" by (rule take_4_drop) (use small(2) in \<open>auto split: if_splits\<close>)
  have "entry_of ?b (tag # take ?fixed r)"
  proof (cases ?packed)
    case True
    then have "40 \<le> length r" using small(2) by simp
    then have "take 40 r = le4 ?len @ le4 (le32 (take 4 (drop 4 r))) @ take 32 (drop 8 r)"
      using four_bytes(2) [of "take 4 r"] four_bytes(2) [of "take 4 (drop 4 r)"] take_add [of 4 36 r] take_add [of 4 32 "drop 4 r"] by simp
    with True small \<open>40 \<le> length r\<close> show ?thesis
      using tag_cases [OF small(1)] by (elim disjE) (auto simp: entry_of_def Let_def tags le32_less nonzero_def)
  next
    case False
    then have "36 \<le> length r" using small(2) by simp
    then have "take 36 r = le4 ?len @ take 32 (drop 4 r)"
      using four_bytes(2) [of "take 4 r"] take_add [of 4 32 r] by simp
    with False small \<open>36 \<le> length r\<close> show ?thesis
      using tag_cases [OF small(1)] by (elim disjE) (auto simp: entry_of_def Let_def tags le32_less)
  qed
  moreover have "n = length (tag # take ?fixed r) + m"
    using n small(2) by (auto simp: ENTRY_LEN_def ENTRY_LEN_COMPRESSED_def)
  ultimately show ?thesis using rest blobs
    by (intro exI [of _ ?b] exI [of _ "tag # take ?fixed r"] exI [of _ "drop ?fixed r"] exI [of _ bs] exI [of _ m]) simp
qed

lemma parse_lists_entries:
  assumes "parse_entries off bs = Inr (blobs, n)"
  shows "\<exists>entries. list_all2 entry_of blobs entries \<and> bs = concat entries \<and> n = length bs"
  using assms
proof (induction "length bs" arbitrary: off bs blobs n rule: less_induct)
  case less
  show ?case
  proof (cases bs)
    case (Cons tag r)
    from parse_step_entry [OF less.prems [unfolded Cons]] obtain b es rest bs' m where
      step: "bs = es @ rest" "entry_of b es" "blobs = b # bs'" "parse_entries (off + pb_len b) rest = Inr (bs', m)" "n = length es + m"
      using Cons by blast
    then have "length rest < length bs" using entry_ne by auto
    from less.hyps [OF this step(4)] obtain entries where "list_all2 entry_of bs' entries" "rest = concat entries" "m = length rest" by blast
    with step show ?thesis by (intro exI [of _ "es # entries"]) simp
  qed (use less.prems in simp)
qed

text \<open>Bodies that follow each other are the ranges the offsets name.\<close>

lemma bodies_of_tiles:
  assumes "tiles pos blobs" "pos + sum_list (map pb_len blobs) \<le> length C"
  shows "concat (map (\<lambda>b. take (pb_len b) (drop (pb_offset b) C)) blobs) = take (sum_list (map pb_len blobs)) (drop pos C)"
  using assms
proof (induction blobs arbitrary: pos)
  case (Cons b bs)
  then show ?case using take_add [of "pb_len b" "sum_list (map pb_len bs)" "drop pos C"] by (simp add: add.commute)
qed simp

lemma tiles_bodies:
  assumes "list_all2 (\<lambda>b c. length c = pb_len b) blobs bodies" "tiles (length before) blobs"
  shows "map (\<lambda>b. take (pb_len b) (drop (pb_offset b) (before @ concat bodies @ after))) blobs = bodies"
  using assms
proof (induction blobs bodies arbitrary: before rule: list_all2_induct)
  case (Cons b bs c cs)
  then show ?case using Cons.IH [of "before @ c"] by simp
qed simp

lemma check_blob_body: "length c = pb_len b \<Longrightarrow> check_blob e b c = Inr () \<longleftrightarrow> body_of e b c"
  by (auto simp: check_blob_def body_of_def decrypt_opens [symmetric] rbind_def split: option.splits sum.splits if_splits)

lemma describes_pack:
  assumes d: "describes e pack C ip"
  shows "is_pack e pack C ip"
proof -
  let ?blobs = "ip_blobs ip"
  let ?bodies = "map (\<lambda>b. take (pb_len b) (drop (pb_offset b) C)) ?blobs"
  from d obtain tail header plain n where h: "header_of e C = Inr (tail, header, plain)" and p: "parse_header plain = Inr (?blobs, n)"
    and n: "n + COMP_OVERHEAD = length header" and sum: "sum_list (map pb_len ?blobs) + length header + LENGTH_LEN = length C"
    and blobs: "list_all (blob_holds e C) ?blobs"
    by (auto simp: describes_def)
  note ok = header_of_ok [OF h]
  from parse_lists_entries [of 0 plain] p obtain entries where entries: "list_all2 entry_of ?blobs entries" "plain = concat entries" "n = length plain"
    by (auto simp: parse_header_def)
  have t: "tiles 0 ?blobs" using parse_tiles p by (simp add: parse_header_def)
  have "length tail = 4" using ok by (simp add: LENGTH_LEN_def)
  then have tail: "tail = le4 (length header)" using ok four_bytes(2) by metis
  have "concat ?bodies = take (sum_list (map pb_len ?blobs)) C" using bodies_of_tiles [OF t, of C] sum by simp
  moreover have "sum_list (map pb_len ?blobs) = length C - LENGTH_LEN - length header" using sum by linarith
  ultimately have "C = concat ?bodies @ header @ le4 (length header)" using ok tail by metis
  moreover have "list_all2 (body_of e) ?blobs ?bodies"
  proof -
    have "body_of e b (take (pb_len b) (drop (pb_offset b) C))" if b: "b \<in> set ?blobs" for b
    proof (rule iffD1 [OF check_blob_body])
      show "length (take (pb_len b) (drop (pb_offset b) C)) = pb_len b" using tiles_bound [OF t b] sum by simp
      show "check_blob e b (take (pb_len b) (drop (pb_offset b) C)) = Inr ()" using blobs b by (simp add: list_all_iff blob_holds_def)
    qed
    then show ?thesis by (simp add: list_all2_map2 list_all2_same)
  qed
  moreover have "opens_to e header (concat entries)" using ok entries decrypt_opens by metis
  moreover have "length header = length (concat entries) + 32" using n entries by (simp add: COMP_OVERHEAD_def)
  ultimately show ?thesis using d entries(1) t unfolding is_pack_def describes_def by blast
qed

lemma pack_describes:
  assumes "is_pack e pack C ip" and small: "length C < u32_bound"
  shows "describes e pack C ip"
proof -
  let ?blobs = "ip_blobs ip"
  from assms(1) obtain bodies header entries where C: "C = concat bodies @ header @ le4 (length header)"
    and o: "opens_to e header (concat entries)" and len: "length header = length (concat entries) + 32"
    and es: "list_all2 entry_of ?blobs entries" and bs: "list_all2 (body_of e) ?blobs bodies" and t: "tiles 0 ?blobs"
    by (auto simp: is_pack_def)
  have lens: "list_all2 (\<lambda>b c. length c = pb_len b) ?blobs bodies"
    using bs by (rule list_all2_mono) (simp add: body_of_def)
  then have "map length bodies = map pb_len ?blobs" by (induction rule: list_all2_induct) simp_all
  then have sum: "sum_list (map pb_len ?blobs) = length (concat bodies)" by (simp add: length_concat)
  have k: "le32 (le4 (length header)) = length header"
    using small C by (intro le32_le4) (simp add: u32_bound_def)
  have fit: "header_length_fits (length C) (le4 (length header)) = Inr (length header)"
    using k len C by (simp add: header_length_fits_def Let_def COMP_OVERHEAD_def LENGTH_LEN_def)
  have "drop (length C - LENGTH_LEN) C = le4 (length header)" "\<not> length C < COMP_OVERHEAD + LENGTH_LEN"
    "take (length header) (drop (length C - LENGTH_LEN - length header) C) = header"
    using C len by (simp_all add: LENGTH_LEN_def COMP_OVERHEAD_def)
  with fit o have h: "header_of e C = Inr (le4 (length header), header, concat entries)"
    by (simp add: header_of_def Let_def decrypt_opens [THEN iffD2])
  have "sum_list (map pb_len ?blobs) \<le> u64_max" using sum C small by (simp add: u32_bound_def u64_max_def)
  then have p: "parse_header (concat entries) = Inr (?blobs, length (concat entries))"
    using entries_parse [OF es t] by (simp add: parse_header_def)
  have "map (\<lambda>b. take (pb_len b) (drop (pb_offset b) C)) ?blobs = bodies"
    using tiles_bodies [OF lens, of "[]" "header @ le4 (length header)"] t C by simp
  then have "list_all2 (body_of e) ?blobs (map (\<lambda>b. take (pb_len b) (drop (pb_offset b) C)) ?blobs)" using bs by simp
  then have "body_of e b (take (pb_len b) (drop (pb_offset b) C))" if "b \<in> set ?blobs" for b
    using that by (simp add: list_all2_map2 list_all2_same)
  then have "list_all (blob_holds e C) ?blobs"
    using check_blob_body unfolding list_all_iff blob_holds_def by (metis body_of_def)
  moreover have "length (concat entries) + COMP_OVERHEAD = length header"
    "sum_list (map pb_len ?blobs) + length header + LENGTH_LEN = length C"
    using len sum C by (simp_all add: COMP_OVERHEAD_def LENGTH_LEN_def)
  ultimately show ?thesis using h p assms(1) unfolding describes_def is_pack_def by blast
qed

text \<open>C20: For a valid pack name and a pack that is stored unchanged, every range of it readable and its length below
  2 to the 32, \<open>verify_pack\<close> succeeds exactly when the bytes are a pack, as a description that
  mentions neither the reader of the length field nor the parser of the header nor the check of a blob puts it: the
  ciphertexts of the blobs one after the other, a header, and the header's length in four bytes, lowest first; the
  header opens to exactly the entries of the blobs and is 32 bytes longer than they are; every ciphertext has
  the length its entry gives and opens to the plain bytes, unpacked to the declared length where the entry declares one,
  whose SHA-256 is its id; and the SHA-256 of the whole is the name it is stored under. What it
  returns is that name, the length of the file and exactly the blobs of the entries, at consecutive offsets from zero.\<close>

theorem verify_pack_exact:
  assumes "serves e pack C" and "valid_id pack"
  shows "fst (verify_pack e pack (length C) w) = Inr ip \<longleftrightarrow> is_pack e pack C ip"
proof -
  have "length C < u32_bound" using assms(1) by (simp add: serves_def)
  then show ?thesis
    using yields_verify [OF assms] verdict_describes describes_pack pack_describes by (fastforce simp: yields_def)
qed

lemma parse_unusable: "parse_entries k bs = Inl x \<Longrightarrow> x = Unusable"
proof (induction "length bs" arbitrary: k bs rule: less_induct)
  case less
  show ?case
  proof (cases bs)
    case (Cons tag r)
    have IH: "parse_entries k' (drop j r) = Inl x \<Longrightarrow> x = Unusable" for k' j
      by (rule less.hyps) (simp_all add: Cons)
    show ?thesis using less.prems IH unfolding Cons
      by (auto simp: Let_def rbind_def simp del: drop_eq_Nil split: if_splits sum.splits)
  qed (use less.prems in simp)
qed

text \<open>C21: a pack is called unreadable, the shape of torn debris, by the probe of bytes in hand exactly when
  it is by the probe of a backend and by the full verification.\<close>

theorem torn_verdict_is_shared:
  assumes "serves e pack C" and "valid_id pack"
  shows "fst (probe_header e pack (length C) w) = probe_header_bytes e C \<and>
    (fst (verify_pack e pack (length C) w') = Inl UnreadableHeader \<longleftrightarrow> probe_header_bytes e C = Inl UnreadableHeader)"
proof -
  have "yields (probe_header e pack (length C)) (rbind (header_of e C) (\<lambda>_. Inr ()))"
    unfolding probe_header_def by (rule yields_bind [OF yields_header [OF assms]]) simp
  moreover have "verdict_of e pack C = Inl UnreadableHeader \<longleftrightarrow> probe_header_bytes e C = Inl UnreadableHeader"
  proof -
    have "parse_header plain \<noteq> Inl UnreadableHeader" for plain using parse_unusable by (auto simp: parse_header_def)
    then show ?thesis
      by (cases "header_of e C") (auto simp: verdict_of_def header_of_probe rbind_def split: sum.splits if_splits)
  qed
  ultimately show ?thesis using yields_verify [OF assms] by (simp add: yields_def header_of_probe)
qed

section \<open>A concrete pack\<close>

text \<open>One blob of one byte; the cipher here only carries a nonce and a tag of zeros.\<close>

definition zeros :: "nat \<Rightarrow> bytes" where
  "zeros n = replicate n (CHR 0x00)"

definition demo_pack_bytes :: bytes where
  "demo_pack_bytes = (zeros 16 @ ''x'' @ zeros 16) @ (zeros 16 @ ([CHR 0x00, CHR 0x21] @ zeros 3 @ zeros 32) @ zeros 16) @ (CHR 0x45 # zeros 3)"

definition demo_packenv :: packenv where
  "demo_packenv = \<lparr>fault = (\<lambda>_. False), torn = (\<lambda>_. 0), sha256 = (\<lambda>_. zeros 32), enc_fact = (\<lambda>_. None), dec_fact = (\<lambda>_. None),
     temp_dir = [], stage_root = [], ancestors = (\<lambda>_. []),
     pack_read = (\<lambda>t p offset n. if offset + n \<le> length demo_pack_bytes then Some (take n (drop offset demo_pack_bytes)) else None),
     aead_open = (\<lambda>nonce c. if length c < 16 then None else Some (take (length c - 16) c)), zstd_all = Some\<rparr>"

definition demo_pack :: string where
  "demo_pack = hex (zeros 32)"

definition demo_index_pack :: index_pack where
  "demo_index_pack = \<lparr>ip_id = demo_pack, ip_blobs = [\<lparr>pb_id = zeros 32, pb_type = DataBlob, pb_offset = 0, pb_len = 33,
     pb_uncompressed = None\<rparr>], ip_size = 106\<rparr>"

lemma demo_serves: "serves demo_packenv demo_pack demo_pack_bytes" "valid_id demo_pack"
proof -
  have "length demo_pack_bytes = 106" by code_simp
  then show "serves demo_packenv demo_pack demo_pack_bytes"
    by (simp add: serves_def u32_bound_def) (simp add: demo_packenv_def)
  show "valid_id demo_pack" by code_simp
qed

definition demo_entry :: bytes where
  "demo_entry = CHR 0x21 # zeros 3 @ zeros 32"

lemma demo_parse: "parse_header (CHR 0x00 # demo_entry) = Inr (ip_blobs demo_index_pack, 37)"
proof -
  have "take 4 demo_entry = CHR 0x21 # zeros 3" by code_simp
  then have "le32 (take 4 demo_entry) = 33" by (simp add: le32_def zeros_def numeral_3_eq_3 byte_val_def)
  moreover have "byte_val (CHR 0x00) = 0" by (simp add: byte_val_def)
  moreover have "length demo_entry = 36" "take 32 (drop 4 demo_entry) = zeros 32"
    "drop 36 demo_entry = []" by code_simp+
  ultimately show ?thesis
    by (simp add: parse_header_def Let_def u64_max_def demo_index_pack_def ENTRY_LEN_def rbind_def zeros_def)
qed

lemma demo_describes: "verdict_of demo_packenv demo_pack demo_pack_bytes = Inr demo_index_pack"
proof -
  have h: "header_of demo_packenv demo_pack_bytes =
      Inr (CHR 0x45 # zeros 3, zeros 16 @ (CHR 0x00 # demo_entry) @ zeros 16, CHR 0x00 # demo_entry)"
  proof -
    have "length demo_pack_bytes = 106" "drop 102 demo_pack_bytes = CHR 0x45 # zeros 3" "take 4 (CHR 0x45 # zeros 3) = CHR 0x45 # zeros 3"
      "take 69 (drop 33 demo_pack_bytes) = zeros 16 @ (CHR 0x00 # demo_entry) @ zeros 16"
      "decrypt demo_packenv (zeros 16 @ (CHR 0x00 # demo_entry) @ zeros 16) = Some (CHR 0x00 # demo_entry)" by code_simp+
    moreover have "le32 (CHR 0x45 # zeros 3) = 69" by (simp add: le32_def zeros_def numeral_3_eq_3 byte_val_def)
    ultimately show ?thesis
      by (simp add: header_of_def header_length_fits_def Let_def COMP_OVERHEAD_def LENGTH_LEN_def rbind_def)
  qed
  have "length (zeros 16 @ (CHR 0x00 # demo_entry) @ zeros 16) = 69" "length demo_pack_bytes = 106"
    "list_all (blob_holds demo_packenv demo_pack_bytes) (ip_blobs demo_index_pack)"
    "hex (sha256 demo_packenv demo_pack_bytes) = demo_pack" by code_simp+
  then show ?thesis
    by (simp only: verdict_of_def h demo_parse rbind_simps prod.case)
      (simp add: demo_index_pack_def COMP_OVERHEAD_def LENGTH_LEN_def)
qed

theorem verify_pack_exact_witness:
  "fst (verify_pack demo_packenv demo_pack (length demo_pack_bytes) \<lparr>files = [], clock = 0\<rparr>) = Inr demo_index_pack"
  using verify_pack_exact [OF demo_serves] demo_describes verdict_describes describes_pack by blast

theorem torn_verdict_is_shared_witness:
  "fst (probe_header demo_packenv demo_pack (length demo_pack_bytes) \<lparr>files = [], clock = 0\<rparr>) = Inr ()"
  using torn_verdict_is_shared [OF demo_serves] demo_describes
  by (cases "header_of demo_packenv demo_pack_bytes") (auto simp: header_of_probe verdict_of_def rbind_def)

end
