(* ===== verification/Mirror.thy ===== *)
theory Mirror
  imports Packcheck State_Files "HOL-Library.Sublist"
begin

text \<open>
  \<open>mirror.rs\<close>: one round of the local mirror of a destination. The files of the destination are listed,
  those the mirror lacks are copied by two workers that share a counter, a stop flag and the survey of
  the index files, and a completed round records which snapshots the mirror holds in full. The copy
  is a machine whose steps are the atomic actions of one worker; a schedule is a list of worker
  numbers, so statements over all schedules cover every interleaving. What the destination lists and
  serves at each tick, the deadline, the free space, the opening of a repository and the decoding of an index
  file are parameters. Texts of reports are left out.
\<close>

section \<open>The environment\<close>

datatype file_kind = ConfigFile | KeyFile | SnapshotFile | IndexFile | PackFile

record mirenv = packenv +
  remote_list :: "nat \<Rightarrow> file_kind \<Rightarrow> (string \<times> nat) list option"
  remote_read :: "nat \<Rightarrow> file_kind \<Rightarrow> string \<Rightarrow> bytes option"
  deadline_passed :: "nat \<Rightarrow> bool"
  free_space :: "nat \<Rightarrow> nat option"
  opens_config :: "bytes \<Rightarrow> bool"
  index_names :: "bytes \<Rightarrow> (string list \<times> string list) option"

definition MIRROR_CONNECTIONS :: nat where "MIRROR_CONNECTIONS = 2"
definition MAX_WHOLE_FILE_BYTES :: nat where "MAX_WHOLE_FILE_BYTES = 2 ^ 34"

section \<open>Files of a repository\<close>

fun kind_name :: "file_kind \<Rightarrow> string" where
  "kind_name ConfigFile = ''config''"
| "kind_name KeyFile = ''keys''"
| "kind_name SnapshotFile = ''snapshots''"
| "kind_name IndexFile = ''index''"
| "kind_name PackFile = ''data''"

record planned_file =
  pf_kind :: file_kind
  pf_hex :: string
  pf_size :: nat

definition local_path :: "path \<Rightarrow> planned_file \<Rightarrow> path" where
  "local_path root f =
     (case pf_kind f of
        ConfigFile \<Rightarrow> root @ [''config'']
      | PackFile \<Rightarrow> root @ [''data'', take 2 (pf_hex f), pf_hex f]
      | k \<Rightarrow> root @ [kind_name k, pf_hex f])"

definition copies_dir :: "path \<Rightarrow> path" where
  "copies_dir data_root = data_root @ [''mirror'']"

definition mirror_dir :: "path \<Rightarrow> string \<Rightarrow> path" where
  "mirror_dir data_root destination = copies_dir data_root @ [destination]"

text \<open>What the backend of a local repository lists: the files below the directory of a kind that are named by an id.\<close>

definition repo_files :: "path \<Rightarrow> file_kind \<Rightarrow> fs \<Rightarrow> path list" where
  "repo_files root k f =
     remdups (filter (\<lambda>p. strict_prefix (root @ [kind_name k]) p \<and> valid_id (last p)) (map fst f))"

section \<open>How a round ends\<close>

datatype round_end = BudgetSpent | DiskBelowThreshold nat nat | RemoteRead

datatype hard_class = SourceCorrupt | LocalWrite | OversizeListing | DiskQuery

datatype stop_cause = Pause round_end | Hard hard_class

text \<open>The production stop rule, asked before every file.\<close>

definition free_bytes :: "('x mirenv_scheme) \<Rightarrow> nat \<Rightarrow> hard_class + nat" where
  "free_bytes e t = (case free_space e t of None \<Rightarrow> Inl DiskQuery | Some n \<Rightarrow> Inr n)"

definition round_end_of :: "('x mirenv_scheme) \<Rightarrow> nat \<Rightarrow> planned_file \<Rightarrow> nat \<Rightarrow> hard_class + round_end option" where
  "round_end_of e min_free next_file t =
     (if deadline_passed e t then Inr (Some BudgetSpent)
      else rbind (free_bytes e t) (\<lambda>free.
        if free - pf_size next_file < min_free then Inr (Some (DiskBelowThreshold free min_free)) else Inr None))"

section \<open>The survey of the index files\<close>

datatype indexed_packs = NotYet | Ready "string list" | SurveyFailed

definition index_set_of :: "('x mirenv_scheme) \<Rightarrow> path \<Rightarrow> fs \<Rightarrow> string list option" where
  "index_set_of e root f =
     (case map_of f (root @ [''config'']) of
        None \<Rightarrow> None
      | Some c \<Rightarrow>
          if \<not> opens_config e c then None
          else map_option concat (those (map (\<lambda>p.
              case index_names e (the (map_of f p)) of None \<Rightarrow> None | Some (ps, ds) \<Rightarrow> Some (ps @ ds))
            (repo_files root IndexFile f))))"

definition mirror_indexed_pack_names :: "('x mirenv_scheme) \<Rightarrow> path \<Rightarrow> world \<Rightarrow> string list option" where
  "mirror_indexed_pack_names e root w = (if fault e (clock w) then None else index_set_of e root (files w))"

text \<open>The set is read at most once in a round; a failure is remembered too.\<close>

definition survey_once :: "('x mirenv_scheme) \<Rightarrow> path \<Rightarrow> indexed_packs \<Rightarrow> world \<Rightarrow> indexed_packs \<times> string list option \<times> world" where
  "survey_once e root s w =
     (case s of
        Ready names \<Rightarrow> (s, Some names, w)
      | SurveyFailed \<Rightarrow> (s, None, w)
      | NotYet \<Rightarrow>
          (case mirror_indexed_pack_names e root w of
             Some names \<Rightarrow> (Ready names, Some names, w\<lparr>clock := Suc (clock w)\<rparr>)
           | None \<Rightarrow> (SurveyFailed, None, w\<lparr>clock := Suc (clock w)\<rparr>)))"

definition classify_failed :: "('x mirenv_scheme) \<Rightarrow> planned_file \<Rightarrow> string list option \<Rightarrow> bytes \<Rightarrow> hard_class option" where
  "classify_failed e f names bs =
     (let check = (case probe_header_bytes e bs of Inr _ \<Rightarrow> Inl Unusable | Inl x \<Rightarrow> Inl x) in
      case classify_pack (map_option (\<lambda>ns. pf_hex f \<in> set ns) names) check of
        TornPack \<Rightarrow> None
      | _ \<Rightarrow> Some SourceCorrupt)"

section \<open>The copy\<close>

text \<open>
  Where a worker stands. The numbers are positions in the queue; from \<open>MakeDir\<close> to \<open>Rename\<close> are the steps of
  \<open>write_atomic\<close>, and \<open>Release\<close> and \<open>SetStop\<close> the two actions that end a worker early.
\<close>

datatype pc =
    Claim
  | CheckStop nat
  | AskRound nat
  | Fetch nat nat
  | Classify nat bytes
  | MakeDir nat bytes
  | CreateTmp nat bytes
  | WriteTmp nat bytes
  | SyncTmp nat bytes
  | Rename nat bytes
  | CountFile nat nat
  | CountBytes nat nat
  | CountTorn nat
  | CountTornBytes nat
  | Release "stop_cause option"
  | SetStop stop_cause
  | Ended

record copy_state =
  cs_next :: nat
  cs_files :: nat
  cs_bytes :: nat
  cs_torn :: nat
  cs_torn_bytes :: nat
  cs_stop :: "stop_cause option"
  cs_survey :: indexed_packs
  cs_world :: world

definition tmp_path :: "path \<Rightarrow> path" where
  "tmp_path p = butlast p @ [''.'' @ last p @ ''.tmp'']"

definition name_verified :: "('x mirenv_scheme) \<Rightarrow> planned_file \<Rightarrow> bytes \<Rightarrow> bool" where
  "name_verified e f c \<longleftrightarrow> pf_kind f = ConfigFile \<or> hex (sha256 e c) = pf_hex f"

definition attempts_for :: "planned_file \<Rightarrow> nat" where
  "attempts_for f = (if pf_kind f = ConfigFile then 1 else 2)"

text \<open>A file operation of \<open>write_atomic\<close>: on success go on, on failure end the round.\<close>

definition file_step :: "(world, unit, unit) io \<Rightarrow> pc \<Rightarrow> copy_state \<Rightarrow> pc \<times> copy_state" where
  "file_step m ok c =
     (case m (cs_world c) of
        (Inr _, w) \<Rightarrow> (ok, c\<lparr>cs_world := w\<rparr>)
      | (Inl _, w) \<Rightarrow> (Release (Some (Hard LocalWrite)), c\<lparr>cs_world := w\<rparr>))"

definition tick :: "copy_state \<Rightarrow> copy_state" where
  "tick c = c\<lparr>cs_world := (cs_world c)\<lparr>clock := Suc (clock (cs_world c))\<rparr>\<rparr>"

definition fetch_step :: "('x mirenv_scheme) \<Rightarrow> planned_file \<Rightarrow> nat \<Rightarrow> nat \<Rightarrow> copy_state \<Rightarrow> pc \<times> copy_state" where
  "fetch_step e f k attempt c =
     (if MAX_WHOLE_FILE_BYTES < pf_size f then (Release (Some (Hard OversizeListing)), c)
      else
        (case remote_read e (clock (cs_world c)) (pf_kind f) (pf_hex f) of
           None \<Rightarrow> Release (Some (Pause RemoteRead))
         | Some bs \<Rightarrow>
             if MAX_WHOLE_FILE_BYTES < length bs then Release (Some (Hard OversizeListing))
             else if name_verified e f bs then MakeDir k bs
             else if attempt + 1 = attempts_for f then
               (if pf_kind f = PackFile then Classify k bs else Release (Some (Hard SourceCorrupt)))
             else Fetch k (attempt + 1),
         tick c))"

fun pc_step :: "('x mirenv_scheme) \<Rightarrow> nat \<Rightarrow> path \<Rightarrow> planned_file list \<Rightarrow> pc \<Rightarrow> copy_state \<Rightarrow> pc \<times> copy_state" where
  "pc_step e min_free root q Claim c =
     ((if cs_next c < length q then CheckStop (cs_next c) else Ended), c\<lparr>cs_next := cs_next c + 1\<rparr>)"
| "pc_step e min_free root q (CheckStop k) c = (if cs_stop c \<noteq> None then Release None else AskRound k, c)"
| "pc_step e min_free root q (AskRound k) c =
     ((case round_end_of e min_free (q ! k) (clock (cs_world c)) of
         Inr (Some x) \<Rightarrow> Release (Some (Pause x))
       | Inr None \<Rightarrow> Fetch k 0
       | Inl h \<Rightarrow> Release (Some (Hard h))), tick c)"
| "pc_step e min_free root q (Fetch k attempt) c = fetch_step e (q ! k) k attempt c"
| "pc_step e min_free root q (Classify k bs) c =
     (case survey_once e root (cs_survey c) (cs_world c) of
        (s, names, w) \<Rightarrow>
          ((case classify_failed e (q ! k) names bs of
              None \<Rightarrow> CountTorn k
            | Some h \<Rightarrow> Release (Some (Hard h))), c\<lparr>cs_survey := s, cs_world := w\<rparr>))"
| "pc_step e min_free root q (MakeDir k bs) c = file_step (touch e ()) (CreateTmp k bs) c"
| "pc_step e min_free root q (CreateTmp k bs) c =
     file_step (create_file e () (tmp_path (local_path root (q ! k)))) (WriteTmp k bs) c"
| "pc_step e min_free root q (WriteTmp k bs) c =
     file_step (write_file e () (tmp_path (local_path root (q ! k))) bs) (SyncTmp k bs) c"
| "pc_step e min_free root q (SyncTmp k bs) c = file_step (touch e ()) (Rename k bs) c"
| "pc_step e min_free root q (Rename k bs) c =
     file_step (rename_file e () (tmp_path (local_path root (q ! k))) (local_path root (q ! k))) (CountFile k (length bs)) c"
| "pc_step e min_free root q (CountFile k n) c = (CountBytes k n, c\<lparr>cs_files := cs_files c + 1\<rparr>)"
| "pc_step e min_free root q (CountBytes k n) c = (Claim, c\<lparr>cs_bytes := cs_bytes c + n\<rparr>)"
| "pc_step e min_free root q (CountTorn k) c = (CountTornBytes k, c\<lparr>cs_torn := cs_torn c + 1\<rparr>)"
| "pc_step e min_free root q (CountTornBytes k) c = (Claim, c\<lparr>cs_torn_bytes := cs_torn_bytes c + pf_size (q ! k)\<rparr>)"
| "pc_step e min_free root q (Release r) c =
     ((case r of None \<Rightarrow> Ended | Some s \<Rightarrow> SetStop s), c\<lparr>cs_next := cs_next c - 1\<rparr>)"
| "pc_step e min_free root q (SetStop s) c =
     (Ended, if cs_stop c = None then c\<lparr>cs_stop := Some s\<rparr> else c)"
| "pc_step e min_free root q Ended c = (Ended, c)"

text \<open>One action of worker \<open>i\<close>, and the workers of a phase under a schedule.\<close>

definition worker_step ::
  "('x mirenv_scheme) \<Rightarrow> nat \<Rightarrow> path \<Rightarrow> planned_file list \<Rightarrow> nat \<Rightarrow> pc list \<times> copy_state \<Rightarrow> pc list \<times> copy_state" where
  "worker_step e min_free root q i s =
     (if i < length (fst s)
      then let (pc', c') = pc_step e min_free root q (fst s ! i) (snd s) in ((fst s)[i := pc'], c')
      else s)"

definition phase_start :: "planned_file list \<Rightarrow> copy_state \<Rightarrow> pc list \<times> copy_state" where
  "phase_start q c = (replicate (min MIRROR_CONNECTIONS (length q)) Claim, c\<lparr>cs_next := 0\<rparr>)"

definition run_workers ::
  "('x mirenv_scheme) \<Rightarrow> nat \<Rightarrow> path \<Rightarrow> planned_file list \<Rightarrow> nat list \<Rightarrow> pc list \<times> copy_state \<Rightarrow> pc list \<times> copy_state" where
  "run_workers e min_free root q sched s = fold (worker_step e min_free root q) sched s"

definition all_ended :: "pc list \<times> copy_state \<Rightarrow> bool" where
  "all_ended s \<longleftrightarrow> list_all (\<lambda>x. x = Ended) (fst s)"

text \<open>A phase is joined when all workers have ended; a schedule that stops before is a process that was killed.\<close>

definition copy_phase ::
  "('x mirenv_scheme) \<Rightarrow> nat \<Rightarrow> path \<Rightarrow> planned_file list \<Rightarrow> nat list \<Rightarrow> copy_state \<Rightarrow> bool \<times> copy_state" where
  "copy_phase e min_free root q sched c =
     (let s = run_workers e min_free root q sched (phase_start q c) in (all_ended s, snd s))"

definition copy_start :: "world \<Rightarrow> copy_state" where
  "copy_start w = \<lparr>cs_next = 0, cs_files = 0, cs_bytes = 0, cs_torn = 0, cs_torn_bytes = 0, cs_stop = None,
     cs_survey = NotYet, cs_world = w\<rparr>"

definition is_meta :: "planned_file \<Rightarrow> bool" where
  "is_meta f \<longleftrightarrow> pf_kind f \<in> {ConfigFile, KeyFile, IndexFile}"

text \<open>First config, keys and index files, then snapshots and packs.\<close>

definition copy_all ::
  "('x mirenv_scheme) \<Rightarrow> nat \<Rightarrow> path \<Rightarrow> planned_file list \<Rightarrow> nat list \<Rightarrow> nat list \<Rightarrow> world \<Rightarrow> bool \<times> copy_state" where
  "copy_all e min_free root queue sched1 sched2 w =
     (let (joined, c) = copy_phase e min_free root (takeWhile is_meta queue) sched1 (copy_start w) in
      if joined \<and> cs_stop c = None then copy_phase e min_free root (dropWhile is_meta queue) sched2 c else (joined, c))"

end
