(* ===== verification/Mirror_Copy.thy ===== *)
theory Mirror_Copy
  imports Mirror
begin

text \<open>
  The two workers of a copy phase under every schedule and every pattern of failures: what the files
  of the mirror hold at each moment, which files are settled when a phase is drained without a stop,
  and that a phase ends.
\<close>

section \<open>Workers that share a state\<close>

text \<open>
  Steps of numbered workers that keep an invariant and lower a cost until they are idle: a schedule in
  which every worker comes up often enough leaves all of them idle.
\<close>

locale workers =
  fixes step :: "nat \<Rightarrow> 's \<Rightarrow> 's" and idle :: "nat \<Rightarrow> 's \<Rightarrow> bool" and inv :: "'s \<Rightarrow> bool" and cost :: "'s \<Rightarrow> nat"
  assumes inv_step: "inv s \<Longrightarrow> inv (step i s)"
    and idle_step: "idle i s \<Longrightarrow> step i s = s"
    and cost_step: "inv s \<Longrightarrow> \<not> idle i s \<Longrightarrow> cost (step i s) < cost s"
    and idle_other: "idle i (step j s) \<Longrightarrow> i \<noteq> j \<Longrightarrow> idle i s"
begin

lemma inv_run: "inv s \<Longrightarrow> inv (fold step sched s)"
  by (induction sched arbitrary: s) (auto intro: inv_step)

lemma cost_run_le: "inv s \<Longrightarrow> cost (fold step sched s) \<le> cost s"
proof (induction sched arbitrary: s)
  case (Cons i sched)
  have "cost (step i s) \<le> cost s" using cost_step [OF Cons.prems, of i] idle_step [of i s] by (cases "idle i s") auto
  with Cons.IH [OF inv_step [OF Cons.prems, of i]] show ?case by simp
qed simp

lemma cost_run_less: "inv s \<Longrightarrow> i \<in> set sched \<Longrightarrow> \<not> idle i s \<Longrightarrow> cost (fold step sched s) < cost s"
proof (induction sched arbitrary: s)
  case (Cons j sched)
  show ?case
  proof (cases "i = j")
    case True
    then show ?thesis using cost_step [OF Cons.prems(1), of j] cost_run_le [OF inv_step [OF Cons.prems(1)], of sched j]
        Cons.prems(3) by simp
  next
    case False
    then have "\<not> idle i (step j s)" using idle_other Cons.prems(3) by blast
    then have "cost (fold step sched (step j s)) < cost (step j s)"
      using Cons.IH [OF inv_step [OF Cons.prems(1)]] Cons.prems(2) False by simp
    moreover have "cost (step j s) \<le> cost s" using cost_run_le [OF Cons.prems(1), of "[j]"] by simp
    ultimately show ?thesis by simp
  qed
qed simp

lemma idle_run: "\<forall>i < n. idle i s \<Longrightarrow> set sched \<subseteq> {..<n} \<Longrightarrow> fold step sched s = s"
  by (induction sched) (auto simp: idle_step)

lemma run_ends:
  assumes "inv s" "list_all (\<lambda>seg. set seg = {..<n}) segs" "cost s \<le> length segs"
  shows "\<forall>i < n. idle i (fold step (concat segs) s)"
  using assms
proof (induction segs arbitrary: s)
  case Nil
  then show ?case using cost_step [OF Nil.prems(1)] by fastforce
next
  case (Cons seg segs)
  show ?case
  proof (cases "\<forall>i < n. idle i s")
    case True
    then have "fold step (concat (seg # segs)) s = s" using Cons.prems(2) by (intro idle_run) (auto simp: list_all_iff)
    with True show ?thesis by simp
  next
    case False
    then obtain i where i: "i < n" "\<not> idle i s" by blast
    then have "cost (fold step seg s) < cost s" using cost_run_less [OF Cons.prems(1)] Cons.prems(2) by simp
    then show ?thesis using Cons.IH [OF inv_run [OF Cons.prems(1), of seg]] Cons.prems(2,3) by simp
  qed
qed

end

section \<open>Paths\<close>

definition tmp_of :: "path \<Rightarrow> planned_file \<Rightarrow> path" where
  "tmp_of root x = tmp_path (local_path root x)"

definition queue_ok :: "path \<Rightarrow> planned_file list \<Rightarrow> bool" where
  "queue_ok root q \<longleftrightarrow> distinct (map (local_path root) q) \<and> (\<forall>x \<in> set q. pf_kind x = ConfigFile \<or> valid_id (pf_hex x))"

lemma local_path_nonempty [simp]: "local_path root x \<noteq> []"
  by (simp add: local_path_def split: file_kind.splits)

lemma last_local: "last (local_path root x) = (if pf_kind x = ConfigFile then ''config'' else pf_hex x)"
  by (simp add: local_path_def split: file_kind.splits)

lemma tmp_inj:
  assumes "tmp_of root x = tmp_of root y"
  shows "local_path root x = local_path root y"
proof -
  have "butlast (local_path root x) = butlast (local_path root y) \<and> last (local_path root x) = last (local_path root y)"
    using assms unfolding tmp_of_def tmp_path_def by blast
  then show ?thesis by (metis append_butlast_last_id local_path_nonempty)
qed

lemma valid_id_head: "valid_id (c # s) \<Longrightarrow> c \<noteq> CHR ''.''"
  by (auto simp: valid_id_def is_hexdigit_def is_digit_def)

lemma tmp_not_local:
  assumes "pf_kind y = ConfigFile \<or> valid_id (pf_hex y)"
  shows "tmp_of root x \<noteq> local_path root y"
proof
  assume "tmp_of root x = local_path root y"
  then have "last (local_path root y) = ''.'' @ last (local_path root x) @ ''.tmp''"
    by (metis tmp_of_def tmp_path_def last_snoc)
  with assms show False using valid_id_head [of "CHR ''.''" "last (local_path root x) @ ''.tmp''"]
    by (auto simp: last_local [of _ y] split: if_splits)
qed

lemma queue_distinct: "queue_ok root q \<Longrightarrow> j < length q \<Longrightarrow> k < length q \<Longrightarrow> local_path root (q ! j) = local_path root (q ! k) \<longleftrightarrow> j = k"
  by (auto simp: queue_ok_def distinct_conv_nth)

lemma queue_tmp: "queue_ok root q \<Longrightarrow> j < length q \<Longrightarrow> k < length q \<Longrightarrow> tmp_of root (q ! j) = tmp_of root (q ! k) \<longleftrightarrow> j = k"
  using queue_distinct tmp_inj by metis

lemma queue_tmp_local: "queue_ok root q \<Longrightarrow> k < length q \<Longrightarrow> tmp_of root x \<noteq> local_path root (q ! k)"
  using tmp_not_local nth_mem by (metis queue_ok_def)

section \<open>Where a worker stands\<close>

fun held :: "pc \<Rightarrow> nat option" where
  "held (CheckStop k) = Some k"
| "held (AskRound k) = Some k"
| "held (Fetch k _) = Some k"
| "held (Classify k _) = Some k"
| "held (MakeDir k _) = Some k"
| "held (CreateTmp k _) = Some k"
| "held (WriteTmp k _) = Some k"
| "held (SyncTmp k _) = Some k"
| "held (Rename k _) = Some k"
| "held (CountFile k _) = Some k"
| "held (CountBytes k _) = Some k"
| "held (CountTorn k) = Some k"
| "held (CountTornBytes k) = Some k"
| "held _ = None"

fun uncounted :: "pc \<Rightarrow> bool" where
  "uncounted (CountBytes k n) = False"
| "uncounted (CountTornBytes k) = False"
| "uncounted p = (held p \<noteq> None)"

fun stopping :: "pc \<Rightarrow> bool" where
  "stopping (Release r) = True"
| "stopping (SetStop s) = True"
| "stopping _ = False"

definition working :: "pc \<Rightarrow> bool" where
  "working p \<longleftrightarrow> \<not> stopping p \<and> p \<noteq> Ended"

definition fetched :: "('x mirenv_scheme) \<Rightarrow> planned_file \<Rightarrow> bytes \<Rightarrow> bool" where
  "fetched e x bs \<longleftrightarrow> name_verified e x bs \<and> (\<exists>t. remote_read e t (pf_kind x) (pf_hex x) = Some bs)"

definition copied :: "('x mirenv_scheme) \<Rightarrow> path \<Rightarrow> fs \<Rightarrow> planned_file \<Rightarrow> bool" where
  "copied e root f x \<longleftrightarrow> (\<exists>bs. map_of f (local_path root x) = Some bs \<and> fetched e x bs)"

text \<open>The destination served bytes that do not hash to their name.\<close>

definition misnamed :: "('x mirenv_scheme) \<Rightarrow> planned_file \<Rightarrow> bytes \<Rightarrow> bool" where
  "misnamed e x bs \<longleftrightarrow> pf_kind x = PackFile \<and> \<not> name_verified e x bs \<and> (\<exists>t. remote_read e t PackFile (pf_hex x) = Some bs)"

definition served_torn :: "('x mirenv_scheme) \<Rightarrow> planned_file \<Rightarrow> bool" where
  "served_torn e x \<longleftrightarrow> (\<exists>bs. misnamed e x bs \<and> probe_header_bytes e bs = Inl UnreadableHeader)"

definition torn_skipped :: "('x mirenv_scheme) \<Rightarrow> indexed_packs \<Rightarrow> planned_file \<Rightarrow> bool" where
  "torn_skipped e sv x \<longleftrightarrow> served_torn e x \<and> (\<exists>names. sv = Ready names \<and> pf_hex x \<notin> set names)"

definition file_settled :: "('x mirenv_scheme) \<Rightarrow> path \<Rightarrow> copy_state \<Rightarrow> planned_file \<Rightarrow> bool" where
  "file_settled e root c x \<longleftrightarrow> copied e root (files (cs_world c)) x \<or> torn_skipped e (cs_survey c) x"

fun pc_ok :: "('x mirenv_scheme) \<Rightarrow> path \<Rightarrow> planned_file list \<Rightarrow> copy_state \<Rightarrow> pc \<Rightarrow> bool" where
  "pc_ok e root q c (CheckStop k) = (k < length q)"
| "pc_ok e root q c (AskRound k) = (k < length q)"
| "pc_ok e root q c (Fetch k a) = (k < length q \<and> a < attempts_for (q ! k))"
| "pc_ok e root q c (Classify k bs) = (k < length q \<and> misnamed e (q ! k) bs)"
| "pc_ok e root q c (MakeDir k bs) = (k < length q \<and> fetched e (q ! k) bs)"
| "pc_ok e root q c (CreateTmp k bs) = (k < length q \<and> fetched e (q ! k) bs)"
| "pc_ok e root q c (WriteTmp k bs) = (k < length q \<and> fetched e (q ! k) bs)"
| "pc_ok e root q c (SyncTmp k bs) =
     (k < length q \<and> fetched e (q ! k) bs \<and> map_of (files (cs_world c)) (tmp_of root (q ! k)) = Some bs)"
| "pc_ok e root q c (Rename k bs) =
     (k < length q \<and> fetched e (q ! k) bs \<and> map_of (files (cs_world c)) (tmp_of root (q ! k)) = Some bs)"
| "pc_ok e root q c (CountFile k n) = (k < length q \<and> copied e root (files (cs_world c)) (q ! k))"
| "pc_ok e root q c (CountBytes k n) = (k < length q \<and> copied e root (files (cs_world c)) (q ! k))"
| "pc_ok e root q c (CountTorn k) = (k < length q \<and> torn_skipped e (cs_survey c) (q ! k))"
| "pc_ok e root q c (CountTornBytes k) = (k < length q \<and> torn_skipped e (cs_survey c) (q ! k))"
| "pc_ok e root q c (Release None) = (cs_stop c \<noteq> None)"
| "pc_ok e root q c _ = True"

section \<open>One action\<close>

text \<open>What an action does to the files: nothing, a write to the temporary file, or its rename.\<close>

definition moves :: "('x mirenv_scheme) \<Rightarrow> path \<Rightarrow> planned_file \<Rightarrow> fs \<Rightarrow> fs \<Rightarrow> bool" where
  "moves e root x f g \<longleftrightarrow> g = f \<or> (\<exists>bs. g = AList.update (tmp_of root x) bs f) \<or>
     (\<exists>bs. map_of f (tmp_of root x) = Some bs \<and> fetched e x bs \<and> g = fs_rename (tmp_of root x) (local_path root x) f)"

definition later_survey :: "indexed_packs \<Rightarrow> indexed_packs \<Rightarrow> bool" where
  "later_survey s s' \<longleftrightarrow> s' = s \<or> s = NotYet"

lemma survey_later: "survey_once e root s w = (s', names, w') \<Longrightarrow>
    later_survey s s' \<and> files w' = files w \<and> (\<forall>ns. names = Some ns \<longrightarrow> s' = Ready ns)"
  by (auto simp: survey_once_def later_survey_def split: indexed_packs.splits option.splits)

lemma classify_failed_torn:
  "classify_failed e x names bs = None \<Longrightarrow> misnamed e x bs \<Longrightarrow> (\<forall>ns. names = Some ns \<longrightarrow> s' = Ready ns) \<Longrightarrow> torn_skipped e s' x"
  by (auto simp: classify_failed_def Let_def torn_skipped_def served_torn_def classify_torn split: pack_class.splits sum.splits)

lemma fetch_step_cases:
  assumes "fetch_step e x k a c = (p', c')" "a < attempts_for x"
  shows "files (cs_world c') = files (cs_world c) \<and> cs_survey c' = cs_survey c \<and>
    (p' = Fetch k (a + 1) \<and> a + 1 < attempts_for x \<or> (\<exists>r. p' = Release (Some r)) \<or>
     (\<exists>bs. p' = Classify k bs \<and> misnamed e x bs) \<or> (\<exists>bs. p' = MakeDir k bs \<and> fetched e x bs))"
  using assms by (auto simp: fetch_step_def tick_def fetched_def misnamed_def split: if_splits option.splits)

lemma file_step_cases: "file_step m p1 c = (p', c') \<Longrightarrow> (p' = p1 \<and> (\<exists>u. m (cs_world c) = (Inr u, cs_world c')) \<or>
   p' = Release (Some (Hard LocalWrite)) \<and> (\<exists>x. m (cs_world c) = (Inl x, cs_world c'))) \<and> c' = c\<lparr>cs_world := cs_world c'\<rparr>"
  by (auto simp: file_step_def split: prod.splits sum.splits)

lemma file_step_same: "file_step m p1 c = (p', c') \<Longrightarrow> cs_next c' = cs_next c \<and> cs_files c' = cs_files c \<and>
   cs_torn c' = cs_torn c \<and> cs_survey c' = cs_survey c \<and> cs_stop c' = cs_stop c"
  by (auto simp: file_step_def split: prod.splits sum.splits)

lemma fetch_step_same: "fetch_step e x k a c = (p', c') \<Longrightarrow> cs_next c' = cs_next c \<and> cs_files c' = cs_files c \<and>
   cs_torn c' = cs_torn c \<and> cs_survey c' = cs_survey c \<and> cs_stop c' = cs_stop c"
  by (auto simp: fetch_step_def tick_def split: if_splits)

lemma pc_step_moves:
  assumes "pc_step e m root q p c = (p', c')" "pc_ok e root q c p"
  shows "files (cs_world c') = files (cs_world c) \<or>
    (\<exists>k. held p = Some k \<and> k < length q \<and> moves e root (q ! k) (files (cs_world c)) (files (cs_world c')))"
proof (cases p)
  case (Fetch k a)
  then show ?thesis using assms fetch_step_cases [of e "q ! k" k a c p' c'] by simp
next
  case (Classify k bs)
  then show ?thesis using assms by (auto dest: survey_later split: prod.splits)
next
  case (CreateTmp k bs)
  then show ?thesis using assms
    by (auto simp: moves_def tmp_of_def file_step_def create_file_def fs_op_def split: if_splits)
next
  case (WriteTmp k bs)
  then show ?thesis using assms
    by (auto simp: moves_def tmp_of_def file_step_def write_file_def fs_op_def split: if_splits)
next
  case (Rename k bs)
  then show ?thesis using assms
    by (auto simp: moves_def tmp_of_def file_step_def rename_file_def fs_op_def split: if_splits)
next
  case (MakeDir k bs)
  then show ?thesis using assms by (auto simp: file_step_def touch_def fs_op_def split: if_splits)
next
  case (SyncTmp k bs)
  then show ?thesis using assms by (auto simp: file_step_def touch_def fs_op_def split: if_splits)
qed (use assms in \<open>auto simp: tick_def split: if_splits\<close>)

lemma pc_step_survey: "pc_step e m root q p c = (p', c') \<Longrightarrow> later_survey (cs_survey c) (cs_survey c')"
proof (cases p)
  case (Classify k bs)
  assume "pc_step e m root q p c = (p', c')"
  with Classify show ?thesis by (auto dest: survey_later split: prod.splits)
qed (auto simp: tick_def later_survey_def dest: file_step_same fetch_step_same split: if_splits)

definition next_ok :: "nat \<Rightarrow> nat \<Rightarrow> pc \<Rightarrow> pc \<Rightarrow> nat \<Rightarrow> bool" where
  "next_ok n k p p' k' \<longleftrightarrow>
     p = Claim \<and> k' = Suc k \<and> (p' = CheckStop k \<and> k < n \<or> p' = Ended \<and> n \<le> k) \<or>
     (\<exists>r. p = Release r) \<and> \<not> working p' \<and> k' = k - 1 \<or>
     p \<noteq> Claim \<and> (\<forall>r. p \<noteq> Release r) \<and> k' = k \<and> (held p' = held p \<or> held p' = None) \<and> (working p' \<longrightarrow> working p)"

lemma fetch_step_held: "fetch_step e x k a c = (p', c') \<Longrightarrow> held p' = Some k \<or> held p' = None"
  by (auto simp: fetch_step_def split: if_splits option.splits)

lemma pc_step_next: "pc_step e m root q p c = (p', c') \<Longrightarrow> next_ok (length q) (cs_next c) p p' (cs_next c')"
proof (cases p)
  case (Fetch k a)
  assume s: "pc_step e m root q p c = (p', c')"
  with Fetch fetch_step_held [of e "q ! k" k a c p' c'] fetch_step_same [of e "q ! k" k a c p' c']
  show ?thesis by (auto simp: next_ok_def working_def)
qed (auto simp: tick_def next_ok_def working_def file_step_def split: if_splits prod.splits sum.splits option.splits)

section \<open>What the steps keep\<close>

lemma moves_at:
  assumes "moves e root x f g" "p \<noteq> tmp_of root x"
  shows "map_of g p = map_of f p \<or> (p = local_path root x \<and> copied e root g x)"
  using assms by (auto simp: moves_def copied_def fs_rename_def split: if_splits)

lemma copied_moves:
  assumes "queue_ok root q" "j < length q" "k < length q" "moves e root (q ! k) f g" "copied e root f (q ! j)"
  shows "copied e root g (q ! j)"
proof -
  have "local_path root (q ! j) \<noteq> tmp_of root (q ! k)" using queue_tmp_local [OF assms(1,2)] by metis
  then consider "map_of g (local_path root (q ! j)) = map_of f (local_path root (q ! j))"
    | "local_path root (q ! j) = local_path root (q ! k)" "copied e root g (q ! k)" using moves_at [OF assms(4)] by blast
  then show ?thesis
  proof cases
    case 1
    then show ?thesis using assms(5) by (simp add: copied_def)
  next
    case 2
    then show ?thesis using queue_distinct assms(1-3) by metis
  qed
qed

lemma torn_skipped_later: "later_survey s s' \<Longrightarrow> torn_skipped e s x \<Longrightarrow> torn_skipped e s' x"
  by (auto simp: later_survey_def torn_skipped_def)

lemma pc_ok_other:
  assumes q: "queue_ok root q" and k: "k < length q" "moves e root (q ! k) (files (cs_world c)) (files (cs_world c'))"
    and sv: "later_survey (cs_survey c) (cs_survey c')" and "held p \<noteq> Some k" "pc_ok e root q c p"
    and st: "cs_stop c \<noteq> None \<Longrightarrow> cs_stop c' \<noteq> None"
  shows "pc_ok e root q c' p"
proof -
  have t: "map_of (files (cs_world c')) (tmp_of root (q ! j)) = map_of (files (cs_world c)) (tmp_of root (q ! j))"
    if "j < length q" "j \<noteq> k" for j
  proof -
    have "tmp_of root (q ! j) \<noteq> tmp_of root (q ! k)" using queue_tmp [OF q that(1) k(1)] that(2) by simp
    moreover have "tmp_of root (q ! j) \<noteq> local_path root (q ! k)" using queue_tmp_local [OF q k(1)] .
    ultimately show ?thesis using moves_at [OF k(2)] by blast
  qed
  show ?thesis using assms(5,6) st copied_moves [OF q _ k] torn_skipped_later [OF sv] t
    by (cases "(e, root, q, c, p)" rule: pc_ok.cases) auto
qed

lemma pc_ok_same_files:
  assumes "files (cs_world c') = files (cs_world c)" "later_survey (cs_survey c) (cs_survey c')" "pc_ok e root q c p"
    and "cs_stop c \<noteq> None \<Longrightarrow> cs_stop c' \<noteq> None"
  shows "pc_ok e root q c' p"
  using assms torn_skipped_later by (cases "(e, root, q, c, p)" rule: pc_ok.cases) auto

lemma pc_ok_self:
  assumes s: "pc_step e m root q p c = (p', c')" and ok: "pc_ok e root q c p" and q: "queue_ok root q"
  shows "pc_ok e root q c' p'"
proof (cases p)
  case (AskRound k)
  then show ?thesis using s ok
    by (auto simp: attempts_for_def split: sum.splits option.splits)
next
  case (Fetch k a)
  then have f: "fetch_step e (q ! k) k a c = (p', c')" "a < attempts_for (q ! k)" "k < length q" using s ok by simp_all
  show ?thesis using fetch_step_cases [OF f(1,2)] f(3) by auto
next
  case (Classify k bs)
  obtain s' names w where sv: "survey_once e root (cs_survey c) (cs_world c) = (s', names, w)" by (metis prod_cases3)
  note l = survey_later [OF sv]
  show ?thesis using s ok l classify_failed_torn [of e "q ! k" names bs s'] unfolding Classify
    by (auto simp: sv split: option.splits)
next
  case (WriteTmp k bs)
  then show ?thesis using s ok by (auto simp: file_step_def write_file_def fs_op_def tmp_of_def split: if_splits)
next
  case (SyncTmp k bs)
  then show ?thesis using s ok by (auto simp: file_step_def touch_def fs_op_def split: if_splits)
next
  case (Rename k bs)
  then show ?thesis using s ok
    by (auto simp: file_step_def rename_file_def fs_op_def fs_rename_def tmp_of_def copied_def split: if_splits)
qed (use s ok in \<open>auto simp: file_step_def split: if_splits prod.splits sum.splits option.splits\<close>)

section \<open>The invariant of a phase\<close>

definition workers_apart :: "pc list \<Rightarrow> nat \<Rightarrow> bool" where
  "workers_apart ps n \<longleftrightarrow> length ps \<le> 2 \<and>
     (\<forall>i < length ps. \<forall>j < length ps. i \<noteq> j \<longrightarrow> working (ps ! i) \<longrightarrow> working (ps ! j) \<longrightarrow>
        (\<forall>k. held (ps ! i) = Some k \<longrightarrow> k < n \<and> held (ps ! j) \<noteq> Some k))"

lemma held_working: "held p = Some k \<Longrightarrow> working p"
  by (cases p) (auto simp: working_def)

lemma apart_step:
  assumes "workers_apart ps n" "i < length ps" "next_ok l n (ps ! i) p' n'"
  shows "workers_apart (ps[i := p']) n'"
proof -
  have two: "length ps \<le> 2" and ap: "\<And>a b k. a < length ps \<Longrightarrow> b < length ps \<Longrightarrow> a \<noteq> b \<Longrightarrow> working (ps ! a) \<Longrightarrow> working (ps ! b) \<Longrightarrow>
      held (ps ! a) = Some k \<Longrightarrow> k < n \<and> held (ps ! b) \<noteq> Some k"
    using assms(1) by (auto simp: workers_apart_def)
  have "k < n' \<and> held (ps[i := p'] ! b) \<noteq> Some k"
    if "a < length ps" "b < length ps" "a \<noteq> b" "working (ps[i := p'] ! a)" "working (ps[i := p'] ! b)"
      "held (ps[i := p'] ! a) = Some k" for a b k
  proof -
    consider (claim) "ps ! i = Claim" "n' = Suc n" "p' = CheckStop n \<or> p' = Ended"
      | (rel) "\<not> working p'"
      | (go) "n' = n" "held p' = held (ps ! i) \<or> held p' = None" "working p' \<longrightarrow> working (ps ! i)"
      using assms(3) by (auto simp: next_ok_def)
    then show ?thesis
    proof cases
      case claim
      then have w: "working (ps ! i)" "held (ps ! i) = None" "held p' = None \<or> held p' = Some n" by (auto simp: working_def)
      show ?thesis
      proof (cases "a = i")
        case True
        then have "k = n" "held (ps ! b) \<noteq> Some n" using that assms(2) w claim ap [of b i n] by auto
        then show ?thesis using claim(2) True that(2,3) by simp
      next
        case a: False
        then have h: "held (ps ! a) = Some k" "working (ps ! a)" using that by simp_all
        show ?thesis
        proof (cases "b = i")
          case True
          then show ?thesis using ap [of a i k] h that(1) a assms(2) w claim(2) by auto
        next
          case False
          then show ?thesis using ap [of a b k] h that claim(2) by simp
        qed
      qed
    next
      case rel
      then have "a \<noteq> i" "b \<noteq> i" using that assms(2) by (auto simp: nth_list_update split: if_splits)
      then show ?thesis using that(1-3) assms(2) two by linarith
    next
      case go
      have old: "held (ps ! x) = Some k" "working (ps ! x)" if "x < length ps" "held (ps[i := p'] ! x) = Some k" for x
        using that go(2) held_working by (cases "x = i", auto)+
      have "working (ps ! b)" using that(2,5) go(3) by (cases "b = i") simp_all
      then have "k < n" "held (ps ! b) \<noteq> Some k" using ap [OF that(1-3)] old [OF that(1,6)] by simp_all
      then show ?thesis using go(1) old(1) [OF that(2)] by blast
    qed
  qed
  then show ?thesis using two by (simp add: workers_apart_def)
qed

lemma pc_step_stop: "pc_step e m root q p c = (p', c') \<Longrightarrow> cs_stop c \<noteq> None \<Longrightarrow> cs_stop c' = cs_stop c"
  by (cases p) (auto simp: tick_def dest: file_step_same fetch_step_same split: if_splits prod.splits)

text \<open>Outside the temporary files of the queue a path keeps what it held, or is a listed file with fetched bytes.\<close>

definition kept :: "('x mirenv_scheme) \<Rightarrow> path \<Rightarrow> planned_file list \<Rightarrow> fs \<Rightarrow> fs \<Rightarrow> bool" where
  "kept e root q f0 f \<longleftrightarrow> (\<forall>p. (\<forall>x \<in> set q. p \<noteq> tmp_of root x) \<longrightarrow>
     map_of f p = map_of f0 p \<or> (\<exists>x \<in> set q. p = local_path root x \<and> copied e root f x))"

lemma kept_moves:
  assumes "kept e root q f0 f" "queue_ok root q" "k < length q" "moves e root (q ! k) f g"
  shows "kept e root q f0 g"
  unfolding kept_def
proof (intro allI impI)
  fix p
  assume p: "\<forall>x \<in> set q. p \<noteq> tmp_of root x"
  then have "p \<noteq> tmp_of root (q ! k)" using assms(3) by simp
  from moves_at [OF assms(4) this] p assms(1)
  consider "p = local_path root (q ! k)" "copied e root g (q ! k)" | "map_of g p = map_of f p" "map_of f p = map_of f0 p"
    | x where "x \<in> set q" "p = local_path root x" "copied e root f x" by (auto simp: kept_def)
  then show "map_of g p = map_of f0 p \<or> (\<exists>x \<in> set q. p = local_path root x \<and> copied e root g x)"
  proof cases
    case 1
    then show ?thesis using assms(3) nth_mem by blast
  next
    case 3
    then obtain j where "j < length q" "x = q ! j" by (auto simp: in_set_conv_nth)
    then show ?thesis using 3 copied_moves [OF assms(2) _ assms(3,4)] by blast
  qed simp
qed

definition copy_inv :: "('x mirenv_scheme) \<Rightarrow> path \<Rightarrow> planned_file list \<Rightarrow> fs \<Rightarrow> pc list \<times> copy_state \<Rightarrow> bool" where
  "copy_inv e root q f0 s \<longleftrightarrow> queue_ok root q \<and> workers_apart (fst s) (cs_next (snd s)) \<and>
     (\<forall>p \<in> set (fst s). pc_ok e root q (snd s) p) \<and> kept e root q f0 (files (cs_world (snd s)))"

lemma worker_stepE:
  assumes "i < length ps"
  obtains p' c' where "pc_step e m root q (ps ! i) c = (p', c')" "worker_step e m root q i (ps, c) = (ps[i := p'], c')"
  using assms by (cases "pc_step e m root q (ps ! i) c") (simp add: worker_step_def)

lemma worker_step_out: "\<not> i < length (fst s) \<Longrightarrow> worker_step e m root q i s = s"
  by (simp add: worker_step_def)

lemma copy_inv_step:
  assumes "copy_inv e root q f0 s"
  shows "copy_inv e root q f0 (worker_step e m root q i s)"
proof (cases "i < length (fst s)")
  case True
  obtain ps c where s: "s = (ps, c)" by (cases s)
  with True have i: "i < length ps" by simp
  obtain p' c' where st: "pc_step e m root q (ps ! i) c = (p', c')" "worker_step e m root q i s = (ps[i := p'], c')"
    using worker_stepE [OF i] unfolding s by metis
  have q: "queue_ok root q" and ap: "workers_apart ps (cs_next c)" and ok: "\<And>p. p \<in> set ps \<Longrightarrow> pc_ok e root q c p"
    and k: "kept e root q f0 (files (cs_world c))" using assms by (auto simp: copy_inv_def s)
  have oki: "pc_ok e root q c (ps ! i)" using ok i by simp
  note sv = pc_step_survey [OF st(1)] and mv = pc_step_moves [OF st(1) oki]
  have stop: "cs_stop c \<noteq> None \<Longrightarrow> cs_stop c' \<noteq> None" using pc_step_stop [OF st(1)] by simp
  have "pc_ok e root q c' (ps ! j)" if j: "j < length ps" "j \<noteq> i" for j
    using mv
  proof (elim disjE exE conjE)
    assume "files (cs_world c') = files (cs_world c)"
    from pc_ok_same_files [OF this sv ok [OF nth_mem [OF j(1)]] stop] show ?thesis .
  next
    fix n
    assume n: "held (ps ! i) = Some n" "n < length q" "moves e root (q ! n) (files (cs_world c)) (files (cs_world c'))"
    have "held (ps ! j) \<noteq> Some n"
    proof
      assume "held (ps ! j) = Some n"
      then show False using ap i j n(1) held_working unfolding workers_apart_def by metis
    qed
    from pc_ok_other [OF q n(2,3) sv this ok [OF nth_mem [OF j(1)]] stop] show ?thesis .
  qed
  moreover have "pc_ok e root q c' p'" by (rule pc_ok_self [OF st(1) oki q])
  ultimately have "\<forall>p \<in> set (ps[i := p']). pc_ok e root q c' p"
    using i by (auto simp: in_set_conv_nth nth_list_update)
  moreover have "kept e root q f0 (files (cs_world c'))" using mv k kept_moves [OF k q] by auto
  ultimately show ?thesis using q apart_step [OF ap i pc_step_next [OF st(1)]] st(2) by (simp add: copy_inv_def)
qed (use assms in \<open>simp add: worker_step_out\<close>)

section \<open>A phase without a stop\<close>

definition copy_quiet :: "pc list \<times> copy_state \<Rightarrow> bool" where
  "copy_quiet s \<longleftrightarrow> cs_stop (snd s) = None \<and> list_all (\<lambda>p. \<not> stopping p) (fst s)"

definition unsettled :: "pc list \<Rightarrow> nat" where
  "unsettled ps = length (filter uncounted ps)"

text \<open>Every claimed position is settled or in the hands of a worker, and the counters agree.\<close>

definition drain_inv :: "('x mirenv_scheme) \<Rightarrow> path \<Rightarrow> planned_file list \<Rightarrow> nat \<Rightarrow> pc list \<times> copy_state \<Rightarrow> bool" where
  "drain_inv e root q base s \<longleftrightarrow> (copy_quiet s \<longrightarrow>
     (\<forall>k < min (cs_next (snd s)) (length q). file_settled e root (snd s) (q ! k) \<or> (\<exists>p \<in> set (fst s). held p = Some k)) \<and>
     cs_files (snd s) + cs_torn (snd s) + unsettled (fst s) = base + min (cs_next (snd s)) (length q) \<and>
     (Ended \<in> set (fst s) \<longrightarrow> length q \<le> cs_next (snd s)))"

lemma unsettled_update:
  "i < length ps \<Longrightarrow> unsettled (ps[i := p]) + (if uncounted (ps ! i) then 1 else 0) = unsettled ps + (if uncounted p then 1 else 0)"
proof (induction ps arbitrary: i)
  case (Cons a ps)
  then show ?case by (cases i) (auto simp: unsettled_def)
qed simp

lemma pc_step_tally:
  assumes "pc_step e m root q p c = (p', c')" "\<not> stopping p'" "\<not> stopping p"
  shows "cs_files c' + cs_torn c' + (if uncounted p' then 1 else 0) + min (cs_next c) (length q) =
    cs_files c + cs_torn c + (if uncounted p then 1 else 0) + min (cs_next c') (length q)"
proof (cases p)
  case (Fetch k a)
  then have f: "fetch_step e (q ! k) k a c = (p', c')" using assms by simp
  have "uncounted p'" using f assms(2) by (auto simp: fetch_step_def split: if_splits option.splits)
  then show ?thesis using fetch_step_same [OF f] Fetch by simp
qed (use assms in \<open>auto simp: tick_def file_step_def split: if_splits prod.splits sum.splits option.splits\<close>)

lemma pc_step_drop:
  assumes "pc_step e m root q p c = (p', c')" "held p = Some k" "held p' \<noteq> Some k" "\<not> stopping p'" "pc_ok e root q c p"
  shows "file_settled e root c' (q ! k)"
proof (cases p)
  case (Fetch j a)
  then show ?thesis using assms fetch_step_held [of e "q ! j" j a c p' c']
    by (auto simp: fetch_step_def split: if_splits option.splits)
qed (use assms in \<open>auto simp: file_settled_def tick_def file_step_def split: if_splits prod.splits sum.splits option.splits\<close>)

lemma pc_step_stopping:
  assumes "pc_step e m root q p c = (p', c')" "stopping p" "pc_ok e root q c p"
  shows "stopping p' \<or> cs_stop c' \<noteq> None"
  using assms by (cases p) (auto split: option.splits if_splits)

lemma pc_step_end:
  assumes "pc_step e m root q p c = (p', c')" "\<not> stopping p"
  shows "cs_next c \<le> cs_next c' \<and> (p' = Ended \<longrightarrow> p = Ended \<or> length q \<le> cs_next c')"
proof (cases p)
  case (Fetch k a)
  then show ?thesis using assms fetch_step_same [of e "q ! k" k a c p' c'] fetch_step_held [of e "q ! k" k a c p' c']
    by (auto simp: fetch_step_def split: if_splits option.splits)
qed (use assms in \<open>auto simp: tick_def file_step_def split: if_splits prod.splits sum.splits option.splits\<close>)

lemma settled_step:
  assumes "queue_ok root q" "j < length q" "pc_step e m root q p c = (p', c')" "pc_ok e root q c p" "file_settled e root c (q ! j)"
  shows "file_settled e root c' (q ! j)"
  using assms(5) pc_step_moves [OF assms(3,4)] copied_moves [OF assms(1,2)] torn_skipped_later [OF pc_step_survey [OF assms(3)]]
  unfolding file_settled_def by metis

lemma drain_step:
  assumes inv: "copy_inv e root q f0 s" and d: "drain_inv e root q base s"
  shows "drain_inv e root q base (worker_step e m root q i s)"
proof (cases "i < length (fst s)")
  case True
  obtain ps c where s: "s = (ps, c)" by (cases s)
  with True have i: "i < length ps" by simp
  obtain p' c' where st: "pc_step e m root q (ps ! i) c = (p', c')" "worker_step e m root q i s = (ps[i := p'], c')"
    using worker_stepE [OF i] unfolding s by metis
  have q: "queue_ok root q" and oki: "pc_ok e root q c (ps ! i)" using inv i by (auto simp: copy_inv_def s)
  show ?thesis
    unfolding st(2) drain_inv_def fst_conv snd_conv
  proof (intro impI)
    assume qu: "copy_quiet (ps[i := p'], c')"
    then have p': "\<not> stopping p'" and others: "\<And>j. j < length ps \<Longrightarrow> j \<noteq> i \<Longrightarrow> \<not> stopping (ps ! j)"
      using i by (auto simp: copy_quiet_def list_all_length nth_list_update split: if_splits)
    have pi: "\<not> stopping (ps ! i)" using pc_step_stopping [OF st(1) _ oki] p' qu by (auto simp: copy_quiet_def)
    have "copy_quiet s" using qu pi others pc_step_stop [OF st(1)]
      by (auto simp: copy_quiet_def s list_all_length) (metis option.exhaust option.distinct(1))
    with d have held: "\<And>k. k < min (cs_next c) (length q) \<Longrightarrow> file_settled e root c (q ! k) \<or> (\<exists>p \<in> set ps. held p = Some k)"
      and tally: "cs_files c + cs_torn c + unsettled ps = base + min (cs_next c) (length q)"
      and ended: "Ended \<in> set ps \<longrightarrow> length q \<le> cs_next c" by (auto simp: drain_inv_def s)
    have "file_settled e root c' (q ! k) \<or> (\<exists>p \<in> set (ps[i := p']). held p = Some k)" if k: "k < min (cs_next c') (length q)" for k
    proof (cases "k < min (cs_next c) (length q)")
      case False
      then have "held p' = Some k" using pc_step_next [OF st(1)] k by (auto simp: next_ok_def)
      then show ?thesis using i set_update_memI by metis
    next
      case True
      then consider "file_settled e root c (q ! k)" | j where "j < length ps" "held (ps ! j) = Some k"
        using held by (metis in_set_conv_nth)
      then show ?thesis
      proof cases
        case 1
        then show ?thesis using settled_step [OF q _ st(1) oki] k by simp
      next
        case 2
        show ?thesis
        proof (cases "j = i \<and> held p' \<noteq> Some k")
          case True
          then show ?thesis using pc_step_drop [OF st(1) _ _ p' oki] 2 by simp
        next
          case False
          then have "held (ps[i := p'] ! j) = Some k" using 2 i by (cases "j = i") auto
          then show ?thesis using 2(1) by (metis length_list_update nth_mem)
        qed
      qed
    qed
    moreover have "cs_files c' + cs_torn c' + unsettled (ps[i := p']) = base + min (cs_next c') (length q)"
      using pc_step_tally [OF st(1) p' pi] unsettled_update [OF i, of p'] tally by linarith
    moreover have "length q \<le> cs_next c'" if "Ended \<in> set (ps[i := p'])"
    proof -
      have "Ended \<in> set ps \<or> p' = Ended" using that set_update_subset_insert [of ps i p'] by auto
      then show ?thesis using pc_step_end [OF st(1) pi] ended i nth_mem by (metis le_trans)
    qed
    ultimately show "(\<forall>k < min (cs_next c') (length q). file_settled e root c' (q ! k) \<or> (\<exists>p \<in> set (ps[i := p']). held p = Some k)) \<and>
        cs_files c' + cs_torn c' + unsettled (ps[i := p']) = base + min (cs_next c') (length q) \<and>
        (Ended \<in> set (ps[i := p']) \<longrightarrow> length q \<le> cs_next c')" by blast
  qed
qed (use d in \<open>simp add: worker_step_out\<close>)

section \<open>Every phase ends\<close>

fun rank :: "pc \<Rightarrow> nat" where
  "rank (CheckStop k) = 14"
| "rank (AskRound k) = 13"
| "rank (Fetch k a) = 12 - a"
| "rank (Classify k bs) = 10"
| "rank (MakeDir k bs) = 9"
| "rank (CreateTmp k bs) = 8"
| "rank (WriteTmp k bs) = 7"
| "rank (SyncTmp k bs) = 6"
| "rank (Rename k bs) = 5"
| "rank (CountFile k n) = 4"
| "rank (CountBytes k n) = 3"
| "rank (CountTorn k) = 4"
| "rank (CountTornBytes k) = 3"
| "rank (Release r) = 2"
| "rank (SetStop s) = 1"
| "rank _ = 0"

definition pc_cost :: "pc \<Rightarrow> nat" where
  "pc_cost p = rank p + (case p of Ended \<Rightarrow> 0 | SetStop s \<Rightarrow> 0 | _ \<Rightarrow> 15)"

definition copy_cost :: "planned_file list \<Rightarrow> pc list \<times> copy_state \<Rightarrow> nat" where
  "copy_cost q s = 15 * (length q - cs_next (snd s)) + sum_list (map pc_cost (fst s))"

definition worker_idle :: "nat \<Rightarrow> pc list \<times> copy_state \<Rightarrow> bool" where
  "worker_idle i s \<longleftrightarrow> length (fst s) \<le> i \<or> fst s ! i = Ended"

lemma sum_list_exchange:
  "i < length xs \<Longrightarrow> sum_list (map f (xs[i := y])) + f (xs ! i) = sum_list (map f xs) + (f y :: nat)"
proof (induction xs arbitrary: i)
  case (Cons a xs)
  then show ?case by (cases i) auto
qed simp

lemma attempts_le: "attempts_for x \<le> 2"
  by (simp add: attempts_for_def)

lemma pc_step_cost:
  assumes "pc_step e m root q p c = (p', c')" "pc_ok e root q c p" "p \<noteq> Ended"
  shows "15 * (length q - cs_next c') + pc_cost p' < 15 * (length q - cs_next c) + pc_cost p"
proof (cases p)
  case (Fetch k a)
  then have f: "fetch_step e (q ! k) k a c = (p', c')" "a < attempts_for (q ! k)" using assms by simp_all
  have a: "a < 2" using f(2) attempts_le [of "q ! k"] by simp
  show ?thesis using fetch_step_cases [OF f] fetch_step_same [OF f(1)] a Fetch by (auto simp: pc_cost_def)
qed (use assms in \<open>auto simp: pc_cost_def tick_def file_step_def split: if_splits prod.splits sum.splits option.splits\<close>)

interpretation copying: workers "worker_step e m root q" worker_idle "copy_inv e root q f0" "copy_cost q" for e m root q f0
proof
  show "copy_inv e root q f0 (worker_step e m root q i s)" if "copy_inv e root q f0 s" for s i
    using copy_inv_step that .
  show "worker_step e m root q i s = s" if "worker_idle i s" for i s
  proof (cases "i < length (fst s)")
    case True
    then show ?thesis using that by (cases s) (auto simp: worker_idle_def worker_step_def list_update_same_conv)
  qed (simp add: worker_step_out)
  show "copy_cost q (worker_step e m root q i s) < copy_cost q s" if "copy_inv e root q f0 s" "\<not> worker_idle i s" for s i
  proof -
    obtain ps c where s: "s = (ps, c)" by (cases s)
    have i: "i < length ps" "ps ! i \<noteq> Ended" using that(2) by (auto simp: worker_idle_def s)
    obtain p' c' where st: "pc_step e m root q (ps ! i) c = (p', c')" "worker_step e m root q i s = (ps[i := p'], c')"
      using worker_stepE [OF i(1)] unfolding s by metis
    have "pc_ok e root q c (ps ! i)" using that(1) i(1) by (simp add: copy_inv_def s)
    from pc_step_cost [OF st(1) this i(2)] sum_list_exchange [OF i(1), of pc_cost p']
    show ?thesis by (simp add: copy_cost_def st(2)) (simp add: s)
  qed
  show "worker_idle i s" if "worker_idle i (worker_step e m root q j s)" "i \<noteq> j" for i j s
    using that by (cases s) (auto simp: worker_idle_def worker_step_def Let_def split: prod.splits if_splits)
qed

section \<open>A phase\<close>

lemma phase_inv: "queue_ok root q \<Longrightarrow> copy_inv e root q (files (cs_world c)) (phase_start q c)"
  by (auto simp: copy_inv_def phase_start_def workers_apart_def kept_def MIRROR_CONNECTIONS_def)

lemma phase_drain: "drain_inv e root q (cs_files c + cs_torn c) (phase_start q c)"
  by (auto simp: drain_inv_def phase_start_def unsettled_def)

lemma run_induct:
  assumes "copy_inv e root q f0 s" "P s"
    and "\<And>s i. copy_inv e root q f0 s \<Longrightarrow> P s \<Longrightarrow> i < length (fst s) \<Longrightarrow> P (worker_step e m root q i s)"
  shows "P (run_workers e m root q sched s)"
  unfolding run_workers_def using assms(1,2)
proof (induction sched arbitrary: s)
  case (Cons i sched)
  have "P (worker_step e m root q i s)"
    using assms(3) [OF Cons.prems] Cons.prems(2) by (cases "i < length (fst s)") (simp_all add: worker_step_out)
  then show ?case using Cons.IH [OF copy_inv_step [OF Cons.prems(1)]] by simp
qed simp

lemma drain_run:
  assumes "copy_inv e root q f0 s" "drain_inv e root q base s"
  shows "drain_inv e root q base (run_workers e m root q sched s)"
  by (rule run_induct [where P = "drain_inv e root q base", OF assms]) (rule drain_step)

lemma phase_kept:
  "queue_ok root q \<Longrightarrow> kept e root q (files (cs_world c)) (files (cs_world (snd (copy_phase e m root q sched c))))"
  using copying.inv_run [OF phase_inv, of root q e c m sched]
  by (simp add: copy_phase_def Let_def run_workers_def copy_inv_def)

lemma run_length: "length (fst (run_workers e m root q sched s)) = length (fst s)"
  unfolding run_workers_def
proof (induction sched arbitrary: s)
  case (Cons i sched)
  have "length (fst (worker_step e m root q i s)) = length (fst s)"
    by (simp add: worker_step_def Let_def split: prod.splits)
  with Cons show ?case by simp
qed simp

lemma phase_drained:
  assumes q: "queue_ok root q" and "copy_phase e m root q sched c = (True, c')" "cs_stop c' = None"
  shows "(\<forall>x \<in> set q. file_settled e root c' x) \<and> cs_files c' + cs_torn c' = cs_files c + cs_torn c + length q"
proof -
  obtain s where s: "s = run_workers e m root q sched (phase_start q c)" by simp
  with assms(2) have fin: "all_ended s" "snd s = c'" by (auto simp: copy_phase_def Let_def)
  have d: "drain_inv e root q (cs_files c + cs_torn c) s" unfolding s by (rule drain_run [OF phase_inv [OF q] phase_drain])
  have ended: "\<forall>p \<in> set (fst s). p = Ended" using fin(1) by (simp add: all_ended_def list_all_iff)
  then have "copy_quiet s" using assms(3) fin(2) by (auto simp: copy_quiet_def list_all_iff)
  have un: "unsettled (fst s) = 0" using ended by (auto simp: unsettled_def filter_empty_conv)
  have len: "length q \<le> cs_next c'"
  proof (cases "q = []")
    case False
    then have "fst s \<noteq> []" using run_length [of e m root q sched "phase_start q c"] s
      by (cases q) (auto simp: phase_start_def MIRROR_CONNECTIONS_def)
    then have "Ended \<in> set (fst s)" using ended by (metis list.set_sel(1))
    then show ?thesis using d \<open>copy_quiet s\<close> fin(2) by (simp add: drain_inv_def)
  qed simp
  have "\<not> (\<exists>p \<in> set (fst s). held p = Some k)" for k using ended by auto
  then show ?thesis using d \<open>copy_quiet s\<close> un len fin(2) by (auto simp: drain_inv_def in_set_conv_nth)
qed

lemma phase_ends:
  assumes "queue_ok root q" "list_all (\<lambda>seg. set seg = {..<MIRROR_CONNECTIONS}) segs" "15 * (length q + 2) \<le> length segs"
  shows "fst (copy_phase e m root q (concat segs) c)"
proof -
  let ?s = "run_workers e m root q (concat segs) (phase_start q c)"
  have cost: "copy_cost q (phase_start q c) \<le> length segs"
    using assms(3) by (auto simp: copy_cost_def phase_start_def MIRROR_CONNECTIONS_def pc_cost_def sum_list_replicate)
  have "\<forall>i < MIRROR_CONNECTIONS. worker_idle i ?s"
    unfolding run_workers_def by (rule copying.run_ends [OF phase_inv [OF assms(1)] assms(2) cost])
  moreover have "length (fst ?s) \<le> MIRROR_CONNECTIONS" unfolding run_length by (simp add: phase_start_def)
  ultimately have "\<forall>i < length (fst ?s). fst ?s ! i = Ended"
    unfolding worker_idle_def by (meson less_le_trans not_less)
  then have "all_ended ?s" by (simp add: all_ended_def list_all_length)
  then show ?thesis by (simp add: copy_phase_def Let_def)
qed

end
