(* ===== verification/Mirror_Sync.thy ===== *)
theory Mirror_Sync
  imports Mirror "HOL-Library.Product_Lexorder"
begin

text \<open>
  \<open>mirror.rs\<close>, one round from the listing to its records (\<open>sync_once\<close>): what is present and verified,
  what the mirror holds beyond the listing, the estimate before the first byte, the copy, the closure of
  the snapshots, and the two record files. A record of a round is written through a temporary file; the
  record of a completed round is what the reclaim of the stage relies on.
\<close>

section \<open>Records of a round\<close>

datatype progress_note = NoteStopped round_end | NoteRefused nat nat nat | NoteFailed hard_class

definition MIRROR_PROGRESS_FILE :: string where "MIRROR_PROGRESS_FILE = ''mirror-progress.json''"
definition MIRROR_PROGRESS_VERSION :: nat where "MIRROR_PROGRESS_VERSION = 1"

record mirror_progress =
  mp_version :: nat
  mp_mirror_of :: string
  mp_round_finished_at_unix :: nat
  mp_complete :: bool
  mp_outcome :: string
  mp_outcome_note :: "progress_note option"
  mp_remote_total_bytes :: nat
  mp_mirror_bytes :: nat
  mp_remote_files :: nat
  mp_mirror_files :: nat
  mp_orphan_files :: "nat option"
  mp_orphan_bytes :: "nat option"
  mp_torn_files :: nat
  mp_torn_bytes :: nat
  mp_downloaded_bytes :: "nat option"
  mp_downloaded_files :: "nat option"

record syncenv = mirenv +
  mirror_codec :: "mirror_state state_codec"
  progress_codec :: "mirror_progress state_codec"

record sync_request =
  sr_mirror_of :: string
  sr_gib_valid :: bool
  sr_data_root :: path
  sr_state_dir :: path
  sr_now_unix :: nat
  sr_min_free_bytes :: nat

record sync_report =
  rp_mirror_of :: string
  rp_remote_files :: nat
  rp_remote_total_bytes :: nat
  rp_present_files :: nat
  rp_present_bytes :: nat
  rp_downloaded_files :: nat
  rp_downloaded_bytes :: nat
  rp_missing_bytes_remaining :: nat
  rp_downloaded_bytes_on_disk :: "nat option"
  rp_downloaded_files_on_disk :: "nat option"
  rp_snapshots_remote :: nat
  rp_covered_snapshots :: nat
  rp_orphan_files :: "nat option"
  rp_orphan_bytes :: "nat option"
  rp_torn_files :: nat
  rp_torn_bytes :: nat

datatype sync_outcome = Completed | RefusedSpace nat nat nat nat | Stopped round_end

text \<open>\<open>Killed\<close>: the process died while the workers ran.\<close>

datatype sync_error = MirrorUsage | HardFailed hard_class | NotFinished | Killed

datatype progress_outcome = ProgressComplete | ProgressStopped round_end | ProgressRefused nat nat nat | ProgressFailed hard_class

definition mirror_progress_path :: "path \<Rightarrow> path" where
  "mirror_progress_path state_dir = state_dir @ [MIRROR_PROGRESS_FILE]"

fun outcome_fields :: "progress_outcome \<Rightarrow> bool \<times> string \<times> progress_note option" where
  "outcome_fields ProgressComplete = (True, ''complete'', None)"
| "outcome_fields (ProgressStopped x) = (False, ''stopped'', Some (NoteStopped x))"
| "outcome_fields (ProgressRefused missing headroom free) = (False, ''refused'', Some (NoteRefused missing headroom free))"
| "outcome_fields (ProgressFailed h) = (False, ''failed'', Some (NoteFailed h))"

definition progress_of :: "sync_request \<Rightarrow> sync_report \<Rightarrow> progress_outcome \<Rightarrow> mirror_progress" where
  "progress_of rq rep outcome =
     (let (complete, word, note) = outcome_fields outcome in
      \<lparr>mp_version = MIRROR_PROGRESS_VERSION, mp_mirror_of = sr_mirror_of rq, mp_round_finished_at_unix = sr_now_unix rq,
       mp_complete = complete, mp_outcome = word, mp_outcome_note = note,
       mp_remote_total_bytes = rp_remote_total_bytes rep, mp_mirror_bytes = rp_present_bytes rep + rp_downloaded_bytes rep,
       mp_remote_files = rp_remote_files rep, mp_mirror_files = rp_present_files rep + rp_downloaded_files rep,
       mp_orphan_files = rp_orphan_files rep, mp_orphan_bytes = rp_orphan_bytes rep,
       mp_torn_files = rp_torn_files rep, mp_torn_bytes = rp_torn_bytes rep,
       mp_downloaded_bytes = rp_downloaded_bytes_on_disk rep, mp_downloaded_files = rp_downloaded_files_on_disk rep\<rparr>)"

definition write_progress ::
  "('x syncenv_scheme) \<Rightarrow> sync_request \<Rightarrow> sync_report \<Rightarrow> progress_outcome \<Rightarrow> (world, sync_error, unit) io" where
  "write_progress e rq rep outcome =
     io_map_err (\<lambda>_. NotFinished)
       (save_state e (progress_codec e) (mirror_progress_path (sr_state_dir rq))
         (sr_state_dir rq @ [''.'' @ MIRROR_PROGRESS_FILE @ ''.tmp'']) (progress_of rq rep outcome))"

definition load_progress ::
  "('x syncenv_scheme) \<Rightarrow> path \<Rightarrow> (world, state_error, mirror_progress state_read) io" where
  "load_progress e state_dir = load_state e (progress_codec e) mp_version MIRROR_PROGRESS_VERSION (mirror_progress_path state_dir)"

section \<open>The listing\<close>

definition list_kind :: "('x mirenv_scheme) \<Rightarrow> file_kind \<Rightarrow> (world, sync_error, planned_file list) io" where
  "list_kind e k w =
     ((case remote_list e (clock w) k of
         None \<Rightarrow> Inl NotFinished
       | Some listed \<Rightarrow> Inr (map (\<lambda>(h, n). \<lparr>pf_kind = k, pf_hex = h, pf_size = n\<rparr>) listed)),
      w\<lparr>clock := Suc (clock w)\<rparr>)"

definition LISTED_KINDS :: "file_kind list" where
  "LISTED_KINDS = [ConfigFile, KeyFile, IndexFile, SnapshotFile, PackFile]"

definition list_destination :: "('x mirenv_scheme) \<Rightarrow> (world, sync_error, planned_file list) io" where
  "list_destination e = io_bind (io_traverse (list_kind e) LISTED_KINDS) (\<lambda>xss. io_return (concat xss))"

definition snapshots_listed :: "planned_file list \<Rightarrow> nat" where
  "snapshots_listed planned = length (remdups (map pf_hex (filter (\<lambda>x. pf_kind x = SnapshotFile) planned)))"

section \<open>Present and verified, or missing\<close>

definition read_config :: "('x mirenv_scheme) \<Rightarrow> planned_file list \<Rightarrow> (world, sync_error, bytes option) io" where
  "read_config e planned w =
     (case find (\<lambda>x. pf_kind x = ConfigFile) planned of
        None \<Rightarrow> (Inr None, w)
      | Some x \<Rightarrow>
          ((case remote_read e (clock w) ConfigFile (pf_hex x) of None \<Rightarrow> Inl NotFinished | Some bs \<Rightarrow> Inr (Some bs)),
           w\<lparr>clock := Suc (clock w)\<rparr>))"

definition check_present ::
  "('x mirenv_scheme) \<Rightarrow> path \<Rightarrow> bytes option \<Rightarrow> planned_file \<Rightarrow> (world, sync_error, bool) io" where
  "check_present e root remote_config x w =
     (case read_file e () (local_path root x) w of
        (Inl _, w') \<Rightarrow> (Inr False, w')
      | (Inr bs, w') \<Rightarrow>
          (Inr (if pf_kind x = ConfigFile then remote_config = Some bs else hex (sha256 e bs) = pf_hex x), w'))"

definition planned_sizes :: "planned_file list \<Rightarrow> nat" where
  "planned_sizes xs = sum_list (map pf_size xs)"

section \<open>What lies in the mirror\<close>

record mirror_walk =
  mw_files :: nat
  mw_bytes :: nat
  mw_tmp_files :: nat
  mw_tmp_bytes :: nat
  mw_listed_files :: nat
  mw_listed_bytes :: nat

definition is_torn_write_tmp :: "string \<Rightarrow> bool" where
  "is_torn_write_tmp name \<longleftrightarrow> take 1 name = ''.'' \<and> ends_with name ''.tmp''"

definition walk_entry :: "path list \<Rightarrow> path \<times> bytes \<Rightarrow> mirror_walk \<Rightarrow> mirror_walk" where
  "walk_entry listed entry out =
     (let (p, c) = entry; len = length c in
      if p \<in> set listed then out\<lparr>mw_listed_files := mw_listed_files out + 1, mw_listed_bytes := mw_listed_bytes out + len\<rparr>
      else if is_torn_write_tmp (last p) then out\<lparr>mw_tmp_files := mw_tmp_files out + 1, mw_tmp_bytes := mw_tmp_bytes out + len\<rparr>
      else out\<lparr>mw_files := mw_files out + 1, mw_bytes := mw_bytes out + len\<rparr>)"

definition empty_walk :: mirror_walk where
  "empty_walk = \<lparr>mw_files = 0, mw_bytes = 0, mw_tmp_files = 0, mw_tmp_bytes = 0, mw_listed_files = 0, mw_listed_bytes = 0\<rparr>"

definition walk_of :: "path \<Rightarrow> path list \<Rightarrow> fs \<Rightarrow> mirror_walk" where
  "walk_of root listed f = fold (walk_entry listed)
     (filter (\<lambda>(p, c). strict_prefix root p) (AList.clearjunk f)) empty_walk"

definition count_unlisted :: "('x mirenv_scheme) \<Rightarrow> path \<Rightarrow> path list \<Rightarrow> (world, sync_error, mirror_walk option) io" where
  "count_unlisted e root listed w =
     (Inr (if fault e (clock w) then None else Some (walk_of root listed (files w))), w\<lparr>clock := Suc (clock w)\<rparr>)"

section \<open>The closure of the snapshots\<close>

definition closure_of :: "('x mirenv_scheme) \<Rightarrow> path \<Rightarrow> fs \<Rightarrow> string list" where
  "closure_of e root f =
     (case index_set_of e root f of
        None \<Rightarrow> []
      | Some named \<Rightarrow>
          (let listed = map last (repo_files root PackFile f) in
           if list_all (\<lambda>h. h \<in> set listed) named then remdups (map last (repo_files root SnapshotFile f)) else []))"

definition closure_snapshot_ids :: "('x mirenv_scheme) \<Rightarrow> path \<Rightarrow> (world, sync_error, string list) io" where
  "closure_snapshot_ids e root w =
     (Inr (if fault e (clock w) then [] else closure_of e root (files w)), w\<lparr>clock := Suc (clock w)\<rparr>)"

section \<open>The round\<close>

definition ask_free :: "('x mirenv_scheme) \<Rightarrow> (world, sync_error, hard_class + nat) io" where
  "ask_free e w = (Inr (free_bytes e (clock w)), w\<lparr>clock := Suc (clock w)\<rparr>)"

definition file_kind_rank :: "file_kind \<Rightarrow> nat" where
  "file_kind_rank k = (case k of ConfigFile \<Rightarrow> 0 | KeyFile \<Rightarrow> 1 | IndexFile \<Rightarrow> 2 | SnapshotFile \<Rightarrow> 3 | PackFile \<Rightarrow> 4)"

definition queue_of :: "planned_file list \<Rightarrow> bool list \<Rightarrow> planned_file list" where
  "queue_of planned present =
     sort_key (\<lambda>x. (file_kind_rank (pf_kind x), pf_size x)) (map fst (filter (\<lambda>(x, p). \<not> p) (zip planned present)))"

definition report_before ::
  "sync_request \<Rightarrow> planned_file list \<Rightarrow> bool list \<Rightarrow> mirror_walk option \<Rightarrow> sync_report" where
  "report_before rq planned present walk =
     (let here = map fst (filter snd (zip planned present)) in
      \<lparr>rp_mirror_of = sr_mirror_of rq, rp_remote_files = length planned, rp_remote_total_bytes = planned_sizes planned,
       rp_present_files = length here, rp_present_bytes = planned_sizes here, rp_downloaded_files = 0, rp_downloaded_bytes = 0,
       rp_missing_bytes_remaining = planned_sizes (map fst (filter (\<lambda>(x, p). \<not> p) (zip planned present))),
       rp_downloaded_bytes_on_disk = map_option mw_listed_bytes walk, rp_downloaded_files_on_disk = map_option mw_listed_files walk,
       rp_snapshots_remote = snapshots_listed planned, rp_covered_snapshots = 0,
       rp_orphan_files = map_option mw_files walk, rp_orphan_bytes = map_option mw_bytes walk,
       rp_torn_files = 0, rp_torn_bytes = 0\<rparr>)"

definition final_walk ::
  "('x mirenv_scheme) \<Rightarrow> path \<Rightarrow> path list \<Rightarrow> mirror_walk option \<Rightarrow> copy_state \<Rightarrow> (world, sync_error, mirror_walk option) io" where
  "final_walk e root listed walk c =
     (if walk \<noteq> None \<and> cs_files c = 0 then io_return walk else count_unlisted e root listed)"

definition complete_round ::
  "('x syncenv_scheme) \<Rightarrow> sync_request \<Rightarrow> path \<Rightarrow> sync_report \<Rightarrow> (world, sync_error, sync_report \<times> sync_outcome) io" where
  "complete_round e rq root rep =
     io_bind (closure_snapshot_ids e root) (\<lambda>covered.
     io_bind (io_map_err (\<lambda>_. NotFinished) (save_mirror_state e (mirror_codec e) (sr_state_dir rq)
         \<lparr>ms_version = MIRROR_STATE_VERSION, ms_finished_at_unix = sr_now_unix rq, ms_mirror_of = sr_mirror_of rq,
          ms_closure_complete = covered, ms_snapshots_on_remote = rp_snapshots_remote rep,
          ms_remote_total_bytes = rp_remote_total_bytes rep\<rparr>)) (\<lambda>_.
     let rep' = rep\<lparr>rp_missing_bytes_remaining := 0, rp_covered_snapshots := length covered\<rparr> in
     io_bind (write_progress e rq rep' ProgressComplete) (\<lambda>_. io_return (rep', Completed))))"

definition after_copy ::
  "('x syncenv_scheme) \<Rightarrow> sync_request \<Rightarrow> path \<Rightarrow> nat \<Rightarrow> sync_report \<Rightarrow> copy_state \<Rightarrow> mirror_walk option \<Rightarrow>
     (world, sync_error, sync_report \<times> sync_outcome) io" where
  "after_copy e rq root queued rep0 c disk =
     (let rep = rep0\<lparr>rp_downloaded_files := cs_files c, rp_downloaded_bytes := cs_bytes c,
            rp_missing_bytes_remaining := rp_missing_bytes_remaining rep0 - cs_bytes c,
            rp_downloaded_bytes_on_disk := map_option mw_listed_bytes disk,
            rp_downloaded_files_on_disk := map_option mw_listed_files disk,
            rp_torn_files := cs_torn c, rp_torn_bytes := cs_torn_bytes c\<rparr> in
      case cs_stop c of
        Some (Hard h) \<Rightarrow> io_bind (write_progress e rq rep (ProgressFailed h)) (\<lambda>_. io_fail (HardFailed h))
      | Some (Pause x) \<Rightarrow> io_bind (write_progress e rq rep (ProgressStopped x)) (\<lambda>_. io_return (rep, Stopped x))
      | None \<Rightarrow>
          if cs_files c + cs_torn c \<noteq> queued then io_fail NotFinished
          else complete_round e rq root rep)"

definition copy_round ::
  "('x syncenv_scheme) \<Rightarrow> sync_request \<Rightarrow> path \<Rightarrow> planned_file list \<Rightarrow> planned_file list \<Rightarrow> sync_report \<Rightarrow> mirror_walk option \<Rightarrow>
     nat list \<Rightarrow> nat list \<Rightarrow> (world, sync_error, sync_report \<times> sync_outcome) io" where
  "copy_round e rq root planned queue rep0 walk sched1 sched2 w =
     (let (joined, c) = copy_all e (sr_min_free_bytes rq) root queue sched1 sched2 w in
      if \<not> joined then (Inl Killed, cs_world c)
      else io_bind (final_walk e root (map (local_path root) planned) walk c)
             (after_copy e rq root (length queue) rep0 c) (cs_world c))"

definition start_round ::
  "('x syncenv_scheme) \<Rightarrow> sync_request \<Rightarrow> path \<Rightarrow> planned_file list \<Rightarrow> bool list \<Rightarrow> nat list \<Rightarrow> nat list \<Rightarrow>
     (world, sync_error, sync_report \<times> sync_outcome) io" where
  "start_round e rq root planned present sched1 sched2 =
     io_bind (count_unlisted e root (map (local_path root) planned)) (\<lambda>walk.
     io_bind (ask_free e) (\<lambda>free.
     let rep0 = report_before rq planned present walk; missing = rp_missing_bytes_remaining rep0;
         needed = min u64_max (missing + sr_min_free_bytes rq) in
     case free of
       Inl h \<Rightarrow> io_bind (write_progress e rq rep0 (ProgressFailed h)) (\<lambda>_. io_fail (HardFailed h))
     | Inr free_now \<Rightarrow>
         if free_now < needed then
           io_bind (write_progress e rq rep0 (ProgressRefused missing (sr_min_free_bytes rq) free_now))
             (\<lambda>_. io_return (rep0, RefusedSpace needed missing (sr_min_free_bytes rq) free_now))
         else copy_round e rq root planned (queue_of planned present) rep0 walk sched1 sched2))"

definition sync_once ::
  "('x syncenv_scheme) \<Rightarrow> sync_request \<Rightarrow> nat list \<Rightarrow> nat list \<Rightarrow> (world, sync_error, sync_report \<times> sync_outcome) io" where
  "sync_once e rq sched1 sched2 =
     (if trim (sr_mirror_of rq) = [] \<or> \<not> sr_gib_valid rq then io_fail MirrorUsage
      else
        (let root = mirror_dir (sr_data_root rq) (sr_mirror_of rq) in
         io_bind (list_destination e) (\<lambda>planned.
         let configs = length (filter (\<lambda>x. pf_kind x = ConfigFile) planned) in
         if 1 < configs then io_fail NotFinished
         else if configs = 0 then io_fail MirrorUsage
         else
           io_bind (touch e NotFinished) (\<lambda>_.
           io_bind (read_config e planned) (\<lambda>remote_config.
           io_bind (io_traverse (check_present e root remote_config) planned) (\<lambda>present.
           start_round e rq root planned present sched1 sched2))))))"

end
