(* ===== verification/Mirror_Round.thy ===== *)
theory Mirror_Round
  imports Mirror_Copy Mirror_Sync File_Relation State_Files_Spec
begin

text \<open>
  From the phases to the whole round: what the files of the mirror hold after any round, what a drained
  copy has settled, and the steps around it, which only read or write the two record files.
\<close>

section \<open>What a round may change below the mirror\<close>

definition mirror_kept :: "('x mirenv_scheme) \<Rightarrow> path \<Rightarrow> fs \<Rightarrow> fs \<Rightarrow> bool" where
  "mirror_kept e root f g \<longleftrightarrow> (\<forall>p. strict_prefix root p \<longrightarrow> \<not> is_torn_write_tmp (last p) \<longrightarrow>
     map_of g p = map_of f p \<or> (\<exists>x. p = local_path root x \<and> copied e root g x))"

interpretation mirror_rel: file_relation "mirror_kept e root" for e root
proof
  show "mirror_kept e root f h" if "mirror_kept e root f g" "mirror_kept e root g h" for f g h
    unfolding mirror_kept_def
  proof (intro allI impI)
    fix p
    assume p: "strict_prefix root p" "\<not> is_torn_write_tmp (last p)"
    then have "map_of g p = map_of f p \<or> (\<exists>x. p = local_path root x \<and> copied e root g x)"
      "map_of h p = map_of g p \<or> (\<exists>x. p = local_path root x \<and> copied e root h x)" using that by (auto simp: mirror_kept_def)
    then show "map_of h p = map_of f p \<or> (\<exists>x. p = local_path root x \<and> copied e root h x)"
      unfolding copied_def by metis
  qed
qed (simp add: mirror_kept_def)

text \<open>Nothing outside a set of paths changes.\<close>

definition untouched :: "path set \<Rightarrow> fs \<Rightarrow> fs \<Rightarrow> bool" where
  "untouched P f g \<longleftrightarrow> (\<forall>p. p \<notin> P \<longrightarrow> map_of g p = map_of f p)"

interpretation untouched: file_relation "untouched P" for P
  by unfold_locales (simp_all add: untouched_def)

lemma untouched_ops:
  "p \<in> P \<Longrightarrow> obeys (untouched P) (create_file e x p)" "p \<in> P \<Longrightarrow> obeys (untouched P) (write_file e x p c)"
  "p \<in> P \<Longrightarrow> q \<in> P \<Longrightarrow> obeys (untouched P) (rename_file e x p q)"
  by (auto simp: obeys_def untouched_def file_simps split: option.splits)

lemma untouched_save:
  assumes "p \<in> P" "tmp \<in> P"
  shows "obeys (untouched P) (save_state e c p tmp st)"
  unfolding save_state_def write_synced_def using assms
  by (auto intro!: untouched.bind untouched.simple untouched_ops split: option.splits)

lemma mirror_kept_untouched: "untouched P f g \<Longrightarrow> (\<And>p. p \<in> P \<Longrightarrow> \<not> strict_prefix root p) \<Longrightarrow> mirror_kept e root f g"
  by (auto simp: untouched_def mirror_kept_def)

lemma obeys_mono: "obeys R m \<Longrightarrow> (\<And>f g. R f g \<Longrightarrow> S f g) \<Longrightarrow> obeys S m"
  by (simp add: obeys_def)

section \<open>The copy, both phases\<close>

lemma tmp_is_torn: "is_torn_write_tmp (last (tmp_of root x))"
  by (simp add: tmp_of_def tmp_path_def is_torn_write_tmp_def ends_with_def suffix_def)

lemma kept_mirror: "kept e root q f g \<Longrightarrow> mirror_kept e root f g"
  unfolding kept_def mirror_kept_def using tmp_is_torn by metis

lemma queue_ok_subset:
  assumes "queue_ok root q" "set q' \<subseteq> set q" "distinct q'"
  shows "queue_ok root q'"
  using assms by (auto simp: queue_ok_def distinct_map intro: inj_on_subset)

lemma queue_ok_distinct: "queue_ok root q \<Longrightarrow> distinct q"
  by (auto simp: queue_ok_def distinct_map)

lemma queue_ok_phases:
  assumes "queue_ok root q"
  shows "queue_ok root (takeWhile P q)" "queue_ok root (dropWhile P q)"
  using assms queue_ok_distinct [OF assms] distinct_takeWhile distinct_dropWhile
  by (auto intro!: queue_ok_subset [OF assms] dest: set_takeWhileD set_dropWhileD)

lemma copy_all_cases:
  obtains "copy_all e m root q s1 s2 w = copy_phase e m root (takeWhile is_meta q) s1 (copy_start w)"
      "\<not> (fst (copy_all e m root q s1 s2 w) \<and> cs_stop (snd (copy_all e m root q s1 s2 w)) = None)"
  | c where "copy_phase e m root (takeWhile is_meta q) s1 (copy_start w) = (True, c)" "cs_stop c = None"
      "copy_all e m root q s1 s2 w = copy_phase e m root (dropWhile is_meta q) s2 c"
proof (cases "copy_phase e m root (takeWhile is_meta q) s1 (copy_start w)")
  case (Pair joined c)
  show ?thesis
  proof (cases "joined \<and> cs_stop c = None")
    case True
    then show ?thesis using Pair that(2) [of c] by (simp add: copy_all_def)
  next
    case False
    then have "copy_all e m root q s1 s2 w = (joined, c)" by (auto simp: copy_all_def Pair)
    then show ?thesis using that(1) Pair False by simp
  qed
qed

lemma copy_all_kept:
  assumes "queue_ok root q"
  shows "mirror_kept e root (files w) (files (cs_world (snd (copy_all e m root q s1 s2 w))))"
proof -
  note k = phase_kept [OF queue_ok_phases(1) [OF assms, of is_meta], of e "copy_start w" m s1]
  show ?thesis
  proof (cases rule: copy_all_cases [of e m root q s1 s2 w])
    case 1
    then show ?thesis using kept_mirror [OF k] by (simp add: copy_start_def)
  next
    case (2 c)
    have "mirror_kept e root (files w) (files (cs_world c))" using kept_mirror [OF k] 2(1) by (simp add: copy_start_def)
    then show ?thesis using mirror_rel.trans kept_mirror [OF phase_kept [OF queue_ok_phases(2) [OF assms]]] 2(3) by metis
  qed
qed

section \<open>The index files during the copy of packs\<close>

definition indexed :: "('x mirenv_scheme) \<Rightarrow> path \<Rightarrow> fs \<Rightarrow> string \<Rightarrow> bool" where
  "indexed e root f h \<longleftrightarrow> (\<exists>p bs ps ds. map_of f p = Some bs \<and> strict_prefix (root @ [kind_name IndexFile]) p \<and>
     valid_id (last p) \<and> index_names e bs = Some (ps, ds) \<and> h \<in> set ps \<union> set ds)"

lemma repo_files_iff: "p \<in> set (repo_files root k f) \<longleftrightarrow>
    strict_prefix (root @ [kind_name k]) p \<and> valid_id (last p) \<and> map_of f p \<noteq> None"
  by (auto simp: repo_files_def map_of_eq_None_iff)

lemma those_Some: "those xs = Some ys \<Longrightarrow> xs = map Some ys"
  by (induction xs arbitrary: ys) (auto split: option.splits)

lemma index_set_indexed:
  assumes "index_set_of e root f = Some names"
  shows "h \<in> set names \<longleftrightarrow> indexed e root f h"
proof -
  define named where "named p = (case index_names e (the (map_of f p)) of None \<Rightarrow> None | Some (ps, ds) \<Rightarrow> Some (ps @ ds))" for p
  obtain xss where x: "map named (repo_files root IndexFile f) = map Some xss" "names = concat xss"
    using assms unfolding index_set_of_def named_def [symmetric] by (auto split: option.splits if_splits dest: those_Some)
  have l: "length xss = length (repo_files root IndexFile f)" using arg_cong [OF x(1), of length] by simp
  have nth: "named (repo_files root IndexFile f ! i) = Some (xss ! i)" if "i < length xss" for i
    using arg_cong [OF x(1), of "\<lambda>ys. ys ! i"] that l by simp
  have "h \<in> set names \<longleftrightarrow> (\<exists>p \<in> set (repo_files root IndexFile f). \<exists>xs. named p = Some xs \<and> h \<in> set xs)"
    unfolding x(2) using nth l by (fastforce simp: in_set_conv_nth)
  also have "\<dots> \<longleftrightarrow> indexed e root f h"
  proof
    assume "\<exists>p \<in> set (repo_files root IndexFile f). \<exists>xs. named p = Some xs \<and> h \<in> set xs"
    then show "indexed e root f h"
      by (fastforce simp: repo_files_iff indexed_def named_def split: option.splits)
  next
    assume "indexed e root f h"
    then obtain p bs ps ds where p: "map_of f p = Some bs" "strict_prefix (root @ [kind_name IndexFile]) p" "valid_id (last p)"
      "index_names e bs = Some (ps, ds)" "h \<in> set ps \<union> set ds" by (auto simp: indexed_def)
    then have "p \<in> set (repo_files root IndexFile f)" "named p = Some (ps @ ds)" by (simp_all add: repo_files_iff named_def)
    then show "\<exists>p \<in> set (repo_files root IndexFile f). \<exists>xs. named p = Some xs \<and> h \<in> set xs"
      using p(5) by (intro bexI [of _ p] exI [of _ "ps @ ds"]) auto
  qed
  finally show ?thesis .
qed

lemma filter_keys: "\<not> P p \<Longrightarrow> filter P (map fst (AList.update p c f)) = filter P (map fst f)"
  "\<not> P p \<Longrightarrow> filter P (map fst (AList.delete p f)) = filter P (map fst f)"
  by (induction f) (auto simp: AList.delete_eq)

lemma index_set_of_moves:
  assumes "moves e root x f g" "\<not> is_meta x" "pf_kind x = ConfigFile \<or> valid_id (pf_hex x)"
  shows "index_set_of e root g = index_set_of e root f"
proof -
  let ?P = "\<lambda>p. strict_prefix (root @ [kind_name IndexFile]) p \<and> valid_id (last p)"
  have t: "\<not> ?P (tmp_of root x)" using valid_id_head [of "CHR ''.''" "last (local_path root x) @ ''.tmp''"]
    by (auto simp: tmp_of_def tmp_path_def)
  have l: "\<not> ?P (local_path root x)" using assms(2)
    by (auto simp: is_meta_def local_path_def strict_prefix_def prefix_def split: file_kind.splits)
  have c: "root @ [''config''] \<noteq> tmp_of root x" "root @ [''config''] \<noteq> local_path root x" using assms(2)
    by (auto simp: is_meta_def local_path_def tmp_of_def tmp_path_def split: file_kind.splits)
  have keys: "filter ?P (map fst g) = filter ?P (map fst f)" using assms(1) t l
    unfolding moves_def fs_rename_def
    by (elim disjE exE conjE) (simp_all only: filter_keys [of ?P, OF t] filter_keys [of ?P, OF l] option.case)
  have at: "map_of g p = map_of f p" if "?P p \<or> p = root @ [''config'']" for p
    using moves_at [OF assms(1), of p] that t l c by metis
  have r: "repo_files root IndexFile g = repo_files root IndexFile f" using keys by (simp add: repo_files_def)
  then have "map (\<lambda>p. case index_names e (the (map_of g p)) of None \<Rightarrow> None | Some (ps, ds) \<Rightarrow> Some (ps @ ds)) (repo_files root IndexFile g) =
     map (\<lambda>p. case index_names e (the (map_of f p)) of None \<Rightarrow> None | Some (ps, ds) \<Rightarrow> Some (ps @ ds)) (repo_files root IndexFile f)"
    using at by (auto simp: repo_files_iff)
  moreover have "map_of g (root @ [''config'']) = map_of f (root @ [''config''])" using at by blast
  ultimately show ?thesis unfolding index_set_of_def by (simp only:)
qed

definition survey_true :: "('x mirenv_scheme) \<Rightarrow> path \<Rightarrow> copy_state \<Rightarrow> bool" where
  "survey_true e root c \<longleftrightarrow> (\<forall>names. cs_survey c = Ready names \<longrightarrow> index_set_of e root (files (cs_world c)) = Some names)"

lemma pc_step_survey_from:
  assumes "pc_step e m root q p c = (p', c')"
  shows "cs_survey c' = cs_survey c \<or> (\<exists>k bs. p = Classify k bs) \<and>
     (\<forall>names. cs_survey c' = Ready names \<longrightarrow> index_set_of e root (files (cs_world c)) = Some names)"
proof (cases p)
  case (Classify k bs)
  then show ?thesis using assms
    by (auto simp: survey_once_def mirror_indexed_pack_names_def split: indexed_packs.splits option.splits if_splits)
qed (use assms in \<open>auto simp: tick_def dest: file_step_same fetch_step_same split: if_splits\<close>)

lemma pc_step_survey_true:
  assumes "pc_step e m root q p c = (p', c')" "pc_ok e root q c p" "queue_ok root q" "\<forall>x \<in> set q. \<not> is_meta x" "survey_true e root c"
  shows "survey_true e root c'"
proof -
  have "index_set_of e root (files (cs_world c')) = index_set_of e root (files (cs_world c))"
    using pc_step_moves [OF assms(1,2)]
  proof (elim disjE exE conjE)
    fix k
    assume k: "k < length q" "moves e root (q ! k) (files (cs_world c)) (files (cs_world c'))"
    then show ?thesis using index_set_of_moves [OF k(2)] assms(3,4) by (auto simp: queue_ok_def)
  qed simp
  then show ?thesis using pc_step_survey_from [OF assms(1)] assms(5) by (auto simp: survey_true_def)
qed

lemma phase_survey_true:
  assumes "queue_ok root q" "\<forall>x \<in> set q. \<not> is_meta x" "survey_true e root c"
  shows "survey_true e root (snd (copy_phase e m root q sched c))"
proof -
  have "survey_true e root (snd (phase_start q c))" using assms(3) by (simp add: phase_start_def survey_true_def)
  then have "survey_true e root (snd (run_workers e m root q sched (phase_start q c)))"
  proof (rule run_induct [OF phase_inv [OF assms(1)], where P = "\<lambda>s. survey_true e root (snd s)"])
    fix s i
    assume a: "copy_inv e root q (files (cs_world c)) s" "survey_true e root (snd s)" "i < length (fst s)"
    obtain ps d where s: "s = (ps, d)" by (cases s)
    then have i: "i < length ps" using a(3) by simp
    obtain p' d' where st: "pc_step e m root q (ps ! i) d = (p', d')" "worker_step e m root q i s = (ps[i := p'], d')"
      using worker_stepE [OF i] unfolding s by metis
    have "pc_ok e root q d (ps ! i)" using a(1) i by (simp add: copy_inv_def s)
    from pc_step_survey_true [OF st(1) this assms(1,2)] show "survey_true e root (snd (worker_step e m root q i s))"
      using a(2) st(2) by (simp add: s)
  qed
  then show ?thesis by (simp add: copy_phase_def Let_def)
qed

lemma phase_survey_same:
  assumes "queue_ok root q" "\<forall>x \<in> set q. is_meta x"
  shows "cs_survey (snd (copy_phase e m root q sched c)) = cs_survey c"
proof -
  have "cs_survey (snd (phase_start q c)) = cs_survey c" by (simp add: phase_start_def)
  then have "cs_survey (snd (run_workers e m root q sched (phase_start q c))) = cs_survey c"
  proof (rule run_induct [OF phase_inv [OF assms(1)], where P = "\<lambda>s. cs_survey (snd s) = cs_survey c"])
    fix s i
    assume a: "copy_inv e root q (files (cs_world c)) s" "cs_survey (snd s) = cs_survey c" "i < length (fst s)"
    obtain ps d where s: "s = (ps, d)" by (cases s)
    then have i: "i < length ps" using a(3) by simp
    obtain p' d' where st: "pc_step e m root q (ps ! i) d = (p', d')" "worker_step e m root q i s = (ps[i := p'], d')"
      using worker_stepE [OF i] unfolding s by metis
    have ok: "pc_ok e root q d (ps ! i)" using a(1) i by (simp add: copy_inv_def s)
    have "ps ! i \<noteq> Classify k bs" for k bs
    proof
      assume "ps ! i = Classify k bs"
      then have "k < length q" "pf_kind (q ! k) = PackFile" using ok by (simp_all add: misnamed_def)
      then show False using assms(2) nth_mem [of k q] by (fastforce simp: is_meta_def)
    qed
    then show "cs_survey (snd (worker_step e m root q i s)) = cs_survey c"
      using pc_step_survey_from [OF st(1)] a(2) st(2) by (simp add: s)
  qed
  then show ?thesis by (simp add: copy_phase_def Let_def)
qed

section \<open>A drained copy\<close>

definition torn_out :: "('x mirenv_scheme) \<Rightarrow> path \<Rightarrow> fs \<Rightarrow> planned_file \<Rightarrow> bool" where
  "torn_out e root f x \<longleftrightarrow> served_torn e x \<and> \<not> indexed e root f (pf_hex x)"

lemma meta_rank: "is_meta x \<longleftrightarrow> file_kind_rank (pf_kind x) \<le> 2"
  by (cases "pf_kind x") (simp_all add: is_meta_def file_kind_rank_def)

lemma tail_not_meta:
  assumes "sorted (map (\<lambda>x. file_kind_rank (pf_kind x)) q)" "x \<in> set (dropWhile is_meta q)"
  shows "\<not> is_meta x"
  using assms
proof (induction q)
  case (Cons a q)
  then show ?case by (cases "is_meta a") (auto simp: meta_rank)
qed simp

lemma copied_kept:
  assumes "kept e root t f g" "queue_ok root q" "set t \<subseteq> set q" "x \<in> set q" "copied e root f x"
  shows "copied e root g x"
proof -
  have x: "pf_kind x = ConfigFile \<or> valid_id (pf_hex x)" using assms(2,4) by (simp add: queue_ok_def)
  then have "\<forall>y \<in> set t. local_path root x \<noteq> tmp_of root y" using tmp_not_local by metis
  then consider "map_of g (local_path root x) = map_of f (local_path root x)"
    | y where "y \<in> set t" "local_path root x = local_path root y" "copied e root g y"
    using assms(1) by (auto simp: kept_def)
  then show ?thesis
  proof cases
    case 1
    then show ?thesis using assms(5) by (simp add: copied_def)
  next
    case 2
    have "inj_on (local_path root) (set q)" using assms(2) by (simp add: queue_ok_def distinct_map)
    then have "x = y" using 2(1,2) assms(3,4) by (auto dest: inj_onD)
    with 2(3) show ?thesis by simp
  qed
qed

lemma copy_all_drained:
  assumes q: "queue_ok root q" and srt: "sorted (map (\<lambda>x. file_kind_rank (pf_kind x)) q)"
    and run: "copy_all e m root q s1 s2 w = (True, c)" "cs_stop c = None"
  shows "(\<forall>x \<in> set q. copied e root (files (cs_world c)) x \<or> torn_out e root (files (cs_world c)) x) \<and>
    cs_files c + cs_torn c = length q"
proof (cases rule: copy_all_cases [of e m root q s1 s2 w])
  case 1
  from 1(2) have False unfolding run(1) using run(2) by simp
  then show ?thesis ..
next
  case (2 d)
  let ?meta = "takeWhile is_meta q" and ?tail = "dropWhile is_meta q"
  have qm: "queue_ok root ?meta" and qt: "queue_ok root ?tail" using queue_ok_phases [OF q] by blast+
  have r2: "copy_phase e m root ?tail s2 d = (True, c)" using 2(3) run(1) by simp
  have sv: "cs_survey d = NotYet"
    using phase_survey_same [OF qm, of e m s1 "copy_start w"] 2(1) by (auto simp: copy_start_def dest: set_takeWhileD)
  have m1: "\<forall>x \<in> set ?meta. copied e root (files (cs_world d)) x" "cs_files d + cs_torn d = length ?meta"
    using phase_drained [OF qm 2(1,2)] sv by (auto simp: file_settled_def torn_skipped_def copy_start_def)
  have k: "kept e root ?tail (files (cs_world d)) (files (cs_world c))" using phase_kept [OF qt, of e d m s2] r2 by simp
  have m2: "copied e root (files (cs_world c)) x" if "x \<in> set ?meta" for x
  proof (rule copied_kept [OF k q])
    show "set ?tail \<subseteq> set q" by (auto dest: set_dropWhileD)
    show "x \<in> set q" using that by (auto dest: set_takeWhileD)
    show "copied e root (files (cs_world d)) x" using m1(1) that by blast
  qed
  have st: "survey_true e root c"
    using phase_survey_true [OF qt, of e d m s2] tail_not_meta [OF srt] sv r2 by (auto simp: survey_true_def)
  have t: "copied e root (files (cs_world c)) x \<or> torn_out e root (files (cs_world c)) x" if "x \<in> set ?tail" for x
    using phase_drained [OF qt r2 run(2)] that st index_set_indexed
    by (fastforce simp: file_settled_def torn_skipped_def torn_out_def survey_true_def)
  have "set q = set ?meta \<union> set ?tail" by (metis set_append takeWhile_dropWhile_id)
  moreover have "length ?meta + length ?tail = length q" by (metis length_append takeWhile_dropWhile_id)
  ultimately show ?thesis using phase_drained [OF qt r2 run(2)] m1(2) m2 t by auto
qed

end
