(* ===== verification/Mirror_Record.thy ===== *)
theory Mirror_Record
  imports Mirror_Round
begin

text \<open>
  The round around the copy: what the listing gives, which files count as present, and how a round
  is put together from its listing, its copy and its records.
\<close>

section \<open>Steps in sequence\<close>

lemma io_bindE:
  assumes "io_bind m k w = (r, w')"
  obtains x where "m w = (Inl x, w')" "r = Inl x" | a w1 where "m w = (Inr a, w1)" "k a w1 = (r, w')"
  using assms by (cases "m w") (auto simp: io_bind_def split: sum.splits)

lemma io_bind_run: "m w = (Inr a, w1) \<Longrightarrow> io_bind m k w = k a w1"
  by (simp add: io_bind_def)

lemma traverse_error: "io_traverse f xs w = (Inl x, w') \<Longrightarrow> \<exists>a v v'. f a v = (Inl x, v')"
proof (induction xs arbitrary: w)
  case (Cons a xs)
  then show ?case by (auto simp: io_return_def elim!: io_bindE)
qed (simp add: io_return_def)

lemma readonly_mirror [reads]: "readonly (list_kind e k)" "readonly (read_config e planned)"
  "readonly (check_present e root cfg x)" "readonly (count_unlisted e root listed)" "readonly (ask_free e)"
  "readonly (closure_snapshot_ids e root)"
  by (auto simp: readonly_def list_kind_def read_config_def check_present_def count_unlisted_def ask_free_def
      closure_snapshot_ids_def read_file_def split: option.splits prod.splits sum.splits if_splits)

lemma readonly_listing [reads]: "readonly (list_destination e)" and readonly_final [reads]: "readonly (final_walk e root l walk c)"
  unfolding list_destination_def final_walk_def by (auto intro!: reads)

section \<open>The listing\<close>

text \<open>A listing names every file of a kind once, and by an id.\<close>

definition names_ok :: "('x mirenv_scheme) \<Rightarrow> bool" where
  "names_ok e \<longleftrightarrow> (\<forall>t k xs. remote_list e t k = Some xs \<longrightarrow> distinct (map fst xs) \<and>
     (k = ConfigFile \<or> list_all (\<lambda>(h, n). valid_id h) xs))"

definition listing_ok :: "planned_file list \<Rightarrow> bool" where
  "listing_ok xs \<longleftrightarrow> distinct (map (\<lambda>x. (pf_kind x, pf_hex x)) xs) \<and> (\<forall>x \<in> set xs. pf_kind x = ConfigFile \<or> valid_id (pf_hex x))"

lemma list_kind_ok:
  assumes "names_ok e" "list_kind e k w = (Inr xs, w1)"
  shows "listing_ok xs \<and> (\<forall>x \<in> set xs. pf_kind x = k)"
proof -
  obtain l where l: "remote_list e (clock w) k = Some l" "xs = map (\<lambda>(h, n). \<lparr>pf_kind = k, pf_hex = h, pf_size = n\<rparr>) l"
    using assms(2) by (auto simp: list_kind_def split: option.splits)
  have "map (\<lambda>x. (pf_kind x, pf_hex x)) xs = map (Pair k) (map fst l)" by (simp add: l(2) case_prod_beta)
  moreover have "distinct (map (Pair k) (map fst l))" using assms(1) l(1) by (auto simp: names_ok_def distinct_map inj_on_def)
  moreover have "k = ConfigFile \<or> list_all (\<lambda>(h, n). valid_id h) l" using assms(1) l(1) by (simp add: names_ok_def)
  then have "\<forall>x \<in> set xs. pf_kind x = k \<and> (k = ConfigFile \<or> valid_id (pf_hex x))" by (auto simp: l(2) list_all_iff)
  ultimately show ?thesis unfolding listing_ok_def by auto
qed

lemma traverse_listing:
  assumes "names_ok e" "distinct ks" "io_traverse (list_kind e) ks w = (Inr xss, w1)"
  shows "listing_ok (concat xss) \<and> (\<forall>x \<in> set (concat xss). pf_kind x \<in> set ks)"
  using assms(2,3)
proof (induction ks arbitrary: w xss)
  case Nil
  then show ?case by (simp add: io_return_def listing_ok_def)
next
  case (Cons k ks)
  then obtain xs ys w2 where x: "list_kind e k w = (Inr xs, w2)" "io_traverse (list_kind e) ks w2 = (Inr ys, w1)" "xss = xs # ys"
    by (auto simp: io_bind_Inr io_return_Inr)
  note a = list_kind_ok [OF assms(1) x(1)] and b = Cons.IH [OF _ x(2)]
  have "set (map (\<lambda>x. (pf_kind x, pf_hex x)) xs) \<inter> set (map (\<lambda>x. (pf_kind x, pf_hex x)) (concat ys)) = {}"
    using a b Cons.prems(1) by fastforce
  then show ?case using a b Cons.prems(1) unfolding x(3) listing_ok_def by auto
qed

lemma list_destination_ok: "names_ok e \<Longrightarrow> list_destination e w = (Inr planned, w1) \<Longrightarrow> listing_ok planned"
  using traverse_listing [of e LISTED_KINDS w] by (auto simp: list_destination_def io_bind_Inr io_return_Inr LISTED_KINDS_def)

lemma local_path_eq: "local_path root x = local_path root y \<Longrightarrow>
    pf_kind x = pf_kind y \<and> (pf_kind x = ConfigFile \<or> pf_hex x = pf_hex y)"
  by (cases "pf_kind x"; cases "pf_kind y") (auto simp: local_path_def)

lemma listing_queue_ok:
  assumes "listing_ok planned" "length (filter (\<lambda>x. pf_kind x = ConfigFile) planned) \<le> 1"
  shows "queue_ok root planned"
  using assms
proof (induction planned)
  case (Cons a xs)
  have "local_path root a \<noteq> local_path root y" if y: "y \<in> set xs" for y
  proof
    assume "local_path root a = local_path root y"
    from local_path_eq [OF this] consider "pf_kind a = ConfigFile" "pf_kind y = ConfigFile"
      | "pf_kind a = pf_kind y" "pf_hex a = pf_hex y" by metis
    then show False
    proof cases
      case 1
      then have "filter (\<lambda>x. pf_kind x = ConfigFile) xs \<noteq> []" using y by (auto simp: filter_empty_conv)
      with 1 Cons.prems(2) show False by simp
    next
      case 2
      then show False using Cons.prems(1) y by (force simp: listing_ok_def)
    qed
  qed
  moreover have "queue_ok root xs" using Cons by (auto simp: listing_ok_def split: if_splits)
  ultimately show ?case using Cons.prems(1) by (auto simp: queue_ok_def listing_ok_def)
qed (simp add: queue_ok_def)

section \<open>Present files and the queue\<close>

text \<open>The mirror holds a listed file: its own name vouches for its bytes, or they are a config the destination served.\<close>

definition held_file :: "('x mirenv_scheme) \<Rightarrow> path \<Rightarrow> fs \<Rightarrow> planned_file \<Rightarrow> bool" where
  "held_file e root f x \<longleftrightarrow> (\<exists>bs. map_of f (local_path root x) = Some bs \<and>
     (if pf_kind x = ConfigFile then \<exists>t h. remote_read e t ConfigFile h = Some bs else hex (sha256 e bs) = pf_hex x))"

lemma copied_held: "copied e root f x \<Longrightarrow> held_file e root f x"
  by (cases "pf_kind x = ConfigFile") (auto simp: copied_def held_file_def fetched_def name_verified_def)

lemma local_strict: "strict_prefix root (local_path root x)"
  by (cases "pf_kind x") (simp_all add: local_path_def strict_prefix_def)

lemma local_not_tmp:
  assumes "pf_kind x = ConfigFile \<or> valid_id (pf_hex x)"
  shows "\<not> is_torn_write_tmp (last (local_path root x))"
proof (cases "pf_kind x = ConfigFile")
  case False
  then have "valid_id (pf_hex x)" using assms by simp
  then show ?thesis using False valid_id_head by (cases "pf_hex x") (auto simp: last_local is_torn_write_tmp_def)
qed (simp add: last_local is_torn_write_tmp_def)

lemma held_kept:
  assumes "mirror_kept e root f g" "pf_kind x = ConfigFile \<or> valid_id (pf_hex x)" "held_file e root f x"
  shows "held_file e root g x"
proof -
  from assms(1) local_strict local_not_tmp [OF assms(2)]
  consider "map_of g (local_path root x) = map_of f (local_path root x)"
    | y where "local_path root x = local_path root y" "copied e root g y" unfolding mirror_kept_def by metis
  then show ?thesis
  proof cases
    case 1
    then show ?thesis using assms(3) by (simp add: held_file_def)
  next
    case 2
    then have "held_file e root g y" by (simp add: copied_held)
    moreover have "pf_kind x = pf_kind y" "pf_kind y = ConfigFile \<or> pf_hex x = pf_hex y" using local_path_eq [OF 2(1)] by auto
    ultimately show ?thesis unfolding held_file_def 2(1) by (cases "pf_kind y = ConfigFile") simp_all
  qed
qed

lemma check_present_held:
  assumes "check_present e root cfg x w = (Inr p, w1)" "\<And>bs. cfg = Some bs \<Longrightarrow> \<exists>t h. remote_read e t ConfigFile h = Some bs"
  shows "p \<longrightarrow> held_file e root (files w) x"
  using assms by (auto simp: check_present_def read_file_def held_file_def split: if_splits option.splits)

lemma present_held:
  assumes "io_traverse (check_present e root cfg) xs w = (Inr ps, w1)" "\<And>bs. cfg = Some bs \<Longrightarrow> \<exists>t h. remote_read e t ConfigFile h = Some bs"
  shows "list_all2 (\<lambda>x p. p \<longrightarrow> held_file e root (files w) x) xs ps"
  using assms(1)
proof (induction xs arbitrary: w ps)
  case Nil
  then show ?case by (simp add: io_return_def)
next
  case (Cons x xs)
  then obtain p qs w2 where x: "check_present e root cfg x w = (Inr p, w2)"
    "io_traverse (check_present e root cfg) xs w2 = (Inr qs, w1)" "ps = p # qs"
    by (auto simp: io_bind_Inr io_return_Inr)
  have "files w2 = files w" using obeysD [OF readonly_mirror(3) x(1)] .
  then show ?case using Cons.IH [OF x(2)] check_present_held [OF x(1) assms(2)] by (simp add: x(3))
qed

lemma queue_of_sorted: "sorted (map (\<lambda>x. file_kind_rank (pf_kind x)) (queue_of planned present))"
proof -
  have "sorted_wrt (\<lambda>x y. (file_kind_rank (pf_kind x), pf_size x) \<le> (file_kind_rank (pf_kind y), pf_size y)) (queue_of planned present)"
    unfolding queue_of_def using sorted_sort_key [of "\<lambda>x. (file_kind_rank (pf_kind x), pf_size x)"] by (simp add: sorted_map)
  then show ?thesis unfolding sorted_map by (rule sorted_wrt_mono_rel [rotated]) (auto simp: less_eq_prod_def)
qed

lemma set_queue_of: "set (queue_of planned present) = {x. \<exists>i < min (length planned) (length present). x = planned ! i \<and> \<not> present ! i}"
proof -
  have "set (queue_of planned present) = fst ` {xp \<in> set (zip planned present). \<not> snd xp}"
    by (auto simp: queue_of_def)
  then show ?thesis by (force simp: set_zip)
qed

lemma queue_of_ok:
  assumes "queue_ok root planned"
  shows "queue_ok root (queue_of planned present)"
proof (rule queue_ok_subset [OF assms])
  show "set (queue_of planned present) \<subseteq> set planned" by (auto simp: set_queue_of)
  have "distinct (map fst (zip planned present))" using queue_ok_distinct [OF assms] by (simp add: map_fst_zip_take)
  then show "distinct (queue_of planned present)" by (simp add: queue_of_def distinct_map_filter)
qed

lemma queue_or_held:
  assumes "list_all2 (\<lambda>x p. p \<longrightarrow> P x) planned present" "x \<in> set planned"
  shows "x \<in> set (queue_of planned present) \<or> P x"
  using assms by (auto simp: set_queue_of in_set_conv_nth list_all2_conv_all_nth)

section \<open>How a round is put together\<close>

abbreviation round_root :: "sync_request \<Rightarrow> path" where
  "round_root rq \<equiv> mirror_dir (sr_data_root rq) (sr_mirror_of rq)"

text \<open>Before the round starts: nothing is written, the listing names each file once, and present files are held.\<close>

definition prepared :: "('x syncenv_scheme) \<Rightarrow> sync_request \<Rightarrow> world \<Rightarrow> planned_file list \<Rightarrow> bool list \<Rightarrow> world \<Rightarrow> bool" where
  "prepared e rq w planned present w1 \<longleftrightarrow> fst (list_destination e w) = Inr planned \<and> files w1 = files w \<and>
     queue_ok (round_root rq) planned \<and>
     list_all2 (\<lambda>x p. p \<longrightarrow> held_file e (round_root rq) (files w) x) planned present"

lemma sync_once_shape:
  assumes "sync_once e rq s1 s2 w = (r, w')" "names_ok e"
  obtains x where "r = Inl x" "x \<noteq> Killed" "files w' = files w"
  | planned present w1 where "prepared e rq w planned present w1"
      "start_round e rq (round_root rq) planned present s1 s2 w1 = (r, w')"
proof (cases "trim (sr_mirror_of rq) = [] \<or> \<not> sr_gib_valid rq")
  case True
  then show ?thesis using assms(1) that(1) [of MirrorUsage] by (auto simp: sync_once_def io_fail_def)
next
  case False
  let ?root = "round_root rq"
  let ?check = "\<lambda>planned. io_bind (touch e NotFinished) (\<lambda>_. io_bind (read_config e planned) (\<lambda>cfg.
     io_bind (io_traverse (check_present e ?root cfg) planned) (\<lambda>present. start_round e rq ?root planned present s1 s2)))"
  let ?configs = "\<lambda>planned. length (filter (\<lambda>x. pf_kind x = ConfigFile) planned)"
  have "io_bind (list_destination e) (\<lambda>planned. if 1 < ?configs planned then io_fail NotFinished
      else if ?configs planned = 0 then io_fail MirrorUsage else ?check planned) w = (r, w')"
    using assms(1) False by (simp add: sync_once_def Let_def)
  then show ?thesis
  proof (cases rule: io_bindE)
    case (1 x)
    moreover have "x \<noteq> Killed"
      using 1(1) by (auto simp: list_destination_def io_return_def list_kind_def elim!: io_bindE dest!: traverse_error split: option.splits)
    ultimately show ?thesis using that(1) obeysD [OF readonly_listing] by metis
  next
    case (2 planned w1)
    have f1: "files w1 = files w" using obeysD [OF readonly_listing 2(1)] .
    show ?thesis
    proof (cases "1 < ?configs planned \<or> ?configs planned = 0")
      case True
      then show ?thesis using 2(2) that(1) f1 by (auto simp: io_fail_def split: if_splits)
    next
      case one: False
      then have "?check planned w1 = (r, w')" using 2(2) by simp
      then show ?thesis
      proof (cases rule: io_bindE)
        case (1 x)
        then show ?thesis using that(1) f1 by (auto simp: file_simps split: if_splits)
      next
        case (2 u w2)
        have f2: "files w2 = files w" using f1 2(1) by (auto simp: file_simps split: if_splits)
        from 2(2) show ?thesis
        proof (cases rule: io_bindE)
          case (1 x)
          then show ?thesis using that(1) f2 by (auto simp: read_config_def split: option.splits)
        next
          case (2 cfg w3)
          have f3: "files w3 = files w" using f2 obeysD [OF readonly_mirror(2) 2(1)] by simp
          have served: "\<exists>t h. remote_read e t ConfigFile h = Some bs" if "cfg = Some bs" for bs
            using 2(1) that by (auto simp: read_config_def split: option.splits)
          from 2(2) show ?thesis
          proof (cases rule: io_bindE)
            case (1 x)
            then show ?thesis by (auto simp: check_present_def dest!: traverse_error split: sum.splits prod.splits)
          next
            case (2 present w4)
            have "files w4 = files w" using f3 obeysD [OF readonly_traverse [OF readonly_mirror(3)] 2(1)] by simp
            moreover have "list_all2 (\<lambda>x p. p \<longrightarrow> held_file e ?root (files w) x) planned present"
              using present_held [OF 2(1) served] f3 by simp
            moreover have "listing_ok planned" using list_destination_ok [OF assms(2)] \<open>list_destination e w = (Inr planned, w1)\<close> .
            then have "queue_ok ?root planned" using one by (intro listing_queue_ok) auto
            ultimately show ?thesis using that(2) 2(2) \<open>list_destination e w = (Inr planned, w1)\<close> by (auto simp: prepared_def)
          qed
        qed
      qed
    qed
  qed
qed

text \<open>A round that ends before the copy, or with a stop, writes its progress and nothing else.\<close>

definition unfinished :: "sync_error + sync_report \<times> sync_outcome \<Rightarrow> bool" where
  "unfinished r \<longleftrightarrow> r \<noteq> Inl Killed \<and> (\<forall>rep. r \<noteq> Inr (rep, Completed))"

lemma progress_then:
  assumes "io_bind (write_progress e rq rep out) (\<lambda>_. k) w = (r, w')" "\<And>v. \<exists>q. k v = (q, v) \<and> unfinished q"
  shows "\<exists>q. write_progress e rq rep out w = (q, w') \<and> unfinished r"
  using assms(1)
proof (cases rule: io_bindE)
  case (1 x)
  have "x = NotFinished" using 1(1) by (auto simp: write_progress_def io_map_err_def split: prod.splits sum.splits)
  then show ?thesis using 1 by (auto simp: unfinished_def)
next
  case (2 u w1)
  then show ?thesis using assms(2) [of w1] by auto
qed

lemma start_round_shape:
  assumes "start_round e rq root planned present s1 s2 w = (r, w')"
  shows "(\<exists>rep out w1 q. files w1 = files w \<and> write_progress e rq rep out w1 = (q, w') \<and> unfinished r) \<or>
    (\<exists>rep0 walk w1. files w1 = files w \<and> copy_round e rq root planned (queue_of planned present) rep0 walk s1 s2 w1 = (r, w'))"
proof -
  obtain walk w1 where a: "count_unlisted e root (map (local_path root) planned) w = (Inr walk, w1)"
    by (simp add: count_unlisted_def)
  obtain free w2 where b: "ask_free e w1 = (Inr free, w2)" by (simp add: ask_free_def)
  have f: "files w2 = files w" using obeysD [OF readonly_mirror(4) a] obeysD [OF readonly_mirror(5) b] by simp
  define rep0 where "rep0 = report_before rq planned present walk"
  have run: "(case free of
       Inl h \<Rightarrow> io_bind (write_progress e rq rep0 (ProgressFailed h)) (\<lambda>_. io_fail (HardFailed h))
     | Inr free_now \<Rightarrow>
         if free_now < min u64_max (rp_missing_bytes_remaining rep0 + sr_min_free_bytes rq) then
           io_bind (write_progress e rq rep0 (ProgressRefused (rp_missing_bytes_remaining rep0) (sr_min_free_bytes rq) free_now))
             (\<lambda>_. io_return (rep0, RefusedSpace (min u64_max (rp_missing_bytes_remaining rep0 + sr_min_free_bytes rq))
               (rp_missing_bytes_remaining rep0) (sr_min_free_bytes rq) free_now))
         else copy_round e rq root planned (queue_of planned present) rep0 walk s1 s2) w2 = (r, w')"
    using assms unfolding start_round_def io_bind_run [where m = "count_unlisted e root (map (local_path root) planned)", OF a]
      io_bind_run [where m = "ask_free e", OF b] Let_def rep0_def .
  show ?thesis
  proof (cases free)
    case (Inl h)
    with run have "io_bind (write_progress e rq rep0 (ProgressFailed h)) (\<lambda>_. io_fail (HardFailed h)) w2 = (r, w')" by simp
    from progress_then [OF this] show ?thesis using f by (auto simp: io_fail_def unfinished_def)
  next
    case (Inr n)
    show ?thesis
    proof (cases "n < min u64_max (rp_missing_bytes_remaining rep0 + sr_min_free_bytes rq)")
      case True
      from progress_then [OF run [unfolded Inr sum.case if_P [OF True]]] show ?thesis
        using f by (auto simp: io_return_def unfinished_def)
    next
      case False
      then show ?thesis using run Inr f by auto
    qed
  qed
qed

lemma copy_round_shape:
  assumes "copy_round e rq root planned queue rep0 walk s1 s2 w = (r, w')"
    and "copy_all e (sr_min_free_bytes rq) root queue s1 s2 w = (joined, c)"
  shows "\<not> joined \<and> r = Inl Killed \<and> w' = cs_world c \<or>
    joined \<and> (\<exists>disk w1. files w1 = files (cs_world c) \<and> after_copy e rq root (length queue) rep0 c disk w1 = (r, w'))"
proof (cases joined)
  case True
  obtain disk w1 where d: "final_walk e root (map (local_path root) planned) walk c (cs_world c) = (Inr disk, w1)"
    by (cases "walk \<noteq> None \<and> cs_files c = 0") (auto simp: final_walk_def io_return_def count_unlisted_def)
  then have "files w1 = files (cs_world c)" using obeysD [OF readonly_final] by blast
  then show ?thesis using assms True d by (auto simp: copy_round_def io_bind_def)
qed (use assms in \<open>auto simp: copy_round_def\<close>)

lemma after_copy_shape:
  assumes "after_copy e rq root n rep0 c disk w = (r, w')"
  shows "(\<exists>rep out q. write_progress e rq rep out w = (q, w') \<and> unfinished r) \<or>
    unfinished r \<and> w' = w \<and> cs_stop c = None \<and> cs_files c + cs_torn c \<noteq> n \<or>
    (\<exists>rep. cs_stop c = None \<and> complete_round e rq root rep w = (r, w'))"
proof (cases "cs_stop c")
  case None
  then show ?thesis using assms by (auto simp: after_copy_def Let_def io_fail_def unfinished_def split: if_splits)
next
  case (Some s)
  then have "\<exists>rep out k. io_bind (write_progress e rq rep out) (\<lambda>_. k) w = (r, w') \<and> (\<forall>v. \<exists>q. k v = (q, v) \<and> unfinished q)"
    using assms by (cases s) (force simp: after_copy_def Let_def io_fail_def io_return_def unfinished_def)+
  then show ?thesis using progress_then by metis
qed

section \<open>The record of a completed round\<close>

text \<open>The mirror vouches for a snapshot: it has its file, and a file for every pack an index file names.\<close>

definition vouched :: "('x mirenv_scheme) \<Rightarrow> path \<Rightarrow> fs \<Rightarrow> string \<Rightarrow> bool" where
  "vouched e root f S \<longleftrightarrow>
     (\<exists>p. strict_prefix (root @ [kind_name SnapshotFile]) p \<and> last p = S \<and> map_of f p \<noteq> None) \<and>
     (\<forall>h. indexed e root f h \<longrightarrow> (\<exists>p. strict_prefix (root @ [kind_name PackFile]) p \<and> last p = h \<and> map_of f p \<noteq> None))"

lemma closure_vouched: "S \<in> set (closure_of e root f) \<Longrightarrow> vouched e root f S"
proof -
  assume S: "S \<in> set (closure_of e root f)"
  then obtain named where i: "index_set_of e root f = Some named"
    by (cases "index_set_of e root f") (auto simp: closure_of_def)
  then have n: "list_all (\<lambda>h. h \<in> last ` set (repo_files root PackFile f)) named"
    "S \<in> last ` set (repo_files root SnapshotFile f)" using S by (auto simp: closure_of_def split: if_splits)
  have "\<exists>p. strict_prefix (root @ [kind_name PackFile]) p \<and> last p = h \<and> map_of f p \<noteq> None" if "indexed e root f h" for h
  proof -
    have "h \<in> last ` set (repo_files root PackFile f)" using that n(1) index_set_indexed [OF i] by (simp add: list_all_iff)
    then obtain p where "p \<in> set (repo_files root PackFile f)" "h = last p" by blast
    then show ?thesis unfolding repo_files_iff by blast
  qed
  moreover obtain p where "p \<in> set (repo_files root SnapshotFile f)" "S = last p" using n(2) by blast
  then have "\<exists>p. strict_prefix (root @ [kind_name SnapshotFile]) p \<and> last p = S \<and> map_of f p \<noteq> None"
    unfolding repo_files_iff by blast
  ultimately show "vouched e root f S" unfolding vouched_def by blast
qed

definition same_below :: "path \<Rightarrow> fs \<Rightarrow> fs \<Rightarrow> bool" where
  "same_below root f g \<longleftrightarrow> (\<forall>p. strict_prefix root p \<longrightarrow> map_of g p = map_of f p)"

lemma below: "strict_prefix (root @ [n]) p \<Longrightarrow> strict_prefix root p"
  by (auto simp: strict_prefix_def prefix_def)

lemma indexed_same: "same_below root f g \<Longrightarrow> indexed e root g h \<longleftrightarrow> indexed e root f h"
  unfolding same_below_def indexed_def using below by metis

lemma vouched_same: "same_below root f g \<Longrightarrow> vouched e root f S \<Longrightarrow> vouched e root g S"
proof -
  assume s: "same_below root f g" and v: "vouched e root f S"
  have m: "map_of g p = map_of f p" if "strict_prefix (root @ [n]) p" for n p using s below [OF that] by (simp add: same_below_def)
  show ?thesis using v m unfolding vouched_def indexed_same [OF s] by metis
qed

lemma held_same: "same_below root f g \<Longrightarrow> held_file e root f x \<Longrightarrow> held_file e root g x"
  using local_strict [of root x] by (simp add: held_file_def same_below_def)

definition record_paths :: "path \<Rightarrow> string \<Rightarrow> path set" where
  "record_paths d name = {d @ [name], d @ [''.'' @ name @ ''.tmp'']}"

lemma record_paths_below: "\<not> prefix root d \<Longrightarrow> untouched (record_paths d n) f g \<Longrightarrow> same_below root f g"
proof -
  assume d: "\<not> prefix root d" and u: "untouched (record_paths d n) f g"
  have "p \<notin> record_paths d n" if "strict_prefix root p" for p using d that
    by (auto simp: record_paths_def strict_prefix_def)
  then show ?thesis using u by (simp add: untouched_def same_below_def)
qed

lemma progress_untouched: "obeys (untouched (record_paths (sr_state_dir rq) MIRROR_PROGRESS_FILE)) (write_progress e rq rep out)"
  unfolding write_progress_def mirror_progress_path_def
  by (intro untouched.map_err untouched_save) (auto simp: record_paths_def)

lemma mirror_state_untouched: "obeys (untouched (record_paths d MIRROR_STATE_FILE)) (save_mirror_state e c d st)"
  unfolding save_mirror_state_def mirror_state_path_def
  by (intro untouched_save) (auto simp: record_paths_def)

lemma names_apart: "mirror_state_path d \<notin> record_paths d MIRROR_PROGRESS_FILE"
  by (simp add: mirror_state_path_def record_paths_def MIRROR_STATE_FILE_def MIRROR_PROGRESS_FILE_def)

lemma same_trans: "same_below root f g \<Longrightarrow> same_below root g h \<Longrightarrow> same_below root f h"
  by (simp add: same_below_def)

text \<open>The state file holds a record whose snapshots the mirror vouches for.\<close>

definition sound_record :: "('x syncenv_scheme) \<Rightarrow> sync_request \<Rightarrow> fs \<Rightarrow> bool" where
  "sound_record e rq f \<longleftrightarrow> (\<exists>st raw. put_state (mirror_codec e) st = Some raw \<and>
     map_of f (mirror_state_path (sr_state_dir rq)) = Some raw \<and> ms_version st = MIRROR_STATE_VERSION \<and>
     ms_mirror_of st = sr_mirror_of rq \<and> (\<forall>S \<in> set (ms_closure_complete st). vouched e (round_root rq) f S))"

lemma sound_record_same:
  "sound_record e rq f \<Longrightarrow> same_below (round_root rq) f g \<Longrightarrow>
    map_of g (mirror_state_path (sr_state_dir rq)) = map_of f (mirror_state_path (sr_state_dir rq)) \<Longrightarrow> sound_record e rq g"
  unfolding sound_record_def using vouched_same by metis

lemma progress_frame:
  assumes "\<not> prefix (round_root rq) (sr_state_dir rq)" "write_progress e rq rep out w = (q, w')"
  shows "same_below (round_root rq) (files w) (files w') \<and>
    map_of (files w') (mirror_state_path (sr_state_dir rq)) = map_of (files w) (mirror_state_path (sr_state_dir rq))"
proof -
  have "untouched (record_paths (sr_state_dir rq) MIRROR_PROGRESS_FILE) (files w) (files w')"
    using obeysD [OF progress_untouched assms(2)] .
  then show ?thesis using record_paths_below [OF assms(1)] names_apart by (auto simp: untouched_def)
qed

lemma save_mirror_result:
  assumes "save_mirror_state e c d st w = (r, w')"
  shows "case r of
      Inr _ \<Rightarrow> \<exists>raw. put_state c st = Some raw \<and> map_of (files w') (mirror_state_path d) = Some raw
    | Inl _ \<Rightarrow> map_of (files w') (mirror_state_path d) = map_of (files w) (mirror_state_path d)"
  using validD [OF valid_save_state [OF tmp_neq [of d MIRROR_STATE_FILE], of "map_of (files w) (mirror_state_path d)" e c st], of w]
    assms
  by (auto simp: save_mirror_state_def mirror_state_path_def on_files_def split: sum.splits)

lemma complete_round_record:
  assumes d: "\<not> prefix (round_root rq) (sr_state_dir rq)" and "complete_round e rq (round_root rq) rep w = (r, w')"
  shows "same_below (round_root rq) (files w) (files w') \<and> r \<noteq> Inl Killed \<and>
    (sound_record e rq (files w') \<or>
     unfinished r \<and> map_of (files w') (mirror_state_path (sr_state_dir rq)) = map_of (files w) (mirror_state_path (sr_state_dir rq)))"
proof -
  let ?root = "round_root rq" and ?p = "mirror_state_path (sr_state_dir rq)"
  obtain covered w1 where c: "closure_snapshot_ids e ?root w = (Inr covered, w1)" by (simp add: closure_snapshot_ids_def)
  have f1: "files w1 = files w" using obeysD [OF readonly_mirror(6) c] .
  have cov: "covered = [] \<or> covered = closure_of e ?root (files w)" using c by (auto simp: closure_snapshot_ids_def split: if_splits)
  define st where "st = \<lparr>ms_version = MIRROR_STATE_VERSION, ms_finished_at_unix = sr_now_unix rq, ms_mirror_of = sr_mirror_of rq,
          ms_closure_complete = covered, ms_snapshots_on_remote = rp_snapshots_remote rep,
          ms_remote_total_bytes = rp_remote_total_bytes rep\<rparr>"
  define rep' where "rep' = rep\<lparr>rp_missing_bytes_remaining := 0, rp_covered_snapshots := length covered\<rparr>"
  have "io_bind (io_map_err (\<lambda>_. NotFinished) (save_mirror_state e (mirror_codec e) (sr_state_dir rq) st))
      (\<lambda>_. io_bind (write_progress e rq rep' ProgressComplete) (\<lambda>_. io_return (rep', Completed))) w1 = (r, w')"
    using assms(2) unfolding complete_round_def io_bind_run [where m = "closure_snapshot_ids e ?root", OF c] Let_def st_def rep'_def .
  then show ?thesis
  proof (cases rule: io_bindE)
    case (1 x)
    then obtain y where y: "x = NotFinished" "save_mirror_state e (mirror_codec e) (sr_state_dir rq) st w1 = (Inl y, w')"
      by (auto simp: io_map_err_def split: prod.splits sum.splits)
    have "same_below ?root (files w) (files w')" using obeysD [OF mirror_state_untouched y(2)] record_paths_below [OF d] f1 by metis
    moreover have "map_of (files w') ?p = map_of (files w) ?p"
      using save_mirror_result [OF y(2)] f1 by simp
    ultimately show ?thesis using 1(2) y(1) by (simp add: unfinished_def)
  next
    case (2 u w2)
    then have s: "save_mirror_state e (mirror_codec e) (sr_state_dir rq) st w1 = (Inr u, w2)"
      by (auto simp: io_map_err_def split: prod.splits sum.splits)
    have sb: "same_below ?root (files w) (files w2)" using obeysD [OF mirror_state_untouched s] record_paths_below [OF d] f1 by metis
    have "\<exists>raw. put_state (mirror_codec e) st = Some raw \<and> map_of (files w2) ?p = Some raw"
      using save_mirror_result [OF s] by simp
    moreover have "\<forall>S \<in> set covered. vouched e ?root (files w2) S" using cov
      by (auto intro: vouched_same [OF sb] closure_vouched)
    ultimately have rec: "sound_record e rq (files w2)" unfolding sound_record_def
      by (intro exI [of _ st]) (auto simp: st_def)
    obtain q where q: "write_progress e rq rep' ProgressComplete w2 = (q, w')" "r \<noteq> Inl Killed"
      using 2(2) by (cases rule: io_bindE)
        (auto simp: io_return_def write_progress_def io_map_err_def split: prod.splits sum.splits)
    note fr = progress_frame [OF d q(1)]
    then show ?thesis using same_trans [OF sb] sound_record_same [OF rec] q(2) by blast
  qed
qed

end
