(* ===== verification/Mirror_Props.thy ===== *)
theory Mirror_Props
  imports Mirror_Record
begin

text \<open>
  The properties of a mirror round, over every interleaving of the two workers, every pattern of failing
  file operations and every answer of the destination.
\<close>

section \<open>What a round leaves in the mirror\<close>

lemma copy_all_outside:
  assumes "queue_ok root q" "\<not> strict_prefix root p"
  shows "map_of (files (cs_world (snd (copy_all e m root q s1 s2 w)))) p = map_of (files w) p"
proof -
  have k: "map_of g p = map_of f p" if "kept e root t f g" for f g t
  proof -
    have "p \<noteq> local_path root x" "p \<noteq> tmp_of root x" for x
      using assms(2) local_strict [of root x]
      by (cases "pf_kind x", auto simp: tmp_of_def tmp_path_def local_path_def butlast_append strict_prefix_def prefix_def)
    then show ?thesis using that unfolding kept_def by metis
  qed
  note k1 = k [OF phase_kept [OF queue_ok_phases(1) [OF assms(1), of is_meta], of e "copy_start w" m s1]]
  show ?thesis
  proof (cases rule: copy_all_cases [of e m root q s1 s2 w])
    case 1
    then show ?thesis using k1 by (simp add: copy_start_def)
  next
    case (2 c)
    then show ?thesis using k1 k [OF phase_kept [OF queue_ok_phases(2) [OF assms(1), of is_meta], of e c m s2]]
      by (simp add: copy_start_def)
  qed
qed

text \<open>Once the copy is whole, a round completes or one of its own records could not be written.\<close>

lemma complete_round_ends:
  "complete_round e rq root rep w = (r, w') \<Longrightarrow> r = Inl NotFinished \<or> (\<exists>rep'. r = Inr (rep', Completed))"
  by (auto simp: complete_round_def write_progress_def io_map_err_def io_bind_def io_return_def closure_snapshot_ids_def Let_def
      split: prod.splits sum.splits)

text \<open>All that a round can do, in one place.\<close>

lemma sync_once_effect:
  assumes run: "sync_once e rq s1 s2 w = (r, w')" and n: "names_ok e" and d: "\<not> prefix (round_root rq) (sr_state_dir rq)"
  shows "mirror_kept e (round_root rq) (files w) (files w') \<and>
    (map_of (files w') (mirror_state_path (sr_state_dir rq)) = map_of (files w) (mirror_state_path (sr_state_dir rq)) \<and>
       (\<forall>rep. r \<noteq> Inr (rep, Completed)) \<or>
     sound_record e rq (files w') \<and> (r = Inl NotFinished \<or> (\<exists>rep. r = Inr (rep, Completed))) \<and>
       (\<exists>planned. fst (list_destination e w) = Inr planned \<and>
         (\<forall>x \<in> set planned. held_file e (round_root rq) (files w') x \<or> torn_out e (round_root rq) (files w') x)))"
    (is "?kept \<and> (?old \<and> ?no \<or> ?sound \<and> ?ends \<and> ?whole)")
proof (cases rule: sync_once_shape [OF run n])
  case (1 x)
  then show ?thesis by (simp add: mirror_kept_def)
next
  case (2 planned present w1)
  let ?root = "round_root rq" and ?p = "mirror_state_path (sr_state_dir rq)"
  have f1: "files w1 = files w" and q: "queue_ok ?root planned" using 2(1) by (simp_all add: prepared_def)
  have mk: "mirror_kept e ?root f g" if "same_below ?root f g" for f g using that by (simp add: same_below_def mirror_kept_def)
  have outside: "\<not> strict_prefix ?root ?p" using d by (simp add: mirror_state_path_def strict_prefix_def)
  from start_round_shape [OF 2(2)] show ?thesis
  proof (elim disjE exE conjE)
    fix rep out w2 y
    assume a: "files w2 = files w1" "write_progress e rq rep out w2 = (y, w')" "unfinished r"
    show ?thesis using progress_frame [OF d a(2)] a(1,3) f1 mk by (auto simp: unfinished_def)
  next
    fix rep0 walk w2
    assume a: "files w2 = files w1" "copy_round e rq ?root planned (queue_of planned present) rep0 walk s1 s2 w2 = (r, w')"
    let ?q = "queue_of planned present"
    have qq: "queue_ok ?root ?q" by (rule queue_of_ok [OF q])
    obtain joined c where c: "copy_all e (sr_min_free_bytes rq) ?root ?q s1 s2 w2 = (joined, c)" by fastforce
    have kc: "mirror_kept e ?root (files w) (files (cs_world c))"
      using copy_all_kept [OF qq, of e w2 "sr_min_free_bytes rq" s1 s2] c a(1) f1 by simp
    have oc: "map_of (files (cs_world c)) ?p = map_of (files w) ?p"
      using copy_all_outside [OF qq outside, of e "sr_min_free_bytes rq" s1 s2 w2] c a(1) f1 by simp
    from copy_round_shape [OF a(2) c] show ?thesis
    proof (elim disjE exE conjE)
      assume "r = Inl Killed" "w' = cs_world c"
      then show ?thesis using kc oc by simp
    next
      fix disk w3
      assume j: joined and b: "files w3 = files (cs_world c)" "after_copy e rq ?root (length ?q) rep0 c disk w3 = (r, w')"
      from after_copy_shape [OF b(2)] show ?thesis
      proof (elim disjE exE conjE)
        fix rep out y
        assume p: "write_progress e rq rep out w3 = (y, w')" "unfinished r"
        from progress_frame [OF d p(1)] mk have "mirror_kept e ?root (files (cs_world c)) (files w')"
          "map_of (files w') ?p = map_of (files (cs_world c)) ?p" by (simp_all add: b(1))
        then show ?thesis using mirror_rel.trans [OF kc] oc p(2) by (simp add: unfinished_def)
      next
        assume "unfinished r" "w' = w3"
        then show ?thesis using kc oc b(1) by (simp add: unfinished_def)
      next
        fix rep
        assume s: "cs_stop c = None" and p: "complete_round e rq ?root rep w3 = (r, w')"
        note cr = complete_round_record [OF d p]
        then have sb: "same_below ?root (files (cs_world c)) (files w')" by (simp add: b(1))
        have kept: ?kept using mirror_rel.trans [OF kc mk [OF sb]] .
        have dr: "\<forall>x \<in> set ?q. copied e ?root (files (cs_world c)) x \<or> torn_out e ?root (files (cs_world c)) x"
          using copy_all_drained [OF qq queue_of_sorted c [unfolded j [THEN eqTrueI]] s] by blast
        have "held_file e ?root (files w') x \<or> torn_out e ?root (files w') x" if x: "x \<in> set planned" for x
        proof -
          have id: "pf_kind x = ConfigFile \<or> valid_id (pf_hex x)" using q x by (simp add: queue_ok_def)
          from queue_or_held [of "held_file e ?root (files w)" planned present x] 2(1) x
          consider "x \<in> set ?q" | "held_file e ?root (files w) x" by (auto simp: prepared_def)
          then show ?thesis
          proof cases
            case 1
            then have "copied e ?root (files (cs_world c)) x \<or> torn_out e ?root (files (cs_world c)) x" using dr by blast
            then show ?thesis using held_same [OF sb copied_held] unfolding torn_out_def indexed_same [OF sb] by blast
          next
            case 2
            then show ?thesis using held_kept [OF kept id] by simp
          qed
        qed
        then have ?whole using 2(1) by (auto simp: prepared_def)
        moreover have ?ends using complete_round_ends [OF p] .
        ultimately show ?thesis using kept cr oc b(1) by (auto simp: unfinished_def)
      qed
    qed
  qed
qed

text \<open>C13: a mirror never holds a damaged copy. Whatever the two workers interleave, whatever fails or is cut off and
  whatever the destination answers, every path of the mirror that is not a temporary name holds after a round what it held
  before, or bytes that the destination served for the file stored there and that hash to its name (the config has no such
  name).\<close>

theorem mirror_holds_only_verified:
  assumes "names_ok e" and "\<not> prefix (round_root rq) (sr_state_dir rq)"
    and "strict_prefix (round_root rq) p" and "\<not> is_torn_write_tmp (last p)"
  shows "map_of (files (snd (sync_once e rq s1 s2 w))) p = map_of (files w) p \<or>
    (\<exists>x bs t. p = local_path (round_root rq) x \<and> map_of (files (snd (sync_once e rq s1 s2 w))) p = Some bs \<and>
       remote_read e t (pf_kind x) (pf_hex x) = Some bs \<and> (pf_kind x = ConfigFile \<or> hex (sha256 e bs) = pf_hex x))"
proof -
  have "mirror_kept e (round_root rq) (files w) (files (snd (sync_once e rq s1 s2 w)))"
    using sync_once_effect [OF prod.collapse [symmetric] assms(1,2)] by blast
  then show ?thesis using assms(3,4) unfolding mirror_kept_def copied_def fetched_def name_verified_def by blast
qed

text \<open>C15: a round that reports completion has settled its whole listing: every listed file is in the mirror with bytes
  that its name vouches for (for the config, bytes the destination served), or it is a pack whose served bytes neither hash
  to its name nor read as a pack and that no index file of the mirror names.\<close>

theorem completed_round_settles_listing:
  assumes "sync_once e rq s1 s2 w = (Inr (rep, Completed), w')" and "names_ok e"
    and "\<not> prefix (round_root rq) (sr_state_dir rq)"
  shows "\<exists>planned. fst (list_destination e w) = Inr planned \<and>
    (\<forall>x \<in> set planned. held_file e (round_root rq) (files w') x \<or> torn_out e (round_root rq) (files w') x)"
  using sync_once_effect [OF assms] by blast

definition mirror_record :: "('x syncenv_scheme) \<Rightarrow> sync_request \<Rightarrow> fs \<Rightarrow> mirror_state state_read" where
  "mirror_record e rq = peek_state (mirror_codec e) ms_version MIRROR_STATE_VERSION (mirror_state_path (sr_state_dir rq))"


section \<open>A round ends\<close>

lemma copy_all_ends:
  assumes "queue_ok root q" "list_all (\<lambda>seg. set seg = {..<MIRROR_CONNECTIONS}) (segs1 @ segs2)"
    "15 * (length q + 2) \<le> length segs1" "15 * (length q + 2) \<le> length segs2"
  shows "fst (copy_all e m root q (concat segs1) (concat segs2) w)"
proof -
  have l: "length (takeWhile is_meta q) \<le> length q" "length (dropWhile is_meta q) \<le> length q"
    by (simp_all add: length_takeWhile_le length_dropWhile_le)
  have p1: "fst (copy_phase e m root (takeWhile is_meta q) (concat segs1) (copy_start w))"
    using assms l by (intro phase_ends queue_ok_phases) auto
  have p2: "fst (copy_phase e m root (dropWhile is_meta q) (concat segs2) c)" for c
    using assms l by (intro phase_ends queue_ok_phases) auto
  show ?thesis using p1 p2 by (cases rule: copy_all_cases [of e m root q "concat segs1" "concat segs2" w]) auto
qed

text \<open>C16: the copy always ends. Under every pattern of failures and every schedule in which both workers come up again and
  again, a bounded number of turns joins both phases, so that the round comes to its result.\<close>

theorem round_comes_to_its_end:
  assumes "names_ok e" and "\<not> prefix (round_root rq) (sr_state_dir rq)"
    and "list_all (\<lambda>seg. set seg = {..<MIRROR_CONNECTIONS}) (segs1 @ segs2)"
    and "\<And>planned. fst (list_destination e w) = Inr planned \<Longrightarrow>
      15 * (length planned + 2) \<le> min (length segs1) (length segs2)"
  shows "fst (sync_once e rq (concat segs1) (concat segs2) w) \<noteq> Inl Killed"
proof -
  obtain r w' where run: "sync_once e rq (concat segs1) (concat segs2) w = (r, w')" by fastforce
  show ?thesis
  proof (cases rule: sync_once_shape [OF run assms(1)])
    case (1 x)
    then show ?thesis using run by simp
  next
    case (2 planned present w1)
    let ?root = "round_root rq" and ?q = "queue_of planned present"
    have q: "queue_ok ?root planned" and pl: "fst (list_destination e w) = Inr planned" using 2(1) by (simp_all add: prepared_def)
    from start_round_shape [OF 2(2)] have "r \<noteq> Inl Killed"
    proof (elim disjE exE conjE)
      fix rep0 walk w2
      assume a: "copy_round e rq ?root planned ?q rep0 walk (concat segs1) (concat segs2) w2 = (r, w')"
      have qq: "queue_ok ?root ?q" by (rule queue_of_ok [OF q])
      have "length ?q \<le> length planned"
        using length_filter_le [of "\<lambda>(x, p). \<not> p" "zip planned present"] by (simp add: queue_of_def)
      then have "fst (copy_all e (sr_min_free_bytes rq) ?root ?q (concat segs1) (concat segs2) w2)"
        using assms(3) assms(4) [OF pl] by (intro copy_all_ends [OF qq]) auto
      then obtain c where c: "copy_all e (sr_min_free_bytes rq) ?root ?q (concat segs1) (concat segs2) w2 = (True, c)"
        by (metis prod.collapse)
      from copy_round_shape [OF a c] obtain disk w3 where "after_copy e rq ?root (length ?q) rep0 c disk w3 = (r, w')" by auto
      from after_copy_shape [OF this] show ?thesis
        by (auto simp: unfinished_def dest: complete_round_record [OF assms(2)])
    qed (simp add: unfinished_def)
    then show ?thesis using run by simp
  qed
qed

section \<open>A round without disturbance\<close>

lemma traverse_length: "io_traverse f xs w = (Inr ys, w') \<Longrightarrow> length ys = length xs"
  by (induction xs arbitrary: w ys) (auto simp: io_bind_Inr io_return_Inr)

text \<open>No file operation fails, the deadline is far, and the destination lists the same files at all times and serves
  each of them with bytes its name vouches for, within the bound on whole files.\<close>

definition calm :: "('x syncenv_scheme) \<Rightarrow> bool" where
  "calm e \<longleftrightarrow> (\<forall>t. \<not> fault e t \<and> \<not> deadline_passed e t)"

definition good_file :: "('x mirenv_scheme) \<Rightarrow> nat \<Rightarrow> planned_file \<Rightarrow> bool" where
  "good_file e min_free x \<longleftrightarrow> pf_size x \<le> MAX_WHOLE_FILE_BYTES \<and>
     (\<forall>t. \<exists>bs. remote_read e t (pf_kind x) (pf_hex x) = Some bs \<and> length bs \<le> MAX_WHOLE_FILE_BYTES \<and> name_verified e x bs) \<and>
     (\<forall>t. \<exists>n. free_space e t = Some n \<and> pf_size x + min_free \<le> n)"

fun undisturbed_pc :: "pc \<Rightarrow> bool" where
  "undisturbed_pc (Release r) = False"
| "undisturbed_pc (SetStop s) = False"
| "undisturbed_pc (Classify k bs) = False"
| "undisturbed_pc (CountTorn k) = False"
| "undisturbed_pc (CountTornBytes k) = False"
| "undisturbed_pc _ = True"

lemma calm_step:
  assumes "calm e" "\<forall>x \<in> set q. good_file e m x" "pc_ok e root q c p" "undisturbed_pc p" "cs_stop c = None"
    and st: "pc_step e m root q p c = (p', c')"
  shows "undisturbed_pc p' \<and> cs_stop c' = None \<and> cs_torn c' = cs_torn c"
proof -
  have no: "\<not> fault e t" "\<not> deadline_passed e t" for t using assms(1) by (auto simp: calm_def)
  show ?thesis
  proof (cases p)
    case (AskRound k)
    then have "good_file e m (q ! k)" using assms(2,3) by simp
    then obtain n where n: "free_space e (clock (cs_world c)) = Some n" "pf_size (q ! k) + m \<le> n" by (auto simp: good_file_def)
    then have "round_end_of e m (q ! k) (clock (cs_world c)) = Inr None" by (auto simp: round_end_of_def free_bytes_def no)
    then show ?thesis using st assms(5) AskRound by (auto simp: tick_def)
  next
    case (Fetch k a)
    then have "good_file e m (q ! k)" using assms(2,3) by simp
    then obtain bs where "pf_size (q ! k) \<le> MAX_WHOLE_FILE_BYTES" "remote_read e (clock (cs_world c)) (pf_kind (q ! k)) (pf_hex (q ! k)) = Some bs"
      "length bs \<le> MAX_WHOLE_FILE_BYTES" "name_verified e (q ! k) bs" by (auto simp: good_file_def)
    then show ?thesis using st assms(5) Fetch by (auto simp: fetch_step_def tick_def)
  next
    case (Rename k bs)
    then show ?thesis using st assms(3,5) by (auto simp: file_step_def rename_file_def fs_op_def no tmp_of_def)
  qed (use assms(3-5) st in \<open>auto simp: file_step_def file_simps no split: if_splits\<close>)
qed

lemma calm_phase:
  assumes "calm e" "queue_ok root q" "\<forall>x \<in> set q. good_file e m x" "cs_stop c = None"
  shows "cs_stop (snd (copy_phase e m root q sched c)) = None \<and> cs_torn (snd (copy_phase e m root q sched c)) = cs_torn c"
proof -
  let ?P = "\<lambda>s. cs_stop (snd s) = None \<and> cs_torn (snd s) = cs_torn c \<and> list_all undisturbed_pc (fst s)"
  have "?P (phase_start q c)" using assms(4) by (simp add: phase_start_def list_all_iff)
  then have "?P (run_workers e m root q sched (phase_start q c))"
  proof (rule run_induct [OF phase_inv [OF assms(2)], where P = ?P])
    fix s i
    assume a: "copy_inv e root q (files (cs_world c)) s" "?P s" "i < length (fst s)"
    obtain ps d where s: "s = (ps, d)" by (cases s)
    then have i: "i < length ps" using a(3) by simp
    obtain p' d' where st: "pc_step e m root q (ps ! i) d = (p', d')" "worker_step e m root q i s = (ps[i := p'], d')"
      using worker_stepE [OF i] unfolding s by metis
    have "pc_ok e root q d (ps ! i)" "undisturbed_pc (ps ! i)" using a(1,2) i by (auto simp: copy_inv_def s list_all_length)
    from calm_step [OF assms(1,3) this _ st(1)] show "?P (worker_step e m root q i s)"
      using a(2) i st(2) by (auto simp: s list_all_length nth_list_update)
  qed
  then show ?thesis by (simp add: copy_phase_def Let_def)
qed

lemma calm_copy:
  assumes "calm e" "queue_ok root q" "\<forall>x \<in> set q. good_file e m x"
  shows "cs_stop (snd (copy_all e m root q s1 s2 w)) = None \<and> cs_torn (snd (copy_all e m root q s1 s2 w)) = 0"
proof -
  have p1: "cs_stop (snd (copy_phase e m root (takeWhile is_meta q) s1 (copy_start w))) = None \<and>
      cs_torn (snd (copy_phase e m root (takeWhile is_meta q) s1 (copy_start w))) = 0"
    using calm_phase [OF assms(1) queue_ok_phases(1) [OF assms(2)], of is_meta m "copy_start w" s1] assms(3)
    by (auto simp: copy_start_def dest: set_takeWhileD)
  show ?thesis
  proof (cases rule: copy_all_cases [of e m root q s1 s2 w])
    case 1
    then show ?thesis using p1 by simp
  next
    case (2 c)
    then show ?thesis using p1 calm_phase [OF assms(1) queue_ok_phases(2) [OF assms(2)], of is_meta m c s2] assms(3)
      by (auto dest: set_dropWhileD)
  qed
qed

definition planned_of :: "(file_kind \<Rightarrow> (string \<times> nat) list) \<Rightarrow> planned_file list" where
  "planned_of listing = concat (map (\<lambda>k. map (\<lambda>(h, n). \<lparr>pf_kind = k, pf_hex = h, pf_size = n\<rparr>) (listing k)) LISTED_KINDS)"

lemma calm_listing:
  assumes "\<And>t k. remote_list e t k = Some (listing k)"
  shows "\<exists>w1. list_destination e w = (Inr (planned_of listing), w1)"
  using assms by (simp add: list_destination_def planned_of_def LISTED_KINDS_def io_bind_def io_return_def list_kind_def)

lemma planned_configs: "length (filter (\<lambda>x. pf_kind x = ConfigFile) (planned_of listing)) = length (listing ConfigFile)"
  by (simp add: planned_of_def LISTED_KINDS_def filter_map comp_def case_prod_beta)

lemma calm_save:
  assumes "calm e" "put_state c st \<noteq> None"
  shows "\<exists>w'. save_state e c p tmp st w = (Inr (), w')"
  using assms by (auto simp: calm_def save_state_def write_synced_def io_bind_def file_simps)

lemma calm_progress:
  assumes "calm e" "\<forall>st. put_state (progress_codec e) st \<noteq> None"
  shows "\<exists>w'. write_progress e rq rep out w = (Inr (), w')"
  using calm_save [OF assms(1) assms(2) [rule_format]] unfolding write_progress_def io_map_err_Inr by blast

lemma calm_complete:
  assumes "calm e" "\<forall>st. put_state (progress_codec e) st \<noteq> None" "\<forall>st. put_state (mirror_codec e) st \<noteq> None"
  shows "\<exists>n w'. complete_round e rq root rep w =
    (Inr (rep\<lparr>rp_missing_bytes_remaining := 0, rp_covered_snapshots := n\<rparr>, Completed), w')"
proof -
  obtain covered w1 where c: "closure_snapshot_ids e root w = (Inr covered, w1)" by (simp add: closure_snapshot_ids_def)
  obtain w2 where s: "io_map_err (\<lambda>_. NotFinished) (save_mirror_state e (mirror_codec e) (sr_state_dir rq)
         \<lparr>ms_version = MIRROR_STATE_VERSION, ms_finished_at_unix = sr_now_unix rq, ms_mirror_of = sr_mirror_of rq,
          ms_closure_complete = covered, ms_snapshots_on_remote = rp_snapshots_remote rep,
          ms_remote_total_bytes = rp_remote_total_bytes rep\<rparr>) w1 = (Inr (), w2)"
    using calm_save [OF assms(1) assms(3) [rule_format]] unfolding save_mirror_state_def io_map_err_Inr by blast
  obtain w3 where p: "write_progress e rq (rep\<lparr>rp_missing_bytes_remaining := 0, rp_covered_snapshots := length covered\<rparr>)
      ProgressComplete w2 = (Inr (), w3)" using calm_progress [OF assms(1,2)] by blast
  have "complete_round e rq root rep w =
      (Inr (rep\<lparr>rp_missing_bytes_remaining := 0, rp_covered_snapshots := length covered\<rparr>, Completed), w3)"
    by (simp add: complete_round_def io_bind_def Let_def c s p io_return_def)
  then show ?thesis by blast
qed

lemma size_sum_part: "planned_sizes (map fst (filter P (zip xs ys))) \<le> planned_sizes xs"
proof (induction xs arbitrary: ys)
  case (Cons x xs)
  have "planned_sizes (map fst (filter P (zip xs zs))) \<le> planned_sizes xs" for zs using Cons.IH .
  then show ?case by (cases ys) (auto simp: planned_sizes_def intro: le_SucI trans_le_add2 add_mono)
qed (simp add: planned_sizes_def)

lemma traverse_total: "(\<And>x w. \<exists>y w1. f x w = (Inr y, w1)) \<Longrightarrow> \<exists>ys w1. io_traverse f xs w = (Inr ys, w1)"
proof (induction xs arbitrary: w)
  case (Cons x xs)
  obtain y w1 where "f x w = (Inr y, w1)" using Cons.prems by blast
  moreover obtain ys w2 where "io_traverse f xs w1 = (Inr ys, w2)" using Cons by blast
  ultimately show ?case by (simp add: io_bind_def io_return_def)
qed (simp add: io_return_def)

lemma calm_round:
  assumes "calm e" and "names_ok e" and "\<forall>t k. remote_list e t k = Some (listing k)" and "length (listing ConfigFile) = 1"
    and "\<forall>x \<in> set (planned_of listing). good_file e (sr_min_free_bytes rq) x"
    and "\<forall>t. \<exists>n. free_space e t = Some n \<and> planned_sizes (planned_of listing) + sr_min_free_bytes rq \<le> n"
    and "\<forall>st. put_state (progress_codec e) st \<noteq> None" and "\<forall>st. put_state (mirror_codec e) st \<noteq> None"
    and "trim (sr_mirror_of rq) \<noteq> []" and "sr_gib_valid rq"
    and "list_all (\<lambda>seg. set seg = {..<MIRROR_CONNECTIONS}) (segs1 @ segs2)"
    and "15 * (length (planned_of listing) + 2) \<le> min (length segs1) (length segs2)"
  shows "\<exists>rep w' rep1 w1. sync_once e rq (concat segs1) (concat segs2) w = (Inr (rep, Completed), w') \<and>
    complete_round e rq (round_root rq) rep1 w1 = (Inr (rep, Completed), w') \<and> rp_torn_files rep = 0 \<and>
    rp_present_files rep + rp_downloaded_files rep = length (planned_of listing)"
proof -
  let ?root = "round_root rq" and ?pl = "planned_of listing"
  obtain w1 where l: "list_destination e w = (Inr ?pl, w1)" using calm_listing assms(3) by blast
  note one = planned_configs [of listing, unfolded assms(4)]
  have q: "queue_ok ?root ?pl" using listing_queue_ok [OF list_destination_ok [OF assms(2) l]] one by simp
  obtain w2 where t: "touch e NotFinished w1 = (Inr (), w2)" using assms(1) by (auto simp: file_simps calm_def)
  have "filter (\<lambda>x. pf_kind x = ConfigFile) ?pl \<noteq> []" using one by (metis list.size(3) zero_neq_one)
  then have "find (\<lambda>x. pf_kind x = ConfigFile) ?pl \<noteq> None" by (auto simp: find_None_iff filter_empty_conv)
  then obtain x where x: "find (\<lambda>x. pf_kind x = ConfigFile) ?pl = Some x" by blast
  have "x \<in> set ?pl" "pf_kind x = ConfigFile" using find_SomeD [OF x] by blast+
  then obtain bs where "remote_read e (clock w2) ConfigFile (pf_hex x) = Some bs" using assms(5) unfolding good_file_def by metis
  then obtain w3 where cfg: "read_config e ?pl w2 = (Inr (Some bs), w3)" by (simp add: read_config_def x)
  have "\<exists>y w'. check_present e ?root (Some bs) z v = (Inr y, w')" for z v
    by (auto simp: check_present_def split: prod.splits sum.splits)
  then obtain present w4 where pr: "io_traverse (check_present e ?root (Some bs)) ?pl w3 = (Inr present, w4)"
    using traverse_total by metis
  have len: "length present = length ?pl" by (rule traverse_length [OF pr])
  define walk where "walk = Some (walk_of ?root (map (local_path ?root) ?pl) (files w4))"
  define rep0 where "rep0 = report_before rq ?pl present walk"
  have run: "sync_once e rq (concat segs1) (concat segs2) w = start_round e rq ?root ?pl present (concat segs1) (concat segs2) w4"
    using assms(9,10) one by (simp add: sync_once_def Let_def io_bind_def l t cfg pr)
  obtain w5 where wk: "count_unlisted e ?root (map (local_path ?root) ?pl) w4 = (Inr walk, w5)"
    using assms(1) by (simp add: count_unlisted_def calm_def walk_def)
  obtain n where n: "free_space e (clock w5) = Some n" "planned_sizes ?pl + sr_min_free_bytes rq \<le> n" using assms(6) by blast
  obtain w6 where fr: "ask_free e w5 = (Inr (Inr n), w6)" using n(1) by (simp add: ask_free_def free_bytes_def)
  let ?q = "queue_of ?pl present"
  have room: "\<not> n < min u64_max (rp_missing_bytes_remaining rep0 + sr_min_free_bytes rq)"
  proof -
    have "rp_missing_bytes_remaining rep0 \<le> planned_sizes ?pl" using size_sum_part by (simp add: rep0_def report_before_def Let_def)
    then show ?thesis using n(2) by linarith
  qed
  have start: "start_round e rq ?root ?pl present (concat segs1) (concat segs2) w4 =
      copy_round e rq ?root ?pl ?q rep0 walk (concat segs1) (concat segs2) w6"
    unfolding start_round_def io_bind_run [where m = "count_unlisted e ?root (map (local_path ?root) ?pl)", OF wk]
      io_bind_run [where m = "ask_free e", OF fr] Let_def sum.case rep0_def [symmetric] if_not_P [OF room] ..
  have qq: "queue_ok ?root ?q" by (rule queue_of_ok [OF q])
  have ql: "length ?q \<le> length ?pl"
    using length_filter_le [of "\<lambda>(x, p). \<not> p" "zip ?pl present"] by (simp add: queue_of_def)
  have "fst (copy_all e (sr_min_free_bytes rq) ?root ?q (concat segs1) (concat segs2) w6)"
    using assms(11,12) ql by (intro copy_all_ends [OF qq]) auto
  then obtain c where c: "copy_all e (sr_min_free_bytes rq) ?root ?q (concat segs1) (concat segs2) w6 = (True, c)"
    by (metis prod.collapse)
  have good: "\<forall>x \<in> set ?q. good_file e (sr_min_free_bytes rq) x" using assms(5) by (auto simp: set_queue_of)
  have stop: "cs_stop c = None" "cs_torn c = 0"
    using calm_copy [OF assms(1) qq good, of "concat segs1" "concat segs2" w6] by (simp_all add: c)
  have all: "cs_files c = length ?q" using copy_all_drained [OF qq queue_of_sorted c stop(1)] stop(2) by simp
  obtain disk w7 where d: "final_walk e ?root (map (local_path ?root) ?pl) walk c (cs_world c) = (Inr disk, w7)"
    by (cases "walk \<noteq> None \<and> cs_files c = 0") (auto simp: final_walk_def io_return_def count_unlisted_def)
  define rep where "rep = rep0\<lparr>rp_downloaded_files := cs_files c, rp_downloaded_bytes := cs_bytes c,
            rp_missing_bytes_remaining := rp_missing_bytes_remaining rep0 - cs_bytes c,
            rp_downloaded_bytes_on_disk := map_option mw_listed_bytes disk,
            rp_downloaded_files_on_disk := map_option mw_listed_files disk,
            rp_torn_files := cs_torn c, rp_torn_bytes := cs_torn_bytes c\<rparr>"
  obtain k w8 where e: "complete_round e rq ?root rep w7 =
      (Inr (rep\<lparr>rp_missing_bytes_remaining := 0, rp_covered_snapshots := k\<rparr>, Completed), w8)"
    using calm_complete [OF assms(1,7,8)] by blast
  have "copy_round e rq ?root ?pl ?q rep0 walk (concat segs1) (concat segs2) w6 =
      after_copy e rq ?root (length ?q) rep0 c disk w7"
    by (simp add: copy_round_def c io_bind_run [where m = "final_walk e ?root (map (local_path ?root) ?pl) walk c", OF d])
  also have "\<dots> = complete_round e rq ?root rep w7" by (simp add: after_copy_def Let_def stop all rep_def)
  finally have res: "sync_once e rq (concat segs1) (concat segs2) w =
      (Inr (rep\<lparr>rp_missing_bytes_remaining := 0, rp_covered_snapshots := k\<rparr>, Completed), w8)" by (simp add: run start e)
  have "length (filter snd (zip ?pl present)) + length (filter (\<lambda>(x, p). \<not> p) (zip ?pl present)) = length ?pl"
    using sum_length_filter_compl [of snd "zip ?pl present"] len by (simp add: case_prod_beta')
  then have "rp_present_files rep + rp_downloaded_files rep = length ?pl"
    by (simp add: rep_def all rep0_def report_before_def Let_def queue_of_def)
  moreover have "rp_torn_files rep = 0" by (simp add: rep_def stop(2))
  ultimately show ?thesis using res e by (intro exI conjI) (rule res, rule e, simp_all)
qed

lemma good_not_torn: "good_file e m x \<Longrightarrow> \<not> served_torn e x"
  by (auto simp: good_file_def served_torn_def misnamed_def) (metis option.inject)

text \<open>C17: an undisturbed round completes. When no file operation fails, the deadline is far, the volume has room and the
  destination, with one config file, keeps listing the same files and serves each with bytes its name vouches for, then under
  every fair schedule the round completes, the mirror holds every listed file, nothing is skipped, and what was present and
  what was copied make up the listing.\<close>

theorem undisturbed_round_fills_mirror:
  assumes "calm e" and "names_ok e" and "\<forall>t k. remote_list e t k = Some (listing k)" and "length (listing ConfigFile) = 1"
    and "\<forall>x \<in> set (planned_of listing). good_file e (sr_min_free_bytes rq) x"
    and "\<forall>t. \<exists>n. free_space e t = Some n \<and> planned_sizes (planned_of listing) + sr_min_free_bytes rq \<le> n"
    and "\<forall>st. put_state (progress_codec e) st \<noteq> None" and "\<forall>st. put_state (mirror_codec e) st \<noteq> None"
    and "trim (sr_mirror_of rq) \<noteq> []" and "sr_gib_valid rq"
    and "list_all (\<lambda>seg. set seg = {..<MIRROR_CONNECTIONS}) (segs1 @ segs2)"
    and "15 * (length (planned_of listing) + 2) \<le> min (length segs1) (length segs2)"
    and "\<not> prefix (round_root rq) (sr_state_dir rq)"
  shows "\<exists>rep w'. sync_once e rq (concat segs1) (concat segs2) w = (Inr (rep, Completed), w') \<and>
    (\<forall>x \<in> set (planned_of listing). held_file e (round_root rq) (files w') x) \<and> rp_torn_files rep = 0 \<and>
    rp_present_files rep + rp_downloaded_files rep = length (planned_of listing)"
proof -
  from calm_round [OF assms(1-12), of w] obtain rep w' where run: "sync_once e rq (concat segs1) (concat segs2) w = (Inr (rep, Completed), w')"
    and counts: "rp_torn_files rep = 0" "rp_present_files rep + rp_downloaded_files rep = length (planned_of listing)"
    by blast
  have "fst (list_destination e w) = Inr (planned_of listing)" using calm_listing [of e listing w] assms(3) by auto
  then have "\<forall>x \<in> set (planned_of listing). held_file e (round_root rq) (files w') x \<or> torn_out e (round_root rq) (files w') x"
    using sync_once_effect [OF run assms(2,13)] by auto
  then show ?thesis using run counts good_not_torn assms(5) by (fastforce simp: torn_out_def)
qed

section \<open>A concrete destination\<close>

text \<open>One file of each kind, all under the one name that the constant digest gives. The codec writes the fields as
  escaped pieces.\<close>

fun esc :: "string \<Rightarrow> string" where
  "esc [] = ''.''"
| "esc (c # s) = CHR ''c'' # c # esc s"

fun unesc :: "string \<Rightarrow> string \<Rightarrow> string list" where
  "unesc acc (a # c # r) = (if a = CHR ''c'' then unesc (acc @ [c]) r else acc # unesc [] (c # r))"
| "unesc acc [a] = [acc]"
| "unesc acc [] = []"

lemma unesc_esc: "unesc acc (esc s @ r) = (acc @ s) # unesc [] r"
proof (induction s arbitrary: acc)
  case Nil
  then show ?case by (cases r) simp_all
qed simp

lemma unesc_all: "unesc [] (concat (map esc xs)) = xs"
  by (induction xs) (simp_all add: unesc_esc)

definition demo_mirror_codec :: "mirror_state state_codec" where
  "demo_mirror_codec = \<lparr>put_state = (\<lambda>st. Some (concat (map esc ([dec (ms_version st), dec (ms_finished_at_unix st), ms_mirror_of st,
       dec (ms_snapshots_on_remote st), dec (ms_remote_total_bytes st)] @ ms_closure_complete st)))),
     get_state = (\<lambda>raw. case unesc [] raw of
         v # t # name # n # b # ids \<Rightarrow> Some \<lparr>ms_version = undec v, ms_finished_at_unix = undec t, ms_mirror_of = name,
           ms_closure_complete = ids, ms_snapshots_on_remote = undec n, ms_remote_total_bytes = undec b\<rparr>
       | _ \<Rightarrow> None)\<rparr>"

lemma demo_mirror_codec_ok: "codec_ok demo_mirror_codec st"
proof -
  have "unesc [] (concat (map esc ([dec (ms_version st), dec (ms_finished_at_unix st), ms_mirror_of st,
       dec (ms_snapshots_on_remote st), dec (ms_remote_total_bytes st)] @ ms_closure_complete st))) =
    [dec (ms_version st), dec (ms_finished_at_unix st), ms_mirror_of st,
       dec (ms_snapshots_on_remote st), dec (ms_remote_total_bytes st)] @ ms_closure_complete st" by (rule unesc_all)
  then show ?thesis by (simp add: codec_ok_def demo_mirror_codec_def)
qed

definition demo_name :: string where
  "demo_name = hex (replicate 32 (CHR 0x00))"

lemma demo_name_valid: "valid_id demo_name"
  by code_simp

definition demo_syncenv :: syncenv where
  "demo_syncenv = \<lparr>fault = (\<lambda>_. False), torn = (\<lambda>_. 0), sha256 = (\<lambda>_. replicate 32 (CHR 0x00)), enc_fact = (\<lambda>_. None), dec_fact = (\<lambda>_. None),
     temp_dir = [], stage_root = [], ancestors = (\<lambda>_. []), pack_read = (\<lambda>_ _ _ _. None), aead_open = (\<lambda>_ _. None),
     zstd_all = (\<lambda>_. None), remote_list = (\<lambda>t k. Some [(demo_name, 1)]),
     remote_read = (\<lambda>t k h. if h = demo_name then Some ''x'' else None), deadline_passed = (\<lambda>_. False), free_space = (\<lambda>_. Some 1000),
     opens_config = (\<lambda>_. True), index_names = (\<lambda>_. Some ([demo_name], [])),
     mirror_codec = demo_mirror_codec, progress_codec = \<lparr>put_state = (\<lambda>_. Some []), get_state = (\<lambda>_. None)\<rparr>\<rparr>"

definition demo_sync_request :: sync_request where
  "demo_sync_request = \<lparr>sr_mirror_of = ''box'', sr_gib_valid = True, sr_data_root = [''d''], sr_state_dir = [''s''],
     sr_now_unix = 0, sr_min_free_bytes = 0\<rparr>"

definition demo_turns :: "nat list list" where
  "demo_turns = replicate 105 [0, 1]"

definition demo_empty :: world where
  "demo_empty = \<lparr>files = [], clock = 0\<rparr>"

definition demo_result :: "(sync_error + sync_report \<times> sync_outcome) \<times> world" where
  "demo_result = sync_once demo_syncenv demo_sync_request (concat demo_turns) (concat demo_turns) demo_empty"

lemma demo_setup:
  "calm demo_syncenv" "names_ok demo_syncenv" "\<forall>t k. remote_list demo_syncenv t k = Some [(demo_name, 1)]"
  "length [(demo_name, 1::nat)] = 1"
  "\<forall>x \<in> set (planned_of (\<lambda>_. [(demo_name, 1)])). good_file demo_syncenv (sr_min_free_bytes demo_sync_request) x"
  "\<forall>t. \<exists>n. free_space demo_syncenv t = Some n \<and> planned_sizes (planned_of (\<lambda>_. [(demo_name, 1)])) + sr_min_free_bytes demo_sync_request \<le> n"
  "\<forall>st. put_state (progress_codec demo_syncenv) st \<noteq> None" "\<forall>st. put_state (mirror_codec demo_syncenv) st \<noteq> None"
  "trim (sr_mirror_of demo_sync_request) \<noteq> []" "sr_gib_valid demo_sync_request"
  "list_all (\<lambda>seg. set seg = {..<MIRROR_CONNECTIONS}) (demo_turns @ demo_turns)"
  "15 * (length (planned_of (\<lambda>_. [(demo_name, 1)])) + 2) \<le> min (length demo_turns) (length demo_turns)"
  "\<not> prefix (round_root demo_sync_request) (sr_state_dir demo_sync_request)"
proof -
  show "calm demo_syncenv" by (simp add: calm_def demo_syncenv_def)
  show "names_ok demo_syncenv" using demo_name_valid by (auto simp: names_ok_def demo_syncenv_def)
  show "\<forall>t k. remote_list demo_syncenv t k = Some [(demo_name, 1)]" by (simp add: demo_syncenv_def)
  show "length [(demo_name, 1::nat)] = 1" by simp
  show "\<forall>x \<in> set (planned_of (\<lambda>_. [(demo_name, 1)])). good_file demo_syncenv (sr_min_free_bytes demo_sync_request) x"
    by (simp add: planned_of_def LISTED_KINDS_def good_file_def demo_syncenv_def demo_sync_request_def MAX_WHOLE_FILE_BYTES_def
        name_verified_def demo_name_def)
  show "\<forall>t. \<exists>n. free_space demo_syncenv t = Some n \<and> planned_sizes (planned_of (\<lambda>_. [(demo_name, 1)])) + sr_min_free_bytes demo_sync_request \<le> n"
    by (simp add: planned_of_def LISTED_KINDS_def demo_syncenv_def demo_sync_request_def planned_sizes_def)
  show "\<forall>st. put_state (progress_codec demo_syncenv) st \<noteq> None" "\<forall>st. put_state (mirror_codec demo_syncenv) st \<noteq> None"
    by (simp_all add: demo_syncenv_def demo_mirror_codec_def)
  show "trim (sr_mirror_of demo_sync_request) \<noteq> []" by code_simp
  show "sr_gib_valid demo_sync_request" by (simp add: demo_sync_request_def)
  show "list_all (\<lambda>seg. set seg = {..<MIRROR_CONNECTIONS}) (demo_turns @ demo_turns)"
    by (auto simp: demo_turns_def list_all_iff MIRROR_CONNECTIONS_def)
  show "15 * (length (planned_of (\<lambda>_. [(demo_name, 1)])) + 2) \<le> min (length demo_turns) (length demo_turns)"
    by (simp add: planned_of_def LISTED_KINDS_def demo_turns_def)
  show "\<not> prefix (round_root demo_sync_request) (sr_state_dir demo_sync_request)"
    by (simp add: demo_sync_request_def mirror_dir_def copies_dir_def)
qed

lemma calm_record:
  assumes "calm e" "\<not> prefix (round_root rq) (sr_state_dir rq)" "complete_round e rq (round_root rq) rep w = (Inr (rep', Completed), w')"
  shows "same_below (round_root rq) (files w) (files w') \<and> (\<exists>st raw. put_state (mirror_codec e) st = Some raw \<and>
    map_of (files w') (mirror_state_path (sr_state_dir rq)) = Some raw \<and> ms_version st = MIRROR_STATE_VERSION \<and>
    ms_mirror_of st = sr_mirror_of rq \<and> ms_closure_complete st = closure_of e (round_root rq) (files w))"
proof -
  obtain w1 where c: "closure_snapshot_ids e (round_root rq) w = (Inr (closure_of e (round_root rq) (files w)), w1)"
    using assms(1) by (simp add: closure_snapshot_ids_def calm_def)
  define st where "st = \<lparr>ms_version = MIRROR_STATE_VERSION, ms_finished_at_unix = sr_now_unix rq, ms_mirror_of = sr_mirror_of rq,
          ms_closure_complete = closure_of e (round_root rq) (files w), ms_snapshots_on_remote = rp_snapshots_remote rep,
          ms_remote_total_bytes = rp_remote_total_bytes rep\<rparr>"
  obtain u w2 out where s: "save_mirror_state e (mirror_codec e) (sr_state_dir rq) st w1 = (Inr u, w2)"
    "write_progress e rq out ProgressComplete w2 = (Inr (), w')"
    using assms(3) unfolding complete_round_def io_bind_run [where m = "closure_snapshot_ids e (round_root rq)", OF c] st_def
    by (auto simp: io_bind_Inr io_return_Inr io_map_err_Inr Let_def)
  obtain raw where "put_state (mirror_codec e) st = Some raw" "map_of (files w2) (mirror_state_path (sr_state_dir rq)) = Some raw"
    using save_mirror_result [OF s(1)] by auto
  moreover note progress_frame [OF assms(2) s(2)] complete_round_record [OF assms(2,3)]
  ultimately show ?thesis by (intro conjI exI [of _ st]) (auto simp: st_def)
qed

lemma demo_completes: "\<exists>rep w' rep1 w1. demo_result = (Inr (rep, Completed), w') \<and>
    complete_round demo_syncenv demo_sync_request (round_root demo_sync_request) rep1 w1 = (Inr (rep, Completed), w')"
  using calm_round [OF demo_setup(1-12), of demo_empty] unfolding demo_result_def by blast

lemma demo_closure:
  assumes "\<And>k. held_file demo_syncenv root f \<lparr>pf_kind = k, pf_hex = demo_name, pf_size = 1\<rparr>"
  shows "demo_name \<in> set (closure_of demo_syncenv root f)"
proof -
  have at: "map_of f (local_path root \<lparr>pf_kind = k, pf_hex = demo_name, pf_size = 1\<rparr>) \<noteq> None" for k
    using assms [of k] by (auto simp: held_file_def)
  have "map_of f (root @ [''config'']) \<noteq> None" using at [of ConfigFile] by (simp add: local_path_def)
  moreover have "those (map (\<lambda>p. Some [demo_name]) xs) = Some (map (\<lambda>p. [demo_name]) xs)" for xs :: "path list"
    by (induction xs) simp_all
  ultimately have i: "index_set_of demo_syncenv root f = Some (concat (map (\<lambda>p. [demo_name]) (repo_files root IndexFile f)))"
    by (auto simp: index_set_of_def demo_syncenv_def)
  define named where "named = concat (map (\<lambda>p. [demo_name]) (repo_files root IndexFile f))"
  have n: "index_set_of demo_syncenv root f = Some named" "set named \<subseteq> {demo_name}" using i by (auto simp: named_def)
  have here: "demo_name \<in> last ` set (repo_files root k f)" if "k \<noteq> ConfigFile" for k
  proof (rule image_eqI)
    show "demo_name = last (local_path root \<lparr>pf_kind = k, pf_hex = demo_name, pf_size = 1\<rparr>)" using that by (simp add: last_local)
    then show "local_path root \<lparr>pf_kind = k, pf_hex = demo_name, pf_size = 1\<rparr> \<in> set (repo_files root k f)"
      using at [of k] demo_name_valid that unfolding repo_files_iff
      by (cases k) (auto simp: local_path_def strict_prefix_def)
  qed
  have p: "demo_name \<in> last ` set (repo_files root PackFile f)" by (rule here) simp
  have "demo_name \<in> last ` set (repo_files root SnapshotFile f)" by (rule here) simp
  then show ?thesis using n p by (auto simp: closure_of_def list_all_iff)
qed

lemma demo_covered: "snapshot_covered (mirror_record demo_syncenv demo_sync_request (files (snd demo_result))) (sr_mirror_of demo_sync_request) demo_name"
proof -
  let ?root = "round_root demo_sync_request"
  obtain rep w' rep1 w1 where run: "demo_result = (Inr (rep, Completed), w')"
    "complete_round demo_syncenv demo_sync_request ?root rep1 w1 = (Inr (rep, Completed), w')" using demo_completes by blast
  obtain st raw where st: "put_state (mirror_codec demo_syncenv) st = Some raw"
    "map_of (files w') (mirror_state_path (sr_state_dir demo_sync_request)) = Some raw" "ms_version st = MIRROR_STATE_VERSION"
    "ms_mirror_of st = sr_mirror_of demo_sync_request" "ms_closure_complete st = closure_of demo_syncenv ?root (files w1)"
    and sb: "same_below ?root (files w1) (files w')"
    using calm_record [OF demo_setup(1,13) run(2)] by blast
  have "codec_ok (mirror_codec demo_syncenv) st" using demo_mirror_codec_ok by (simp add: demo_syncenv_def)
  then have rec: "mirror_record demo_syncenv demo_sync_request (files w') = StatePresent st"
    using st(1-3) by (simp add: mirror_record_def peek_state_def classify_state_def codec_ok_def)
  have l: "fst (list_destination demo_syncenv demo_empty) = Inr (planned_of (\<lambda>_. [(demo_name, 1)]))"
    using calm_listing [of demo_syncenv "\<lambda>_. [(demo_name, 1)]" demo_empty] demo_setup(3) by auto
  have "\<forall>x \<in> set (planned_of (\<lambda>_. [(demo_name, 1)])). held_file demo_syncenv ?root (files w') x \<or> torn_out demo_syncenv ?root (files w') x"
    using sync_once_effect [OF run(1) [unfolded demo_result_def] demo_setup(2,13)] l by auto
  then have held: "\<forall>x \<in> set (planned_of (\<lambda>_. [(demo_name, 1)])). held_file demo_syncenv ?root (files w') x"
    using good_not_torn demo_setup(5) by (fastforce simp: torn_out_def)
  have "same_below ?root (files w') (files w1)" using sb by (simp add: same_below_def)
  then have "held_file demo_syncenv ?root (files w1) \<lparr>pf_kind = k, pf_hex = demo_name, pf_size = 1\<rparr>" for k
    using held by (cases k) (auto simp: planned_of_def LISTED_KINDS_def intro: held_same)
  from demo_closure [OF this] show ?thesis unfolding run(1) snd_conv rec snapshot_covered.simps st(4,5) by blast
qed

section \<open>Witnesses\<close>

theorem undisturbed_round_fills_mirror_witness:
  "\<exists>rep w'. sync_once demo_syncenv demo_sync_request (concat demo_turns) (concat demo_turns) demo_empty = (Inr (rep, Completed), w') \<and>
    rp_downloaded_files rep + rp_present_files rep = 5"
proof -
  have "length (planned_of (\<lambda>_. [(demo_name, 1)])) = 5" by (simp add: planned_of_def LISTED_KINDS_def)
  with undisturbed_round_fills_mirror [OF demo_setup, of demo_empty] show ?thesis by (metis add.commute)
qed

theorem mirror_holds_only_verified_witness:
  "map_of (files (snd (sync_once demo_syncenv demo_sync_request [0, 1, 0] [] demo_empty)))
       (round_root demo_sync_request @ [''index'', demo_name]) = None \<or>
    (\<exists>x bs t. round_root demo_sync_request @ [''index'', demo_name] = local_path (round_root demo_sync_request) x \<and>
       map_of (files (snd (sync_once demo_syncenv demo_sync_request [0, 1, 0] [] demo_empty)))
         (round_root demo_sync_request @ [''index'', demo_name]) = Some bs \<and>
       remote_read demo_syncenv t (pf_kind x) (pf_hex x) = Some bs \<and>
       (pf_kind x = ConfigFile \<or> hex (sha256 demo_syncenv bs) = pf_hex x))"
proof -
  have a: "strict_prefix (round_root demo_sync_request) (round_root demo_sync_request @ [''index'', demo_name])"
    by (simp add: strict_prefix_def)
  have b: "\<not> is_torn_write_tmp (last (round_root demo_sync_request @ [''index'', demo_name]))"
    using local_not_tmp [of "\<lparr>pf_kind = IndexFile, pf_hex = demo_name, pf_size = 1\<rparr>" "[]"] demo_name_valid
    by (simp add: local_path_def)
  have "map_of (files demo_empty) (round_root demo_sync_request @ [''index'', demo_name]) = None" by (simp add: demo_empty_def)
  with mirror_holds_only_verified [OF demo_setup(2,13) a b, of "[0, 1, 0]" "[]" demo_empty] show ?thesis by metis
qed

theorem completed_round_settles_listing_witness:
  "\<exists>planned. fst (list_destination demo_syncenv demo_empty) = Inr planned \<and>
    (\<forall>x \<in> set planned. held_file demo_syncenv (round_root demo_sync_request) (files (snd demo_result)) x \<or>
       torn_out demo_syncenv (round_root demo_sync_request) (files (snd demo_result)) x)"
proof -
  obtain rep w' where "demo_result = (Inr (rep, Completed), w')" using demo_completes by blast
  with completed_round_settles_listing [OF _ demo_setup(2,13)] show ?thesis unfolding demo_result_def by (metis snd_conv)
qed


theorem round_comes_to_its_end_witness:
  "fst (sync_once demo_syncenv demo_sync_request (concat demo_turns) (concat demo_turns) demo_empty) \<noteq> Inl Killed"
proof (rule round_comes_to_its_end [OF demo_setup(2,13,11)])
  fix planned
  assume "fst (list_destination demo_syncenv demo_empty) = Inr planned"
  then have "planned = planned_of (\<lambda>_. [(demo_name, 1)])"
    using calm_listing [of demo_syncenv "\<lambda>_. [(demo_name, 1)]" demo_empty] demo_setup(3) by auto
  then show "15 * (length planned + 2) \<le> min (length demo_turns) (length demo_turns)" using demo_setup(12) by simp
qed

section \<open>A stopped round that counts a file twice\<close>

text \<open>Two files: the first cannot be read, the second can. The worker of the first has given its claim back but not yet
  recorded the stop, while the other worker, done with the second file, claims its position again.\<close>

definition twice_env :: syncenv where
  "twice_env = demo_syncenv\<lparr>sha256 := (\<lambda>_. [CHR 0x00]), remote_read := (\<lambda>t k h. if h = ''00'' then Some ''x'' else None)\<rparr>"

definition twice_queue :: "planned_file list" where
  "twice_queue = [\<lparr>pf_kind = PackFile, pf_hex = ''11'', pf_size = 1\<rparr>, \<lparr>pf_kind = PackFile, pf_hex = ''00'', pf_size = 1\<rparr>]"

definition twice_schedule :: "nat list" where
  "twice_schedule = [0, 1, 0, 0, 0, 0, 1, 1, 1, 1, 1, 1, 1, 1, 1, 1, 1, 1, 1, 1, 1, 1, 1, 1, 1, 1, 1, 1, 0, 1, 1]"

lemma hex_zero: "hex [CHR 0x00] = ''00''"
  by code_simp

lemma stopped_round_counts_twice:
  "\<exists>c. copy_phase twice_env 0 [] twice_queue twice_schedule (copy_start demo_empty) = (True, c) \<and>
     cs_stop c = Some (Pause RemoteRead) \<and> cs_files c = 2 \<and> map fst (files (cs_world c)) = [local_path [] (twice_queue ! 1)]"
  by (simp add: copy_phase_def all_ended_def run_workers_def twice_schedule_def phase_start_def copy_start_def MIRROR_CONNECTIONS_def
    worker_step_def twice_queue_def twice_env_def demo_syncenv_def demo_empty_def round_end_of_def free_bytes_def tick_def
    fetch_step_def MAX_WHOLE_FILE_BYTES_def name_verified_def hex_zero file_step_def file_simps tmp_path_def local_path_def numeral_2_eq_2)

end
