(* ===== verification/Spec2Isabelle.thy ===== *)
theory Spec2Isabelle
  imports Stage_Props Shard_Replay Opencode_Export Manifest_Spec State_Files_Spec Verify_Spec Remote_Err Reclaim_Props Deletion_Archive Collect_Props Packcheck_Spec Mirror_Props
begin

text \<open>
  chat-stasher keeps conversations of coding assistants and chat sites in an append-only archive.
  A collector on every machine writes new turns as numbered shard files into a local \<open>stage\<close>; \<open>push\<close>
  snapshots the stage into one or more destinations (repositories of the vendored backup library
  \<open>rustic_core\<close>); readers put the sessions of all machines together again; \<open>verify\<close> compares a
  destination with what the stage expects; and \<open>reclaim\<close> deletes bodies from the stage once every
  healthy destination has proven that it holds them. The development models the parts that decide
  whether anything can be lost, shown wrongly or deleted too early. All source names below are
  files of \<open>src/crates/chat-stasher/src\<close>.

  Foundations.
  \<^item> \<open>Prelude\<close>: bytes and text (a Rust string is the list of its bytes), results as sums, the
    effectful operation \<open>io\<close> over an explicit state, files with injected faults, decimal numbers,
    hexadecimal digests, trimming, lines and UTF-8. A tree of files is an association list; every
    file operation advances a clock and a schedule decides at which ticks it fails, a failing write
    leaving a prefix. Statements over all schedules cover every pattern of failures and a process
    that is killed at any point. \<open>valid\<close> is the Hoare triple with one postcondition per exit.
  \<^item> \<open>Ordered_Map\<close>: the interface of \<open>BTreeMap\<close> as a locale, implemented by ascending lists.
  \<^item> \<open>File_Relation\<close>: the locale \<open>file_relation\<close> of relations on files that operations respect on every
    exit, interpreted for reading only, for confinement to paths, and for writes that are absent.
  \<^item> \<open>Last_Writer\<close>: logs in which the last event about a key decides, as a locale.
  \<^item> \<open>Json\<close>: JSON values, with the serialiser and parser as parameters.

  Components.
  \<^item> \<open>Identity_Guard\<close> (test_identity_guard.rs): reserved test identities are refused outside the
    temporary directory.
  \<^item> \<open>Stage_Shards\<close>, \<open>Stage_Names\<close>, \<open>Stage_Safety\<close>, \<open>Stage_Writer\<close>, \<open>Stage_Spec\<close>, \<open>Stage_Props\<close>
    (store.rs, shard_writer.rs, shard_facts.rs): names and buckets of shards, the sequence counter
    with its derivation from existing shards, the duplicate check, the installation of a shard from
    memory or from an active file, and the digest record. \<open>Stage_Names\<close> shows that names and numbers
    determine each other, \<open>Stage_Safety\<close> the invariants of a shard directory and which steps keep
    them, \<open>Stage_Writer\<close> the triples of the writer's steps, \<open>Stage_Spec\<close> the abstract state (numbered
    bodies and the concatenated session), \<open>Stage_Props\<close> the properties.
  \<^item> \<open>Shard_Replay\<close> (store.rs): the reader's recognition of sequences of shards that were sealed twice
    on different stages, and the fold that drops only proven copies.
  \<^item> \<open>Opencode_Records\<close>, \<open>Opencode_Spec\<close>, \<open>Opencode_Export\<close> (opencode_records.rs, sidecar.rs): records
    of a snapshot source, the two line formats, the assembly that all readers share, and the export
    it composes; that it is a last-version-per-record fold, and byte-equal to a fresh export.
  \<^item> \<open>Manifest\<close>, \<open>Manifest_Spec\<close> (manifest.rs, store.rs, collect.rs): per-session summaries, derived
    from bodies, stored atomically, read back and compared.
  \<^item> \<open>State_Files\<close>, \<open>State_Files_Spec\<close> (pushstate.rs, reclaimstate.rs, mirrorstate.rs, destdiag.rs): the
    durable records of pushes, reclaim attempts and mirror rounds, and the health of a destination
    derived from them. The locale \<open>durable_record\<close> holds the laws of such a file.
  \<^item> \<open>Verify\<close>, \<open>Verify_Spec\<close> (verify.rs, readback.rs): the survey of the stage, the expected rows, the
    verdict per session and the search for shards sealed twice.
  \<^item> \<open>Remote_Err\<close> (remote_err.rs): the kinds of remote failure and the host and port of an endpoint.
  \<^item> \<open>Reclaim\<close>, \<open>Reclaim_Frame\<close>, \<open>Reclaim_Body\<close>, \<open>Reclaim_Spec\<close>, \<open>Reclaim_Props\<close> (stagereclaim.rs, collect.rs):
    the proof by the destinations, the mirror leg, the increment maps, the refreshed summaries and the
    deletion. \<open>Reclaim_Frame\<close> says which of these operations
    only read and which are confined to a set of paths; \<open>Reclaim_Body\<close> the deletion of one session and its life with the writer
    as an inductive history; \<open>Reclaim_Spec\<close> the shape of a whole run.
  \<^item> \<open>Deletion_Control\<close>, \<open>Deletion_Spec\<close>, \<open>Deletion_Props\<close>, \<open>Deletion_Archive\<close> (deletion_control.rs, the hide and
    unhide commands of main.rs, paths and snapshot order of readback.rs): the records, their stream and
    its durable append, the folded policy, the policy of an archive and the preview of a purge.
    \<open>Deletion_Spec\<close> shows what a policy says about a session, \<open>Deletion_Props\<close> what the commands do to the
    stream under faults, \<open>Deletion_Archive\<close> which streams of an archive count.
  \<^item> \<open>Prefix_Cover\<close>, \<open>Prefix_Cover_Spec\<close> (collect.rs): complete lines and their frames, the test that an export is
    the tail of the stage, and the matcher that finds the longest prefix of a source among the lines of
    the stage; that the matcher returns, stays in range and equals the plain definition.
  \<^item> \<open>Hash_Cache\<close> (hashcache.rs): digests remembered by file identity.
  \<^item> \<open>Debt\<close>, \<open>Debt_Spec\<close>, \<open>Debt_Props\<close> (collect.rs): the set of shards a stored read position answers for and
    how the stage, a retained summary or an archive proves it. \<open>Debt_Spec\<close> gives the numbered bodies of a
    directory (\<open>shards_of\<close>) and the locale \<open>truthful_cache\<close> of what the readers need of a hash cache, with the result of
    every reading step. It is interpreted twice: on caches whose entries are all true (\<open>stage_true\<close>), which a
    history of passes keeps, and on caches that are only right where an entry carries the identity a file shows now
    (\<open>stage_honest\<close>), which the facts and the coverage answers are stated for.
  \<^item> \<open>Collect\<close>, \<open>Collect_Spec\<close>, \<open>Collect_Pass\<close>, \<open>Collect_Progress\<close>, \<open>Collect_Props\<close> (collect.rs, store.rs): one
    record of a pass over sources that are files, from the proof of the stored debt over the position to
    start from, the consistent read and the sealing to the debt that is stored. \<open>Collect_Spec\<close> has what the
    reads return over a source that only grows, \<open>Collect_Pass\<close> the invariant \<open>tracks\<close> between source, stage,
    cache and stored debt which a pass keeps under all faults, \<open>Collect_Progress\<close> that a pass without
    faults succeeds, \<open>Collect_Props\<close> the inductive histories of passes.
  \<^item> \<open>Packcheck\<close>, \<open>Packcheck_Spec\<close> (packcheck.rs, debris.rs): the header of a stored pack, its entries, the
    verification of every blob in chunks, and the classification of debris; that verification succeeds
    exactly on a pack as a description without the reader's own functions gives it (\<open>is_pack\<close>), and that all
    probes agree on what is torn.
  \<^item> \<open>Mirror\<close>, \<open>Mirror_Copy\<close>, \<open>Mirror_Sync\<close>, \<open>Mirror_Round\<close>, \<open>Mirror_Record\<close>, \<open>Mirror_Props\<close> (mirror.rs): one
    round of the local mirror. \<open>Mirror\<close> is the copy as a machine: two workers, each with a program counter (\<open>pc\<close>),
    share the counters, the stop and the survey of the index files; \<open>pc_step\<close> is one atomic action, a schedule
    a list of worker numbers, so that all interleavings are covered, and a schedule that ends before the workers
    are joined is a process that was killed (\<open>Killed\<close>). \<open>Mirror_Copy\<close> has the locale \<open>workers\<close> (an invariant that
    every action keeps, and a measure that falls) and its interpretation on the copy: what the paths of the
    mirror hold at every moment, which files are settled when a phase is drained, and that a phase ends.
    \<open>Mirror_Sync\<close> is the round around the copy (\<open>sync_once\<close>) with its two records, \<open>Mirror_Round\<close> what its steps leave
    alone (\<open>file_relation\<close> again), \<open>Mirror_Record\<close> what a stored record of a completed round
    vouches for, \<open>Mirror_Props\<close> the properties.
  How they interact: \<open>verify\<close>, \<open>reclaim\<close> and the summaries all read the shard directory that the
  writer keeps (\<open>sealed_shard_entries\<close>, \<open>session_body\<close>); \<open>reclaim\<close> uses the survey of \<open>verify\<close>, the
  summaries, the health of the destinations, the classification of remote errors and the assembly
  of record bodies; the summary stored before a deletion is what \<open>verify\<close> falls back on afterwards. The
  collector appends through the shard writer, reads the same directory back to find where to go on,
  and asks the summaries about bodies that were reclaimed. The mirror uses the probe of packs to tell
  debris from damage, and the record of its completed rounds is what the mirror leg of \<open>reclaim\<close> relies on.

  Parameters, for code that is not in the repository or is a service: SHA-256, JSON encoding and
  decoding of the records, the clock, the master key and the answers of a repository, the presence
  of a mirror copy, what a destination lists and serves to the mirror at each tick, the deadline and the
  free space of a mirror round, the decoding of index files, RFC 3339 parsing, what a source file holds at each tick, inodes and times of
  files, zstd, and what other processes do to the stage during a deletion.
  They are arguments of the definitions (fields of the environment records \<open>env\<close>, \<open>menv\<close>, \<open>renv\<close>,
  \<open>cenv\<close>, \<open>colenv\<close>, \<open>packenv\<close>, \<open>mirenv\<close>, \<open>syncenv\<close>); hypotheses about them are stated where they are used.

  Bounds. Loops are structural recursions over directory listings, shard lists and lines, so no
  fuel is needed; the two index loops of the replay detection and the lossy decoder have
  termination proofs by a measure; the consistent read tries three times, as the code does; the inner
  loops of the matcher are partial functions, and that they return is a theorem. The copy of the mirror is
  run by schedules: a turn lets every worker act once or more, and 15 * (n + 2) turns join a phase of a
  listing of n files, which is a theorem too. \<open>u64\<close> values are naturals with the bound or the wrap-around
  written out where the code depends on it (the shard counter, its successor, saturating sums).

  Not modelled. The scanners of foreign formats, the full-text index and the activity index are SQL
  and format-specific parsing; the command line, the pages of the user interface and the
  diagnostics print text; scheduler files are templates; the repository engine is vendored; of the
  collector, sessions in databases, machine logs, sources that vanish during a pass, provenance and
  the report are left out; of the mirror, the settings, the capacity of the volume and the sentences of
  the status surfaces; the browser bridge, export and import are bulk copying and message
  framing around services that are not in the repository. Symbolic links,
  permissions and the Windows retry of a rename are not part of the files model.
\<close>

end
